(* ===== verification/Prelude.thy ===== *)
theory Prelude
  imports Main "HOL-Library.Char_ord" "HOL-Library.List_Lexorder" "HOL-Library.Word"
begin

text \<open>
  Shared vocabulary of the development: Go strings as byte strings in their
  lexicographic order, the standard library routines on strings the program
  uses, insertion-ordered and key-sorted association lists (the two shapes in
  which the program keeps its maps), and the "append if its key is new" loop
  that every merge of the program is built from.  The interface of the maps is
  the locale \<open>finite_map\<close>; both shapes interpret it.
\<close>

named_theorems assoc_simps \<open>lookups and key sets of association lists after an update\<close>
named_theorems dedup_simps \<open>facts on the append-if-new loops\<close>

type_synonym u32 = "32 word"
type_synonym u64 = "64 word"

section \<open>Strings\<close>

definition has_prefix :: "string \<Rightarrow> string \<Rightarrow> bool" where
  "has_prefix s p \<longleftrightarrow> take (length p) s = p"

definition has_suffix :: "string \<Rightarrow> string \<Rightarrow> bool" where
  "has_suffix s p \<longleftrightarrow> length p \<le> length s \<and> drop (length s - length p) s = p"

definition trim_prefix :: "string \<Rightarrow> string \<Rightarrow> string" where
  "trim_prefix s p = (if has_prefix s p then drop (length p) s else s)"

definition trim_suffix :: "string \<Rightarrow> string \<Rightarrow> string" where
  "trim_suffix s p = (if has_suffix s p then take (length s - length p) s else s)"

text \<open>\<open>strings.Join\<close>.\<close>

fun join :: "string \<Rightarrow> string list \<Rightarrow> string" where
  "join sep [] = []"
| "join sep [x] = x"
| "join sep (x # y # xs) = x @ sep @ join sep (y # xs)"

text \<open>\<open>strings.Split\<close> with a one-byte separator.\<close>

fun split_on :: "char \<Rightarrow> string \<Rightarrow> string list" where
  "split_on c [] = [[]]"
| "split_on c (x # xs) =
     (if x = c then [] # split_on c xs
      else (case split_on c xs of [] \<Rightarrow> [[x]] | s # ss \<Rightarrow> (x # s) # ss))"

text \<open>The part of \<open>s\<close> before the first \<open>c\<close>: \<open>s[:strings.IndexByte(s, c)]\<close>.\<close>

definition cut_before :: "char \<Rightarrow> string \<Rightarrow> string" where
  "cut_before c s = takeWhile (\<lambda>x. x \<noteq> c) s"

text \<open>
  \<open>strings.TrimSpace\<close>: the UTF-8 encodings of the runes \<open>unicode.IsSpace\<close>
  accepts, dropped from both ends.
\<close>

definition space_runes :: "string list" where
  "space_runes =
     [[CHR 0x09], [CHR 0x0A], [CHR 0x0B], [CHR 0x0C], [CHR 0x0D], [CHR 0x20],
      [CHR 0xC2, CHR 0x85], [CHR 0xC2, CHR 0xA0], [CHR 0xE1, CHR 0x9A, CHR 0x80]]
     @ map (\<lambda>n. [CHR 0xE2, CHR 0x80, char_of (0x80 + n)]) [0..<11]
     @ [[CHR 0xE2, CHR 0x80, CHR 0xA8], [CHR 0xE2, CHR 0x80, CHR 0xA9],
        [CHR 0xE2, CHR 0x80, CHR 0xAF], [CHR 0xE2, CHR 0x81, CHR 0x9F],
        [CHR 0xE3, CHR 0x80, CHR 0x80]]"

function trim_with :: "string list \<Rightarrow> string \<Rightarrow> string" where
  "trim_with sps s =
     (case find (\<lambda>sp. sp \<noteq> [] \<and> has_prefix s sp) sps of
        None \<Rightarrow> s
      | Some sp \<Rightarrow> trim_with sps (drop (length sp) s))"
  by pat_completeness auto
termination
proof (relation "measure (\<lambda>(sps, s). length s)", simp)
  fix sps s sp
  assume "find (\<lambda>sp. sp \<noteq> [] \<and> has_prefix s sp) sps = Some sp"
  then have "sp \<noteq> []" "has_prefix s sp"
    by (auto simp: find_Some_iff)
  then have "0 < length s" "0 < length sp"
    by (auto simp: has_prefix_def)
  then show "((sps, drop (length sp) s), sps, s) \<in> measure (\<lambda>(sps, s). length s)"
    by simp
qed

declare trim_with.simps [simp del]

definition trim_space :: "string \<Rightarrow> string" where
  "trim_space s = rev (trim_with (map rev space_runes) (rev (trim_with space_runes s)))"

text \<open>\<open>strings.ToUpper\<close> and \<open>strings.ToLower\<close> on ASCII letters.\<close>

definition upper_char :: "char \<Rightarrow> char" where
  "upper_char c = (if CHR ''a'' \<le> c \<and> c \<le> CHR ''z'' then char_of (of_char c - (32::nat)) else c)"

definition lower_char :: "char \<Rightarrow> char" where
  "lower_char c = (if CHR ''A'' \<le> c \<and> c \<le> CHR ''Z'' then char_of (of_char c + (32::nat)) else c)"

definition to_upper :: "string \<Rightarrow> string" where
  "to_upper s = map upper_char s"

definition to_lower :: "string \<Rightarrow> string" where
  "to_lower s = map lower_char s"


text \<open>\<open>strconv.FormatUint(n, 10)\<close> and \<open>strconv.ParseUint(s, 10, 32)\<close> (\<open>None\<close> on error).\<close>

definition digit_char :: "nat \<Rightarrow> char" where
  "digit_char d = char_of (48 + d)"

fun format_uint :: "nat \<Rightarrow> string" where
  "format_uint n = (if n < 10 then [digit_char n] else format_uint (n div 10) @ [digit_char (n mod 10)])"

declare format_uint.simps [simp del]

definition is_digit :: "char \<Rightarrow> bool" where
  "is_digit c \<longleftrightarrow> CHR ''0'' \<le> c \<and> c \<le> CHR ''9''"

definition digit_val :: "char \<Rightarrow> nat" where
  "digit_val c = of_char c - 48"

definition digits_val :: "string \<Rightarrow> nat" where
  "digits_val s = foldl (\<lambda>a c. 10 * a + digit_val c) 0 s"

definition parse_uint32 :: "string \<Rightarrow> u32 option" where
  "parse_uint32 s =
     (if s = [] \<or> \<not> list_all is_digit s \<or> 2 ^ 32 \<le> digits_val s then None
      else Some (of_nat (digits_val s)))"

text \<open>\<open>strconv.Itoa\<close> on a signed number.\<close>

definition format_int :: "int \<Rightarrow> string" where
  "format_int i = (if i < 0 then CHR ''-'' # format_uint (nat (- i)) else format_uint (nat i))"

lemma of_char_digit_char: "d < 10 \<Longrightarrow> of_char (digit_char d) = 48 + d"
  by (simp add: digit_char_def)

lemma is_digit_iff: "is_digit c \<longleftrightarrow> 48 \<le> (of_char c :: nat) \<and> of_char c \<le> (57 :: nat)"
  by (simp add: is_digit_def less_eq_char_def)

lemma digit_val_digit_char [simp]: "d < 10 \<Longrightarrow> digit_val (digit_char d) = d"
  by (simp add: digit_val_def of_char_digit_char)

lemma is_digit_digit_char [simp]: "d < 10 \<Longrightarrow> is_digit (digit_char d)"
  by (simp add: is_digit_iff of_char_digit_char)

lemma format_uint_not_Nil [simp]: "format_uint n \<noteq> []"
  by (subst format_uint.simps) simp

lemma format_uint_digits: "list_all is_digit (format_uint n)"
proof (induction n rule: format_uint.induct)
  case (1 n)
  then show ?case
    by (cases "n < 10") (simp_all add: format_uint.simps [of n])
qed

lemma digits_val_snoc: "digits_val (s @ [c]) = 10 * digits_val s + digit_val c"
  by (simp add: digits_val_def)

lemma digits_val_format_uint [simp]: "digits_val (format_uint n) = n"
proof (induction n rule: format_uint.induct)
  case (1 n)
  then show ?case
    by (cases "n < 10")
      (simp_all add: format_uint.simps [of n] digits_val_snoc, simp add: digits_val_def)
qed

lemma format_uint_inject [simp]: "format_uint m = format_uint n \<longleftrightarrow> m = n"
  by (metis digits_val_format_uint)

lemma format_uint_no_char:
  assumes "\<not> is_digit c"
  shows "c \<notin> set (format_uint n)"
  using format_uint_digits [of n] assms by (auto simp: list_all_iff)

lemma parse_format_uint32: "parse_uint32 (format_uint (unat w)) = Some w"
proof -
  have "unat w < 2 ^ 32"
    using unsigned_less [of w, where ?'a = nat] by simp
  then show ?thesis
    by (simp add: parse_uint32_def format_uint_digits)
qed

lemma takeWhile_sep: "c \<notin> set a \<Longrightarrow> takeWhile (\<lambda>x. x \<noteq> c) (a @ c # b) = a"
  by (induction a) auto

text \<open>Two strings joined by a byte that the first parts do not contain split uniquely.\<close>

lemma append_sep_inject:
  assumes "c \<notin> set a" and "c \<notin> set a'"
  shows "a @ c # b = a' @ c # b' \<longleftrightarrow> a = a' \<and> b = b'"
proof
  assume eq: "a @ c # b = a' @ c # b'"
  have "a = a'"
    using takeWhile_sep [OF assms(1), of b] takeWhile_sep [OF assms(2), of b'] eq by simp
  with eq show "a = a' \<and> b = b'" by simp
qed simp

text \<open>Splitting and joining at a byte are inverse to each other.\<close>

lemma split_on_not_Nil [simp]: "split_on c s \<noteq> []"
  by (induction s) (auto split: list.splits)

lemma split_on_no_sep: "c \<notin> set x \<Longrightarrow> split_on c x = [x]"
  by (induction x) auto

lemma split_on_append_sep: "c \<notin> set x \<Longrightarrow> split_on c (x @ c # r) = x # split_on c r"
  by (induction x) auto

lemma split_on_join:
  "xs \<noteq> [] \<Longrightarrow> \<forall>x \<in> set xs. c \<notin> set x \<Longrightarrow> split_on c (join [c] xs) = xs"
  by (induction "[c]" xs rule: join.induct) (auto simp: split_on_no_sep split_on_append_sep)

lemma join_Cons: "xs \<noteq> [] \<Longrightarrow> join sep (x # xs) = x @ sep @ join sep xs"
  by (cases xs) auto

lemma join_split_on: "join [c] (split_on c s) = s"
proof (induction s)
  case Nil
  then show ?case by simp
next
  case (Cons x s)
  then show ?case
    by (cases "split_on c s"; cases "tl (split_on c s)") (auto simp: join_Cons)
qed

lemma split_on_parts: "x \<in> set (split_on c s) \<Longrightarrow> c \<notin> set x"
  by (induction s arbitrary: x) (auto split: list.splits if_splits)

lemma set_split_on_parts: "x \<in> set (split_on c s) \<Longrightarrow> set x \<subseteq> set s"
proof (induction s arbitrary: x)
  case Nil
  then show ?case by simp
next
  case (Cons y s)
  then show ?case
    by (cases "split_on c s") (fastforce split: if_splits)+
qed

lemma join_inject_length:
  assumes "length xs = length ys" and "\<forall>x \<in> set xs \<union> set ys. c \<notin> set x"
    and "join [c] xs = join [c] ys"
  shows "xs = ys"
proof (cases "xs = []")
  case True
  with assms(1) show ?thesis by simp
next
  case False
  with assms(1) have "ys \<noteq> []" by auto
  have "split_on c (join [c] xs) = split_on c (join [c] ys)" by (simp add: assms(3))
  with False \<open>ys \<noteq> []\<close> assms(2) show ?thesis by (simp add: split_on_join)
qed

lemma join_eq_Nil: "\<forall>x \<in> set xs. x \<noteq> [] \<Longrightarrow> join sep xs = [] \<longleftrightarrow> xs = []"
  by (induction sep xs rule: join.induct) auto

lemma join_inject_nonempty:
  assumes "\<forall>x \<in> set xs \<union> set ys. c \<notin> set x \<and> x \<noteq> []" and "join [c] xs = join [c] ys"
  shows "xs = ys"
proof (cases "xs = [] \<or> ys = []")
  case True
  with assms show ?thesis
    using join_eq_Nil [of xs "[c]"] join_eq_Nil [of ys "[c]"] by auto
next
  case False
  have "split_on c (join [c] xs) = split_on c (join [c] ys)" by (simp add: assms(2))
  with False assms(1) show ?thesis by (simp add: split_on_join)
qed

lemma set_join: "set (join sep xs) \<subseteq> \<Union> (set ` set xs) \<union> set sep"
  by (induction sep xs rule: join.induct) auto

section \<open>Insertion-ordered association lists\<close>

text \<open>
  The program often keeps a map together with a slice of its keys in first-insertion
  order (\<open>peers\<close> with \<open>peerOrder\<close>, \<open>buckets\<close> with \<open>order\<close>, \<open>clusters\<close> with
  \<open>clusterOrder\<close>).  Both are one association list whose keys stay in that order.
\<close>

fun upsert :: "'k \<Rightarrow> 'v \<Rightarrow> ('v \<Rightarrow> 'v) \<Rightarrow> ('k \<times> 'v) list \<Rightarrow> ('k \<times> 'v) list" where
  "upsert k d f [] = [(k, f d)]"
| "upsert k d f ((k', v) # m) = (if k = k' then (k', f v) # m else (k', v) # upsert k d f m)"

definition get_or :: "'v \<Rightarrow> ('k \<times> 'v) list \<Rightarrow> 'k \<Rightarrow> 'v" where
  "get_or d m k = (case map_of m k of None \<Rightarrow> d | Some v \<Rightarrow> v)"

abbreviation aput :: "'k \<Rightarrow> 'v \<Rightarrow> ('k \<times> 'v) list \<Rightarrow> ('k \<times> 'v) list" where
  "aput k v m \<equiv> upsert k v (\<lambda>_. v) m"

lemma map_of_upsert [assoc_simps]:
  "map_of (upsert k d f m) = (map_of m)(k \<mapsto> f (get_or d m k))"
  by (induction m) (auto simp: get_or_def fun_eq_iff)

lemma keys_upsert [assoc_simps]:
  "map fst (upsert k d f m) = (if k \<in> fst ` set m then map fst m else map fst m @ [k])"
  by (induction k d f m rule: upsert.induct) (simp_all split: if_splits)

lemma fst_set_upsert [assoc_simps]: "fst ` set (upsert k d f m) = insert k (fst ` set m)"
  by (induction k d f m rule: upsert.induct) (simp_all add: insert_commute)

lemma distinct_upsert [assoc_simps]:
  "distinct (map fst (upsert k d f m)) \<longleftrightarrow> distinct (map fst m)"
  by (auto simp: keys_upsert)

lemma get_or_upsert [assoc_simps]:
  "get_or d' (upsert k d f m) k' = (if k' = k then f (get_or d m k) else get_or d' m k')"
  by (simp add: get_or_def map_of_upsert)

lemma set_upsert:
  assumes "distinct (map fst m)"
  shows "set (upsert k d f m) = {(k', v) \<in> set m. k' \<noteq> k} \<union> {(k, f (get_or d m k))}"
  using assms
proof (induction m)
  case Nil
  then show ?case by (simp add: get_or_def)
next
  case (Cons a m)
  then show ?case
    by (cases a) (force simp: get_or_def rev_image_eqI)
qed

lemma upsert_values:
  "(\<And>v. v \<in> snd ` set m \<Longrightarrow> P v) \<Longrightarrow> P d \<Longrightarrow> (\<And>v. P v \<Longrightarrow> P (f v)) \<Longrightarrow>
     w \<in> snd ` set (upsert k d f m) \<Longrightarrow> P w"
proof (induction m)
  case Nil
  then show ?case by simp
next
  case (Cons a m)
  then show ?case
    by (cases a) (auto split: if_splits)
qed

subsection \<open>Grouping\<close>

text \<open>The loop \<open>m[f(x)] = append(m[f(x)], x)\<close>.\<close>

definition group_by :: "('a \<Rightarrow> 'k) \<Rightarrow> 'a list \<Rightarrow> ('k \<times> 'a list) list" where
  "group_by f xs = fold (\<lambda>x m. upsert (f x) [] (\<lambda>g. g @ [x]) m) xs []"

lemma group_by_snoc: "group_by f (xs @ [x]) = upsert (f x) [] (\<lambda>g. g @ [x]) (group_by f xs)"
  by (simp add: group_by_def)

lemma group_by_Nil [simp]: "group_by f [] = []"
  by (simp add: group_by_def)

lemma distinct_group_by: "distinct (map fst (group_by f xs))"
  by (induction xs rule: rev_induct) (simp_all add: group_by_snoc distinct_upsert)

lemma keys_group_by: "fst ` set (group_by f xs) = f ` set xs"
  by (induction xs rule: rev_induct) (simp_all add: group_by_snoc fst_set_upsert)

lemma get_group_by: "get_or [] (group_by f xs) k = filter (\<lambda>x. f x = k) xs"
proof (induction xs rule: rev_induct)
  case Nil
  then show ?case by (simp add: get_or_def)
next
  case (snoc x xs)
  then show ?case by (auto simp: group_by_snoc get_or_upsert)
qed

lemma group_by_mem:
  "(k, g) \<in> set (group_by f xs) \<longleftrightarrow> g = filter (\<lambda>x. f x = k) xs \<and> k \<in> f ` set xs"
proof -
  have "(k, g) \<in> set (group_by f xs) \<longleftrightarrow> map_of (group_by f xs) k = Some g"
    by (simp add: distinct_group_by)
  also have "\<dots> \<longleftrightarrow> g = get_or [] (group_by f xs) k \<and> k \<in> fst ` set (group_by f xs)"
    using weak_map_of_SomeI [of k _ "group_by f xs"] map_of_SomeD [of "group_by f xs" k]
    by (force simp: get_or_def map_of_eq_None_iff split: option.splits)
  finally show ?thesis
    by (simp add: get_group_by keys_group_by)
qed

lemma group_by_nonempty: "(k, g) \<in> set (group_by f xs) \<Longrightarrow> g \<noteq> []"
  by (auto simp: group_by_mem filter_empty_conv)

section \<open>Key-sorted association lists\<close>

text \<open>
  A Go map whose entries the program reads in sorted key order (or compares as a
  whole) is an association list sorted by key: equal maps are equal lists.
\<close>

fun sput :: "'k::linorder \<Rightarrow> 'v \<Rightarrow> ('k \<times> 'v) list \<Rightarrow> ('k \<times> 'v) list" where
  "sput k v [] = [(k, v)]"
| "sput k v ((k', v') # m) =
     (if k < k' then (k, v) # (k', v') # m
      else if k = k' then (k, v) # m
      else (k', v') # sput k v m)"

abbreviation sorted_keys :: "('k::linorder \<times> 'v) list \<Rightarrow> bool" where
  "sorted_keys m \<equiv> sorted_wrt (<) (map fst m)"

lemma map_of_sput [assoc_simps]: "map_of (sput k v m) = (map_of m)(k \<mapsto> v)"
  by (induction m) auto

lemma fst_set_sput [assoc_simps]: "fst ` set (sput k v m) = insert k (fst ` set m)"
  by (induction k v m rule: sput.induct) (simp_all add: insert_commute)

lemma sorted_sput: "sorted_keys m \<Longrightarrow> sorted_keys (sput k v m)"
proof (induction m)
  case Nil
  then show ?case by simp
next
  case (Cons a m)
  obtain k' v' where a: "a = (k', v')" by (cases a)
  have "\<forall>x \<in> fst ` set (sput k v m). k' < x" if "\<not> k < k'" "k \<noteq> k'"
    using Cons.prems that by (auto simp: a fst_set_sput)
  with Cons show ?case
    by (auto simp: a)
qed

section \<open>The finite-map interface\<close>

text \<open>
  What the program relies on where it fills a map in a loop: a lookup after an
  insertion, and the invariant of the representation.
\<close>

locale finite_map =
  fixes empty :: "'m"
    and get :: "'m \<Rightarrow> 'k \<Rightarrow> 'v option"
    and put :: "'k \<Rightarrow> 'v \<Rightarrow> 'm \<Rightarrow> 'm"
    and keys :: "'m \<Rightarrow> 'k set"
    and inv :: "'m \<Rightarrow> bool"
  assumes get_empty: "get empty = (\<lambda>_. None)"
    and get_put: "inv m \<Longrightarrow> get (put k v m) = (get m)(k \<mapsto> v)"
    and keys_get: "inv m \<Longrightarrow> keys m = dom (get m)"
    and inv_empty: "inv empty"
    and inv_put: "inv m \<Longrightarrow> inv (put k v m)"
begin

lemma inv_put_all: "inv m \<Longrightarrow> inv (fold (\<lambda>(k, v). put k v) kvs m)"
  by (induction kvs arbitrary: m) (auto simp: inv_put)

lemma get_put_all: "inv m \<Longrightarrow> get (fold (\<lambda>(k, v). put k v) kvs m) = get m ++ map_of (rev kvs)"
  by (induction kvs arbitrary: m) (auto simp: get_put inv_put)

lemma keys_put_all: "inv m \<Longrightarrow> keys (fold (\<lambda>(k, v). put k v) kvs m) = keys m \<union> fst ` set kvs"
  by (simp add: keys_get inv_put_all get_put_all dom_map_of_conv_image_fst Un_commute)

lemma get_put_all_single_key:
  assumes "inv m" and "(k, v) \<in> set kvs" and "\<And>v'. (k, v') \<in> set kvs \<Longrightarrow> v' = v"
  shows "get (fold (\<lambda>(k, v). put k v) kvs m) k = Some v"
proof -
  obtain w where w: "map_of (rev kvs) k = Some w"
    using assms(2) weak_map_of_SomeI [of k v "rev kvs"] by auto
  then have "(k, w) \<in> set kvs" using map_of_SomeD by fastforce
  with assms(3) w show ?thesis by (simp add: get_put_all assms(1))
qed

end

interpretation ordered_map: finite_map "[]" map_of aput "\<lambda>m. fst ` set m" "\<lambda>m. distinct (map fst m)"
  by unfold_locales (auto simp: assoc_simps get_or_def dom_map_of_conv_image_fst)

interpretation sorted_map: finite_map "[]" map_of sput "\<lambda>m. fst ` set m" sorted_keys
  by unfold_locales (auto simp: assoc_simps sorted_sput dom_map_of_conv_image_fst)

lemma sorted_keys_distinct: "sorted_keys m \<Longrightarrow> distinct (map fst m)"
  by (simp add: strict_sorted_iff)

text \<open>Equal maps are equal lists.\<close>

lemma sorted_map_eqI:
  assumes "sorted_keys m" "sorted_keys m'" "map_of m = map_of m'"
  shows "m = m'"
proof (rule map_sorted_distinct_set_unique)
  have d: "distinct (map fst m)" "distinct (map fst m')"
    using assms by (auto intro: sorted_keys_distinct)
  show "sorted (map fst m)" "sorted (map fst m')"
    using assms by (auto simp: strict_sorted_iff)
  show "distinct (map fst m)" "distinct (map fst m')" by (fact d)+
  show set: "set m = set m'"
    using d assms(3) by (metis map_of_eq_Some_iff subsetI subset_antisym surj_pair)
  show "inj_on fst (set m \<union> set m')"
    using d(1) by (simp add: set distinct_map)
qed

section \<open>Append if the key is new\<close>

text \<open>
  The loop \<open>if _, dup := seen[key(x)]; dup { continue }; seen[key(x)] = ...; out = append(out, x)\<close>,
  with \<open>seen\<close> holding the keys of \<open>out\<close>.
\<close>

definition add_new :: "('a \<Rightarrow> 'k) \<Rightarrow> 'a \<Rightarrow> 'a list \<Rightarrow> 'a list" where
  "add_new key x xs = (if key x \<in> key ` set xs then xs else xs @ [x])"

definition merge_new :: "('a \<Rightarrow> 'k) \<Rightarrow> 'a list \<Rightarrow> 'a list \<Rightarrow> 'a list" where
  "merge_new key xs ys = fold (add_new key) ys xs"

lemma merge_new_Nil [dedup_simps, simp]: "merge_new key xs [] = xs"
  by (simp add: merge_new_def)

lemma merge_new_Cons: "merge_new key xs (y # ys) = merge_new key (add_new key y xs) ys"
  by (simp add: merge_new_def)

lemma merge_new_append: "merge_new key xs (ys @ zs) = merge_new key (merge_new key xs ys) zs"
  by (simp add: merge_new_def)

lemma keys_add_new [dedup_simps]: "key ` set (add_new key x xs) = insert (key x) (key ` set xs)"
  by (auto simp: add_new_def)

lemma keys_merge_new [dedup_simps]: "key ` set (merge_new key xs ys) = key ` set xs \<union> key ` set ys"
  by (induction ys arbitrary: xs) (auto simp: merge_new_Cons keys_add_new)

lemma merge_new_prefix: "\<exists>zs. merge_new key xs ys = xs @ zs \<and> set zs \<subseteq> set ys"
proof (induction ys arbitrary: xs)
  case Nil
  then show ?case by simp
next
  case (Cons y ys)
  from Cons.IH [of "add_new key y xs"] obtain zs
    where "merge_new key (add_new key y xs) ys = add_new key y xs @ zs" "set zs \<subseteq> set ys"
    by auto
  then show ?case
    by (auto simp: merge_new_Cons add_new_def)
qed

lemma set_merge_new_subset: "set (merge_new key xs ys) \<subseteq> set xs \<union> set ys"
  using merge_new_prefix [of key xs ys] by auto

lemma set_merge_new_superset: "set xs \<subseteq> set (merge_new key xs ys)"
  using merge_new_prefix [of key xs ys] by auto

lemma distinct_add_new: "distinct (map key xs) \<Longrightarrow> distinct (map key (add_new key x xs))"
  by (auto simp: add_new_def)

lemma distinct_merge_new [dedup_simps]:
  "distinct (map key xs) \<Longrightarrow> distinct (map key (merge_new key xs ys))"
  by (induction ys arbitrary: xs) (auto simp: merge_new_Cons distinct_add_new)

lemma merge_new_absorb: "key ` set ys \<subseteq> key ` set xs \<Longrightarrow> merge_new key xs ys = xs"
  by (induction ys) (auto simp: merge_new_Cons add_new_def)

lemma merge_new_idem [dedup_simps]: "merge_new key (merge_new key xs ys) ys = merge_new key xs ys"
  by (rule merge_new_absorb) (auto simp: keys_merge_new)

text \<open>With an injective key the loop computes the union of the two lists as sets.\<close>

lemma set_merge_new_inj:
  assumes "inj_on key (set xs \<union> set ys)"
  shows "set (merge_new key xs ys) = set xs \<union> set ys"
proof -
  have "set (merge_new key xs ys) \<subseteq> set xs \<union> set ys" by (rule set_merge_new_subset)
  moreover have "key ` set (merge_new key xs ys) = key ` (set xs \<union> set ys)"
    by (simp add: keys_merge_new image_Un)
  ultimately show ?thesis using assms by (metis inj_on_image_eq_iff order_refl)
qed

lemma merge_new_distinct_id:
  "distinct (map key (xs @ ys)) \<Longrightarrow> merge_new key xs ys = xs @ ys"
  by (induction ys arbitrary: xs) (auto simp: merge_new_Cons add_new_def)

end
