(* ===== verification/Flow.thy ===== *)
theory Flow
  imports Prelude
begin

text \<open>
  The data the program reads and writes but does not define: Hubble flows
  (\<open>flowpb.Flow\<close> and its parts), Cilium labels, and the code of other packages that
  the modelled functions call.  A protobuf enum value is its declared name, or a
  number outside the declared names; a pointer that may be nil is an \<open>option\<close>.
  Only the fields the program mentions are kept.
\<close>

section \<open>Flows\<close>

datatype verdict = Verdict_DROPPED | Verdict_AUDIT | Verdict_Other string

datatype traffic_direction = INGRESS | EGRESS | Direction_Other string

datatype drop_reason = DropReason string | DropReason_Unrecognized int

abbreviation DROP_REASON_UNKNOWN :: drop_reason where
  "DROP_REASON_UNKNOWN \<equiv> DropReason ''DROP_REASON_UNKNOWN''"

text \<open>\<open>flowpb.DropReason_name[int32(r)]\<close>; \<open>None\<close> is the missing key.\<close>

fun drop_reason_name :: "drop_reason \<Rightarrow> string option" where
  "drop_reason_name (DropReason n) = Some n"
| "drop_reason_name (DropReason_Unrecognized _) = None"

record endpoint =
  ep_identity :: u32
  ep_namespace :: string
  ep_labels :: "string list"
  ep_pod_name :: string

text \<open>
  The \<open>Layer4\<close> oneof.  TCP, UDP and SCTP carry the destination port, ICMP carries
  its type; \<open>L4_Other\<close> is an unset oneof or a protocol the program does not ask for.
\<close>

datatype layer4 = L4_TCP u32 | L4_UDP u32 | L4_ICMPv4 u32 | L4_ICMPv6 u32 | L4_SCTP u32 | L4_Other

datatype layer7 = L7_HTTP (l7_method: string) (l7_url: string) | L7_DNS (l7_query: string) | L7_Other

record ip_pair =
  ip_source :: string
  ip_destination :: string

text \<open>
  Instants are nanoseconds since the zero \<open>time.Time\<close>, so \<open>IsZero\<close> is \<open>= 0\<close>,
  \<open>Before\<close> and \<open>After\<close> are \<open><\<close> and \<open>>\<close>.  A protobuf timestamp is the result of
  \<open>AsTime\<close> with the verdict of \<open>IsValid\<close>.
\<close>

type_synonym time = int

record timestamp =
  ts_as_time :: time
  ts_is_valid :: bool

record flow =
  fl_time :: "timestamp option"
  fl_verdict :: verdict
  fl_drop_reason :: drop_reason
  fl_direction :: traffic_direction
  fl_source :: "endpoint option"
  fl_destination :: "endpoint option"
  fl_ip :: "ip_pair option"
  fl_l4 :: "layer4 option"
  fl_l7 :: "layer7 option"
  fl_node_name :: string

section \<open>Code of other packages\<close>

record label =
  lbl_key :: string
  lbl_value :: string
  lbl_source :: string

text \<open>
  \<open>ext_parse_label\<close> is Cilium's \<open>labels.ParseLabel\<close>, \<open>ext_cilium_key\<close> its
  \<open>labels.GetCiliumKeyFrom\<close>; \<open>ext_url_path\<close> gives \<open>Path\<close> and \<open>EscapedPath()\<close> of
  \<open>url.Parse\<close>'s result, \<open>None\<close> on its error.
\<close>

record externals =
  ext_parse_label :: "string \<Rightarrow> label"
  ext_cilium_key :: "string \<Rightarrow> string"
  ext_url_path :: "string \<Rightarrow> (string \<times> string) option"

text \<open>
  Concrete packages for the witnesses: \<open>source:key=value\<close> labels, keys prefixed with
  \<open>any:\<close>, and a URL whose path starts at its first slash.
\<close>

definition demo_parse_label :: "string \<Rightarrow> label" where
  "demo_parse_label s =
     (let src = cut_before CHR '':'' s; rest = drop (Suc (length src)) s; k = cut_before CHR ''='' rest
      in \<lparr>lbl_key = k, lbl_value = drop (Suc (length k)) rest, lbl_source = src\<rparr>)"

definition demo_url_path :: "string \<Rightarrow> (string \<times> string) option" where
  "demo_url_path s = (let p = dropWhile (\<lambda>c. c \<noteq> CHR ''/'') (cut_before CHR ''?'' s) in Some (p, p))"

definition demo_externals :: externals where
  "demo_externals =
     \<lparr>ext_parse_label = demo_parse_label, ext_cilium_key = (\<lambda>k. ''any:'' @ k),
      ext_url_path = demo_url_path\<rparr>"

section \<open>Nil-safe getters\<close>

definition is_http :: "flow \<Rightarrow> bool" where
  "is_http f \<longleftrightarrow> (case fl_l7 f of Some (L7_HTTP _ _) \<Rightarrow> True | _ \<Rightarrow> False)"

definition is_dns :: "flow \<Rightarrow> bool" where
  "is_dns f \<longleftrightarrow> (case fl_l7 f of Some (L7_DNS _) \<Rightarrow> True | _ \<Rightarrow> False)"

definition FlowTime :: "flow \<Rightarrow> time" where
  "FlowTime f = (case fl_time f of None \<Rightarrow> 0 | Some ts \<Rightarrow> ts_as_time ts)"

definition flowSourceIP :: "flow \<Rightarrow> string" where
  "flowSourceIP f = (case fl_ip f of None \<Rightarrow> [] | Some ip \<Rightarrow> ip_source ip)"

definition flowDestinationIP :: "flow \<Rightarrow> string" where
  "flowDestinationIP f = (case fl_ip f of None \<Rightarrow> [] | Some ip \<Rightarrow> ip_destination ip)"

end
