(* ===== verification/Api.thy ===== *)
theory Api
  imports Flow
begin

text \<open>
  The part of Cilium's policy API (\<open>pkg/policy/api\<close>, \<open>cilium.io/v2\<close>) that the program
  builds, merges and compares, field by field under the API's own names.  The fields
  the program never mentions are left out.  At the end: what a generated rule admits,
  the yardstick the builder and the merger are measured against.
\<close>

abbreviation ProtoTCP :: string where "ProtoTCP \<equiv> ''TCP''"
abbreviation ProtoUDP :: string where "ProtoUDP \<equiv> ''UDP''"
abbreviation ProtoICMP :: string where "ProtoICMP \<equiv> ''ICMP''"
abbreviation ProtoICMPv6 :: string where "ProtoICMPv6 \<equiv> ''ICMPv6''"
abbreviation ProtoAny :: string where "ProtoAny \<equiv> ''ANY''"
abbreviation IPv4Family :: string where "IPv4Family \<equiv> ''IPv4''"
abbreviation IPv6Family :: string where "IPv6Family \<equiv> ''IPv6''"

type_synonym label_map = "(string \<times> string) list"

record label_requirement =
  lr_Key :: string
  lr_Operator :: string
  lr_Values :: "string list"

abbreviation OpIn :: string where "OpIn \<equiv> ''In''"

record label_selector =
  ls_MatchLabels :: label_map
  ls_MatchExpressions :: "label_requirement list"

text \<open>\<open>EndpointSelector\<close> embeds a pointer to a \<open>LabelSelector\<close>.\<close>

type_synonym endpoint_selector = "label_selector option"

record port_protocol =
  pp_Port :: string
  pp_Protocol :: string

record header_match =
  hm_Mismatch :: string
  hm_Name :: string
  hm_Value :: string

record http_rule =
  hr_Method :: string
  hr_Path :: string
  hr_Host :: string
  hr_Headers :: "string list"
  hr_HeaderMatches :: "header_match option list"

text \<open>\<open>FQDNSelector\<close> and \<open>PortRuleDNS\<close> are one type in the API.\<close>

record fqdn_selector =
  fq_MatchName :: string
  fq_MatchPattern :: string

record l7_rules =
  l7_HTTP :: "http_rule list"
  l7_DNS :: "fqdn_selector list"
  l7_L7Proto :: string

record port_rule =
  pr_Ports :: "port_protocol list"
  pr_Rules :: "l7_rules option"

datatype int_or_string = IntVal int | StrVal string

record icmp_field =
  if_Family :: string
  if_Type :: "int_or_string option"

text \<open>An \<open>ICMPRule\<close> has the one field \<open>Fields\<close>.\<close>

type_synonym icmp_rule = "icmp_field list"

record ingress_rule =
  ir_FromEndpoints :: "endpoint_selector list"
  ir_FromEntities :: "string list"
  ir_FromCIDR :: "string list"
  ir_ToPorts :: "port_rule list"
  ir_ICMPs :: "icmp_rule list"

record egress_rule =
  er_ToEndpoints :: "endpoint_selector list"
  er_ToEntities :: "string list"
  er_ToCIDR :: "string list"
  er_ToFQDNs :: "fqdn_selector list"
  er_ToPorts :: "port_rule list"
  er_ICMPs :: "icmp_rule list"

record rule =
  ru_EndpointSelector :: endpoint_selector
  ru_Ingress :: "ingress_rule list"
  ru_Egress :: "egress_rule list"
  ru_DefaultDenyIngress :: "bool option"
  ru_DefaultDenyEgress :: "bool option"

record cnp =
  cnp_APIVersion :: string
  cnp_Kind :: string
  cnp_Name :: string
  cnp_Namespace :: string
  cnp_Labels :: label_map
  cnp_Spec :: "rule option"

abbreviation empty_ingress :: ingress_rule where
  "empty_ingress \<equiv> \<lparr>ir_FromEndpoints = [], ir_FromEntities = [], ir_FromCIDR = [],
     ir_ToPorts = [], ir_ICMPs = []\<rparr>"

abbreviation empty_egress :: egress_rule where
  "empty_egress \<equiv> \<lparr>er_ToEndpoints = [], er_ToEntities = [], er_ToCIDR = [], er_ToFQDNs = [],
     er_ToPorts = [], er_ICMPs = []\<rparr>"

abbreviation http_entry :: "string \<Rightarrow> string \<Rightarrow> http_rule" where
  "http_entry m p \<equiv> \<lparr>hr_Method = m, hr_Path = p, hr_Host = [], hr_Headers = [], hr_HeaderMatches = []\<rparr>"

abbreviation match_name :: "string \<Rightarrow> fqdn_selector" where
  "match_name n \<equiv> \<lparr>fq_MatchName = n, fq_MatchPattern = []\<rparr>"

text \<open>\<open>IntOrString.String\<close>.\<close>

fun int_or_string_String :: "int_or_string \<Rightarrow> string" where
  "int_or_string_String (IntVal i) = format_int i"
| "int_or_string_String (StrVal s) = s"

text \<open>The key \<open>p.Port + "/" + string(p.Protocol)\<close>.\<close>

definition port_key :: "port_protocol \<Rightarrow> string" where
  "port_key p = pp_Port p @ ''/'' @ pp_Protocol p"

section \<open>What a rule admits\<close>

text \<open>
  At layer 4 a rule without \<open>toPorts\<close> and without \<open>icmps\<close> restricts no port; otherwise
  the port, with its protocol, is listed in one of its \<open>toPorts\<close>, or the ICMP type,
  with its family, in one of its \<open>icmps\<close>.
\<close>

definition ports_listed :: "port_rule list \<Rightarrow> port_protocol set" where
  "ports_listed prs = (\<Union>pr \<in> set prs. set (pr_Ports pr))"

definition icmps_listed :: "icmp_rule list \<Rightarrow> icmp_field set" where
  "icmps_listed is = (\<Union>i \<in> set is. set i)"

lemma ports_listed_simps [simp]:
  "ports_listed [] = {}"
  "ports_listed (p # ps) = set (pr_Ports p) \<union> ports_listed ps"
  "ports_listed (ps @ qs) = ports_listed ps \<union> ports_listed qs"
  by (auto simp: ports_listed_def)

lemma icmps_listed_simps [simp]:
  "icmps_listed [] = {}"
  "icmps_listed (i # is) = set i \<union> icmps_listed is"
  "icmps_listed (is @ js) = icmps_listed is \<union> icmps_listed js"
  by (auto simp: icmps_listed_def)

end
