(* ===== verification/Cluster.thy ===== *)
theory Cluster
  imports Api "HOL-Library.Multiset"
begin

text \<open>
  \<open>pkg/k8s\<close>: what cpg reads from the cluster.  The answers of the Kubernetes API, of the Hubble
  relay and of \<open>cilium-dbg\<close> are inputs; so is \<open>k8s.io/apimachinery\<close>'s parser and order of
  versions.  Modelled are the decisions on them: the Cilium version and its feature floors
  (\<open>version.go\<close>), the DNS selector (\<open>dns.go\<close>), the layer-7 preflight (\<open>preflight.go\<close>), the
  namespace watcher (\<open>ns_watch.go\<close>) and the audit-mode commands (\<open>exec.go\<close>).  The log is the list
  of the warnings.
\<close>

text \<open>What a request to the API server returns.\<close>

datatype 'a api_result = Fetched 'a | Forbidden | NotFound | ApiError

section \<open>Versions\<close>

record 'v version_api =
  va_ParseGeneric :: "string \<Rightarrow> 'v option"
  va_String :: "'v \<Rightarrow> string"
  va_LessThan :: "'v \<Rightarrow> 'v \<Rightarrow> bool"
  va_AtLeast :: "'v \<Rightarrow> 'v \<Rightarrow> bool"

datatype cluster_warning =
    PodsListForbidden | PodsListFailed | GetNodesFailed | BelowFloor string "string list"
  | DNSServicesForbidden | DNSServicesFailed | DNSServiceNotFound
  | L7ProxyDisabled | ConfigMapNotFound | ConfigMapForbidden | EnvoyMissing | EnvoyForbidden
  | NsWatchListForbidden | NsWatchListFailed | NsWatchStartForbidden | NsWatchStartFailed | NsWatchEndedEarly

record CompatInfo =
  ci_ClusterVersion :: string
  ci_VersionsSeen :: "(string \<times> int) list option"
  ci_Source :: string
  ci_BelowFloorFeatures :: "string list"

definition undetermined :: CompatInfo where
  "undetermined = \<lparr>ci_ClusterVersion = [], ci_VersionsSeen = None, ci_Source = ''undetermined'', ci_BelowFloorFeatures = []\<rparr>"

definition featureFloors :: "(string \<times> string) list" where
  "featureFloors =
     [(''baseline cpg operation'', ''1.14.0''),
      (''cilium-dbg binary naming'', ''1.15.0''),
      (''enableDefaultDeny CNP field'', ''1.16.0'')]"

text \<open>\<open>strings.LastIndex\<close> of one byte.\<close>

definition LastIndex :: "string \<Rightarrow> char \<Rightarrow> int" where
  "LastIndex s c = (if c \<in> set s then int (length s) - 1 - int (length (takeWhile (\<lambda>x. x \<noteq> c) (rev s))) else -1)"

definition parseImageTag :: "string \<Rightarrow> string option" where
  "parseImageTag image0 =
     (let image = cut_before CHR ''@'' image0;
          lastColon = LastIndex image CHR '':'';
          lastSlash = LastIndex image CHR ''/''
      in if lastColon = -1 \<or> lastSlash = -1 \<or> lastColon < lastSlash then None
         else Some (drop (nat lastColon + 1) image))"

record container =
  ct_Name :: string
  ct_Image :: string

record pod =
  pd_Name :: string
  pd_Phase :: string
  pd_HostIP :: string
  pd_Containers :: "container list"

definition agent_image :: "pod \<Rightarrow> string" where
  "agent_image p =
     (let image = (case find (\<lambda>c. ct_Name c = ''cilium-agent'') (pd_Containers p) of None \<Rightarrow> [] | Some c \<Rightarrow> ct_Image c)
      in if image = [] then (case pd_Containers p of [] \<Rightarrow> [] | c # _ \<Rightarrow> ct_Image c) else image)"

text \<open>The version of one pod that takes part in the tally, and one step of the tally itself.\<close>

definition pod_version :: "'v version_api \<Rightarrow> pod \<Rightarrow> 'v option" where
  "pod_version V p =
     (if pd_Phase p \<noteq> ''Running'' then None
      else let image = agent_image p
           in if image = [] then None
              else case parseImageTag image of
                     None \<Rightarrow> None
                   | Some tag \<Rightarrow> va_ParseGeneric V tag)"

definition tally :: "'v version_api \<Rightarrow> 'v \<Rightarrow> (string \<times> int) list \<times> 'v option \<Rightarrow> (string \<times> int) list \<times> 'v option" where
  "tally V v st =
     (case st of (versionsSeen, minVersion) \<Rightarrow>
        (upsert (va_String V v) 0 (\<lambda>n. n + 1) versionsSeen,
         case minVersion of None \<Rightarrow> Some v | Some m \<Rightarrow> Some (if va_LessThan V v m then v else m)))"

definition tally_opt :: "'v version_api \<Rightarrow> 'v option \<Rightarrow> (string \<times> int) list \<times> 'v option \<Rightarrow> (string \<times> int) list \<times> 'v option" where
  "tally_opt V ov st = (case ov of None \<Rightarrow> st | Some v \<Rightarrow> tally V v st)"

definition tallyPodImageVersions :: "'v version_api \<Rightarrow> pod list \<Rightarrow> (string \<times> int) list \<times> 'v option" where
  "tallyPodImageVersions V pods = fold (\<lambda>p. tally_opt V (pod_version V p)) pods ([], None)"

text \<open>A missing version fails every floor.\<close>

definition belowFloorFeatures :: "'v version_api \<Rightarrow> 'v option \<Rightarrow> string list" where
  "belowFloorFeatures V cluster =
     concat (map (\<lambda>(name, floor0).
         case va_ParseGeneric V floor0 of
           None \<Rightarrow> []
         | Some floor \<Rightarrow>
             if (case cluster of None \<Rightarrow> True | Some c \<Rightarrow> \<not> va_AtLeast V c floor)
             then [name @ '' (requires >= '' @ floor0 @ '')''] else []) featureFloors)"

definition finalizeCompat :: "'v version_api \<Rightarrow> CompatInfo \<Rightarrow> CompatInfo \<times> cluster_warning list" where
  "finalizeCompat V info =
     (if ci_ClusterVersion info = [] then (info, [])
      else case va_ParseGeneric V (ci_ClusterVersion info) of
             None \<Rightarrow> (info, [])
           | Some parsed \<Rightarrow>
               (let below = belowFloorFeatures V (Some parsed)
                in (info\<lparr>ci_BelowFloorFeatures := below\<rparr>,
                    if below = [] then [] else [BelowFloor (ci_ClusterVersion info) below])))"

definition compat_of :: "'v version_api \<Rightarrow> string \<Rightarrow> (string \<times> int) list \<times> 'v option \<Rightarrow> CompatInfo" where
  "compat_of V source st =
     (case st of (versionsSeen, minVersion) \<Rightarrow>
        (case minVersion of
           None \<Rightarrow> undetermined\<lparr>ci_VersionsSeen := Some versionsSeen\<rparr>
         | Some m \<Rightarrow> undetermined\<lparr>ci_VersionsSeen := Some versionsSeen, ci_ClusterVersion := va_String V m, ci_Source := source\<rparr>))"

text \<open>
  The client may be nil; \<open>canceled\<close> is whether the caller's context was cancelled when the list
  failed.  \<open>add_warnings\<close> puts the warnings of the call before those of \<open>finalizeCompat\<close>.
\<close>

definition add_warnings :: "cluster_warning list \<Rightarrow> CompatInfo \<times> cluster_warning list \<Rightarrow> CompatInfo \<times> cluster_warning list" where
  "add_warnings ws r = (fst r, ws @ snd r)"

definition DetectCiliumVersion ::
  "'v version_api \<Rightarrow> bool \<Rightarrow> pod list api_result option \<Rightarrow> CompatInfo \<times> cluster_warning list" where
  "DetectCiliumVersion V canceled client =
     (case client of
        None \<Rightarrow> finalizeCompat V undetermined
      | Some (Fetched pods) \<Rightarrow> finalizeCompat V (compat_of V ''pod-images'' (tallyPodImageVersions V pods))
      | Some Forbidden \<Rightarrow> add_warnings [PodsListForbidden] (finalizeCompat V undetermined)
      | Some _ \<Rightarrow> add_warnings (if canceled then [] else [PodsListFailed]) (finalizeCompat V undetermined))"

definition parseAgentVersionString :: "'v version_api \<Rightarrow> string \<Rightarrow> 'v option" where
  "parseAgentVersionString V raw =
     (let i = LastIndex raw CHR '' ''
      in va_ParseGeneric V (if 0 \<le> i then drop (nat i + 1) raw else raw))"

text \<open>Durations are nanoseconds.\<close>

definition second :: int where "second = 1000000000"

definition versionDetectTimeout :: int where "versionDetectTimeout = 3 * second"

definition effective_timeout :: "int \<Rightarrow> int" where
  "effective_timeout timeout =
     (if 0 < timeout \<and> timeout < versionDetectTimeout then timeout else versionDetectTimeout)"

text \<open>
  The relay: whether a client could be made for the address, whether its connection was ready
  within the given time, and the versions of the nodes, if they came within the given time.
\<close>

record relay_api =
  ra_NewClient :: "string \<Rightarrow> bool \<Rightarrow> bool"
  ra_ready :: "int \<Rightarrow> bool"
  ra_GetNodes :: "int \<Rightarrow> string list option"

definition DetectCiliumVersionViaGetNodes ::
  "'v version_api \<Rightarrow> relay_api \<Rightarrow> string \<Rightarrow> bool \<Rightarrow> int \<Rightarrow> CompatInfo \<times> cluster_warning list" where
  "DetectCiliumVersionViaGetNodes V R server tlsEnabled timeout =
     (let effective = effective_timeout timeout;
          failed = add_warnings [GetNodesFailed] (finalizeCompat V undetermined)
      in if \<not> ra_NewClient R server tlsEnabled then failed
         else if \<not> ra_ready R effective then failed
         else case ra_GetNodes R effective of
                None \<Rightarrow> failed
              | Some nodes \<Rightarrow>
                  finalizeCompat V (compat_of V ''get-nodes''
                    (fold (\<lambda>raw. tally_opt V (parseAgentVersionString V raw)) nodes ([], None))))"

definition CiliumBinaryName :: "'v version_api \<Rightarrow> CompatInfo \<Rightarrow> string" where
  "CiliumBinaryName V info =
     (if ci_ClusterVersion info = [] then ''cilium-dbg''
      else case (va_ParseGeneric V (ci_ClusterVersion info), va_ParseGeneric V ''1.15.0'') of
             (Some cluster, Some floor) \<Rightarrow> if va_AtLeast V cluster floor then ''cilium-dbg'' else ''cilium''
           | _ \<Rightarrow> ''cilium-dbg'')"

section \<open>The DNS selector\<close>

record service =
  sv_Namespace :: string
  sv_Name :: string
  sv_Selector :: label_map
  sv_Ports :: "int list"

definition servesPort53 :: "service \<Rightarrow> bool" where
  "servesPort53 svc \<longleftrightarrow> list_ex (\<lambda>p. p = 53) (sv_Ports svc)"

fun first_named :: "string list \<Rightarrow> service list \<Rightarrow> service option" where
  "first_named [] candidates = None"
| "first_named (name # names) candidates =
     (case find (\<lambda>c. sv_Name c = name) candidates of
        Some c \<Rightarrow> Some c
      | None \<Rightarrow> first_named names candidates)"

definition pickDNSService :: "service list \<Rightarrow> service option" where
  "pickDNSService items =
     (let candidates = filter (\<lambda>s. sv_Selector s \<noteq> [] \<and> servesPort53 s) items
      in case first_named [''kube-dns'', ''coredns''] candidates of
           Some c \<Rightarrow> Some c
         | None \<Rightarrow> (case candidates of [c] \<Rightarrow> Some c | _ \<Rightarrow> None))"

text \<open>The empty selector is Go's nil map.\<close>

definition DetectDNSSelector :: "service list api_result \<Rightarrow> label_map \<times> cluster_warning list" where
  "DetectDNSSelector svcs =
     (case svcs of
        Fetched items \<Rightarrow>
          (case pickDNSService items of
             None \<Rightarrow> ([], [DNSServiceNotFound])
           | Some svc \<Rightarrow> (sv_Selector svc, []))
      | Forbidden \<Rightarrow> ([], [DNSServicesForbidden])
      | _ \<Rightarrow> ([], [DNSServicesFailed]))"

section \<open>The layer-7 preflight\<close>

record ciliumConfigData =
  cd_Data :: label_map
  cd_Forbidden :: bool
  cd_NotFound :: bool

definition getCiliumConfig :: "label_map api_result \<Rightarrow> ciliumConfigData \<times> cluster_warning list" where
  "getCiliumConfig cm =
     (case cm of
        Fetched data \<Rightarrow>
          (\<lparr>cd_Data = data, cd_Forbidden = False, cd_NotFound = False\<rparr>,
           if get_or [] data ''enable-l7-proxy'' \<noteq> ''true'' then [L7ProxyDisabled] else [])
      | Forbidden \<Rightarrow> (\<lparr>cd_Data = [], cd_Forbidden = True, cd_NotFound = False\<rparr>, [ConfigMapForbidden])
      | _ \<Rightarrow> (\<lparr>cd_Data = [], cd_Forbidden = False, cd_NotFound = True\<rparr>, [ConfigMapNotFound]))"

definition checkCiliumEnvoy :: "unit api_result \<Rightarrow> ciliumConfigData \<Rightarrow> cluster_warning list" where
  "checkCiliumEnvoy ds cfg =
     (case ds of
        Fetched _ \<Rightarrow> []
      | Forbidden \<Rightarrow> [EnvoyForbidden]
      | NotFound \<Rightarrow> if get_or [] (cd_Data cfg) ''enable-envoy-config'' = ''true'' then [] else [EnvoyMissing]
      | ApiError \<Rightarrow> [EnvoyMissing])"

definition RunL7Preflight :: "label_map api_result \<Rightarrow> unit api_result \<Rightarrow> cluster_warning list" where
  "RunL7Preflight cm ds = (case getCiliumConfig cm of (cfg, warnings) \<Rightarrow> warnings @ checkCiliumEnvoy ds cfg)"

section \<open>The namespace watcher\<close>

text \<open>\<open>nw_recorded\<close> is \<open>None\<close> for an inert watcher; \<open>nw_watching\<close> while \<open>consume\<close> runs.\<close>

record NamespaceWatcher =
  nw_snapshot :: "string list"
  nw_recorded :: "string list option"
  nw_warned :: bool
  nw_log :: "cluster_warning list"
  nw_watching :: bool

definition warnOnce :: "cluster_warning \<Rightarrow> NamespaceWatcher \<Rightarrow> NamespaceWatcher" where
  "warnOnce msg w = (if nw_warned w then w else w\<lparr>nw_warned := True, nw_log := nw_log w @ [msg]\<rparr>)"

definition StartNamespaceWatcher :: "string list api_result \<Rightarrow> unit api_result \<Rightarrow> NamespaceWatcher" where
  "StartNamespaceWatcher listed watched =
     (let w = \<lparr>nw_snapshot = [], nw_recorded = None, nw_warned = False, nw_log = [], nw_watching = False\<rparr>
      in case listed of
           Fetched items \<Rightarrow>
             (let w1 = w\<lparr>nw_snapshot := remdups (filter (\<lambda>n. n \<noteq> []) items)\<rparr>
              in case watched of
                   Fetched _ \<Rightarrow> w1\<lparr>nw_recorded := Some [], nw_watching := True\<rparr>
                 | Forbidden \<Rightarrow> warnOnce NsWatchStartForbidden w1
                 | _ \<Rightarrow> warnOnce NsWatchStartFailed w1)
         | Forbidden \<Rightarrow> warnOnce NsWatchListForbidden w
         | _ \<Rightarrow> warnOnce NsWatchListFailed w)"

text \<open>
  An event of the watch, with whether the run was cancelled when it arrived; \<open>WatchAdded None\<close> is an
  object that is no namespace, \<open>WatchClosed\<close> the end of the channel.
\<close>

datatype watch_event = WatchAdded "string option" | WatchError | WatchOther | WatchClosed

definition record_namespace :: "string \<Rightarrow> NamespaceWatcher \<Rightarrow> NamespaceWatcher" where
  "record_namespace ns w =
     (if ns \<in> set (nw_snapshot w) then w
      else w\<lparr>nw_recorded := map_option (\<lambda>r. if ns \<in> set r then r else r @ [ns]) (nw_recorded w)\<rparr>)"

definition consume :: "bool \<times> watch_event \<Rightarrow> NamespaceWatcher \<Rightarrow> NamespaceWatcher" where
  "consume e w =
     (if \<not> nw_watching w then w
      else case e of (canceled, ev) \<Rightarrow>
        if canceled then w\<lparr>nw_watching := False\<rparr>
        else case ev of
               WatchError \<Rightarrow> (warnOnce NsWatchEndedEarly w)\<lparr>nw_watching := False\<rparr>
             | WatchAdded obj \<Rightarrow>
                 (case obj of None \<Rightarrow> w | Some ns \<Rightarrow> if ns = [] then w else record_namespace ns w)
             | WatchOther \<Rightarrow> w
             | WatchClosed \<Rightarrow> (warnOnce NsWatchEndedEarly w)\<lparr>nw_watching := False\<rparr>)"

definition NewNamespaces :: "NamespaceWatcher \<Rightarrow> string list option" where
  "NewNamespaces w =
     (case nw_recorded w of
        None \<Rightarrow> None
      | Some r \<Rightarrow> if r = [] then None else Some (sort r))"

section \<open>The audit mode of an endpoint\<close>

datatype exec_error =
    ListPods | NoAgentPod string | ExecFailed | BadOutput int | EmptyOutput int | SetFailed int string

definition FindAgentPodForNode :: "pod list api_result \<Rightarrow> string \<Rightarrow> exec_error + pod" where
  "FindAgentPodForNode pods nodeIP =
     (case pods of
        Fetched items \<Rightarrow>
          (case find (\<lambda>p. pd_Phase p = ''Running'' \<and> pd_HostIP p = nodeIP) items of
             Some p \<Rightarrow> Inr p
           | None \<Rightarrow> Inl (NoAgentPod nodeIP))
      | _ \<Rightarrow> Inl ListPods)"

text \<open>
  \<open>run pod argv\<close> is the standard output of the command in the pod, \<open>parse\<close> the options of each
  element of its JSON.
\<close>

definition ReadPolicyAuditMode ::
  "(string \<Rightarrow> string list \<Rightarrow> string option) \<Rightarrow> (string \<Rightarrow> label_map list option) \<Rightarrow> string \<Rightarrow> string \<Rightarrow> int \<Rightarrow> exec_error + bool" where
  "ReadPolicyAuditMode run parse podName binary endpointID =
     (case run podName [binary, ''endpoint'', ''get'', format_int endpointID, ''-o'', ''json''] of
        None \<Rightarrow> Inl ExecFailed
      | Some stdout \<Rightarrow>
          (case parse stdout of
             None \<Rightarrow> Inl (BadOutput endpointID)
           | Some [] \<Rightarrow> Inl (EmptyOutput endpointID)
           | Some (opts # _) \<Rightarrow> Inr (get_or [] opts ''PolicyAuditMode'' = ''Enabled'')))"

definition SetPolicyAuditMode ::
  "(string \<Rightarrow> string list \<Rightarrow> string option) \<Rightarrow> string \<Rightarrow> string \<Rightarrow> int \<Rightarrow> bool \<Rightarrow> exec_error option" where
  "SetPolicyAuditMode run podName binary endpointID enable =
     (let value = (if enable then ''enable'' else ''disable'')
      in case run podName [binary, ''endpoint'', ''config'', format_int endpointID, ''PolicyAuditMode='' @ value] of
           None \<Rightarrow> Some (SetFailed endpointID value)
         | Some _ \<Rightarrow> None)"

text \<open>\<open>Inl ()\<close> is the error.\<close>

definition CheckDaemonAuditMode :: "label_map api_result \<Rightarrow> unit + bool" where
  "CheckDaemonAuditMode cm =
     (case cm of
        Fetched data \<Rightarrow> Inr (get_or [] data ''policy-audit-mode'' = ''true'')
      | Forbidden \<Rightarrow> Inr False
      | _ \<Rightarrow> Inl ())"

section \<open>Image tags\<close>

lemma LastIndex_last:
  assumes "c \<notin> set b"
  shows "LastIndex (a @ c # b) c = int (length a)"
proof -
  have "takeWhile (\<lambda>x. x \<noteq> c) (rev b @ c # rev a) = rev b"
    using assms by (simp add: takeWhile_sep)
  then show ?thesis by (simp add: LastIndex_def)
qed

lemma LastIndex_none: "c \<notin> set s \<Longrightarrow> LastIndex s c = -1"
  by (simp add: LastIndex_def)

lemma split_at_last:
  assumes "c \<in> set s"
  obtains a b where "s = a @ c # b" "c \<notin> set b"
  using split_list_last [OF assms] by blast

text \<open>The tag of an image reference is what follows the last colon, and only if that colon comes after a slash:
  a tag is found exactly for the references that, cut at the first at sign, are a repository with a slash
  in it, a colon and the tag, in which there is neither a colon nor a slash.  So a registry port, a
  digest or a name without a path is never taken for a version.\<close>

theorem parseImageTag_iff:
  "parseImageTag ref = Some tag \<longleftrightarrow>
     (\<exists>repo. cut_before CHR ''@'' ref = repo @ CHR '':'' # tag \<and> CHR ''/'' \<in> set repo
        \<and> CHR '':'' \<notin> set tag \<and> CHR ''/'' \<notin> set tag)"
proof
  let ?s = "cut_before CHR ''@'' ref"
  assume p: "parseImageTag ref = Some tag"
  then have "CHR '':'' \<in> set ?s" "CHR ''/'' \<in> set ?s"
    using LastIndex_none [of "CHR '':''" ?s] LastIndex_none [of "CHR ''/''" ?s]
    by (auto simp: parseImageTag_def Let_def split: if_splits)
  then obtain a b c d where s: "?s = a @ CHR '':'' # b" "CHR '':'' \<notin> set b" and t: "?s = c @ CHR ''/'' # d" "CHR ''/'' \<notin> set d"
    by (metis split_at_last)
  have ix: "LastIndex ?s CHR '':'' = int (length a)" "LastIndex ?s CHR ''/'' = int (length c)"
    using LastIndex_last [OF s(2), of a] LastIndex_last [OF t(2), of c] by (simp_all flip: s(1) t(1))
  with p have le: "length c \<le> length a" and tag: "tag = drop (length a + 1) ?s"
    by (auto simp: parseImageTag_def Let_def nat_add_distrib split: if_splits)
  then have "tag = b" by (simp add: s(1))
  moreover have "CHR ''/'' \<in> set a"
  proof -
    have "a @ CHR '':'' # b = c @ CHR ''/'' # d" using s(1) t(1) by simp
    then have "length c \<noteq> length a" by auto
    with le have "length c < length a" by simp
    have "(a @ CHR '':'' # b) ! length c = (c @ CHR ''/'' # d) ! length c" using s(1) t(1) by simp
    with \<open>length c < length a\<close> have "a ! length c = CHR ''/''" by (simp add: nth_append)
    with \<open>length c < length a\<close> show ?thesis by (metis nth_mem)
  qed
  moreover have "CHR ''/'' \<notin> set b"
  proof -
    have "b = drop (length a + 1 - (length c + 1)) d"
    proof -
      have "b = drop (length a + 1) ?s" by (simp add: s(1))
      also have "\<dots> = drop (length a + 1 - (length c + 1)) d"
        using le by (simp add: t(1) Suc_diff_le)
      finally show ?thesis .
    qed
    with t(2) show ?thesis by (metis in_set_dropD)
  qed
  ultimately show "\<exists>repo. ?s = repo @ CHR '':'' # tag \<and> CHR ''/'' \<in> set repo
      \<and> CHR '':'' \<notin> set tag \<and> CHR ''/'' \<notin> set tag"
    using s by blast
next
  let ?s = "cut_before CHR ''@'' ref"
  assume "\<exists>repo. ?s = repo @ CHR '':'' # tag \<and> CHR ''/'' \<in> set repo \<and> CHR '':'' \<notin> set tag \<and> CHR ''/'' \<notin> set tag"
  then obtain repo where s: "?s = repo @ CHR '':'' # tag" "CHR ''/'' \<in> set repo" "CHR '':'' \<notin> set tag" "CHR ''/'' \<notin> set tag"
    by blast
  obtain c d where r: "repo = c @ CHR ''/'' # d" "CHR ''/'' \<notin> set d" using s(2) by (rule split_at_last)
  have "LastIndex ?s CHR '':'' = int (length repo)" by (simp add: s(1) LastIndex_last [OF s(3)])
  moreover have "LastIndex ?s CHR ''/'' = int (length c)"
  proof -
    have "?s = c @ CHR ''/'' # (d @ CHR '':'' # tag)" "CHR ''/'' \<notin> set (d @ CHR '':'' # tag)"
      using s r by auto
    then show ?thesis by (metis LastIndex_last)
  qed
  ultimately show "parseImageTag ref = Some tag"
    by (simp add: parseImageTag_def Let_def s(1) r(1) nat_add_distrib)
qed

section \<open>The tally\<close>

text \<open>What the library promises of its order: \<open>LessThan\<close> is the strict part of a linear preorder.\<close>

definition version_order :: "'v version_api \<Rightarrow> bool" where
  "version_order V \<longleftrightarrow> (\<forall>u v. va_LessThan V u v \<longrightarrow> \<not> va_LessThan V v u) \<and> (\<forall>u v w. va_LessThan V u w \<longrightarrow> va_LessThan V u v \<or> va_LessThan V v w)"

definition tallied :: "'v version_api \<Rightarrow> 'v list \<Rightarrow> (string \<times> int) list \<times> 'v option \<Rightarrow> bool" where
  "tallied V vs st \<longleftrightarrow> (case st of (seen, minVersion) \<Rightarrow>
     (\<forall>s. get_or 0 seen s = int (length (filter (\<lambda>v. va_String V v = s) vs)))
     \<and> distinct (map fst seen) \<and> fst ` set seen = va_String V ` set vs
     \<and> (case minVersion of None \<Rightarrow> vs = []
          | Some m \<Rightarrow> m \<in> set vs \<and> list_all (\<lambda>v. \<not> va_LessThan V v m) vs))"

lemma tally_step:
  assumes "version_order V" and "tallied V vs st"
  shows "tallied V (vs @ [v]) (tally V v st)"
proof -
  obtain seen m where st: "st = (seen, m)" by (cases st)
  have "\<not> va_LessThan V v v" using assms(1) unfolding version_order_def by blast
  moreover have "\<not> va_LessThan V w v" if "m = Some u" "va_LessThan V v u" "w \<in> set vs" for u w
  proof
    assume "va_LessThan V w v"
    then have "va_LessThan V w u \<or> va_LessThan V u v" using assms(1) by (auto simp: version_order_def)
    moreover have "\<not> va_LessThan V w u" using assms(2) that by (auto simp: tallied_def st list_all_iff)
    moreover have "\<not> va_LessThan V u v"
      using assms(1) that(2) unfolding version_order_def by blast
    ultimately show False by blast
  qed
  ultimately show ?thesis
    using assms(2) by (cases m) (auto simp: tallied_def st tally_def get_or_upsert fst_set_upsert distinct_upsert list_all_iff)
qed

lemma tally_fold:
  assumes "version_order V" and "tallied V vs st"
  shows "tallied V (vs @ List.map_filter f xs) (fold (\<lambda>x. tally_opt V (f x)) xs st)"
  using assms(2)
proof (induction xs arbitrary: vs st)
  case (Cons x xs)
  show ?case
  proof (cases "f x")
    case (Some v)
    from Cons.IH [OF tally_step [OF assms(1) Cons.prems, of v]] show ?thesis
      by (simp add: tally_opt_def Some List.map_filter_simps)
  qed (use Cons in \<open>simp add: tally_opt_def List.map_filter_simps\<close>)
qed (simp add: List.map_filter_simps)

text \<open>The cluster version is the least version any running agent pod reports, and nothing else: pods that do not
  run, have no tag or a tag that is no version are left out, every other pod is counted once under its
  version, and the version taken is one of the pods' own, with no pod below it, so one malformed tag
  cannot lower or raise it.\<close>

theorem tallyPodImageVersions_min:
  assumes "version_order V"
  shows "tallied V (List.map_filter (pod_version V) pods) (tallyPodImageVersions V pods)"
proof -
  have "tallied V [] ([], None)" by (simp add: tallied_def get_or_def)
  from tally_fold [OF assms this, of "pod_version V" pods] show ?thesis
    by (simp add: tallyPodImageVersions_def)
qed

definition demo_versions :: "nat version_api" where
  "demo_versions = \<lparr>va_ParseGeneric = (\<lambda>s. if s \<noteq> [] \<and> list_all is_digit s then Some (digits_val s) else None),
     va_String = format_uint, va_LessThan = (<), va_AtLeast = (\<ge>)\<rparr>"

definition demo_pods :: "pod list" where
  "demo_pods = [\<lparr>pd_Name = ''a'', pd_Phase = ''Running'', pd_HostIP = ''10.0.0.1'', pd_Containers = [\<lparr>ct_Name = ''cilium-agent'', ct_Image = ''q/cilium:12''\<rparr>]\<rparr>,
     \<lparr>pd_Name = ''b'', pd_Phase = ''Running'', pd_HostIP = ''10.0.0.2'', pd_Containers = [\<lparr>ct_Name = ''x'', ct_Image = ''h:5000/cilium:7@sha256:1''\<rparr>]\<rparr>,
     \<lparr>pd_Name = ''c'', pd_Phase = ''Pending'', pd_HostIP = ''10.0.0.3'', pd_Containers = [\<lparr>ct_Name = ''cilium-agent'', ct_Image = ''q/cilium:3''\<rparr>]\<rparr>,
     \<lparr>pd_Name = ''d'', pd_Phase = ''Running'', pd_HostIP = ''10.0.0.4'', pd_Containers = [\<lparr>ct_Name = ''cilium-agent'', ct_Image = ''sha256:4''\<rparr>]\<rparr>]"

theorem tallyPodImageVersions_min_witness:
  "tallied demo_versions [12, 7] (tallyPodImageVersions demo_versions demo_pods)
   \<and> snd (tallyPodImageVersions demo_versions demo_pods) = Some 7"
proof -
  have o: "version_order demo_versions" by (auto simp: version_order_def demo_versions_def)
  have c: "List.map_filter (pod_version demo_versions) demo_pods = [12, 7]"
    "snd (tallyPodImageVersions demo_versions demo_pods) = Some 7" by code_simp+
  show ?thesis using tallyPodImageVersions_min [OF o, of demo_pods] c by simp
qed

section \<open>The DNS selector\<close>

lemma first_named_Some: "first_named ns cs = Some c \<Longrightarrow> c \<in> set cs"
  by (induction ns cs rule: first_named.induct) (auto simp: find_Some_iff split: option.splits)

lemma find_name_unique:
  "find (\<lambda>x. f x = k) xs = map_of (map (\<lambda>x. (f x, x)) xs) k"
  by (induction xs) auto

lemma find_name_set:
  assumes "distinct (map f xs)" and "distinct (map f ys)" and "set xs = set ys"
  shows "find (\<lambda>x. f x = k) xs = find (\<lambda>x. f x = k) ys"
proof -
  have "map_of (map (\<lambda>x. (f x, x)) xs) = map_of (map (\<lambda>x. (f x, x)) ys)"
    using assms by (subst map_of_inject_set) (simp_all add: comp_def)
  then show ?thesis by (simp only: find_name_unique)
qed

lemma only_one_mset:
  assumes "mset xs = mset ys"
  shows "(case xs of [c] \<Rightarrow> Some c | _ \<Rightarrow> None) = (case ys of [c] \<Rightarrow> Some c | _ \<Rightarrow> None)"
proof (cases "length xs = 1")
  case True
  then obtain c where xs: "xs = [c]" by (auto simp: length_Suc_conv)
  then have "mset ys = {#c#}" using assms by simp
  then have "ys = [c]" by simp
  with xs show ?thesis by simp
next
  case False
  then have "length ys \<noteq> 1" using assms by (metis mset_eq_length)
  with False show ?thesis by (auto split: list.split)
qed

text \<open>The DNS selector does not depend on the order in which the API server lists the services: for services of
  distinct names, any permutation of the list gives the same choice.\<close>

theorem pickDNSService_order:
  assumes "distinct (map sv_Name items)" and "mset items' = mset items"
  shows "pickDNSService items' = pickDNSService items"
proof -
  let ?P = "\<lambda>s. sv_Selector s \<noteq> [] \<and> servesPort53 s"
  let ?f = "filter ?P items" and ?f' = "filter ?P items'"
  have d': "distinct (map sv_Name items')"
    using mset_eq_imp_distinct_iff [of "map sv_Name items'" "map sv_Name items"] assms by simp
  have eq: "mset ?f' = mset ?f" using assms(2) by simp
  have "distinct (map sv_Name ?f)" "distinct (map sv_Name ?f')"
    using assms(1) d' by (simp_all add: distinct_map_filter)
  moreover have "set ?f' = set ?f" using eq by (rule mset_eq_setD)
  ultimately have find: "find (\<lambda>c. sv_Name c = k) ?f' = find (\<lambda>c. sv_Name c = k) ?f" for k
    by (intro find_name_set)
  have named: "first_named names ?f' = first_named names ?f" for names
    by (induction names) (simp_all only: first_named.simps find)
  have "(case ?f' of [c] \<Rightarrow> Some c | _ \<Rightarrow> None) = (case ?f of [c] \<Rightarrow> Some c | _ \<Rightarrow> None)"
    using eq by (rule only_one_mset)
  then show ?thesis by (simp only: pickDNSService_def Let_def named)
qed

text \<open>And what it picks is a service on port 53 with a selector.\<close>

lemma pickDNSService_candidate:
  assumes "pickDNSService items = Some s"
  shows "s \<in> set items \<and> sv_Selector s \<noteq> [] \<and> servesPort53 s"
proof -
  define cs where "cs = filter (\<lambda>s. sv_Selector s \<noteq> [] \<and> servesPort53 s) items"
  have "s \<in> set cs"
  proof (cases "first_named [''kube-dns'', ''coredns''] cs")
    case None
    with assms have "(case cs of [c] \<Rightarrow> Some c | _ \<Rightarrow> None) = Some s"
      by (simp only: pickDNSService_def Let_def option.case flip: cs_def)
    then show ?thesis by (auto split: list.splits)
  next
    case (Some c)
    with assms have "c = s" by (simp only: pickDNSService_def Let_def option.case option.inject flip: cs_def)
    with first_named_Some [OF Some] show ?thesis by simp
  qed
  then show ?thesis by (simp add: cs_def)
qed

definition demo_service :: "string \<Rightarrow> string \<Rightarrow> service" where
  "demo_service name app = \<lparr>sv_Namespace = ''kube-system'', sv_Name = name, sv_Selector = [(''k8s-app'', app)], sv_Ports = [53, 9153]\<rparr>"

theorem pickDNSService_order_witness:
  "pickDNSService [demo_service ''rke2'' ''a'', demo_service ''coredns'' ''b''] = pickDNSService [demo_service ''coredns'' ''b'', demo_service ''rke2'' ''a'']"
  by (rule pickDNSService_order) (simp_all add: demo_service_def)

section \<open>The namespace watcher\<close>

text \<open>What ends the watch: a cancelled run, an error event, the end of the channel.\<close>

definition ends_watch :: "bool \<times> watch_event \<Rightarrow> bool" where
  "ends_watch e \<longleftrightarrow> fst e \<or> snd e = WatchError \<or> snd e = WatchClosed"

definition added_names :: "(bool \<times> watch_event) list \<Rightarrow> string list" where
  "added_names evs = concat (map (\<lambda>(_, ev). case ev of WatchAdded (Some ns) \<Rightarrow> if ns = [] then [] else [ns] | _ \<Rightarrow> [])
     (takeWhile (\<lambda>e. \<not> ends_watch e) evs))"

lemma consume_stopped [simp]: "\<not> nw_watching w \<Longrightarrow> fold consume evs w = w"
  by (induction evs) (simp_all add: consume_def)

definition add_name :: "string \<Rightarrow> string list \<Rightarrow> string list" where
  "add_name ns r = (if ns \<in> set r then r else r @ [ns])"

lemma add_names_set: "set (fold add_name ns r) = set r \<union> set ns"
  by (induction ns arbitrary: r) (auto simp: add_name_def)

lemma add_names_distinct: "distinct r \<Longrightarrow> distinct (fold add_name ns r)"
  by (induction ns arbitrary: r) (auto simp: add_name_def)

lemma consume_run:
  assumes "nw_watching w" and "\<not> nw_warned w" and "nw_recorded w = Some r"
  shows "nw_recorded (fold consume evs w) = Some (fold add_name (filter (\<lambda>n. n \<notin> set (nw_snapshot w)) (added_names evs)) r)
    \<and> nw_log (fold consume evs w) =
        nw_log w @ (case dropWhile (\<lambda>e. \<not> ends_watch e) evs of [] \<Rightarrow> [] | e # _ \<Rightarrow> if fst e then [] else [NsWatchEndedEarly])"
  using assms
proof (induction evs arbitrary: w r)
  case Nil
  then show ?case by (simp add: added_names_def)
next
  case (Cons e evs)
  obtain c ev where e: "e = (c, ev)" by (cases e)
  show ?case
  proof (cases "ends_watch e")
    case True
    then have n: "added_names (e # evs) = []" "dropWhile (\<lambda>e. \<not> ends_watch e) (e # evs) = e # evs"
      by (simp_all add: added_names_def)
    have k: "\<not> nw_watching (consume e w)" "nw_recorded (consume e w) = nw_recorded w"
      "nw_log (consume e w) = nw_log w @ (if c then [] else [NsWatchEndedEarly])"
      using True Cons.prems(1,2) by (auto simp: consume_def e ends_watch_def warnOnce_def)
    show ?thesis using Cons.prems(3) unfolding n fold.simps comp_apply consume_stopped [OF k(1)] k(2,3) by (simp add: e)
  next
    case False
    obtain ns where ns: "(case ev of WatchAdded (Some ns) \<Rightarrow> if ns = [] then [] else [ns] | _ \<Rightarrow> []) = ns"
      and len: "ns = [] \<or> (\<exists>n. ns = [n] \<and> n \<noteq> [] \<and> ev = WatchAdded (Some n))"
      by (auto split: watch_event.splits option.splits if_splits)
    have cons: "added_names (e # evs) = ns @ added_names evs" "dropWhile (\<lambda>e. \<not> ends_watch e) (e # evs) = dropWhile (\<lambda>e. \<not> ends_watch e) evs"
      using False ns by (simp_all add: added_names_def e)
    have k: "nw_watching (consume e w)" "\<not> nw_warned (consume e w)" "nw_snapshot (consume e w) = nw_snapshot w"
      "nw_log (consume e w) = nw_log w"
      "nw_recorded (consume e w) = Some (fold add_name (filter (\<lambda>n. n \<notin> set (nw_snapshot w)) ns) r)"
      using False Cons.prems ns len
      by (auto simp: consume_def e ends_watch_def record_namespace_def add_name_def split: watch_event.splits option.splits if_splits)
    show ?thesis using Cons.IH [OF k(1,2,5)] unfolding cons fold.simps comp_apply k(3,4) by simp
  qed
qed

text \<open>The watcher reports the namespaces created during the run: the names of the ADDED events before the watch
  ended that were not there at its start, sorted and without repetition, and nothing at all if there are
  none; its log holds at most the one warning that the watch ended early, and not even that when the run
  itself was cancelled.\<close>

theorem NewNamespaces_watched:
  "let w = fold consume evs (StartNamespaceWatcher (Fetched items) (Fetched ()));
       created = sorted_list_of_set {n \<in> set (added_names evs). n \<notin> set items}
   in NewNamespaces w = (if created = [] then None else Some created)
      \<and> nw_log w = (case dropWhile (\<lambda>e. \<not> ends_watch e) evs of [] \<Rightarrow> [] | e # _ \<Rightarrow> if fst e then [] else [NsWatchEndedEarly])"
proof -
  let ?w0 = "StartNamespaceWatcher (Fetched items) (Fetched ())"
  let ?new = "filter (\<lambda>n. n \<notin> set (nw_snapshot ?w0)) (added_names evs)"
  have w0: "nw_watching ?w0" "\<not> nw_warned ?w0" "nw_recorded ?w0 = Some []" "nw_log ?w0 = []"
    "set (nw_snapshot ?w0) = {n \<in> set items. n \<noteq> []}"
    by (simp_all add: StartNamespaceWatcher_def Let_def)
  have ne: "[] \<notin> set (added_names evs)"
    by (auto simp: added_names_def split: watch_event.splits option.splits if_splits)
  note run = consume_run [OF w0(1-3), of evs]
  have new: "set (fold add_name ?new []) = {n \<in> set (added_names evs). n \<notin> set items}"
    using ne by (auto simp: add_names_set w0(5))
  obtain r where r: "r = fold add_name ?new []" by blast
  have "distinct r" by (simp add: r add_names_distinct)
  then have s: "sorted_list_of_set (set r) = sort r" by (simp add: sorted_list_of_set_sort_remdups distinct_remdups_id)
  have "(if r = [] then None else Some (sort r)) = (if sort r = [] then None else Some (sort r))"
    by (metis length_0_conv length_sort)
  moreover have "NewNamespaces (fold consume evs ?w0) = (if r = [] then None else Some (sort r))"
    by (simp only: NewNamespaces_def conjunct1 [OF run] r option.case)
  ultimately show ?thesis
    unfolding Let_def new [folded r, symmetric] s using conjunct2 [OF run] w0(4) by simp
qed

end
