(* ===== verification/Labels.thy ===== *)
theory Labels
  imports Api
begin

text \<open>
  \<open>pkg/labels/selector.go\<close>: which labels of an endpoint identify its workload, the
  workload name, and the endpoint selectors built from them.  \<open>E\<close> carries Cilium's
  \<open>ParseLabel\<close>.
\<close>

section \<open>Definitions\<close>

abbreviation LabelSourceK8s :: string where "LabelSourceK8s \<equiv> ''k8s''"
abbreviation pod_namespace_key :: string where
  "pod_namespace_key \<equiv> ''io.kubernetes.pod.namespace''"

definition Denylist :: "string list" where
  "Denylist =
     [''pod-template-hash'', ''controller-revision-hash'', ''statefulset.kubernetes.io/pod-name'',
      ''job-name'', ''batch.kubernetes.io/job-name'', ''batch.kubernetes.io/controller-uid'',
      ''apps.kubernetes.io/pod-index'']"

definition denylistPrefixes :: "string list" where
  "denylistPrefixes =
     [''io.cilium.k8s.'', ''io.kubernetes.pod.namespace'', ''io.cilium.k8s.policy.'']"

definition priorityKeys :: "string list" where
  "priorityKeys = [''app.kubernetes.io/name'', ''app.kubernetes.io/component'', ''app'']"

definition hasDenylistedPrefix :: "string \<Rightarrow> bool" where
  "hasDenylistedPrefix key \<longleftrightarrow> list_ex (has_prefix key) denylistPrefixes"

fun filterK8sLabels :: "externals \<Rightarrow> string list \<Rightarrow> label list" where
  "filterK8sLabels E [] = []"
| "filterK8sLabels E (raw # rest) =
     (let l = ext_parse_label E raw
      in if lbl_source l \<noteq> LabelSourceK8s then filterK8sLabels E rest
         else if lbl_key l \<in> set Denylist then filterK8sLabels E rest
         else if hasDenylistedPrefix (lbl_key l) then filterK8sLabels E rest
         else l # filterK8sLabels E rest)"

fun find_first_key :: "string list \<Rightarrow> label list \<Rightarrow> label option" where
  "find_first_key [] filtered = None"
| "find_first_key (key # keys) filtered =
     (case find (\<lambda>l. lbl_key l = key) filtered of
        Some l \<Rightarrow> Some l
      | None \<Rightarrow> find_first_key keys filtered)"

definition findPriorityLabel :: "label list \<Rightarrow> label option" where
  "findPriorityLabel filtered = find_first_key priorityKeys filtered"

definition SelectLabels :: "externals \<Rightarrow> string list \<Rightarrow> label_map" where
  "SelectLabels E endpointLabels =
     (let filtered = filterK8sLabels E endpointLabels
      in if filtered = [] then []
         else case findPriorityLabel filtered of
                Some l \<Rightarrow> [(lbl_key l, lbl_value l)]
              | None \<Rightarrow> fold (\<lambda>(k, v). sput k v) (map (\<lambda>l. (lbl_key l, lbl_value l)) filtered) [])"

definition WorkloadName :: "externals \<Rightarrow> string list \<Rightarrow> string" where
  "WorkloadName E endpointLabels =
     (let filtered = filterK8sLabels E endpointLabels
      in if filtered = [] then ''unknown''
         else case findPriorityLabel filtered of
                Some l \<Rightarrow> lbl_value l
              | None \<Rightarrow> (let name = join ''-'' (sort (map lbl_value filtered))
                        in if 63 < length name then take 63 name else name))"

definition BuildEndpointSelector :: "externals \<Rightarrow> string list \<Rightarrow> endpoint_selector" where
  "BuildEndpointSelector E endpointLabels =
     (let selected = SelectLabels E endpointLabels
      in if selected = [] then Some \<lparr>ls_MatchLabels = [], ls_MatchExpressions = []\<rparr>
         else Some \<lparr>ls_MatchLabels = selected, ls_MatchExpressions = []\<rparr>)"

definition BuildPeerSelector :: "externals \<Rightarrow> string list \<Rightarrow> string \<Rightarrow> string \<Rightarrow> endpoint_selector" where
  "BuildPeerSelector E peerLabels peerNamespace policyNamespace =
     (let selected0 = SelectLabels E peerLabels;
          selected = (if peerNamespace \<noteq> policyNamespace
                      then sput pod_namespace_key peerNamespace selected0 else selected0)
      in if selected = [] then Some \<lparr>ls_MatchLabels = [], ls_MatchExpressions = []\<rparr>
         else Some \<lparr>ls_MatchLabels = selected, ls_MatchExpressions = []\<rparr>)"

section \<open>What a selector selects\<close>

text \<open>
  In a namespaced policy a selector selects the endpoints that carry all its
  \<open>matchLabels\<close>; without a namespace label among them it is confined to the policy's
  own namespace.
\<close>

definition has_label :: "externals \<Rightarrow> endpoint \<Rightarrow> string \<times> string \<Rightarrow> bool" where
  "has_label E ep kv \<longleftrightarrow>
     (if fst kv = pod_namespace_key then ep_namespace ep = snd kv
      else \<exists>raw \<in> set (ep_labels ep). lbl_key (ext_parse_label E raw) = fst kv
             \<and> lbl_value (ext_parse_label E raw) = snd kv)"

definition selects :: "externals \<Rightarrow> string \<Rightarrow> endpoint_selector \<Rightarrow> endpoint \<Rightarrow> bool" where
  "selects E policyNamespace sel ep \<longleftrightarrow>
     (case sel of
        None \<Rightarrow> False
      | Some ls \<Rightarrow>
          list_all (has_label E ep) (ls_MatchLabels ls) \<and> ls_MatchExpressions ls = []
          \<and> (pod_namespace_key \<notin> fst ` set (ls_MatchLabels ls) \<longrightarrow> ep_namespace ep = policyNamespace))"

section \<open>Lemmas\<close>

lemma filterK8sLabels_set:
  "l \<in> set (filterK8sLabels E ls) \<Longrightarrow>
     l \<in> ext_parse_label E ` set ls \<and> lbl_source l = LabelSourceK8s
     \<and> lbl_key l \<notin> set Denylist \<and> \<not> hasDenylistedPrefix (lbl_key l)"
  by (induction ls) (auto simp: Let_def split: if_splits)

lemma find_first_key_Some:
  "find_first_key ks ls = Some l \<Longrightarrow> l \<in> set ls \<and> lbl_key l \<in> set ks"
  by (induction ks) (auto split: option.splits simp: find_Some_iff)

lemma findPriorityLabel_Some:
  "findPriorityLabel ls = Some l \<Longrightarrow> l \<in> set ls \<and> lbl_key l \<in> set priorityKeys"
  unfolding findPriorityLabel_def by (rule find_first_key_Some)

lemma pod_namespace_denied: "hasDenylistedPrefix pod_namespace_key"
  by (simp add: hasDenylistedPrefix_def denylistPrefixes_def has_prefix_def)

lemma sorted_SelectLabels: "sorted_keys (SelectLabels E ls)"
  by (auto simp: SelectLabels_def Let_def split: option.splits intro: sorted_map.inv_put_all)

lemma SelectLabels_mem:
  assumes "(k, v) \<in> set (SelectLabels E ls)"
  shows "\<exists>l \<in> set (filterK8sLabels E ls). lbl_key l = k \<and> lbl_value l = v"
proof (cases "findPriorityLabel (filterK8sLabels E ls)")
  case (Some l)
  then show ?thesis
    using assms findPriorityLabel_Some [OF Some]
    by (auto simp: SelectLabels_def Let_def split: if_splits)
next
  case None
  let ?kvs = "map (\<lambda>l. (lbl_key l, lbl_value l)) (filterK8sLabels E ls)"
  have "map_of (SelectLabels E ls) k = Some v"
    using assms sorted_SelectLabels [of E ls]
    by (simp add: sorted_keys_distinct)
  moreover have "map_of (SelectLabels E ls) = map_of (rev ?kvs)"
    using None sorted_map.get_put_all [of "[]" ?kvs]
    by (auto simp: SelectLabels_def Let_def)
  ultimately have "(k, v) \<in> set (rev ?kvs)"
    by (metis map_of_SomeD)
  then show ?thesis by auto
qed

lemma SelectLabels_no_namespace: "pod_namespace_key \<notin> fst ` set (SelectLabels E ls)"
  using pod_namespace_denied filterK8sLabels_set [of _ E ls] SelectLabels_mem [of _ _ E ls]
  by fastforce

lemma SelectLabels_has_label:
  assumes "kv \<in> set (SelectLabels E (ep_labels ep))"
  shows "has_label E ep kv"
proof -
  obtain k v where kv: "kv = (k, v)" by (cases kv)
  obtain l where l: "l \<in> set (filterK8sLabels E (ep_labels ep))" "lbl_key l = k" "lbl_value l = v"
    using SelectLabels_mem assms kv by blast
  have "k \<noteq> pod_namespace_key"
    using SelectLabels_no_namespace assms kv by (metis fst_conv image_eqI)
  moreover have "l \<in> ext_parse_label E ` set (ep_labels ep)"
    using filterK8sLabels_set [OF l(1)] by simp
  ultimately show ?thesis
    using l by (auto simp: has_label_def kv)
qed

lemma set_sput: "set (sput k v m) \<subseteq> insert (k, v) (set m)"
  by (induction k v m rule: sput.induct) auto

lemma BuildPeerSelector_selects:
  "selects E pns (BuildPeerSelector E (ep_labels ep) (ep_namespace ep) pns) ep"
proof -
  let ?s = "SelectLabels E (ep_labels ep)"
  have ns: "has_label E ep (pod_namespace_key, ep_namespace ep)"
    by (simp add: has_label_def)
  have all: "\<forall>kv \<in> set ?s. has_label E ep kv"
    using SelectLabels_has_label by blast
  have "\<forall>kv \<in> set (sput pod_namespace_key (ep_namespace ep) ?s). has_label E ep kv"
    using set_sput [of pod_namespace_key "ep_namespace ep" ?s] all ns by blast
  moreover have "pod_namespace_key \<in> fst ` set (sput pod_namespace_key (ep_namespace ep) ?s)"
    by (simp add: fst_set_sput)
  ultimately show ?thesis
    using all by (auto simp: BuildPeerSelector_def selects_def Let_def list_all_iff)
qed

end
