(* ===== verification/Merge.thy ===== *)
theory Merge
  imports Labels
begin

text \<open>
  \<open>pkg/policy/merge.go\<close>: merging the rules of an incoming policy into an existing one.
  Rules are matched by peer and kind (ports or ICMP); the contents of a match are
  united with first-observation order kept.  The lemmas show that a merge admits
  exactly what the two policies admit, and when it changes nothing.
\<close>

section \<open>Canonical keys\<close>

definition httpRuleKey :: "http_rule \<Rightarrow> string" where
  "httpRuleKey h =
     (let hdrs = sort (hr_Headers h);
          hms = sort (map (\<lambda>hm. hm_Mismatch hm @ ''|'' @ hm_Name hm @ ''|'' @ hm_Value hm)
                  (map the (filter (\<lambda>hm. hm \<noteq> None) (hr_HeaderMatches h))))
      in hr_Method h @ ''|'' @ hr_Path h @ ''|'' @ hr_Host h @ ''|'' @ join '','' hdrs @ ''|'' @ join '','' hms)"

definition dnsRuleKey :: "fqdn_selector \<Rightarrow> string" where
  "dnsRuleKey d = fq_MatchName d @ ''|'' @ fq_MatchPattern d"

definition icmpFieldKey :: "icmp_field \<Rightarrow> string" where
  "icmpFieldKey f =
     if_Family f @ ''/'' @ (case if_Type f of None \<Rightarrow> ''*'' | Some t \<Rightarrow> int_or_string_String t)"

section \<open>Matching rules\<close>

definition normalizeLabelKey :: "externals \<Rightarrow> string \<Rightarrow> string" where
  "normalizeLabelKey E k = (if CHR '':'' \<in> set k then k else ext_cilium_key E k)"

definition normalizeLabels :: "externals \<Rightarrow> label_map \<Rightarrow> label_map" where
  "normalizeLabels E lbls = fold (\<lambda>(k, v). sput (normalizeLabelKey E k) v) lbls []"

definition matchLabelsNormalized :: "externals \<Rightarrow> label_map \<Rightarrow> label_map \<Rightarrow> bool" where
  "matchLabelsNormalized E a b \<longleftrightarrow>
     (if length a \<noteq> length b then False else normalizeLabels E a = normalizeLabels E b)"

definition matchExpressionsNormalized :: "externals \<Rightarrow> label_requirement list \<Rightarrow> label_requirement list \<Rightarrow> bool" where
  "matchExpressionsNormalized E a b \<longleftrightarrow>
     list_all2 (\<lambda>x y. normalizeLabelKey E (lr_Key x) = normalizeLabelKey E (lr_Key y)
         \<and> lr_Operator x = lr_Operator y \<and> lr_Values x = lr_Values y) a b"

definition selector_labels :: "endpoint_selector \<Rightarrow> label_map" where
  "selector_labels s = (case s of None \<Rightarrow> [] | Some ls \<Rightarrow> ls_MatchLabels ls)"

definition selector_exprs :: "endpoint_selector \<Rightarrow> label_requirement list" where
  "selector_exprs s = (case s of None \<Rightarrow> [] | Some ls \<Rightarrow> ls_MatchExpressions ls)"

definition matchEndpoints :: "externals \<Rightarrow> endpoint_selector list \<Rightarrow> endpoint_selector list \<Rightarrow> bool" where
  "matchEndpoints E a b \<longleftrightarrow>
     list_all2 (\<lambda>x y. matchLabelsNormalized E (selector_labels x) (selector_labels y)
         \<and> matchExpressionsNormalized E (selector_exprs x) (selector_exprs y)) a b"

definition matchEntities :: "string list \<Rightarrow> string list \<Rightarrow> bool" where
  "matchEntities a b \<longleftrightarrow> list_all2 (=) a b"

definition matchCIDRSlice :: "string list \<Rightarrow> string list \<Rightarrow> bool" where
  "matchCIDRSlice a b \<longleftrightarrow> list_all2 (=) a b"

definition ingressIsICMP :: "ingress_rule \<Rightarrow> bool" where
  "ingressIsICMP r \<longleftrightarrow> ir_ICMPs r \<noteq> []"

definition egressIsICMP :: "egress_rule \<Rightarrow> bool" where
  "egressIsICMP r \<longleftrightarrow> er_ICMPs r \<noteq> []"

definition ingressRulesMatch :: "externals \<Rightarrow> ingress_rule \<Rightarrow> ingress_rule \<Rightarrow> bool" where
  "ingressRulesMatch E a b \<longleftrightarrow>
     matchEndpoints E (ir_FromEndpoints a) (ir_FromEndpoints b)
     \<and> matchEntities (ir_FromEntities a) (ir_FromEntities b)
     \<and> matchCIDRSlice (ir_FromCIDR a) (ir_FromCIDR b)
     \<and> ingressIsICMP a = ingressIsICMP b"

definition egressRulesMatch :: "externals \<Rightarrow> egress_rule \<Rightarrow> egress_rule \<Rightarrow> bool" where
  "egressRulesMatch E a b \<longleftrightarrow>
     matchEndpoints E (er_ToEndpoints a) (er_ToEndpoints b)
     \<and> matchEntities (er_ToEntities a) (er_ToEntities b)
     \<and> matchCIDRSlice (er_ToCIDR a) (er_ToCIDR b)
     \<and> egressIsICMP a = egressIsICMP b"

section \<open>Merging the contents\<close>

definition mergeL7Rules :: "l7_rules option \<Rightarrow> l7_rules option \<Rightarrow> bool \<Rightarrow> l7_rules option" where
  "mergeL7Rules a b replaceHTTP =
     (case a of
        None \<Rightarrow> b
      | Some x \<Rightarrow>
          (case b of
             None \<Rightarrow> a
           | Some y \<Rightarrow>
               Some (x\<lparr>
                 l7_HTTP := (if l7_HTTP y = [] then l7_HTTP x
                             else if replaceHTTP then l7_HTTP y
                             else merge_new httpRuleKey (l7_HTTP x) (l7_HTTP y)),
                 l7_DNS := (if l7_DNS y = [] then l7_DNS x
                            else merge_new dnsRuleKey (l7_DNS x) (l7_DNS y))\<rparr>)))"

definition portRulesCarryL7 :: "port_rule list \<Rightarrow> bool" where
  "portRulesCarryL7 prs \<longleftrightarrow> list_ex (\<lambda>pr. pr_Rules pr \<noteq> None) prs"

type_synonym port_buckets = "(string \<times> (port_protocol \<times> l7_rules option)) list"

definition consume_port :: "bool \<Rightarrow> l7_rules option \<Rightarrow> port_protocol \<Rightarrow> port_buckets \<Rightarrow> port_buckets" where
  "consume_port replaceL7HTTP rules p buckets =
     upsert (port_key p) (p, None)
       (\<lambda>(port, rs). (port, if rules \<noteq> None then mergeL7Rules rs rules replaceL7HTTP else rs)) buckets"

definition consume :: "bool \<Rightarrow> port_rule list \<Rightarrow> port_buckets \<Rightarrow> port_buckets" where
  "consume replaceL7HTTP prs buckets =
     fold (\<lambda>pr. fold (consume_port replaceL7HTTP (pr_Rules pr)) (pr_Ports pr)) prs buckets"

definition mergePortRules :: "port_rule list \<Rightarrow> port_rule list \<Rightarrow> bool \<Rightarrow> port_rule list" where
  "mergePortRules existing incoming replaceL7HTTP =
     (if existing = [] then incoming
      else if incoming = [] then existing
      else if \<not> portRulesCarryL7 existing \<and> \<not> portRulesCarryL7 incoming then
        [\<lparr>pr_Ports = merge_new port_key (merge_new port_key [] (concat (map pr_Ports existing)))
                        (concat (map pr_Ports incoming)),
          pr_Rules = None\<rparr>]
      else map (\<lambda>(key, port, rules). \<lparr>pr_Ports = [port], pr_Rules = rules\<rparr>)
             (consume replaceL7HTTP incoming (consume replaceL7HTTP existing [])))"

definition mergeICMPRules :: "icmp_rule list \<Rightarrow> icmp_rule list \<Rightarrow> icmp_rule list" where
  "mergeICMPRules existing incoming =
     (if existing = [] then incoming
      else if incoming = [] then existing
      else [merge_new icmpFieldKey (merge_new icmpFieldKey [] (concat existing)) (concat incoming)])"

section \<open>Merging policies\<close>

text \<open>The search loop: the first match is updated, or the rule is appended.\<close>

fun merge_first :: "('r \<Rightarrow> 'r \<Rightarrow> bool) \<Rightarrow> ('r \<Rightarrow> 'r \<Rightarrow> 'r) \<Rightarrow> 'r \<Rightarrow> 'r list \<Rightarrow> 'r list" where
  "merge_first matches comb r [] = [r]"
| "merge_first matches comb r (x # xs) =
     (if matches x r then comb x r # xs else x # merge_first matches comb r xs)"

definition merge_ingress :: "bool \<Rightarrow> ingress_rule \<Rightarrow> ingress_rule \<Rightarrow> ingress_rule" where
  "merge_ingress replaceL7HTTP exRule inRule =
     exRule\<lparr>ir_ToPorts := mergePortRules (ir_ToPorts exRule) (ir_ToPorts inRule) replaceL7HTTP,
            ir_ICMPs := mergeICMPRules (ir_ICMPs exRule) (ir_ICMPs inRule)\<rparr>"

definition merge_egress :: "bool \<Rightarrow> egress_rule \<Rightarrow> egress_rule \<Rightarrow> egress_rule" where
  "merge_egress replaceL7HTTP exRule inRule =
     exRule\<lparr>er_ToPorts := mergePortRules (er_ToPorts exRule) (er_ToPorts inRule) replaceL7HTTP,
            er_ICMPs := mergeICMPRules (er_ICMPs exRule) (er_ICMPs inRule)\<rparr>"

record merge_options = mo_ReplaceL7HTTP :: bool

definition merge_spec :: "externals \<Rightarrow> bool \<Rightarrow> rule \<Rightarrow> rule \<Rightarrow> rule" where
  "merge_spec E repl ex inc =
     ex\<lparr>ru_Ingress := fold (merge_first (ingressRulesMatch E) (merge_ingress repl)) (ru_Ingress inc) (ru_Ingress ex),
        ru_Egress := fold (merge_first (egressRulesMatch E) (merge_egress repl)) (ru_Egress inc) (ru_Egress ex)\<rparr>"

definition MergePolicyWithOptions :: "externals \<Rightarrow> cnp \<Rightarrow> cnp \<Rightarrow> merge_options \<Rightarrow> cnp" where
  "MergePolicyWithOptions E existing incoming opts =
     (case cnp_Spec incoming of
        None \<Rightarrow> existing
      | Some inc \<Rightarrow>
          (case cnp_Spec existing of
             None \<Rightarrow> existing\<lparr>cnp_Spec := Some inc\<rparr>
           | Some ex \<Rightarrow> existing\<lparr>cnp_Spec := Some (merge_spec E (mo_ReplaceL7HTTP opts) ex inc)\<rparr>))"

definition MergePolicy :: "externals \<Rightarrow> cnp \<Rightarrow> cnp \<Rightarrow> cnp" where
  "MergePolicy E existing incoming = MergePolicyWithOptions E existing incoming \<lparr>mo_ReplaceL7HTTP = False\<rparr>"

section \<open>Matching is equality of peers\<close>

text \<open>What a selector is compared by, and the peer of a rule.\<close>

type_synonym selector_id = "nat \<times> label_map \<times> (string \<times> string \<times> string list) list"
type_synonym peer_id = "selector_id list \<times> string list \<times> string list"

definition selector_id :: "externals \<Rightarrow> endpoint_selector \<Rightarrow> selector_id" where
  "selector_id E s =
     (length (selector_labels s), normalizeLabels E (selector_labels s),
      map (\<lambda>x. (normalizeLabelKey E (lr_Key x), lr_Operator x, lr_Values x)) (selector_exprs s))"

definition ingress_peer :: "externals \<Rightarrow> ingress_rule \<Rightarrow> peer_id" where
  "ingress_peer E r = (map (selector_id E) (ir_FromEndpoints r), ir_FromEntities r, ir_FromCIDR r)"

definition egress_peer :: "externals \<Rightarrow> egress_rule \<Rightarrow> peer_id" where
  "egress_peer E r = (map (selector_id E) (er_ToEndpoints r), er_ToEntities r, er_ToCIDR r)"

lemma list_all2_map_eq: "list_all2 (\<lambda>x y. f x = f y) xs ys \<longleftrightarrow> map f xs = map f ys"
  by (induction xs arbitrary: ys) (auto simp: list_all2_Cons1 Cons_eq_map_conv)

lemma matchEndpoints_iff:
  "matchEndpoints E a b \<longleftrightarrow> map (selector_id E) a = map (selector_id E) b"
proof -
  have e: "matchExpressionsNormalized E u v \<longleftrightarrow>
      map (\<lambda>x. (normalizeLabelKey E (lr_Key x), lr_Operator x, lr_Values x)) u
      = map (\<lambda>x. (normalizeLabelKey E (lr_Key x), lr_Operator x, lr_Values x)) v" for u v
    unfolding matchExpressionsNormalized_def list_all2_map_eq [symmetric] by simp
  have "matchLabelsNormalized E (selector_labels x) (selector_labels y)
      \<and> matchExpressionsNormalized E (selector_exprs x) (selector_exprs y)
      \<longleftrightarrow> selector_id E x = selector_id E y" for x y
    by (auto simp: e selector_id_def matchLabelsNormalized_def)
  then show ?thesis
    by (simp add: matchEndpoints_def list_all2_map_eq)
qed

lemma ingressRulesMatch_iff:
  "ingressRulesMatch E a b \<longleftrightarrow> ingress_peer E a = ingress_peer E b \<and> ingressIsICMP a = ingressIsICMP b"
  by (auto simp: ingressRulesMatch_def matchEndpoints_iff matchEntities_def matchCIDRSlice_def
      ingress_peer_def list_all2_eq)

lemma egressRulesMatch_iff:
  "egressRulesMatch E a b \<longleftrightarrow> egress_peer E a = egress_peer E b \<and> egressIsICMP a = egressIsICMP b"
  by (auto simp: egressRulesMatch_def matchEndpoints_iff matchEntities_def matchCIDRSlice_def
      egress_peer_def list_all2_eq)

section \<open>The entries of a rule\<close>

text \<open>Each port, HTTP match, DNS match and ICMP type a rule lists, by its canonical key.\<close>

datatype entry = EPort string | EHttp string string | EDns string string | EIcmp string

definition rule_entries :: "string \<Rightarrow> l7_rules option \<Rightarrow> entry set" where
  "rule_entries k rules =
     insert (EPort k) (case rules of None \<Rightarrow> {}
       | Some l \<Rightarrow> EHttp k ` httpRuleKey ` set (l7_HTTP l) \<union> EDns k ` dnsRuleKey ` set (l7_DNS l))"

definition port_entries :: "port_rule list \<Rightarrow> entry set" where
  "port_entries prs = (\<Union>pr \<in> set prs. \<Union>p \<in> set (pr_Ports pr). rule_entries (port_key p) (pr_Rules pr))"

definition icmp_entries :: "icmp_rule list \<Rightarrow> entry set" where
  "icmp_entries is = EIcmp ` icmpFieldKey ` \<Union> (set ` set is)"

lemma rule_entries_merge:
  "rule_entries k (mergeL7Rules a b False) = rule_entries k a \<union> rule_entries k b"
  by (auto simp: rule_entries_def mergeL7Rules_def keys_merge_new image_Un split: option.splits)

definition bucket_entries :: "port_buckets \<Rightarrow> entry set" where
  "bucket_entries bs = (\<Union>(k, port, rules) \<in> set bs. rule_entries k rules)"

definition wf_buckets :: "port_buckets \<Rightarrow> bool" where
  "wf_buckets bs \<longleftrightarrow> distinct (map fst bs) \<and> (\<forall>(k, port, rules) \<in> set bs. k = port_key port)"

lemma wf_buckets_Nil: "wf_buckets []"
  by (simp add: wf_buckets_def)

lemma get_or_bucket: "wf_buckets bs \<Longrightarrow> port_key (fst (get_or (p, None) bs (port_key p))) = port_key p"
  by (cases "map_of bs (port_key p)") (auto simp: get_or_def wf_buckets_def dest!: map_of_SomeD)

lemma wf_consume_port: "wf_buckets bs \<Longrightarrow> wf_buckets (consume_port repl rules p bs)"
  using get_or_bucket [of bs p]
  by (auto simp: wf_buckets_def consume_port_def distinct_upsert set_upsert split: prod.splits)

lemma bucket_entries_consume_port:
  assumes "wf_buckets bs"
  shows "bucket_entries (consume_port False rules p bs) = bucket_entries bs \<union> rule_entries (port_key p) rules"
proof -
  let ?k = "port_key p"
  obtain port rs where g: "get_or (p, None) bs ?k = (port, rs)" by (cases "get_or (p, None) bs ?k")
  have d: "distinct (map fst bs)" using assms by (simp add: wf_buckets_def)
  have old: "bucket_entries bs \<union> {EPort ?k} =
      bucket_entries (filter (\<lambda>(k, v). k \<noteq> ?k) bs) \<union> rule_entries ?k rs"
  proof (cases "map_of bs ?k")
    case None
    then have "rs = None" using g by (simp add: get_or_def)
    moreover have "filter (\<lambda>(k, v). k \<noteq> ?k) bs = bs"
      using None by (auto simp: map_of_eq_None_iff filter_id_conv rev_image_eqI)
    ultimately show ?thesis by (simp add: rule_entries_def)
  next
    case (Some v)
    then have "v = (port, rs)" using g by (simp add: get_or_def)
    with Some have mem: "(?k, port, rs) \<in> set bs" by (auto dest: map_of_SomeD)
    then have "(k, v) \<in> set bs \<Longrightarrow> k = ?k \<Longrightarrow> v = (port, rs)" for k v
      using d by (auto dest: eq_key_imp_eq_value)
    with mem show ?thesis
      by (auto simp: bucket_entries_def rule_entries_def)
  qed
  have "rule_entries ?k (if rules \<noteq> None then mergeL7Rules rs rules False else rs)
      = rule_entries ?k rs \<union> rule_entries ?k rules"
    by (simp add: rule_entries_merge) (auto simp: rule_entries_def)
  then have "bucket_entries (consume_port False rules p bs)
      = bucket_entries (filter (\<lambda>(k, v). k \<noteq> ?k) bs) \<union> rule_entries ?k rs \<union> rule_entries ?k rules"
    by (auto simp: bucket_entries_def consume_port_def set_upsert [OF d] g)
  also have "\<dots> = bucket_entries bs \<union> rule_entries ?k rules"
    unfolding old [symmetric] by (auto simp: rule_entries_def)
  finally show ?thesis .
qed

lemma wf_consume: "wf_buckets bs \<Longrightarrow> wf_buckets (consume repl prs bs)"
proof (induction prs arbitrary: bs)
  case (Cons pr prs)
  have "wf_buckets (fold (consume_port repl (pr_Rules pr)) ps bs)" for ps
    using Cons.prems by (induction ps arbitrary: bs) (auto simp: wf_consume_port)
  with Cons.IH show ?case by (simp add: consume_def)
qed (simp add: consume_def)

lemma bucket_entries_consume:
  "wf_buckets bs \<Longrightarrow> bucket_entries (consume False prs bs) = bucket_entries bs \<union> port_entries prs"
proof (induction prs arbitrary: bs)
  case Nil
  then show ?case by (simp add: consume_def port_entries_def)
next
  case (Cons pr prs)
  let ?f = "consume_port False (pr_Rules pr)"
  have "wf_buckets (fold ?f ps bs) \<and> bucket_entries (fold ?f ps bs)
      = bucket_entries bs \<union> (\<Union>p \<in> set ps. rule_entries (port_key p) (pr_Rules pr))" for ps
    using Cons.prems
    by (induction ps arbitrary: bs) (auto simp: wf_consume_port bucket_entries_consume_port)
  with Cons.IH show ?case by (auto simp: consume_def port_entries_def)
qed

lemma portRulesCarryL7_iff: "portRulesCarryL7 prs \<longleftrightarrow> (\<exists>pr \<in> set prs. pr_Rules pr \<noteq> None)"
  by (simp add: portRulesCarryL7_def list_ex_iff)

lemma port_entries_buckets:
  "wf_buckets bs \<Longrightarrow>
     port_entries (map (\<lambda>(key, port, rules). \<lparr>pr_Ports = [port], pr_Rules = rules\<rparr>) bs) = bucket_entries bs"
proof (induction bs)
  case Nil
  then show ?case by (simp add: port_entries_def bucket_entries_def)
next
  case (Cons b bs)
  obtain k port rules where b: "b = (k, port, rules)" by (cases b)
  then have "wf_buckets bs" "k = port_key port" using Cons.prems by (auto simp: wf_buckets_def)
  with Cons.IH show ?case by (simp add: b port_entries_def bucket_entries_def)
qed

lemma port_entries_mergePortRules:
  "port_entries (mergePortRules existing incoming False) = port_entries existing \<union> port_entries incoming"
proof -
  let ?bs = "consume False incoming (consume False existing [])"
  have no_l7: "port_entries prs = EPort ` port_key ` \<Union> (set ` pr_Ports ` set prs)"
    if "\<not> portRulesCarryL7 prs" for prs
    using that by (auto simp: port_entries_def rule_entries_def portRulesCarryL7_iff)
  have "port_entries (map (\<lambda>(key, port, rules). \<lparr>pr_Ports = [port], pr_Rules = rules\<rparr>) ?bs)
      = bucket_entries ?bs"
    by (intro port_entries_buckets wf_consume wf_buckets_Nil)
  moreover have "bucket_entries ?bs = port_entries existing \<union> port_entries incoming"
    by (simp add: bucket_entries_consume wf_consume wf_buckets_Nil) (simp add: bucket_entries_def)
  ultimately have l7: "port_entries (map (\<lambda>(key, port, rules). \<lparr>pr_Ports = [port], pr_Rules = rules\<rparr>) ?bs)
      = port_entries existing \<union> port_entries incoming" by simp
  let ?ps = "merge_new port_key (merge_new port_key [] (concat (map pr_Ports existing))) (concat (map pr_Ports incoming))"
  have l4: "port_entries [\<lparr>pr_Ports = ?ps, pr_Rules = None\<rparr>] = port_entries existing \<union> port_entries incoming"
    if "\<not> portRulesCarryL7 existing" "\<not> portRulesCarryL7 incoming"
  proof -
    have "port_key ` set ?ps = port_key ` \<Union> (set ` pr_Ports ` set existing) \<union> port_key ` \<Union> (set ` pr_Ports ` set incoming)"
      by (simp add: keys_merge_new)
    moreover have "port_entries [\<lparr>pr_Ports = ?ps, pr_Rules = None\<rparr>] = EPort ` port_key ` set ?ps"
      by (auto simp: port_entries_def rule_entries_def)
    ultimately show ?thesis by (simp add: no_l7 that image_Un)
  qed
  have "port_entries [] = {}" by (simp add: port_entries_def)
  with l4 l7 show ?thesis by (simp add: mergePortRules_def)
qed

lemma icmp_entries_mergeICMPRules:
  "icmp_entries (mergeICMPRules existing incoming) = icmp_entries existing \<union> icmp_entries incoming"
  by (auto simp: mergeICMPRules_def icmp_entries_def keys_merge_new image_Un)

lemma mergeICMPRules_empty: "mergeICMPRules a b = [] \<longleftrightarrow> a = [] \<and> b = []"
  by (auto simp: mergeICMPRules_def)

section \<open>The rule-merge interface\<close>

text \<open>
  What both directions promise about their rules: matching is equality of peer and kind,
  and combining keeps the peer and the kind of the existing rule.
\<close>

locale rule_merge =
  fixes matches :: "'r \<Rightarrow> 'r \<Rightarrow> bool"
    and comb :: "bool \<Rightarrow> 'r \<Rightarrow> 'r \<Rightarrow> 'r"
    and peer :: "'r \<Rightarrow> 'p"
    and kind :: "'r \<Rightarrow> bool"
    and content :: "'r \<Rightarrow> entry set"
  assumes matches_iff: "matches x r \<longleftrightarrow> peer x = peer r \<and> kind x = kind r"
    and peer_comb: "peer (comb repl x r) = peer x"
    and kind_comb: "kind x = kind r \<Longrightarrow> kind (comb repl x r) = kind x"
    and content_comb: "content (comb False x r) = content x \<union> content r"
begin

definition grants :: "'r list \<Rightarrow> ('p \<times> entry) set" where
  "grants rs = (\<Union>r \<in> set rs. Pair (peer r) ` content r)"

abbreviation merge_all :: "bool \<Rightarrow> 'r list \<Rightarrow> 'r list \<Rightarrow> 'r list" where
  "merge_all repl \<equiv> fold (merge_first matches (comb repl))"

lemma grants_merge_first:
  "grants (merge_first matches (comb False) r rs) = grants rs \<union> Pair (peer r) ` content r"
  by (induction rs) (auto simp: grants_def matches_iff peer_comb content_comb)

lemma grants_merge_all: "grants (merge_all False inc ex) = grants ex \<union> grants inc"
proof (induction inc arbitrary: ex)
  case Nil
  then show ?case by (simp add: grants_def)
next
  case (Cons r inc)
  then show ?case by (simp add: grants_merge_first) (auto simp: grants_def)
qed

text \<open>No two rules of the list match each other.\<close>

definition separate :: "'r list \<Rightarrow> bool" where
  "separate rs \<longleftrightarrow> distinct (map (\<lambda>r. (peer r, kind r)) rs)"

lemma ids_merge_first:
  "map (\<lambda>r. (peer r, kind r)) (merge_first matches (comb repl) r rs) =
     (if (peer r, kind r) \<in> (\<lambda>r. (peer r, kind r)) ` set rs then map (\<lambda>r. (peer r, kind r)) rs
      else map (\<lambda>r. (peer r, kind r)) rs @ [(peer r, kind r)])"
  by (induction rs) (auto simp: matches_iff peer_comb kind_comb)

lemma separate_merge_all: "separate ex \<Longrightarrow> separate (merge_all repl inc ex)"
proof (induction inc arbitrary: ex)
  case (Cons r inc)
  then have "separate (merge_first matches (comb repl) r ex)"
    by (simp add: separate_def ids_merge_first)
  with Cons.IH show ?case by simp
qed simp

lemma merge_first_absorb:
  "separate rs \<Longrightarrow> r \<in> set rs \<Longrightarrow> comb repl r r = r \<Longrightarrow> merge_first matches (comb repl) r rs = rs"
  by (induction rs) (force simp: separate_def matches_iff)+

lemma merge_all_absorb:
  "separate rs \<Longrightarrow> set inc \<subseteq> set rs \<Longrightarrow> (\<And>r. r \<in> set inc \<Longrightarrow> comb repl r r = r) \<Longrightarrow>
     merge_all repl inc rs = rs"
  by (induction inc) (simp_all add: merge_first_absorb)

end

interpretation ingress: rule_merge "ingressRulesMatch E" merge_ingress "ingress_peer E" ingressIsICMP
  "\<lambda>r. port_entries (ir_ToPorts r) \<union> icmp_entries (ir_ICMPs r)" for E
  by unfold_locales
    (auto simp: ingressRulesMatch_iff merge_ingress_def ingress_peer_def ingressIsICMP_def mergeICMPRules_empty
      port_entries_mergePortRules icmp_entries_mergeICMPRules)

interpretation egress: rule_merge "egressRulesMatch E" merge_egress "egress_peer E" egressIsICMP
  "\<lambda>r. port_entries (er_ToPorts r) \<union> icmp_entries (er_ICMPs r)" for E
  by unfold_locales
    (auto simp: egressRulesMatch_iff merge_egress_def egress_peer_def egressIsICMP_def mergeICMPRules_empty
      port_entries_mergePortRules icmp_entries_mergeICMPRules)

section \<open>A merge admits what the two policies admit\<close>

definition ingress_grants :: "externals \<Rightarrow> rule \<Rightarrow> (peer_id \<times> entry) set" where
  "ingress_grants E ru =
     (\<Union>r \<in> set (ru_Ingress ru). Pair (ingress_peer E r) ` (port_entries (ir_ToPorts r) \<union> icmp_entries (ir_ICMPs r)))"

definition egress_grants :: "externals \<Rightarrow> rule \<Rightarrow> (peer_id \<times> entry) set" where
  "egress_grants E ru =
     (\<Union>r \<in> set (ru_Egress ru). Pair (egress_peer E r) ` (port_entries (er_ToPorts r) \<union> icmp_entries (er_ICMPs r)))"

definition spec_of :: "cnp \<Rightarrow> rule" where
  "spec_of p = (case cnp_Spec p of Some r \<Rightarrow> r
     | None \<Rightarrow> \<lparr>ru_EndpointSelector = None, ru_Ingress = [], ru_Egress = [],
                ru_DefaultDenyIngress = None, ru_DefaultDenyEgress = None\<rparr>)"

lemma grants_merge_spec:
  "ingress_grants E (merge_spec E False ex inc) = ingress_grants E ex \<union> ingress_grants E inc"
  "egress_grants E (merge_spec E False ex inc) = egress_grants E ex \<union> egress_grants E inc"
  using ingress.grants_merge_all [of E "ru_Ingress inc" "ru_Ingress ex"]
    egress.grants_merge_all [of E "ru_Egress inc" "ru_Egress ex"]
  by (simp_all add: ingress.grants_def egress.grants_def ingress_grants_def egress_grants_def merge_spec_def)

text \<open>C6: A union merge is exact: peer by peer, the merged policy lists the ports, HTTP matches, DNS
  matches and ICMP types of the existing policy and of the incoming one, nothing lost and nothing
  added, whether or not either policy has a spec.\<close>

theorem MergePolicy_grants:
  "ingress_grants E (spec_of (MergePolicy E existing incoming))
     = ingress_grants E (spec_of existing) \<union> ingress_grants E (spec_of incoming)
   \<and> egress_grants E (spec_of (MergePolicy E existing incoming))
     = egress_grants E (spec_of existing) \<union> egress_grants E (spec_of incoming)"
proof -
  have "ingress_grants E \<lparr>ru_EndpointSelector = s, ru_Ingress = [], ru_Egress = [],
          ru_DefaultDenyIngress = i, ru_DefaultDenyEgress = e\<rparr> = {}"
    "egress_grants E \<lparr>ru_EndpointSelector = s, ru_Ingress = [], ru_Egress = [],
          ru_DefaultDenyIngress = i, ru_DefaultDenyEgress = e\<rparr> = {}" for s i e
    by (simp_all add: ingress_grants_def egress_grants_def)
  then show ?thesis
    by (simp add: MergePolicy_def MergePolicyWithOptions_def spec_of_def grants_merge_spec split: option.split)
qed

section \<open>When a merge changes nothing\<close>

lemma upsert_new: "k \<notin> fst ` set m \<Longrightarrow> upsert k d f m = m @ [(k, f d)]"
  by (induction k d f m rule: upsert.induct) auto

lemma upsert_same: "distinct (map fst m) \<Longrightarrow> (k, v) \<in> set m \<Longrightarrow> f v = v \<Longrightarrow> upsert k d f m = m"
  by (induction k d f m rule: upsert.induct) (auto simp: rev_image_eqI)

text \<open>
  The shapes a rule's ports have after a merge, and in a built policy: each port once, in
  one L4-only entry or in one entry per port.
\<close>

definition nf_ports :: "port_rule list \<Rightarrow> bool" where
  "nf_ports prs \<longleftrightarrow> distinct (map port_key (concat (map pr_Ports prs)))
     \<and> (if portRulesCarryL7 prs then list_all (\<lambda>pr. length (pr_Ports pr) = 1) prs else length prs \<le> 1)"

definition nf_icmps :: "icmp_rule list \<Rightarrow> bool" where
  "nf_icmps is \<longleftrightarrow> length is \<le> 1 \<and> distinct (map icmpFieldKey (concat is))"

lemma mergeL7Rules_self: "mergeL7Rules a a repl = a"
  by (auto simp: mergeL7Rules_def merge_new_absorb split: option.splits)

definition port_bucket :: "port_rule \<Rightarrow> string \<times> (port_protocol \<times> l7_rules option)" where
  "port_bucket pr = (port_key (hd (pr_Ports pr)), hd (pr_Ports pr), pr_Rules pr)"

lemma singleton_ports:
  "length (pr_Ports pr) = 1 \<Longrightarrow> pr_Ports pr = [hd (pr_Ports pr)]"
  by (cases "pr_Ports pr") auto

lemma port_bucket_port_rule:
  "length (pr_Ports pr) = Suc 0 \<Longrightarrow>
     (case port_bucket pr of (key, port, rules) \<Rightarrow> \<lparr>pr_Ports = [port], pr_Rules = rules\<rparr>) = pr"
  using singleton_ports [of pr] by (cases pr) (simp add: port_bucket_def)

lemma keys_port_bucket:
  "list_all (\<lambda>pr. length (pr_Ports pr) = 1) prs \<Longrightarrow>
     map fst (map port_bucket prs) = map port_key (concat (map pr_Ports prs))"
proof (induction prs)
  case (Cons pr prs)
  then obtain p where "pr_Ports pr = [p]" using singleton_ports [of pr] by auto
  with Cons show ?case by (simp add: port_bucket_def)
qed simp

lemma consume_singleton:
  "pr_Ports pr = [p] \<Longrightarrow>
     consume repl (pr # prs) bs = consume repl prs (consume_port repl (pr_Rules pr) p bs)"
  by (simp add: consume_def)

lemma consume_new:
  assumes "list_all (\<lambda>pr. length (pr_Ports pr) = 1) (qs @ prs)"
    and "distinct (map fst (map port_bucket (qs @ prs)))"
  shows "consume repl prs (map port_bucket qs) = map port_bucket (qs @ prs)"
  using assms
proof (induction prs arbitrary: qs)
  case Nil
  then show ?case by (simp add: consume_def)
next
  case (Cons pr prs)
  have "port_key (hd (pr_Ports pr)) \<notin> fst ` set (map port_bucket qs)"
    using Cons.prems(2) by (auto simp: port_bucket_def)
  then have "consume_port repl (pr_Rules pr) (hd (pr_Ports pr)) (map port_bucket qs) = map port_bucket (qs @ [pr])"
    by (simp add: consume_port_def upsert_new port_bucket_def mergeL7Rules_def)
  moreover have "consume repl prs (map port_bucket (qs @ [pr])) = map port_bucket ((qs @ [pr]) @ prs)"
    using Cons.prems by (intro Cons.IH) simp_all
  moreover have "pr_Ports pr = [hd (pr_Ports pr)]"
    using Cons.prems(1) by (intro singleton_ports) simp
  ultimately show ?case
    by (simp add: consume_singleton)
qed

lemma consume_same:
  assumes "list_all (\<lambda>pr. length (pr_Ports pr) = 1) prs"
    and "distinct (map fst bs)" and "port_bucket ` set prs \<subseteq> set bs"
  shows "consume repl prs bs = bs"
  using assms
proof (induction prs)
  case Nil
  then show ?case by (simp add: consume_def)
next
  case (Cons pr prs)
  have "(port_key (hd (pr_Ports pr)), hd (pr_Ports pr), pr_Rules pr) \<in> set bs"
    using Cons.prems(3) by (simp add: port_bucket_def)
  then have "consume_port repl (pr_Rules pr) (hd (pr_Ports pr)) bs = bs"
    using Cons.prems(2) by (simp add: consume_port_def upsert_same mergeL7Rules_self)
  moreover have "pr_Ports pr = [hd (pr_Ports pr)]"
    using Cons.prems(1) by (intro singleton_ports) simp
  ultimately show ?case
    using Cons by (simp add: consume_singleton)
qed

lemma mergePortRules_self:
  assumes "nf_ports prs"
  shows "mergePortRules prs prs repl = prs"
proof (cases "portRulesCarryL7 prs")
  case True
  with assms have one: "list_all (\<lambda>pr. length (pr_Ports pr) = 1) prs"
    and d: "distinct (map fst (map port_bucket prs))"
    by (simp_all only: nf_ports_def keys_port_bucket if_True simp_thms)
  have "consume repl prs (consume repl prs []) = map port_bucket prs"
    using consume_new [of "[]" prs repl] consume_same [OF one d] one d by simp
  moreover have "map (\<lambda>(key, port, rules). \<lparr>pr_Ports = [port], pr_Rules = rules\<rparr>) (map port_bucket prs) = prs"
    using one by (induction prs) (simp_all add: port_bucket_port_rule)
  ultimately show ?thesis using True by (simp add: mergePortRules_def)
next
  case False
  show ?thesis
  proof (cases prs)
    case (Cons pr rest)
    with assms False have "rest = []" "pr_Rules pr = None" "distinct (map port_key (pr_Ports pr))"
      by (auto simp: nf_ports_def portRulesCarryL7_iff)
    with Cons False show ?thesis
      using merge_new_distinct_id [of port_key "[]" "pr_Ports pr"]
      by (simp add: mergePortRules_def merge_new_absorb)
  qed (simp add: mergePortRules_def)
qed

lemma mergeICMPRules_self: "nf_icmps is \<Longrightarrow> mergeICMPRules is is = is"
  using merge_new_distinct_id [of icmpFieldKey "[]" "concat is"]
  by (cases "is") (auto simp: nf_icmps_def mergeICMPRules_def merge_new_absorb)

text \<open>A policy whose rules are pairwise unmatched and in normal form.\<close>

definition nf_ingress :: "ingress_rule \<Rightarrow> bool" where
  "nf_ingress r \<longleftrightarrow> nf_ports (ir_ToPorts r) \<and> nf_icmps (ir_ICMPs r)"

definition nf_egress :: "egress_rule \<Rightarrow> bool" where
  "nf_egress r \<longleftrightarrow> nf_ports (er_ToPorts r) \<and> nf_icmps (er_ICMPs r)"

definition separate_rules :: "externals \<Rightarrow> rule \<Rightarrow> bool" where
  "separate_rules E ru \<longleftrightarrow>
     distinct (map (\<lambda>r. (ingress_peer E r, ingressIsICMP r)) (ru_Ingress ru))
     \<and> distinct (map (\<lambda>r. (egress_peer E r, egressIsICMP r)) (ru_Egress ru))"

lemma merge_spec_absorb:
  assumes "separate_rules E ex"
    and "set (ru_Ingress inc) \<subseteq> set (ru_Ingress ex)" "list_all nf_ingress (ru_Ingress inc)"
    and "set (ru_Egress inc) \<subseteq> set (ru_Egress ex)" "list_all nf_egress (ru_Egress inc)"
  shows "merge_spec E repl ex inc = ex"
proof -
  have "merge_ingress repl r r = r" if "r \<in> set (ru_Ingress inc)" for r
    using assms(3) that
    by (simp add: list_all_iff nf_ingress_def merge_ingress_def mergePortRules_self mergeICMPRules_self)
  moreover have "merge_egress repl r r = r" if "r \<in> set (ru_Egress inc)" for r
    using assms(5) that
    by (simp add: list_all_iff nf_egress_def merge_egress_def mergePortRules_self mergeICMPRules_self)
  ultimately show ?thesis
    using assms(1,2,4) ingress.merge_all_absorb [of E "ru_Ingress ex" "ru_Ingress inc" repl]
      egress.merge_all_absorb [of E "ru_Egress ex" "ru_Egress inc" repl]
    by (simp add: merge_spec_def separate_rules_def ingress.separate_def egress.separate_def)
qed

definition demo_rule :: rule where
  "demo_rule =
     \<lparr>ru_EndpointSelector = None,
      ru_Ingress = [empty_ingress\<lparr>ir_FromEntities := [''host''],
         ir_ToPorts := [\<lparr>pr_Ports = [\<lparr>pp_Port = ''80'', pp_Protocol = ProtoTCP\<rparr>], pr_Rules = None\<rparr>]\<rparr>],
      ru_Egress = [empty_egress\<lparr>er_ToCIDR := [''10.0.0.1/32''],
         er_ToPorts := [\<lparr>pr_Ports = [\<lparr>pp_Port = ''443'', pp_Protocol = ProtoTCP\<rparr>],
           pr_Rules = Some \<lparr>l7_HTTP = [http_entry ''GET'' ''^/a$''], l7_DNS = [], l7_L7Proto = []\<rparr>\<rparr>]\<rparr>],
      ru_DefaultDenyIngress = None, ru_DefaultDenyEgress = None\<rparr>"

definition demo_policy :: cnp where
  "demo_policy =
     \<lparr>cnp_APIVersion = ''cilium.io/v2'', cnp_Kind = ''CiliumNetworkPolicy'', cnp_Name = ''cpg-a'',
      cnp_Namespace = ''ns'', cnp_Labels = [], cnp_Spec = Some demo_rule\<rparr>"

text \<open>Merging is stable: when every rule of the incoming policy is already a rule of the existing one,
  whose rules are pairwise unmatched, the merge returns the existing policy unchanged, in both
  modes, so writing the same policy again does not rewrite the file.\<close>

theorem MergePolicy_absorb:
  assumes "cnp_Spec existing = Some ex" and "cnp_Spec incoming = Some inc"
    and "separate_rules E ex"
    and "set (ru_Ingress inc) \<subseteq> set (ru_Ingress ex)" "list_all nf_ingress (ru_Ingress inc)"
    and "set (ru_Egress inc) \<subseteq> set (ru_Egress ex)" "list_all nf_egress (ru_Egress inc)"
  shows "MergePolicyWithOptions E existing incoming opts = existing"
  using assms merge_spec_absorb [OF assms(3-7)]
  by (simp add: MergePolicyWithOptions_def)

theorem MergePolicy_absorb_witness:
  "MergePolicyWithOptions demo_externals demo_policy demo_policy \<lparr>mo_ReplaceL7HTTP = True\<rparr> = demo_policy"
proof (rule MergePolicy_absorb [of demo_policy demo_rule demo_policy demo_rule])
  show "separate_rules demo_externals demo_rule" by code_simp
  show "list_all nf_ingress (ru_Ingress demo_rule)" by code_simp
  show "list_all nf_egress (ru_Egress demo_rule)" by code_simp
qed (simp_all add: demo_policy_def)

section \<open>Replacing the HTTP rules of a port\<close>

definition rules_http :: "l7_rules option \<Rightarrow> http_rule list" where
  "rules_http rules = (case rules of None \<Rightarrow> [] | Some l \<Rightarrow> l7_HTTP l)"

text \<open>Each listed port with the rules of its entry, and the HTTP rules of one port.\<close>

definition flat_ports :: "port_rule list \<Rightarrow> (l7_rules option \<times> port_protocol) list" where
  "flat_ports prs = concat (map (\<lambda>pr. map (Pair (pr_Rules pr)) (pr_Ports pr)) prs)"

definition http_of :: "port_rule list \<Rightarrow> string \<Rightarrow> http_rule list" where
  "http_of prs k = concat (map (\<lambda>(rules, p). if port_key p = k then rules_http rules else []) (flat_ports prs))"

definition bucket_http :: "port_buckets \<Rightarrow> string \<Rightarrow> http_rule list" where
  "bucket_http bs k = (case map_of bs k of None \<Rightarrow> [] | Some (port, rules) \<Rightarrow> rules_http rules)"

lemma consume_flat:
  "consume repl prs bs = fold (\<lambda>(rules, p). consume_port repl rules p) (flat_ports prs) bs"
proof (induction prs arbitrary: bs)
  case Nil
  then show ?case by (simp add: consume_def flat_ports_def)
next
  case (Cons pr prs)
  have "fold (consume_port repl (pr_Rules pr)) ps bs
      = fold (\<lambda>(rules, p). consume_port repl rules p) (map (Pair (pr_Rules pr)) ps) bs" for ps
    by (induction ps arbitrary: bs) auto
  with Cons show ?case by (simp add: consume_def flat_ports_def)
qed

lemma keys_flat_ports: "map (\<lambda>(rules, p). port_key p) (flat_ports prs) = map port_key (concat (map pr_Ports prs))"
  by (induction prs) (simp_all add: flat_ports_def comp_def)

lemma bucket_http_consume_port:
  "bucket_http (consume_port True rules p bs) k =
     (if k = port_key p \<and> rules_http rules \<noteq> [] then rules_http rules else bucket_http bs k)"
  by (auto simp: bucket_http_def consume_port_def map_of_upsert get_or_def rules_http_def mergeL7Rules_def
      split: option.splits)

lemma bucket_http_fold:
  assumes "distinct (map (\<lambda>(rules, p). port_key p) fs)"
  shows "bucket_http (fold (\<lambda>(rules, p). consume_port True rules p) fs bs) k =
     (let hs = concat (map (\<lambda>(rules, p). if port_key p = k then rules_http rules else []) fs)
      in if hs = [] then bucket_http bs k else hs)"
  using assms
proof (induction fs arbitrary: bs)
  case Nil
  then show ?case by simp
next
  case (Cons f fs)
  obtain rules p where f: "f = (rules, p)" by (cases f)
  have "concat (map (\<lambda>(rules, p). if port_key p = k then rules_http rules else []) fs) = []"
    if "port_key p = k"
    using Cons.prems that by (force simp: f)
  with Cons show ?case by (auto simp: f bucket_http_consume_port Let_def)
qed

lemma http_of_buckets:
  "wf_buckets bs \<Longrightarrow>
     http_of (map (\<lambda>(key, port, rules). \<lparr>pr_Ports = [port], pr_Rules = rules\<rparr>) bs) k = bucket_http bs k"
proof (induction bs)
  case Nil
  then show ?case by (simp add: http_of_def flat_ports_def bucket_http_def)
next
  case (Cons b bs)
  obtain key port rules where b: "b = (key, port, rules)" by (cases b)
  then have wf: "wf_buckets bs" "key = port_key port" "key \<notin> fst ` set bs"
    using Cons.prems by (auto simp: wf_buckets_def)
  then have "bucket_http bs key = []"
    by (simp add: bucket_http_def map_of_eq_None_iff [THEN iffD2])
  moreover have "http_of (\<lparr>pr_Ports = [port], pr_Rules = rules\<rparr> # prs) k
      = (if port_key port = k then rules_http rules else []) @ http_of prs k" for prs
    by (simp add: http_of_def flat_ports_def)
  ultimately show ?case
    using Cons.IH [OF wf(1)] wf(2) by (auto simp: b bucket_http_def)
qed

text \<open>In replacement mode the HTTP rules of a port are the incoming ones where the incoming policy has
  any for it, and the existing ones otherwise, provided each side lists a port only once.\<close>

theorem mergePortRules_replace:
  assumes "distinct (map port_key (concat (map pr_Ports existing)))"
    and "distinct (map port_key (concat (map pr_Ports incoming)))"
  shows "http_of (mergePortRules existing incoming True) k =
     (if http_of incoming k = [] then http_of existing k else http_of incoming k)"
proof -
  have no_l7: "http_of prs k = []" if "\<not> portRulesCarryL7 prs" for prs
    using that by (force simp: http_of_def flat_ports_def portRulesCarryL7_iff rules_http_def)
  have "http_of (map (\<lambda>(key, port, rules). \<lparr>pr_Ports = [port], pr_Rules = rules\<rparr>)
      (consume True incoming (consume True existing []))) k
     = bucket_http (consume True incoming (consume True existing [])) k"
    by (intro http_of_buckets wf_consume wf_buckets_Nil)
  also have "\<dots> = (if http_of incoming k = [] then http_of existing k else http_of incoming k)"
    using assms unfolding consume_flat keys_flat_ports [symmetric]
    by (simp add: bucket_http_fold http_of_def Let_def) (simp add: bucket_http_def)
  finally have l7: "http_of (map (\<lambda>(key, port, rules). \<lparr>pr_Ports = [port], pr_Rules = rules\<rparr>)
      (consume True incoming (consume True existing []))) k
     = (if http_of incoming k = [] then http_of existing k else http_of incoming k)" .
  have "http_of [] k = []" "\<not> portRulesCarryL7 [\<lparr>pr_Ports = ps, pr_Rules = None\<rparr>]" for ps
    by (simp_all add: http_of_def flat_ports_def portRulesCarryL7_def)
  with no_l7 l7 show ?thesis by (simp add: mergePortRules_def)
qed

definition demo_http_port :: "string \<Rightarrow> string \<Rightarrow> port_rule" where
  "demo_http_port port path =
     \<lparr>pr_Ports = [\<lparr>pp_Port = port, pp_Protocol = ProtoTCP\<rparr>],
      pr_Rules = Some \<lparr>l7_HTTP = [http_entry ''GET'' path], l7_DNS = [], l7_L7Proto = []\<rparr>\<rparr>"

theorem mergePortRules_replace_witness:
  "http_of (mergePortRules [demo_http_port ''80'' ''^/u/1$'', demo_http_port ''81'' ''^/x$'']
       [demo_http_port ''80'' ''^/u/[0-9]+$''] True) ''80/TCP'' =
     (if http_of [demo_http_port ''80'' ''^/u/[0-9]+$''] ''80/TCP'' = []
      then http_of [demo_http_port ''80'' ''^/u/1$'', demo_http_port ''81'' ''^/x$''] ''80/TCP''
      else http_of [demo_http_port ''80'' ''^/u/[0-9]+$''] ''80/TCP'')"
  by (rule mergePortRules_replace) code_simp+

section \<open>Where a merge narrows\<close>

text \<open>
  An existing rule without \<open>toPorts\<close> allows its peer every port.  Merging an incoming rule
  of the same peer gives it the incoming ports: the allow-all is lost.
\<close>

lemma merge_narrows_portless_rule:
  "ir_ToPorts (merge_ingress False (empty_ingress\<lparr>ir_FromEntities := [''host'']\<rparr>)
     (empty_ingress\<lparr>ir_FromEntities := [''host''], ir_ToPorts := [demo_http_port ''80'' ''^/a$'']\<rparr>))
   = [demo_http_port ''80'' ''^/a$'']"
  by code_simp

text \<open>
  \<open>toFQDNs\<close> is not part of the peer an egress rule is matched by: an incoming FQDN rule is
  merged into an existing one and its names are lost.
\<close>

definition demo_fqdn_rule :: "string \<Rightarrow> egress_rule" where
  "demo_fqdn_rule name = empty_egress\<lparr>er_ToFQDNs := [match_name name],
     er_ToPorts := [\<lparr>pr_Ports = [\<lparr>pp_Port = ''443'', pp_Protocol = ProtoTCP\<rparr>], pr_Rules = None\<rparr>]\<rparr>"

lemma merge_loses_fqdns:
  "fold (merge_first (egressRulesMatch demo_externals) (merge_egress False)) [demo_fqdn_rule ''b.example'']
     [demo_fqdn_rule ''a.example''] = [demo_fqdn_rule ''a.example'']"
  by code_simp

text \<open>
  The replacement is also applied while the existing entries are read, so an existing
  policy that lists a port twice loses the HTTP rules of the first entry although the
  incoming policy has none for that port.
\<close>

lemma replace_drops_existing:
  "http_of [demo_http_port ''80'' ''^/a$'', demo_http_port ''80'' ''^/b$''] ''80/TCP''
     = [http_entry ''GET'' ''^/a$'', http_entry ''GET'' ''^/b$'']
   \<and> http_of (mergePortRules [demo_http_port ''80'' ''^/a$'', demo_http_port ''80'' ''^/b$'']
       [demo_http_port ''81'' ''^/c$''] True) ''80/TCP'' = [http_entry ''GET'' ''^/b$'']"
  by code_simp

end
