(* ===== verification/Dedup.thy ===== *)
theory Dedup
  imports Merge "HOL-Library.Product_Lexorder" "HOL-Library.Multiset"
begin

text \<open>
  \<open>pkg/policy/dedup.go\<close>: two policies are equivalent if their specs serialize to the same
  YAML after the rules, ports and layer-7 lists were sorted.  The YAML library is the
  parameter \<open>marshal\<close> (\<open>None\<close> is its error); a comparison that fails is the error value.
  The interface the writers rely on is the locale \<open>equivalence_check\<close>.
\<close>

section \<open>Definitions\<close>

definition sortPorts :: "port_protocol list \<Rightarrow> port_protocol list" where
  "sortPorts ports = sort_key (\<lambda>p. (pp_Port p, pp_Protocol p)) ports"

definition sortL7Rules :: "l7_rules option \<Rightarrow> l7_rules option" where
  "sortL7Rules rules =
     (case rules of
        None \<Rightarrow> None
      | Some l \<Rightarrow> Some (l\<lparr>l7_HTTP := sort_key (\<lambda>h. (hr_Method h, hr_Path h)) (l7_HTTP l),
                         l7_DNS := sort_key fq_MatchName (l7_DNS l)\<rparr>))"

text \<open>\<open>fmt.Sprintf("%v", parts)\<close> of a string slice.\<close>

definition sprint_strings :: "string list \<Rightarrow> string" where
  "sprint_strings parts = ''['' @ join '' '' parts @ '']''"

definition ruleContentParts :: "port_rule list \<Rightarrow> icmp_rule list \<Rightarrow> string list" where
  "ruleContentParts ports icmps =
     concat (map (\<lambda>pr.
         map (\<lambda>p. ''port:'' @ pp_Port p @ ''/'' @ pp_Protocol p) (pr_Ports pr)
         @ (case pr_Rules pr of
              None \<Rightarrow> []
            | Some l \<Rightarrow> map (\<lambda>h. ''http:'' @ httpRuleKey h) (l7_HTTP l)
                       @ map (\<lambda>d. ''dns:'' @ dnsRuleKey d) (l7_DNS l))) ports)
     @ concat (map (map (\<lambda>f. ''icmp:'' @ icmpFieldKey f)) icmps)"

definition selector_parts :: "endpoint_selector list \<Rightarrow> string list" where
  "selector_parts eps =
     concat (map (\<lambda>ep. case ep of
        None \<Rightarrow> []
      | Some ls \<Rightarrow> [''ep:'' @ sprint_strings (sort (map (\<lambda>(k, v). k @ ''='' @ v) (ls_MatchLabels ls)))]) eps)"

definition ingressRuleKey :: "ingress_rule \<Rightarrow> string" where
  "ingressRuleKey r =
     sprint_strings (sort (selector_parts (ir_FromEndpoints r)
       @ map (\<lambda>c. ''cidr:'' @ c) (ir_FromCIDR r)
       @ map (\<lambda>e. ''entity:'' @ e) (ir_FromEntities r)
       @ ruleContentParts (ir_ToPorts r) (ir_ICMPs r)))"

definition egressRuleKey :: "egress_rule \<Rightarrow> string" where
  "egressRuleKey r =
     sprint_strings (sort (selector_parts (er_ToEndpoints r)
       @ map (\<lambda>c. ''cidr:'' @ c) (er_ToCIDR r)
       @ map (\<lambda>e. ''entity:'' @ e) (er_ToEntities r)
       @ map (\<lambda>q. ''fqdn:'' @ fq_MatchName q @ ''|'' @ fq_MatchPattern q) (er_ToFQDNs r)
       @ ruleContentParts (er_ToPorts r) (er_ICMPs r)))"

definition sort_port_rule :: "port_rule \<Rightarrow> port_rule" where
  "sort_port_rule pr = pr\<lparr>pr_Ports := sortPorts (pr_Ports pr), pr_Rules := sortL7Rules (pr_Rules pr)\<rparr>"

definition normalizeRule :: "rule \<Rightarrow> rule" where
  "normalizeRule r =
     r\<lparr>ru_Ingress := sort_key ingressRuleKey
         (map (\<lambda>x. x\<lparr>ir_ToPorts := map sort_port_rule (ir_ToPorts x)\<rparr>) (ru_Ingress r)),
       ru_Egress := sort_key egressRuleKey
         (map (\<lambda>x. x\<lparr>er_ToPorts := map sort_port_rule (er_ToPorts x)\<rparr>) (ru_Egress r))\<rparr>"

datatype equiv_error = MarshalPolicyA | MarshalPolicyB

text \<open>The arguments may be nil pointers.\<close>

definition PoliciesEquivalent ::
  "(rule \<Rightarrow> string option) \<Rightarrow> cnp option \<Rightarrow> cnp option \<Rightarrow> equiv_error + bool" where
  "PoliciesEquivalent marshal a b =
     (case (a, b) of
        (None, None) \<Rightarrow> Inr True
      | (None, _) \<Rightarrow> Inr False
      | (_, None) \<Rightarrow> Inr False
      | (Some p, Some q) \<Rightarrow>
          (case (cnp_Spec p, cnp_Spec q) of
             (None, None) \<Rightarrow> Inr True
           | (None, _) \<Rightarrow> Inr False
           | (_, None) \<Rightarrow> Inr False
           | (Some r, Some s) \<Rightarrow>
               (case marshal (normalizeRule r) of
                  None \<Rightarrow> Inl MarshalPolicyA
                | Some aData \<Rightarrow>
                    (case marshal (normalizeRule s) of
                       None \<Rightarrow> Inl MarshalPolicyB
                     | Some bData \<Rightarrow> Inr (aData = bData)))))"

section \<open>Order independence\<close>

text \<open>The order of the elements does not matter to a sort whose key separates them.\<close>

lemma sort_key_mset_eq:
  assumes "mset xs = mset ys" and "inj_on f (set xs)"
  shows "sort_key f xs = sort_key f ys"
proof (rule properties_for_sort_key)
  have set: "set xs = set ys" using assms(1) by (metis set_mset_mset)
  have only: "filter (\<lambda>x. f k = f x) zs = replicate (count (mset zs) k) k"
    if "k \<in> set xs" "set zs = set xs" for k zs
  proof -
    have "filter (\<lambda>x. f k = f x) zs = filter (\<lambda>x. x = k) zs"
      using assms(2) that by (intro filter_cong) (auto dest: inj_onD)
    also have "\<dots> = replicate (count (mset zs) k) k" by (induction zs) auto
    finally show ?thesis .
  qed
  show "mset (sort_key f ys) = mset xs" by (simp add: assms(1))
  show "sorted (map f (sort_key f ys))" by simp
  show "filter (\<lambda>x. f k = f x) (sort_key f ys) = filter (\<lambda>x. f k = f x) xs" if "k \<in> set (sort_key f ys)" for k
    using that only [of k xs] only [of k "sort_key f ys"] by (simp add: set assms(1))
qed

text \<open>
  Two specs that list the same rules in any order, no two of which share a sort key.
  (Rules with equal keys keep their input order.)
\<close>

definition same_rules :: "rule \<Rightarrow> rule \<Rightarrow> bool" where
  "same_rules r s \<longleftrightarrow>
     ru_EndpointSelector r = ru_EndpointSelector s
     \<and> mset (ru_Ingress r) = mset (ru_Ingress s) \<and> mset (ru_Egress r) = mset (ru_Egress s)
     \<and> ru_DefaultDenyIngress r = ru_DefaultDenyIngress s \<and> ru_DefaultDenyEgress r = ru_DefaultDenyEgress s"

definition distinct_rule_keys :: "rule \<Rightarrow> bool" where
  "distinct_rule_keys r \<longleftrightarrow>
     distinct (map (\<lambda>x. ingressRuleKey (x\<lparr>ir_ToPorts := map sort_port_rule (ir_ToPorts x)\<rparr>)) (ru_Ingress r))
     \<and> distinct (map (\<lambda>x. egressRuleKey (x\<lparr>er_ToPorts := map sort_port_rule (er_ToPorts x)\<rparr>)) (ru_Egress r))"

lemma normalizeRule_same_rules:
  assumes "same_rules r s" and "distinct_rule_keys r"
  shows "normalizeRule r = normalizeRule s"
proof -
  let ?i = "\<lambda>x. x\<lparr>ir_ToPorts := map sort_port_rule (ir_ToPorts x)\<rparr>"
  let ?e = "\<lambda>x. x\<lparr>er_ToPorts := map sort_port_rule (er_ToPorts x)\<rparr>"
  have "sort_key ingressRuleKey (map ?i (ru_Ingress r)) = sort_key ingressRuleKey (map ?i (ru_Ingress s))"
  proof (rule sort_key_mset_eq)
    show "mset (map ?i (ru_Ingress r)) = mset (map ?i (ru_Ingress s))"
      using assms(1) by (simp add: same_rules_def)
    have "distinct (map ingressRuleKey (map ?i (ru_Ingress r)))"
      using assms(2) by (simp add: distinct_rule_keys_def comp_def del: distinct_map)
    then show "inj_on ingressRuleKey (set (map ?i (ru_Ingress r)))"
      by (simp only: distinct_map)
  qed
  moreover have "sort_key egressRuleKey (map ?e (ru_Egress r)) = sort_key egressRuleKey (map ?e (ru_Egress s))"
  proof (rule sort_key_mset_eq)
    show "mset (map ?e (ru_Egress r)) = mset (map ?e (ru_Egress s))"
      using assms(1) by (simp add: same_rules_def)
    have "distinct (map egressRuleKey (map ?e (ru_Egress r)))"
      using assms(2) by (simp add: distinct_rule_keys_def comp_def del: distinct_map)
    then show "inj_on egressRuleKey (set (map ?e (ru_Egress r)))"
      by (simp only: distinct_map)
  qed
  ultimately show ?thesis
    using assms(1) by (cases r; cases s) (simp add: normalizeRule_def same_rules_def)
qed

section \<open>The equivalence interface\<close>

text \<open>
  What the writers rely on: where the check answers, its answers are those of an
  equivalence relation, and they depend on the specs only.
\<close>

locale equivalence_check =
  fixes eqv :: "'p \<Rightarrow> 'p \<Rightarrow> 'e + bool"
    and serializable :: "'p \<Rightarrow> bool"
  assumes answers: "serializable a \<Longrightarrow> serializable b \<Longrightarrow> \<exists>v. eqv a b = Inr v"
    and refl: "serializable a \<Longrightarrow> eqv a a = Inr True"
    and sym: "eqv a b = Inr v \<Longrightarrow> eqv b a = Inr v"
    and trans: "eqv a b = Inr True \<Longrightarrow> eqv b c = Inr True \<Longrightarrow> eqv a c = Inr True"
begin

definition same :: "'p \<Rightarrow> 'p \<Rightarrow> bool" where
  "same a b \<longleftrightarrow> eqv a b = Inr True"

lemma same_sym: "same a b \<longleftrightarrow> same b a"
  using sym [of a b True] sym [of b a True] by (auto simp: same_def)

lemma same_trans: "same a b \<Longrightarrow> same b c \<Longrightarrow> same a c"
  using trans by (simp add: same_def)

text \<open>Everything recorded as equivalent to one policy is equivalent to each other.\<close>

lemma same_common: "same a b \<Longrightarrow> same a c \<Longrightarrow> same b c"
  using same_sym same_trans by blast

end

definition serializable_policy :: "(rule \<Rightarrow> string option) \<Rightarrow> cnp option \<Rightarrow> bool" where
  "serializable_policy marshal p \<longleftrightarrow>
     (case p of None \<Rightarrow> True | Some q \<Rightarrow> (case cnp_Spec q of None \<Rightarrow> True | Some r \<Rightarrow> marshal (normalizeRule r) \<noteq> None))"

interpretation policy_eqv: equivalence_check "PoliciesEquivalent marshal" "serializable_policy marshal" for marshal
proof
  fix a b c :: "cnp option" and v
  show "serializable_policy marshal a \<Longrightarrow> serializable_policy marshal b \<Longrightarrow> \<exists>v. PoliciesEquivalent marshal a b = Inr v"
    by (auto simp: serializable_policy_def PoliciesEquivalent_def split: option.splits)
  show "serializable_policy marshal a \<Longrightarrow> PoliciesEquivalent marshal a a = Inr True"
    by (auto simp: serializable_policy_def PoliciesEquivalent_def split: option.splits)
  show "PoliciesEquivalent marshal a b = Inr v \<Longrightarrow> PoliciesEquivalent marshal b a = Inr v"
    by (auto simp: PoliciesEquivalent_def split: option.splits)
  show "PoliciesEquivalent marshal a b = Inr True \<Longrightarrow> PoliciesEquivalent marshal b c = Inr True
      \<Longrightarrow> PoliciesEquivalent marshal a c = Inr True"
    by (auto simp: PoliciesEquivalent_def split: option.splits if_splits)
qed

text \<open>A serializer for the witnesses: it writes the names of the peers and the number of the rules.\<close>

definition demo_marshal :: "rule \<Rightarrow> string option" where
  "demo_marshal r = Some (join '','' (map ingressRuleKey (ru_Ingress r) @ map egressRuleKey (ru_Egress r)))"

definition two_rules :: "rule \<Rightarrow> rule" where
  "two_rules r = r\<lparr>ru_Ingress := ru_Ingress r @ [empty_ingress\<lparr>ir_FromCIDR := [''10.0.0.9/32'']\<rparr>]\<rparr>"

text \<open>The check does not depend on the order of the rules: policies whose specs list the same rules in
  any order, with distinct sort keys, are reported equivalent whenever they can be serialized.\<close>

theorem PoliciesEquivalent_order:
  assumes "cnp_Spec p = Some r" and "cnp_Spec q = Some s" and "same_rules r s" and "distinct_rule_keys r"
    and "serializable_policy marshal (Some p)"
  shows "PoliciesEquivalent marshal (Some p) (Some q) = Inr True"
  using assms normalizeRule_same_rules [OF assms(3,4)]
  by (auto simp: PoliciesEquivalent_def serializable_policy_def split: option.splits)

theorem PoliciesEquivalent_order_witness:
  "PoliciesEquivalent demo_marshal (Some (demo_policy\<lparr>cnp_Spec := Some (two_rules demo_rule)\<rparr>))
     (Some (demo_policy\<lparr>cnp_Spec := Some (two_rules demo_rule\<lparr>ru_Ingress := rev (ru_Ingress (two_rules demo_rule))\<rparr>)\<rparr>)) = Inr True"
  by (rule PoliciesEquivalent_order) (simp, simp, simp add: same_rules_def, code_simp, simp add: serializable_policy_def demo_marshal_def)

text \<open>The check decides an equivalence relation: on serializable policies it always answers, its positive
  answers are reflexive, symmetric and transitive.\<close>

theorem PoliciesEquivalent_equivalence:
  assumes "serializable_policy marshal a" "serializable_policy marshal b" "serializable_policy marshal c"
  shows "(\<exists>v. PoliciesEquivalent marshal a b = Inr v \<and> PoliciesEquivalent marshal b a = Inr v)
    \<and> PoliciesEquivalent marshal a a = Inr True
    \<and> (PoliciesEquivalent marshal a b = Inr True \<and> PoliciesEquivalent marshal b c = Inr True
        \<longrightarrow> PoliciesEquivalent marshal a c = Inr True)"
  using policy_eqv.answers [OF assms(1,2)] policy_eqv.sym [of marshal a b] policy_eqv.refl [OF assms(1)]
    policy_eqv.trans [of marshal a b c] by blast

theorem PoliciesEquivalent_equivalence_witness:
  "PoliciesEquivalent demo_marshal (Some demo_policy) None = Inr False
    \<and> PoliciesEquivalent demo_marshal (Some demo_policy) (Some demo_policy) = Inr True"
  using PoliciesEquivalent_equivalence [of demo_marshal "Some demo_policy" None None]
  by (simp add: serializable_policy_def demo_policy_def demo_marshal_def PoliciesEquivalent_def)

end
