(* ===== verification/Companion.thy ===== *)
theory Companion
  imports Labels
begin

text \<open>
  \<open>pkg/policy/companion_dns.go\<close>: every policy with \<open>toFQDNs\<close> carries an egress rule that
  lets its pods reach the cluster DNS on port 53.  \<open>dnsSelector\<close> is the detected selector
  of the DNS pods, empty when none was detected.
\<close>

section \<open>Definitions\<close>

abbreviation kubeDNSSelectorAppKey :: string where "kubeDNSSelectorAppKey \<equiv> ''k8s-app''"
abbreviation kubeDNSSelectorNSKey :: string where "kubeDNSSelectorNSKey \<equiv> ''io.kubernetes.pod.namespace''"
abbreviation kubeDNSSelectorNSVal :: string where "kubeDNSSelectorNSVal \<equiv> ''kube-system''"

definition fallbackDNSAppValues :: "string list" where
  "fallbackDNSAppValues = [''kube-dns'', ''coredns'']"

text \<open>The names in sorted order, each once; \<open>[]\<close> when there is none.\<close>

definition collectFQDNMatchNames :: "egress_rule list \<Rightarrow> string list" where
  "collectFQDNMatchNames egress =
     sort (merge_new id [] (filter (\<lambda>n. n \<noteq> []) (map fq_MatchName (concat (map er_ToFQDNs egress)))))"

fun strip_first_prefix :: "string list \<Rightarrow> string \<Rightarrow> string" where
  "strip_first_prefix [] k = k"
| "strip_first_prefix (p # ps) k =
     (if length p < length k \<and> has_prefix k p then drop (length p) k else strip_first_prefix ps k)"

definition stripLabelSourcePrefix :: "string \<Rightarrow> string" where
  "stripLabelSourcePrefix k = strip_first_prefix [''any:'', ''k8s:''] k"

definition containsLabels :: "label_map \<Rightarrow> label_map \<Rightarrow> bool" where
  "containsLabels have1 want \<longleftrightarrow> list_all (\<lambda>(k, v). map_of have1 k = Some v) want"

definition selectsKubeDNS :: "label_selector \<Rightarrow> label_map \<Rightarrow> bool" where
  "selectsKubeDNS ls dnsSelector =
     (let ml = fold (\<lambda>(k, v). sput (stripLabelSourcePrefix k) v) (ls_MatchLabels ls) [];
          val = (\<lambda>k. get_or [] ml k)
      in if val kubeDNSSelectorNSKey \<noteq> kubeDNSSelectorNSVal then False
         else if dnsSelector \<noteq> [] \<and> containsLabels ml dnsSelector then True
         else if val kubeDNSSelectorAppKey \<in> set fallbackDNSAppValues then True
         else list_ex (\<lambda>req. stripLabelSourcePrefix (lr_Key req) = kubeDNSSelectorAppKey
                \<and> lr_Operator req = OpIn
                \<and> list_ex (\<lambda>v. v \<in> set fallbackDNSAppValues) (lr_Values req))
              (ls_MatchExpressions ls))"

definition egressSelectsKubeDNS :: "egress_rule \<Rightarrow> label_map \<Rightarrow> bool" where
  "egressSelectsKubeDNS eg dnsSelector \<longleftrightarrow>
     list_ex (\<lambda>ep. case ep of None \<Rightarrow> False | Some ls \<Rightarrow> selectsKubeDNS ls dnsSelector) (er_ToEndpoints eg)"

text \<open>The two flags the port loops compute, as the ports with number 53.\<close>

definition opens_53 :: "string \<Rightarrow> egress_rule \<Rightarrow> bool" where
  "opens_53 proto eg \<longleftrightarrow>
     list_ex (\<lambda>pr. list_ex (\<lambda>p. pp_Port p = ''53'' \<and> (pp_Protocol p = proto \<or> pp_Protocol p = ProtoAny))
       (pr_Ports pr)) (er_ToPorts eg)"

definition hasKubeDNSCompanion :: "egress_rule list \<Rightarrow> label_map \<Rightarrow> bool" where
  "hasKubeDNSCompanion egress dnsSelector \<longleftrightarrow>
     list_ex (\<lambda>eg. egressSelectsKubeDNS eg dnsSelector \<and> opens_53 ProtoUDP eg \<and> opens_53 ProtoTCP eg) egress"

definition kubeDNSSelector :: "label_map \<Rightarrow> endpoint_selector" where
  "kubeDNSSelector dnsSelector =
     Some \<lparr>ls_MatchLabels = sput kubeDNSSelectorNSKey kubeDNSSelectorNSVal
               (if dnsSelector \<noteq> [] then fold (\<lambda>(k, v). sput k v) dnsSelector [] else []),
           ls_MatchExpressions =
             (if dnsSelector \<noteq> [] then []
              else [\<lparr>lr_Key = kubeDNSSelectorAppKey, lr_Operator = OpIn, lr_Values = fallbackDNSAppValues\<rparr>])\<rparr>"

definition dns_ports :: "port_protocol list" where
  "dns_ports = [\<lparr>pp_Port = ''53'', pp_Protocol = ProtoUDP\<rparr>, \<lparr>pp_Port = ''53'', pp_Protocol = ProtoTCP\<rparr>]"

definition companion_rule :: "label_map \<Rightarrow> string list \<Rightarrow> egress_rule" where
  "companion_rule dnsSelector observed =
     empty_egress\<lparr>er_ToEndpoints := [kubeDNSSelector dnsSelector],
       er_ToPorts := [\<lparr>pr_Ports = dns_ports,
         pr_Rules = Some \<lparr>l7_HTTP = [], l7_DNS = map match_name observed, l7_L7Proto = []\<rparr>\<rparr>]\<rparr>"

definition ensureKubeDNSCompanion :: "cnp \<Rightarrow> label_map \<Rightarrow> cnp" where
  "ensureKubeDNSCompanion cnp dnsSelector =
     (case cnp_Spec cnp of
        None \<Rightarrow> cnp
      | Some spec \<Rightarrow>
          (let observed = collectFQDNMatchNames (ru_Egress spec)
           in if observed = [] then cnp
              else if hasKubeDNSCompanion (ru_Egress spec) dnsSelector then cnp
              else cnp\<lparr>cnp_Spec := Some (spec\<lparr>ru_Egress := ru_Egress spec @ [companion_rule dnsSelector observed]\<rparr>)\<rparr>))"

section \<open>Lemmas\<close>

lemma set_collectFQDNMatchNames:
  "set (collectFQDNMatchNames egress) = {fq_MatchName s | s eg. eg \<in> set egress \<and> s \<in> set (er_ToFQDNs eg)} - {[]}"
  by (auto simp: collectFQDNMatchNames_def set_merge_new_inj)

lemma collect_companion [simp]:
  "collectFQDNMatchNames (egress @ [companion_rule d obs]) = collectFQDNMatchNames egress"
  by (simp add: collectFQDNMatchNames_def companion_rule_def)

lemma strip_no_colon: "CHR '':'' \<notin> set k \<Longrightarrow> stripLabelSourcePrefix k = k"
proof -
  have "\<not> has_prefix k p" if "CHR '':'' \<in> set p" "CHR '':'' \<notin> set k" for p
    using that by (auto simp: has_prefix_def) (metis in_set_takeD)
  then show "CHR '':'' \<notin> set k \<Longrightarrow> stripLabelSourcePrefix k = k"
    by (simp add: stripLabelSourcePrefix_def)
qed

text \<open>Label keys of a Kubernetes selector carry no source prefix, and name no other namespace.\<close>

definition wf_dns_selector :: "label_map \<Rightarrow> bool" where
  "wf_dns_selector d \<longleftrightarrow> sorted_keys d \<and> list_all (\<lambda>(k, v). CHR '':'' \<notin> set k
     \<and> (k = kubeDNSSelectorNSKey \<longrightarrow> v = kubeDNSSelectorNSVal)) d"

lemma fold_sput_sorted: "sorted_keys d \<Longrightarrow> fold (\<lambda>(k, v). sput k v) d [] = d"
proof (rule sorted_map_eqI)
  assume d: "sorted_keys d"
  show "sorted_keys (fold (\<lambda>(k, v). sput k v) d [])"
    using sorted_map.inv_put_all [of "[]" d] by simp
  have "map_of (rev d) = map_of d"
    using sorted_keys_distinct [OF d] by (intro map_of_eqI) (auto simp: map_of_eq_Some_iff rev_map [symmetric])
  then show "map_of (fold (\<lambda>(k, v). sput k v) d []) = map_of d"
    using sorted_map.get_put_all [of "[]" d] by simp
qed

lemma fold_strip_plain:
  "list_all (\<lambda>(k, v). CHR '':'' \<notin> set k) m \<Longrightarrow>
     fold (\<lambda>(k, v). sput (stripLabelSourcePrefix k) v) m acc = fold (\<lambda>(k, v). sput k v) m acc"
  by (induction m arbitrary: acc) (auto simp: strip_no_colon)

lemma selects_own_selector:
  assumes "wf_dns_selector d"
  shows "selectsKubeDNS (the (kubeDNSSelector d)) d"
proof (cases "d = []")
  case True
  have "selectsKubeDNS (the (kubeDNSSelector [])) []" by code_simp
  with True show ?thesis by simp
next
  case False
  let ?m = "sput kubeDNSSelectorNSKey kubeDNSSelectorNSVal d"
  have srt: "sorted_keys d" and ok: "\<forall>(k, v) \<in> set d. CHR '':'' \<notin> set k
     \<and> (k = kubeDNSSelectorNSKey \<longrightarrow> v = kubeDNSSelectorNSVal)"
    using assms by (auto simp: wf_dns_selector_def list_all_iff)
  then have sm: "sorted_keys ?m" by (simp add: sorted_sput)
  have "CHR '':'' \<notin> set k" if "(k, v) \<in> set ?m" for k v
  proof -
    have "k \<in> insert kubeDNSSelectorNSKey (fst ` set d)"
      using that fst_set_sput [of kubeDNSSelectorNSKey kubeDNSSelectorNSVal d] by force
    with ok show ?thesis by auto
  qed
  then have ml: "fold (\<lambda>(k, v). sput (stripLabelSourcePrefix k) v) ?m [] = ?m"
    by (subst fold_strip_plain) (auto simp: list_all_iff fold_sput_sorted sm)
  have "containsLabels ?m d"
    using ok sorted_keys_distinct [OF srt]
    by (auto simp: containsLabels_def list_all_iff map_of_sput)
  moreover have "get_or [] ?m kubeDNSSelectorNSKey = kubeDNSSelectorNSVal"
    by (simp add: get_or_def map_of_sput)
  ultimately show ?thesis
    using False by (simp add: kubeDNSSelector_def selectsKubeDNS_def fold_sput_sorted srt ml Let_def)
qed

lemma companion_is_companion:
  "wf_dns_selector d \<Longrightarrow> hasKubeDNSCompanion [companion_rule d obs] d"
  using selects_own_selector [of d]
  by (simp add: hasKubeDNSCompanion_def egressSelectsKubeDNS_def companion_rule_def opens_53_def dns_ports_def
      kubeDNSSelector_def)

lemma has_companion_append:
  "hasKubeDNSCompanion (a @ b) d \<longleftrightarrow> hasKubeDNSCompanion a d \<or> hasKubeDNSCompanion b d"
  by (simp add: hasKubeDNSCompanion_def)

lemma ensure_companion:
  assumes "wf_dns_selector d" and "cnp_Spec (ensureKubeDNSCompanion p d) = Some spec"
    and "collectFQDNMatchNames (ru_Egress spec) \<noteq> []"
  shows "hasKubeDNSCompanion (ru_Egress spec) d"
  using assms companion_is_companion [OF assms(1)]
  by (auto simp: ensureKubeDNSCompanion_def Let_def has_companion_append split: option.splits if_splits)

definition fqdn_policy :: cnp where
  "fqdn_policy =
     \<lparr>cnp_APIVersion = ''cilium.io/v2'', cnp_Kind = ''CiliumNetworkPolicy'', cnp_Name = ''cpg-a'',
      cnp_Namespace = ''ns'', cnp_Labels = [],
      cnp_Spec = Some \<lparr>ru_EndpointSelector = None, ru_Ingress = [],
        ru_Egress = [empty_egress\<lparr>er_ToFQDNs := [match_name ''b.example'', match_name ''a.example'']\<rparr>],
        ru_DefaultDenyIngress = None, ru_DefaultDenyEgress = None\<rparr>\<rparr>"

text \<open>A policy that names an FQDN always comes out with a companion: an egress rule that selects the
  DNS pods of kube-system and opens port 53 over UDP and TCP.\<close>

theorem ensureKubeDNSCompanion_companion:
  assumes "wf_dns_selector d" and "cnp_Spec (ensureKubeDNSCompanion p d) = Some spec"
    and "collectFQDNMatchNames (ru_Egress spec) \<noteq> []"
  shows "hasKubeDNSCompanion (ru_Egress spec) d"
  using assms by (rule ensure_companion)

theorem ensureKubeDNSCompanion_companion_witness:
  "hasKubeDNSCompanion (ru_Egress (the (cnp_Spec (ensureKubeDNSCompanion fqdn_policy [(''k8s-app'', ''dns'')]))))
     [(''k8s-app'', ''dns'')]"
  by (rule ensureKubeDNSCompanion_companion [where p = fqdn_policy]) (code_simp, code_simp, code_simp)

text \<open>Injecting the companion is idempotent and only ever appends: a policy without FQDN names is
  returned as it is, the rules of any other are kept in order, and a second call changes nothing.\<close>

theorem ensureKubeDNSCompanion_idempotent:
  assumes "wf_dns_selector d"
  shows "ensureKubeDNSCompanion (ensureKubeDNSCompanion p d) d = ensureKubeDNSCompanion p d \<and>
    (ensureKubeDNSCompanion p d = p \<or>
      (\<exists>spec. cnp_Spec p = Some spec \<and> collectFQDNMatchNames (ru_Egress spec) \<noteq> [] \<and>
         cnp_Spec (ensureKubeDNSCompanion p d) = Some (spec\<lparr>ru_Egress := ru_Egress spec
           @ [companion_rule d (collectFQDNMatchNames (ru_Egress spec))]\<rparr>)))"
  using companion_is_companion [OF assms]
  by (auto simp: ensureKubeDNSCompanion_def Let_def has_companion_append split: option.splits)

theorem ensureKubeDNSCompanion_idempotent_witness:
  "ensureKubeDNSCompanion (ensureKubeDNSCompanion fqdn_policy []) [] = ensureKubeDNSCompanion fqdn_policy []"
  by (rule ensureKubeDNSCompanion_idempotent [THEN conjunct1]) code_simp

end
