(* ===== verification/L7.thy ===== *)
theory L7
  imports Labels
begin

text \<open>
  \<open>pkg/policy/l7.go\<close>: HTTP and DNS matches extracted from a flow's layer-7 record, with
  the paths quoted and anchored as regular expressions.
\<close>

section \<open>Definitions\<close>

definition meta_chars :: "char list" where
  "meta_chars = [CHR 0x5C, CHR ''.'', CHR ''+'', CHR ''*'', CHR ''?'', CHR ''('', CHR '')'', CHR ''|'',
     CHR ''['', CHR '']'', CHR ''{'', CHR ''}'', CHR ''^'', CHR ''$'']"

text \<open>\<open>regexp.QuoteMeta\<close>.\<close>

fun QuoteMeta :: "string \<Rightarrow> string" where
  "QuoteMeta [] = []"
| "QuoteMeta (c # cs) = (if c \<in> set meta_chars then CHR 0x5C # c # QuoteMeta cs else c # QuoteMeta cs)"

definition normalizeHTTPMethod :: "string \<Rightarrow> string" where
  "normalizeHTTPMethod s = to_upper (trim_space s)"

definition pathFromURL :: "externals \<Rightarrow> string \<Rightarrow> string" where
  "pathFromURL E rawURL =
     (if rawURL = [] then []
      else case ext_url_path E rawURL of
             Some (path, _) \<Rightarrow> path
           | None \<Rightarrow> cut_before CHR ''?'' (cut_before CHR ''#'' rawURL))"

definition anchorPath :: "externals \<Rightarrow> string \<Rightarrow> string" where
  "anchorPath E rawURL =
     (let path0 = pathFromURL E rawURL; path = (if path0 = [] then ''/'' else path0)
      in ''^'' @ QuoteMeta path @ ''$'')"

definition extractHTTPRules :: "externals \<Rightarrow> flow \<Rightarrow> http_rule list" where
  "extractHTTPRules E f =
     (case fl_l7 f of
        Some (L7_HTTP m u) \<Rightarrow>
          (let method = normalizeHTTPMethod m
           in if method = [] then [] else [http_entry method (anchorPath E u)])
      | _ \<Rightarrow> [])"

definition extractDNSQuery :: "flow \<Rightarrow> string option" where
  "extractDNSQuery f =
     (case fl_l7 f of
        Some (L7_DNS query) \<Rightarrow>
          (let q = trim_space (trim_suffix (trim_space query) ''.'')
           in if q = [] then None else Some q)
      | _ \<Rightarrow> None)"

section \<open>Lemmas\<close>

lemma QuoteMeta_append: "QuoteMeta (s @ t) = QuoteMeta s @ QuoteMeta t"
  by (induction s) auto

text \<open>Quoting loses nothing: it can be undone, so distinct paths get distinct patterns.\<close>

fun unquote_meta :: "string \<Rightarrow> string" where
  "unquote_meta [] = []"
| "unquote_meta [c] = [c]"
| "unquote_meta (c # d # cs) = (if c = CHR 0x5C then d # unquote_meta cs else c # unquote_meta (d # cs))"

lemma backslash_meta: "CHR 0x5C \<in> set meta_chars"
  by (simp add: meta_chars_def)

lemma unquote_plain: "c \<noteq> CHR 0x5C \<Longrightarrow> unquote_meta (c # cs) = c # unquote_meta cs"
  by (cases cs) auto

lemma unquote_QuoteMeta: "unquote_meta (QuoteMeta s) = s"
proof (induction s)
  case Nil
  then show ?case by simp
next
  case (Cons c s)
  then show ?case
    using backslash_meta by (cases "c = CHR 0x5C") (auto simp: unquote_plain)
qed

lemma QuoteMeta_inject [simp]: "QuoteMeta s = QuoteMeta t \<longleftrightarrow> s = t"
  by (metis unquote_QuoteMeta)

lemma extractHTTPRules_shape:
  "h \<in> set (extractHTTPRules E f) \<Longrightarrow>
     hr_Method h \<noteq> [] \<and> hr_Host h = [] \<and> hr_Headers h = [] \<and> hr_HeaderMatches h = []"
  by (auto simp: extractHTTPRules_def Let_def split: option.splits layer7.splits if_splits)

lemma extractHTTPRules_length: "length (extractHTTPRules E f) \<le> 1"
  by (auto simp: extractHTTPRules_def Let_def split: option.splits layer7.splits)

lemma extractDNSQuery_nonempty: "extractDNSQuery f = Some q \<Longrightarrow> q \<noteq> []"
  by (auto simp: extractDNSQuery_def Let_def split: option.splits layer7.splits if_splits)

end
