(* ===== verification/Regex.thy ===== *)
theory Regex
  imports L7
begin

text \<open>
  The fragment of Go's (RE2) regular expressions the program compiles and emits:
  patterns anchored with \<open>^\<close> and \<open>$\<close>, made of plain and escaped characters and
  bracket classes of ranges, each with an optional \<open>+\<close>, \<open>{n}\<close> or \<open>{n,}\<close>.  A pattern
  is parsed to a list of items; \<open>re_match\<close> is \<open>MatchString\<close>.
\<close>

section \<open>Parsing and matching\<close>

text \<open>An item: the ranges of its class, the least number of repetitions, and whether more may follow.\<close>

type_synonym re_class = "(char \<times> char) list"
type_synonym re_item = "re_class \<times> nat \<times> bool"

definition in_class :: "re_class \<Rightarrow> char \<Rightarrow> bool" where
  "in_class rs c \<longleftrightarrow> list_ex (\<lambda>(a, b). a \<le> c \<and> c \<le> b) rs"

fun parse_ranges :: "string \<Rightarrow> re_class" where
  "parse_ranges [] = []"
| "parse_ranges [a] = [(a, a)]"
| "parse_ranges [a, b] = [(a, a), (b, b)]"
| "parse_ranges (a # b # c # cs) =
     (if b = CHR ''-'' then (a, c) # parse_ranges cs else (a, a) # parse_ranges (b # c # cs))"

fun parse_atom :: "string \<Rightarrow> (re_class \<times> string) option" where
  "parse_atom [] = None"
| "parse_atom (c # cs) =
     (if c = CHR 0x5C then (case cs of [] \<Rightarrow> None | d # ds \<Rightarrow> Some ([(d, d)], ds))
      else if c = CHR ''['' then
        (let body = takeWhile (\<lambda>x. x \<noteq> CHR '']'') cs; rest = drop (Suc (length body)) cs
         in if body = [] \<or> length cs \<le> length body then None else Some (parse_ranges body, rest))
      else if c \<in> set meta_chars then None
      else Some ([(c, c)], cs))"

definition parse_quant :: "string \<Rightarrow> (nat \<times> bool \<times> string) option" where
  "parse_quant s =
     (case s of
        [] \<Rightarrow> Some (1, False, [])
      | c # cs \<Rightarrow>
          if c = CHR ''+'' then Some (1, True, cs)
          else if c = CHR ''{'' then
            (let ds = takeWhile is_digit cs; rest = drop (length ds) cs
             in if ds = [] then None
                else case rest of
                       r # rs \<Rightarrow>
                         if r = CHR ''}'' then Some (digits_val ds, False, rs)
                         else if r = CHR '','' \<and> rs \<noteq> [] \<and> hd rs = CHR ''}''
                              then Some (digits_val ds, True, tl rs)
                         else None
                     | [] \<Rightarrow> None)
          else Some (1, False, s))"

lemma parse_atom_length: "parse_atom s = Some (cl, rest) \<Longrightarrow> length rest < length s"
  by (cases s) (auto split: if_splits list.splits simp: Let_def)

lemma parse_quant_length: "parse_quant s = Some (n, rep, rest) \<Longrightarrow> length rest \<le> length s"
proof (cases s)
  case (Cons c cs)
  have "length (drop (length (takeWhile is_digit cs)) cs) \<le> length cs" by simp
  then show "parse_quant s = Some (n, rep, rest) \<Longrightarrow> length rest \<le> length s"
    by (cases "drop (length (takeWhile is_digit cs)) cs")
      (auto simp: Cons parse_quant_def Let_def split: if_splits)
qed (simp add: parse_quant_def)

text \<open>The items up to the closing \<open>$\<close>, which ends the pattern.\<close>

function parse_items :: "string \<Rightarrow> re_item list option" where
  "parse_items s =
     (if s = ''$'' then Some []
      else case parse_atom s of
             None \<Rightarrow> None
           | Some (cl, s1) \<Rightarrow>
               (case parse_quant s1 of
                  None \<Rightarrow> None
                | Some (n, rep, s2) \<Rightarrow> map_option ((#) (cl, n, rep)) (parse_items s2)))"
  by pat_completeness auto
termination
proof (relation "measure length", simp)
  fix s x cl s1 y n z rep s2
  assume "parse_atom s = Some x" "(cl, s1) = x" "parse_quant s1 = Some y" "(n, z) = y" "(rep, s2) = z"
  then have "length s1 < length s" "length s2 \<le> length s1"
    using parse_atom_length [of s cl s1] parse_quant_length [of s1 n rep s2] by auto
  then show "(s2, s) \<in> measure length" by simp
qed

declare parse_items.simps [simp del]

function items_match :: "re_item list \<Rightarrow> string \<Rightarrow> bool" where
  "items_match [] s \<longleftrightarrow> s = []"
| "items_match ((cl, Suc n, rep) # is) [] \<longleftrightarrow> False"
| "items_match ((cl, Suc n, rep) # is) (c # s) \<longleftrightarrow> in_class cl c \<and> items_match ((cl, n, rep) # is) s"
| "items_match ((cl, 0, rep) # is) [] \<longleftrightarrow> items_match is []"
| "items_match ((cl, 0, rep) # is) (c # s) \<longleftrightarrow>
     items_match is (c # s) \<or> (rep \<and> in_class cl c \<and> items_match ((cl, 0, rep) # is) s)"
  by pat_completeness auto
termination
  by (relation "measure (\<lambda>(is, s). length is + length s)") auto

definition re_match :: "string \<Rightarrow> string \<Rightarrow> bool" where
  "re_match pat s =
     (case pat of
        c # cs \<Rightarrow> c = CHR ''^'' \<and> (case parse_items cs of None \<Rightarrow> False | Some is \<Rightarrow> items_match is s)
      | [] \<Rightarrow> False)"

section \<open>The language of an item list\<close>

lemma ex_append_Cons:
  "(\<exists>t u. c # s = t @ u \<and> P t u) \<longleftrightarrow> P [] (c # s) \<or> (\<exists>t u. s = t @ u \<and> P (c # t) u)"
  by (simp add: Cons_eq_append_conv) blast

lemma items_match_Cons:
  "items_match ((cl, n, rep) # is) s \<longleftrightarrow>
     (\<exists>t u. s = t @ u \<and> list_all (in_class cl) t \<and> n \<le> length t \<and> (rep \<or> length t = n)
        \<and> items_match is u)"
proof (induction "(cl, n, rep) # is" s arbitrary: n rule: items_match.induct)
  case (2 n)
  then show ?case by simp
next
  case (3 n c s)
  have "(\<exists>t u. c # s = t @ u \<and> list_all (in_class cl) t \<and> Suc n \<le> length t
           \<and> (rep \<or> length t = Suc n) \<and> items_match is u)
     \<longleftrightarrow> in_class cl c \<and> (\<exists>t u. s = t @ u \<and> list_all (in_class cl) t \<and> n \<le> length t
           \<and> (rep \<or> length t = n) \<and> items_match is u)"
    by (subst ex_append_Cons) auto
  with 3 show ?case by simp
next
  case 4
  then show ?case by auto
next
  case (5 c s)
  have "(\<exists>t u. c # s = t @ u \<and> list_all (in_class cl) t \<and> (rep \<or> length t = 0) \<and> items_match is u)
     \<longleftrightarrow> items_match is (c # s) \<or> (rep \<and> in_class cl c \<and>
           (\<exists>t u. s = t @ u \<and> list_all (in_class cl) t \<and> (rep \<or> length t = 0) \<and> items_match is u))"
    by (subst ex_append_Cons) auto
  with 5 show ?case by simp
qed

lemma items_match_append:
  "items_match (is @ js) s \<longleftrightarrow> (\<exists>t u. s = t @ u \<and> items_match is t \<and> items_match js u)"
proof (induction "is" arbitrary: s)
  case Nil
  then show ?case by simp
next
  case (Cons i "is")
  obtain cl n rep where i: "i = (cl, n, rep)" by (cases i)
  show ?case
    by (simp add: i items_match_Cons Cons.IH) (metis append_assoc)
qed

abbreviation lit_item :: "char \<Rightarrow> re_item" where
  "lit_item c \<equiv> ([(c, c)], 1, False)"

lemma in_class_lit [simp]: "in_class [(a, a)] c \<longleftrightarrow> c = a"
  by (auto simp: in_class_def)

lemma items_match_lits [simp]: "items_match (map (\<lambda>c. ([(c, c)], Suc 0, False)) cs) s \<longleftrightarrow> s = cs"
proof (induction cs arbitrary: s)
  case Nil
  then show ?case by simp
next
  case (Cons c cs)
  have "items_match ((cl, 0, False) # is) s \<longleftrightarrow> items_match is s" for cl "is" s
    by (cases s) auto
  with Cons show ?case
    by (cases s) auto
qed

lemma items_match_lit_Cons: "items_match (lit_item c # is) s \<longleftrightarrow> (\<exists>u. s = c # u \<and> items_match is u)"
  using items_match_append [of "[lit_item c]" "is" s] items_match_lits [of "[c]"] by simp

section \<open>Parsing what the program writes\<close>

text \<open>A continuation that does not quantify the atom before it.\<close>

definition no_quant :: "string \<Rightarrow> bool" where
  "no_quant s \<longleftrightarrow> s = [] \<or> hd s \<notin> {CHR ''+'', CHR ''{''}"

lemma parse_quant_none: "no_quant s \<Longrightarrow> parse_quant s = Some (1, False, s)"
  by (cases s) (auto simp: no_quant_def parse_quant_def)

lemma no_quant_QuoteMeta: "no_quant t \<Longrightarrow> no_quant (QuoteMeta s @ t)"
  by (cases s) (auto simp: no_quant_def meta_chars_def)

lemma parse_items_dollar [simp]: "parse_items ''$'' = Some []"
  by (simp add: parse_items.simps)

lemma parse_items_plain:
  "c \<notin> set meta_chars \<Longrightarrow> no_quant t \<Longrightarrow> parse_items (c # t) = map_option ((#) (lit_item c)) (parse_items t)"
  by (subst parse_items.simps) (simp add: parse_quant_none meta_chars_def)

lemma parse_items_escaped:
  "no_quant t \<Longrightarrow> parse_items (CHR 0x5C # c # t) = map_option ((#) (lit_item c)) (parse_items t)"
  by (subst parse_items.simps) (simp add: parse_quant_none)

lemma parse_items_QuoteMeta:
  assumes "no_quant t"
  shows "parse_items (QuoteMeta s @ t) = map_option ((@) (map lit_item s)) (parse_items t)"
proof (induction s)
  case Nil
  then show ?case by (simp add: option.map_ident)
next
  case (Cons c s)
  have nq: "no_quant (QuoteMeta s @ t)" by (rule no_quant_QuoteMeta [OF assms])
  then show ?case
    using Cons.IH
    by (cases "c \<in> set meta_chars")
      (simp_all add: parse_items_escaped parse_items_plain option.map_comp comp_def)
qed

lemma re_match_quoted: "re_match (''^'' @ QuoteMeta s @ ''$'') t \<longleftrightarrow> t = s"
  by (simp add: re_match_def parse_items_QuoteMeta no_quant_def)

end
