(* ===== verification/Attribution.thy ===== *)
theory Attribution
  imports L7
begin

text \<open>
  \<open>pkg/policy/attribution.go\<close> and \<open>reasons.go\<close>: the peers and keys that identify a rule,
  their string encodings, and the per-rule record of contributing flows.
\<close>

section \<open>Definitions\<close>

abbreviation PeerEndpoint :: string where "PeerEndpoint \<equiv> ''endpoint''"
abbreviation PeerCIDR :: string where "PeerCIDR \<equiv> ''cidr''"
abbreviation PeerEntity :: string where "PeerEntity \<equiv> ''entity''"

record peer =
  pe_Type :: string
  pe_Labels :: label_map
  pe_CIDR :: string
  pe_Entity :: string

record l7_discriminator =
  ld_Protocol :: string
  ld_HTTPMethod :: string
  ld_HTTPPath :: string
  ld_DNSMatchName :: string

record rule_key =
  rk_Direction :: string
  rk_Peer :: peer
  rk_Port :: string
  rk_Protocol :: string
  rk_L7 :: "l7_discriminator option"

record rule_attribution =
  ra_Key :: rule_key
  ra_FlowCount :: u64
  ra_FirstSeen :: time
  ra_LastSeen :: time
  ra_Samples :: "flow list"

datatype UnhandledReason = ReasonNoL4 | ReasonNilSource | ReasonNilDestination | ReasonNilEndpoint
  | ReasonEmptyNamespace | ReasonUnknownProtocol | ReasonWorldNoIP | ReasonReservedID | ReasonUnknownDir

fun reason_string :: "UnhandledReason \<Rightarrow> string" where
  "reason_string ReasonNoL4 = ''no_l4''"
| "reason_string ReasonNilSource = ''nil_source''"
| "reason_string ReasonNilDestination = ''nil_destination''"
| "reason_string ReasonNilEndpoint = ''nil_endpoint''"
| "reason_string ReasonEmptyNamespace = ''empty_namespace''"
| "reason_string ReasonUnknownProtocol = ''unknown_protocol''"
| "reason_string ReasonWorldNoIP = ''world_no_ip''"
| "reason_string ReasonReservedID = ''reserved_identity''"
| "reason_string ReasonUnknownDir = ''unknown_direction''"

definition encode_labels :: "label_map \<Rightarrow> string" where
  "encode_labels m = join '','' (map (\<lambda>(k, v). k @ ''='' @ v) m)"

text \<open>The label map is key-sorted, so its list order is the sorted key order of the source.\<close>

definition encodePeer :: "peer \<Rightarrow> string" where
  "encodePeer p =
     (if pe_Type p = PeerEndpoint then ''ep:'' @ encode_labels (pe_Labels p)
      else if pe_Type p = PeerCIDR then ''cidr:'' @ pe_CIDR p
      else if pe_Type p = PeerEntity then ''entity:'' @ pe_Entity p
      else ''unknown:'')"

definition encodeL7 :: "l7_discriminator \<Rightarrow> string" where
  "encodeL7 d =
     join '',''
       ((if ld_Protocol d \<noteq> [] then [''proto='' @ ld_Protocol d] else [])
        @ (if ld_HTTPMethod d \<noteq> [] then [''method='' @ ld_HTTPMethod d] else [])
        @ (if ld_HTTPPath d \<noteq> [] then [''path='' @ ld_HTTPPath d] else [])
        @ (if ld_DNSMatchName d \<noteq> [] then [''dns='' @ ld_DNSMatchName d] else []))"

definition RuleKey_String :: "rule_key \<Rightarrow> string" where
  "RuleKey_String k =
     (let base = rk_Direction k @ '':'' @ encodePeer (rk_Peer k) @ '':'' @ rk_Protocol k @ '':'' @ rk_Port k
      in case rk_L7 k of
           None \<Rightarrow> base
         | Some d \<Rightarrow> base @ '':l7='' @ encodeL7 d)"

section \<open>Injectivity of the encoding\<close>

text \<open>
  The keys the builder makes: label keys and values without the separators (Kubernetes
  forbids them), an IPv4 CIDR, and only the field of the peer's type filled in.
\<close>

definition plain :: "string \<Rightarrow> bool" where
  "plain s \<longleftrightarrow> CHR '':'' \<notin> set s \<and> CHR ''='' \<notin> set s \<and> CHR '','' \<notin> set s"

definition wf_peer :: "peer \<Rightarrow> bool" where
  "wf_peer p \<longleftrightarrow>
     (pe_Type p = PeerEndpoint \<and> pe_CIDR p = [] \<and> pe_Entity p = []
        \<and> list_all (\<lambda>(k, v). plain k \<and> plain v) (pe_Labels p))
     \<or> (pe_Type p = PeerCIDR \<and> pe_Labels p = [] \<and> pe_Entity p = [] \<and> plain (pe_CIDR p))
     \<or> (pe_Type p = PeerEntity \<and> pe_Labels p = [] \<and> pe_CIDR p = [] \<and> plain (pe_Entity p))"

definition wf_l7 :: "l7_discriminator \<Rightarrow> bool" where
  "wf_l7 d \<longleftrightarrow>
     (ld_Protocol d = ''http'' \<and> ld_HTTPMethod d \<noteq> [] \<and> plain (ld_HTTPMethod d)
        \<and> ld_HTTPPath d \<noteq> [] \<and> ld_DNSMatchName d = [])
     \<or> (ld_Protocol d = ''dns'' \<and> ld_HTTPMethod d = [] \<and> ld_HTTPPath d = [] \<and> ld_DNSMatchName d \<noteq> [])"

definition wf_rule_key :: "rule_key \<Rightarrow> bool" where
  "wf_rule_key k \<longleftrightarrow>
     rk_Direction k \<in> {''ingress'', ''egress''} \<and> wf_peer (rk_Peer k)
     \<and> plain (rk_Protocol k) \<and> plain (rk_Port k)
     \<and> (case rk_L7 k of None \<Rightarrow> True | Some d \<Rightarrow> wf_l7 d)"

lemma encode_labels_inject:
  assumes "list_all (\<lambda>(k, v). plain k \<and> plain v) m" "list_all (\<lambda>(k, v). plain k \<and> plain v) m'"
    and "encode_labels m = encode_labels m'"
  shows "m = m'"
proof -
  let ?e = "\<lambda>(k, v). k @ ''='' @ v"
  have ne: "CHR '','' \<notin> set x \<and> x \<noteq> []" if "x \<in> set (map ?e m) \<union> set (map ?e m')" for x
    using that assms(1,2) by (auto simp: list_all_iff plain_def)
  have "map ?e m = map ?e m'"
    using assms(3) join_inject_nonempty [of "map ?e m" "map ?e m'" "CHR '',''"] ne
    by (simp add: encode_labels_def)
  moreover have "inj_on ?e (set m \<union> set m')"
  proof (rule inj_onI)
    fix x y assume "x \<in> set m \<union> set m'" "y \<in> set m \<union> set m'" "?e x = ?e y"
    moreover from this have "CHR ''='' \<notin> set (fst x)" "CHR ''='' \<notin> set (fst y)"
      using assms(1,2) by (auto simp: list_all_iff plain_def)
    ultimately show "x = y"
      by (cases x; cases y) (simp add: append_sep_inject)
  qed
  ultimately show ?thesis
    using map_inj_on by blast
qed

lemma encodePeer_inject:
  assumes "wf_peer p" "wf_peer q" "encodePeer p = encodePeer q"
  shows "p = q"
  using assms
  by (auto simp: wf_peer_def encodePeer_def intro: encode_labels_inject peer.equality split: if_splits)

lemma encodeL7_inject:
  assumes "wf_l7 d" "wf_l7 e" "encodeL7 d = encodeL7 e"
  shows "d = e"
  using assms
  by (auto simp: wf_l7_def encodeL7_def plain_def append_sep_inject intro: l7_discriminator.equality
      split: if_splits)

lemma plain_no_colon: "plain s \<Longrightarrow> CHR '':'' \<notin> set s"
  by (simp add: plain_def)

lemma encode_labels_no_colon:
  assumes "list_all (\<lambda>(k, v). plain k \<and> plain v) m"
  shows "CHR '':'' \<notin> set (encode_labels m)"
  using set_join [of "'',''" "map (\<lambda>(k, v). k @ ''='' @ v) m"] assms
  by (fastforce simp: encode_labels_def list_all_iff plain_def)

lemma encodePeer_split:
  assumes "wf_peer p"
  obtains tag body where "encodePeer p = tag @ CHR '':'' # body" "CHR '':'' \<notin> set tag"
    "CHR '':'' \<notin> set body"
proof -
  consider "encodePeer p = ''ep'' @ CHR '':'' # encode_labels (pe_Labels p)"
      "CHR '':'' \<notin> set (encode_labels (pe_Labels p))"
    | "encodePeer p = ''cidr'' @ CHR '':'' # pe_CIDR p" "CHR '':'' \<notin> set (pe_CIDR p)"
    | "encodePeer p = ''entity'' @ CHR '':'' # pe_Entity p" "CHR '':'' \<notin> set (pe_Entity p)"
    using assms by (auto simp: wf_peer_def encodePeer_def encode_labels_no_colon dest: plain_no_colon)
  then show thesis
    by cases (rule that, assumption, simp, assumption)+
qed

definition l7_suffix :: "rule_key \<Rightarrow> string" where
  "l7_suffix k = (case rk_L7 k of None \<Rightarrow> [] | Some d \<Rightarrow> '':l7='' @ encodeL7 d)"

lemma RuleKey_String_split:
  "RuleKey_String k =
     rk_Direction k @ CHR '':'' # encodePeer (rk_Peer k) @ CHR '':'' # rk_Protocol k @ CHR '':'' #
       rk_Port k @ l7_suffix k"
  by (simp add: RuleKey_String_def l7_suffix_def split: option.splits)

lemma port_suffix_inject:
  assumes "CHR '':'' \<notin> set p" "CHR '':'' \<notin> set q"
    and "p @ l7_suffix k = q @ l7_suffix k'"
  shows "p = q \<and> l7_suffix k = l7_suffix k'"
proof -
  have suf: "l7_suffix x = [] \<or> (\<exists>r. l7_suffix x = CHR '':'' # r)" for x
    by (auto simp: l7_suffix_def split: option.splits)
  have "CHR '':'' \<in> set (p @ l7_suffix k) \<longleftrightarrow> l7_suffix k \<noteq> []"
    using suf [of k] assms(1) by auto
  moreover have "CHR '':'' \<in> set (q @ l7_suffix k') \<longleftrightarrow> l7_suffix k' \<noteq> []"
    using suf [of k'] assms(2) by auto
  ultimately have "l7_suffix k = [] \<longleftrightarrow> l7_suffix k' = []"
    using assms(3) by metis
  then show ?thesis
    using suf [of k] suf [of k'] assms by (auto simp: append_sep_inject)
qed

lemma RuleKey_String_inject:
  assumes "wf_rule_key k" "wf_rule_key k'" "RuleKey_String k = RuleKey_String k'"
  shows "k = k'"
proof -
  have wf: "wf_peer (rk_Peer k)" "wf_peer (rk_Peer k')"
    "CHR '':'' \<notin> set (rk_Protocol k)" "CHR '':'' \<notin> set (rk_Protocol k')"
    "CHR '':'' \<notin> set (rk_Port k)" "CHR '':'' \<notin> set (rk_Port k')"
    "CHR '':'' \<notin> set (rk_Direction k)" "CHR '':'' \<notin> set (rk_Direction k')"
    using assms(1,2) by (auto simp: wf_rule_key_def plain_def)
  obtain t b where tb: "encodePeer (rk_Peer k) = t @ CHR '':'' # b"
      "CHR '':'' \<notin> set t" "CHR '':'' \<notin> set b"
    using encodePeer_split [OF wf(1)] .
  obtain t' b' where tb': "encodePeer (rk_Peer k') = t' @ CHR '':'' # b'"
      "CHR '':'' \<notin> set t'" "CHR '':'' \<notin> set b'"
    using encodePeer_split [OF wf(2)] .
  have dir: "rk_Direction k = rk_Direction k'" and peer: "t = t'" "b = b'"
    and proto: "rk_Protocol k = rk_Protocol k'"
    and rest: "rk_Port k @ l7_suffix k = rk_Port k' @ l7_suffix k'"
    using assms(3) wf tb tb' by (auto simp: RuleKey_String_split append_sep_inject)
  from peer tb tb' have "rk_Peer k = rk_Peer k'"
    using encodePeer_inject wf by simp
  moreover from rest wf have port: "rk_Port k = rk_Port k'" and l7: "l7_suffix k = l7_suffix k'"
    using port_suffix_inject by blast+
  moreover from l7 assms(1,2) have "rk_L7 k = rk_L7 k'"
    by (auto simp: l7_suffix_def wf_rule_key_def split: option.splits intro: encodeL7_inject)
  ultimately show ?thesis using dir proto by (intro rule_key.equality) simp_all
qed

end
