(* ===== verification/Collapse.thy ===== *)
theory Collapse
  imports Regex Attribution "HOL-Library.Product_Lexorder"
begin

text \<open>
  \<open>pkg/policy/l7_collapse.go\<close>: the HTTP path generaliser behind
  \<open>--l7-collapse-paths\<close>.  Observed literal paths are grouped by method and segment
  count; positions where the observed segments vary inside one generalisable class
  become character-class fragments, if enough distinct paths back the template.  A set
  of paths is a list without duplicates; a Go map whose keys are read in sorted order is
  sorted where it is read.
\<close>

section \<open>Segment classes\<close>

datatype segmentClass = segWord | segNumeric | segHexPrefix | segHexRun | segUUID | segVersion

definition uuidSegmentRe :: string where
  "uuidSegmentRe = ''^[0-9a-fA-F]{8}-[0-9a-fA-F]{4}-[0-9a-fA-F]{4}-[0-9a-fA-F]{4}-[0-9a-fA-F]{12}$''"

definition hexPrefixSegmentRe :: string where "hexPrefixSegmentRe = ''^0x[0-9a-fA-F]+$''"
definition numericSegmentRe :: string where "numericSegmentRe = ''^[0-9]+$''"
definition hexRunSegmentRe :: string where "hexRunSegmentRe = ''^[0-9a-fA-F]{6,}$''"
definition versionSegmentRe :: string where "versionSegmentRe = ''^v[0-9]+$''"

definition classifyPathSegment :: "string \<Rightarrow> segmentClass" where
  "classifyPathSegment seg =
     (if re_match uuidSegmentRe seg then segUUID
      else if re_match hexPrefixSegmentRe seg then segHexPrefix
      else if re_match numericSegmentRe seg then segNumeric
      else if re_match hexRunSegmentRe seg \<and> list_ex is_digit seg then segHexRun
      else if re_match versionSegmentRe seg then segVersion
      else segWord)"

fun generalizable :: "segmentClass \<Rightarrow> bool" where
  "generalizable segNumeric = True"
| "generalizable segHexPrefix = True"
| "generalizable segHexRun = True"
| "generalizable segUUID = True"
| "generalizable _ = False"

fun patternFragment :: "segmentClass \<Rightarrow> string" where
  "patternFragment segNumeric = ''[0-9]+''"
| "patternFragment segHexPrefix = ''0x[0-9a-fA-F]+''"
| "patternFragment segHexRun = ''[0-9a-fA-F]+''"
| "patternFragment segUUID = ''[0-9a-fA-F]{8}-[0-9a-fA-F]{4}-[0-9a-fA-F]{4}-[0-9a-fA-F]{4}-[0-9a-fA-F]{12}''"
| "patternFragment _ = []"

section \<open>The observation store\<close>

text \<open>Method to observed raw paths; a path is added if it is new.\<close>

type_synonym l7_path_set = "(string \<times> string list) list"

record collapse_state =
  cs_Retained :: "(string \<times> l7_path_set) list"
  cs_Collected :: "(string \<times> l7_path_set) list"

definition NewL7CollapseState :: collapse_state where
  "NewL7CollapseState = \<lparr>cs_Retained = [], cs_Collected = []\<rparr>"

definition observe :: "string \<Rightarrow> string \<Rightarrow> string \<Rightarrow> collapse_state \<Rightarrow> collapse_state" where
  "observe obsKey method rawPath s =
     s\<lparr>cs_Collected :=
         upsert obsKey [] (upsert method [] (add_new id rawPath)) (cs_Collected s)\<rparr>"

text \<open>The loop over the methods of one path set, adding its paths into another.\<close>

definition add_path_set :: "l7_path_set \<Rightarrow> l7_path_set \<Rightarrow> l7_path_set" where
  "add_path_set ps out =
     fold (\<lambda>(method, paths) out. upsert method [] (\<lambda>m. merge_new id m paths) out) ps out"

definition Absorb :: "collapse_state \<Rightarrow> collapse_state" where
  "Absorb s =
     \<lparr>cs_Retained =
        fold (\<lambda>(obsKey, collected) ret. upsert obsKey [] (add_path_set collected) ret)
          (cs_Collected s) (cs_Retained s),
      cs_Collected = []\<rparr>"

definition mergeL7PathSets :: "l7_path_set list \<Rightarrow> l7_path_set" where
  "mergeL7PathSets sets = fold add_path_set sets []"

definition collapseObsKey :: "string \<Rightarrow> string \<Rightarrow> string \<Rightarrow> string" where
  "collapseObsKey direction peerKey portProtoKey = direction @ ''|'' @ peerKey @ ''|'' @ portProtoKey"

definition DefaultMinFlowsPerL7Rule :: int where "DefaultMinFlowsPerL7Rule = 5"

definition ResolveMinFlowsPerL7Rule :: "int \<Rightarrow> int" where
  "ResolveMinFlowsPerL7Rule n = (if n < 1 then DefaultMinFlowsPerL7Rule else n)"

definition maxL7TemplatePatternLen :: nat where "maxL7TemplatePatternLen = 256"

section \<open>Collapsing one observation set\<close>

definition splitPathSegments :: "string \<Rightarrow> string list" where
  "splitPathSegments p = split_on CHR ''/'' (trim_prefix p ''/'')"

definition literalAnchoredRule :: "string \<Rightarrow> string" where
  "literalAnchoredRule rawPath = (if rawPath = [] then ''^/$'' else ''^'' @ QuoteMeta rawPath @ ''$'')"

definition rawPathFromURL :: "externals \<Rightarrow> string \<Rightarrow> string" where
  "rawPathFromURL E rawURL =
     (if rawURL = [] then []
      else case ext_url_path E rawURL of
             Some (_, escapedPath) \<Rightarrow> escapedPath
           | None \<Rightarrow> cut_before CHR ''?'' (cut_before CHR ''#'' rawURL))"

text \<open>
  The analysis of one position: the fragment, if the column of segments at it has at
  least two values and all share the generalisable class of the first.
\<close>

definition class_position :: "string list \<Rightarrow> string option" where
  "class_position column =
     (if length (remdups column) < 2 then None
      else let cls = classifyPathSegment (hd column)
           in if \<not> generalizable cls then None
              else if list_all (\<lambda>v. classifyPathSegment v = cls) column then Some (patternFragment cls)
              else None)"

definition literal_segments :: "string option list \<Rightarrow> string list \<Rightarrow> string list" where
  "literal_segments classFrag segs =
     map2 (\<lambda>fr seg. case fr of Some frag \<Rightarrow> frag | None \<Rightarrow> QuoteMeta seg) classFrag segs"

definition template_pattern :: "string list \<Rightarrow> string" where
  "template_pattern litSegs = ''^/'' @ join ''/'' litSegs @ ''$''"

definition literal_rules :: "string \<Rightarrow> string list \<Rightarrow> http_rule list" where
  "literal_rules method paths = map (\<lambda>p. http_entry method (literalAnchoredRule p)) paths"

text \<open>The clusters: signature to (pattern, paths), in order of first signature.\<close>

definition cluster_paths :: "string option list \<Rightarrow> string list \<Rightarrow> (string \<times> string \<times> string list) list" where
  "cluster_paths classFrag groupPaths =
     fold (\<lambda>p cs.
         let litSegs = literal_segments classFrag (splitPathSegments p)
         in upsert (join [CHR 0x00] litSegs) (template_pattern litSegs, [])
              (\<lambda>(pattern, ps). (pattern, ps @ [p])) cs)
       groupPaths []"

definition emit_cluster :: "string \<Rightarrow> int \<Rightarrow> string \<times> string list \<Rightarrow> http_rule list" where
  "emit_cluster method minDistinct c =
     (case c of (pattern, paths) \<Rightarrow>
        if minDistinct \<le> int (length paths) \<and> length pattern \<le> maxL7TemplatePatternLen
        then [http_entry method pattern]
        else literal_rules method paths)"

definition collapseSegmentCountGroup :: "string \<Rightarrow> string list \<Rightarrow> int \<Rightarrow> http_rule list" where
  "collapseSegmentCountGroup method groupPaths0 minDistinct =
     (let groupPaths = sort groupPaths0;
          segs = map splitPathSegments groupPaths;
          numSegs = (case segs of [] \<Rightarrow> 0 | s # _ \<Rightarrow> length s);
          classFrag = map (\<lambda>pos. class_position (map (\<lambda>s. s ! pos) segs)) [0..<numSegs]
      in if list_all (\<lambda>fr. fr = None) classFrag then literal_rules method groupPaths
         else concat (map (\<lambda>(sig, c). emit_cluster method minDistinct c)
                (cluster_paths classFrag groupPaths)))"

definition segment_count :: "string \<Rightarrow> nat" where
  "segment_count p = length (splitPathSegments p)"

definition collapseMethodPaths :: "string \<Rightarrow> string list \<Rightarrow> int \<Rightarrow> http_rule list" where
  "collapseMethodPaths method pathSet minDistinct =
     (let bySegCount = group_by segment_count pathSet
      in concat (map (\<lambda>n. collapseSegmentCountGroup method (get_or [] bySegCount n) minDistinct)
           (sort (map fst bySegCount))))"

definition CollapseHTTPPaths :: "l7_path_set \<Rightarrow> int \<Rightarrow> http_rule list" where
  "CollapseHTTPPaths paths minDistinct =
     sort_key (\<lambda>h. (hr_Method h, hr_Path h))
       (concat (map (\<lambda>method. collapseMethodPaths method (get_or [] paths method) minDistinct)
          (sort (map fst paths))))"

section \<open>Fragments and classes\<close>

abbreviation hex_class :: re_class where
  "hex_class \<equiv> [(CHR ''0'', CHR ''9''), (CHR ''a'', CHR ''f''), (CHR ''A'', CHR ''F'')]"

fun frag_items :: "segmentClass \<Rightarrow> re_item list" where
  "frag_items segNumeric = [([(CHR ''0'', CHR ''9'')], 1, True)]"
| "frag_items segHexPrefix = [lit_item CHR ''0'', lit_item CHR ''x'', (hex_class, 1, True)]"
| "frag_items segHexRun = [(hex_class, 1, True)]"
| "frag_items segUUID =
     [(hex_class, 8, False), lit_item CHR ''-'', (hex_class, 4, False), lit_item CHR ''-'',
      (hex_class, 4, False), lit_item CHR ''-'', (hex_class, 4, False), lit_item CHR ''-'',
      (hex_class, 12, False)]"
| "frag_items _ = []"

lemma is_digit_code:
  "is_digit CHR ''8''" "is_digit CHR ''4''" "is_digit CHR ''1''" "is_digit CHR ''2''" "is_digit CHR ''6''"
  "\<not> is_digit CHR ''}''" "\<not> is_digit CHR '',''"
  by (simp_all add: is_digit_iff)

lemma digits_val_code:
  "digits_val ''8'' = 8" "digits_val ''4'' = 4" "digits_val ''12'' = 12" "digits_val ''6'' = 6"
  by (simp_all add: digits_val_def digit_val_def)

lemma parse_items_class_plus:
  "parse_items (''[0-9a-fA-F]+'' @ t) = map_option ((#) (hex_class, 1, True)) (parse_items t)"
  "parse_items (''[0-9]+'' @ t) = map_option ((#) ([(CHR ''0'', CHR ''9'')], 1, True)) (parse_items t)"
  by (subst parse_items.simps, simp add: parse_quant_def)+

lemma parse_items_class_count:
  "parse_items (''[0-9a-fA-F]{8}'' @ t) = map_option ((#) (hex_class, 8, False)) (parse_items t)"
  "parse_items (''[0-9a-fA-F]{4}'' @ t) = map_option ((#) (hex_class, 4, False)) (parse_items t)"
  "parse_items (''[0-9a-fA-F]{12}'' @ t) = map_option ((#) (hex_class, 12, False)) (parse_items t)"
  "parse_items (''[0-9a-fA-F]{6,}'' @ t) = map_option ((#) (hex_class, 6, True)) (parse_items t)"
  by (subst parse_items.simps, simp add: parse_quant_def is_digit_code digits_val_code)+

lemma parse_items_dash:
  "no_quant t \<Longrightarrow> parse_items (''-'' @ t) = map_option ((#) (lit_item CHR ''-'')) (parse_items t)"
  using parse_items_plain [of "CHR ''-''" t] by (simp add: meta_chars_def)

lemma parse_uuid:
  "parse_items (''[0-9a-fA-F]{8}'' @ ''-'' @ ''[0-9a-fA-F]{4}'' @ ''-'' @ ''[0-9a-fA-F]{4}'' @ ''-''
      @ ''[0-9a-fA-F]{4}'' @ ''-'' @ ''[0-9a-fA-F]{12}'' @ t)
   = map_option (\<lambda>is. frag_items segUUID @ is) (parse_items t)"
  by (simp only: parse_items_class_count parse_items_dash no_quant_def option.map_comp)
    (simp add: parse_items_class_count [simplified] parse_items_dash [simplified] no_quant_def
      option.map_comp comp_def)

lemma parse_items_fragment:
  assumes "generalizable cls"
  shows "parse_items (patternFragment cls @ t) = map_option (\<lambda>is. frag_items cls @ is) (parse_items t)"
proof (cases cls)
  case segNumeric
  then show ?thesis using parse_items_class_plus(2) [of t] by (simp add: comp_def)
next
  case segHexPrefix
  have "parse_items (CHR ''0'' # CHR ''x'' # ''[0-9a-fA-F]+'' @ t) =
     map_option ((#) (lit_item CHR ''0'')) (map_option ((#) (lit_item CHR ''x''))
       (map_option ((#) (hex_class, 1, True)) (parse_items t)))"
    by (subst parse_items_plain, simp add: meta_chars_def, simp add: no_quant_def)
      (subst parse_items_plain, simp add: meta_chars_def, simp add: no_quant_def,
       simp only: parse_items_class_plus)
  then show ?thesis using segHexPrefix by (simp add: option.map_comp comp_def)
next
  case segHexRun
  then show ?thesis using parse_items_class_plus(1) [of t] by (simp add: comp_def)
next
  case segUUID
  then show ?thesis using parse_uuid [of t] by simp
qed (use assms in simp_all)

section \<open>What a fragment matches\<close>

lemma classify_hexrun_re:
  "re_match hexRunSegmentRe seg \<longleftrightarrow> items_match [(hex_class, 6, True)] seg"
  using parse_items_class_count(4) [of "''$''"] by (simp add: re_match_def hexRunSegmentRe_def)

lemma fragment_re:
  "generalizable cls \<Longrightarrow> re_match (''^'' @ patternFragment cls @ ''$'') seg \<longleftrightarrow> items_match (frag_items cls) seg"
  by (simp add: re_match_def parse_items_fragment del: patternFragment.simps frag_items.simps)

lemma class_re:
  "re_match uuidSegmentRe seg \<longleftrightarrow> items_match (frag_items segUUID) seg"
  "re_match hexPrefixSegmentRe seg \<longleftrightarrow> items_match (frag_items segHexPrefix) seg"
  "re_match numericSegmentRe seg \<longleftrightarrow> items_match (frag_items segNumeric) seg"
  using fragment_re [of segUUID seg] fragment_re [of segHexPrefix seg] fragment_re [of segNumeric seg]
  by (simp_all add: uuidSegmentRe_def hexPrefixSegmentRe_def numericSegmentRe_def del: frag_items.simps)

text \<open>A segment is in the language of the fragment of its class.\<close>

lemma fragment_matches_class:
  assumes "generalizable (classifyPathSegment seg)"
  shows "items_match (frag_items (classifyPathSegment seg)) seg"
proof -
  have "items_match [(hex_class, 6, True)] seg \<Longrightarrow> items_match [(hex_class, 1, True)] seg"
    by (auto simp: items_match_Cons)
  then show ?thesis
    using assms
    by (auto simp: classifyPathSegment_def class_re classify_hexrun_re
        simp del: frag_items.simps(1,2,4) items_match.simps split: if_splits)
qed

lemma items_match_no_slash:
  assumes "items_match is s" and "\<forall>(cl, n, rep) \<in> set is. \<not> in_class cl CHR ''/''"
  shows "CHR ''/'' \<notin> set s"
  using assms
proof (induction "is" arbitrary: s)
  case Nil
  then show ?case by simp
next
  case (Cons i "is")
  obtain cl n rep where i: "i = (cl, n, rep)" by (cases i)
  from Cons.prems(1) obtain t u where "s = t @ u" "list_all (in_class cl) t" "items_match is u"
    by (auto simp: i items_match_Cons)
  moreover from this Cons have "CHR ''/'' \<notin> set u" by auto
  ultimately show ?case
    using Cons.prems(2) by (auto simp: i list_all_iff)
qed

lemma fragment_no_slash: "items_match (frag_items cls) s \<Longrightarrow> CHR ''/'' \<notin> set s"
  by (erule items_match_no_slash) (cases cls; simp add: in_class_def less_eq_char_def)

section \<open>What a template matches\<close>

text \<open>The pattern of one segment: the fragment of its class, or the quoted segment.\<close>

fun seg_items :: "segmentClass option \<Rightarrow> string \<Rightarrow> re_item list" where
  "seg_items None seg = map (\<lambda>c. ([(c, c)], 1, False)) seg"
| "seg_items (Some cls) seg = frag_items cls"

fun path_items :: "segmentClass option list \<Rightarrow> string list \<Rightarrow> re_item list" where
  "path_items (c # c' # cs) (s # s' # ss) = seg_items c s @ lit_item CHR ''/'' # path_items (c' # cs) (s' # ss)"
| "path_items (c # cs) (s # ss) = seg_items c s"
| "path_items _ _ = []"

definition seg_pattern :: "segmentClass option \<Rightarrow> string \<Rightarrow> string" where
  "seg_pattern c seg = (case map_option patternFragment c of Some frag \<Rightarrow> frag | None \<Rightarrow> QuoteMeta seg)"

lemma literal_segments_patterns:
  "literal_segments (map (map_option patternFragment) cs) segs = map2 seg_pattern cs segs"
proof (induction cs arbitrary: segs)
  case Nil
  then show ?case by (simp add: literal_segments_def)
next
  case (Cons c cs)
  then show ?case
    by (cases segs) (simp_all add: literal_segments_def seg_pattern_def)
qed

abbreviation wf_class :: "segmentClass option \<Rightarrow> bool" where
  "wf_class c \<equiv> (case c of None \<Rightarrow> True | Some cls \<Rightarrow> generalizable cls)"

lemma no_quant_seg_pattern: "wf_class c \<Longrightarrow> no_quant t \<Longrightarrow> no_quant (seg_pattern c s @ t)"
  by (cases c; cases "the c") (auto simp: seg_pattern_def no_quant_QuoteMeta, auto simp: no_quant_def)

lemma parse_seg_pattern:
  assumes "wf_class c" and "no_quant t"
  shows "parse_items (seg_pattern c s @ t) = map_option (\<lambda>is. seg_items c s @ is) (parse_items t)"
  using assms
  by (cases c) (simp_all add: seg_pattern_def parse_items_QuoteMeta parse_items_fragment)

lemma no_quant_join:
  "list_all wf_class cs \<Longrightarrow> no_quant t \<Longrightarrow> no_quant (join ''/'' (map2 seg_pattern cs ss) @ t)"
proof (induction cs ss rule: path_items.induct)
  case (1 c c' cs s s' ss)
  then show ?case by (simp add: no_quant_seg_pattern no_quant_def [of "CHR ''/'' # _"])
qed (auto simp: no_quant_seg_pattern)

lemma parse_path:
  assumes "list_all wf_class cs"
  shows "parse_items (join ''/'' (map2 seg_pattern cs ss) @ ''$'') = Some (path_items cs ss)"
  using assms
proof (induction cs ss rule: path_items.induct)
  case (1 c c' cs s s' ss)
  have nq: "no_quant (join ''/'' (map2 seg_pattern (c' # cs) (s' # ss)) @ ''$'')"
    using "1.prems" by (intro no_quant_join) (auto simp: no_quant_def)
  have "parse_items (seg_pattern c s @ CHR ''/'' # join ''/'' (map2 seg_pattern (c' # cs) (s' # ss)) @ ''$'')
     = Some (path_items (c # c' # cs) (s # s' # ss))"
    using "1.prems" "1.IH" nq
    by (subst parse_seg_pattern, simp, simp add: no_quant_def)
      (subst parse_items_plain, simp add: meta_chars_def, simp, simp)
  then show ?case by simp
qed (auto simp: parse_seg_pattern no_quant_def)

text \<open>A path matches if its segments match one by one.\<close>

abbreviation segs_match :: "segmentClass option list \<Rightarrow> string list \<Rightarrow> string list \<Rightarrow> bool" where
  "segs_match cs ss qs \<equiv> length qs = length ss \<and>
     list_all2 (\<lambda>(c, s) q. items_match (seg_items c s) q) (zip cs ss) qs"

lemma path_items_match:
  assumes "length cs = length ss" and "ss \<noteq> []"
  shows "items_match (path_items cs ss) q \<longleftrightarrow> (\<exists>qs. q = join ''/'' qs \<and> segs_match cs ss qs)"
  using assms
proof (induction cs ss arbitrary: q rule: path_items.induct [case_names Many OneS OneC Nil1 Nil2])
  case (Many c c' cs s s' ss)
  have "items_match (path_items (c # c' # cs) (s # s' # ss)) q \<longleftrightarrow>
     (\<exists>t qs. q = t @ CHR ''/'' # join ''/'' qs \<and> items_match (seg_items c s) t
        \<and> segs_match (c' # cs) (s' # ss) qs)"
    using Many.prems Many.IH by (simp add: items_match_append items_match_lit_Cons [simplified]) blast
  also have "\<dots> \<longleftrightarrow> (\<exists>qs. q = join ''/'' qs \<and> segs_match (c # c' # cs) (s # s' # ss) qs)"
    (is "?l \<longleftrightarrow> ?r")
  proof
    assume ?l
    then obtain t qs where "q = t @ CHR ''/'' # join ''/'' qs" "items_match (seg_items c s) t"
      "segs_match (c' # cs) (s' # ss) qs" by blast
    then show ?r by (intro exI [of _ "t # qs"]) (cases qs; auto)
  next
    assume ?r
    then obtain qs where qs: "q = join ''/'' qs" "segs_match (c # c' # cs) (s # s' # ss) qs" by blast
    then show ?l
      by (cases qs; cases "tl qs") (auto intro!: exI [of _ "hd qs"] exI [of _ "tl qs"])
  qed
  finally show ?case .
next
  case (OneS c s ss)
  then show ?case by (cases ss) (auto simp: list_all2_Cons1 intro!: exI [of _ "[q]"])
next
  case (OneC c cs s)
  then show ?case by (cases cs) (auto simp: list_all2_Cons1 intro!: exI [of _ "[q]"])
qed auto

section \<open>Classes of the positions of a group\<close>

definition position_class :: "string list \<Rightarrow> segmentClass option" where
  "position_class column =
     (if length (remdups column) < 2 \<or> \<not> generalizable (classifyPathSegment (hd column))
         \<or> \<not> list_all (\<lambda>v. classifyPathSegment v = classifyPathSegment (hd column)) column
      then None else Some (classifyPathSegment (hd column)))"

lemma class_position_eq: "class_position column = map_option patternFragment (position_class column)"
  by (simp add: class_position_def position_class_def Let_def)

lemma position_class_Some:
  "position_class column = Some cls \<Longrightarrow>
     generalizable cls \<and> (\<forall>v \<in> set column. classifyPathSegment v = cls)"
  by (auto simp: position_class_def list_all_iff split: if_splits)

definition group_classes :: "string list \<Rightarrow> segmentClass option list" where
  "group_classes paths =
     map (\<lambda>pos. position_class (map (\<lambda>p. splitPathSegments p ! pos) paths))
       [0..<(case paths of [] \<Rightarrow> 0 | p # _ \<Rightarrow> segment_count p)]"

lemma wf_group_classes: "list_all wf_class (group_classes paths)"
  by (auto simp: group_classes_def list_all_iff dest: position_class_Some split: option.splits)

lemma length_group_classes:
  "\<forall>p \<in> set paths. segment_count p = n \<Longrightarrow> paths \<noteq> [] \<Longrightarrow> length (group_classes paths) = n"
  by (cases paths) (auto simp: group_classes_def)

lemma group_classes_nth:
  assumes "group_classes paths ! i = Some cls" and "i < length (group_classes paths)" and "p \<in> set paths"
  shows "generalizable cls \<and> classifyPathSegment (splitPathSegments p ! i) = cls"
  using assms position_class_Some [of "map (\<lambda>p. splitPathSegments p ! i) paths" cls]
  by (auto simp: group_classes_def)

section \<open>Templates of a group\<close>

definition path_pattern :: "segmentClass option list \<Rightarrow> string \<Rightarrow> string" where
  "path_pattern cs p = template_pattern (map2 seg_pattern cs (splitPathSegments p))"

lemma re_match_template:
  assumes "list_all wf_class cs" and "length cs = length ss" and "ss \<noteq> []"
  shows "re_match (template_pattern (map2 seg_pattern cs ss)) q \<longleftrightarrow>
     (\<exists>qs. q = CHR ''/'' # join ''/'' qs \<and> segs_match cs ss qs)"
proof -
  have "parse_items (CHR ''/'' # join ''/'' (map2 seg_pattern cs ss) @ ''$'')
     = Some (lit_item CHR ''/'' # path_items cs ss)"
    using parse_path [OF assms(1), of ss] no_quant_join [OF assms(1), of "''$''" ss]
    by (subst parse_items_plain) (auto simp: meta_chars_def no_quant_def)
  then show ?thesis
    by (auto simp: re_match_def template_pattern_def items_match_lit_Cons [simplified]
        path_items_match [OF assms(2,3)])
qed

lemma split_path_not_Nil [simp]: "splitPathSegments p \<noteq> []"
  by (simp add: splitPathSegments_def)

definition wf_path :: "string \<Rightarrow> bool" where
  "wf_path p \<longleftrightarrow> (case p of c # _ \<Rightarrow> c = CHR ''/'' | [] \<Rightarrow> False) \<and> CHR 0x00 \<notin> set p"

lemma trim_leading_slash [simp]: "trim_prefix (CHR ''/'' # p) ''/'' = p"
  by (simp add: trim_prefix_def has_prefix_def)

lemma join_splitPathSegments: "wf_path p \<Longrightarrow> p = CHR ''/'' # join ''/'' (splitPathSegments p)"
  by (cases p) (auto simp: wf_path_def splitPathSegments_def join_split_on)

text \<open>A path of the group matches its own template.\<close>

lemma path_pattern_self:
  assumes p: "p \<in> set paths" "wf_path p" and n: "\<forall>p \<in> set paths. segment_count p = n"
  shows "re_match (path_pattern (group_classes paths) p) p"
proof -
  let ?cs = "group_classes paths" and ?ss = "splitPathSegments p"
  have len: "length ?cs = length ?ss"
    using length_group_classes [OF n] p n by (fastforce simp: segment_count_def)
  have "items_match (seg_items (?cs ! i) (?ss ! i)) (?ss ! i)" if "i < length ?ss" for i
    using group_classes_nth [OF _ _ p(1), of i] that len fragment_matches_class [of "?ss ! i"]
    by (cases "?cs ! i") auto
  then have "segs_match ?cs ?ss ?ss"
    using len by (simp add: list_all2_conv_all_nth)
  then show ?thesis
    using join_splitPathSegments [OF p(2)]
    by (auto simp: path_pattern_def re_match_template [OF wf_group_classes len])
qed

text \<open>Two paths of one shape: each segment is the same or in the fragment of the other's class.\<close>

definition same_shape :: "string \<Rightarrow> string \<Rightarrow> bool" where
  "same_shape p q \<longleftrightarrow>
     list_all2 (\<lambda>a b. a = b \<or> (generalizable (classifyPathSegment a)
         \<and> re_match (''^'' @ patternFragment (classifyPathSegment a) @ ''$'') b))
       (splitPathSegments p) (splitPathSegments q)"

lemma path_pattern_shape:
  assumes p: "p \<in> set paths" and n: "\<forall>p \<in> set paths. segment_count p = n"
    and q: "re_match (path_pattern (group_classes paths) p) q"
  shows "same_shape p q"
proof -
  let ?cs = "group_classes paths" and ?ss = "splitPathSegments p"
  have len: "length ?cs = length ?ss"
    using length_group_classes [OF n] p n by (fastforce simp: segment_count_def)
  from q obtain qs where qs: "q = CHR ''/'' # join ''/'' qs" "segs_match ?cs ?ss qs"
    by (auto simp: path_pattern_def re_match_template [OF wf_group_classes len])
  have match: "items_match (seg_items (?cs ! i) (?ss ! i)) (qs ! i)" if "i < length qs" for i
  proof -
    have "list_all2 (\<lambda>(c, s) q. items_match (seg_items c s) q) (zip ?cs ?ss) qs" using qs(2) by blast
    from list_all2_nthD2 [OF this that] that qs(2) len show ?thesis by simp
  qed
  have lenqs: "length qs = length ?ss" using qs(2) by blast
  have seg: "?ss ! i = qs ! i \<or> (generalizable (classifyPathSegment (?ss ! i)) \<and>
      items_match (frag_items (classifyPathSegment (?ss ! i))) (qs ! i))" if "i < length qs" for i
    using match [OF that] group_classes_nth [OF _ _ p, of i] that len lenqs
    by (cases "?cs ! i") auto
  have "CHR ''/'' \<notin> set (qs ! i)" if "i < length qs" for i
  proof -
    have "?ss ! i \<in> set ?ss" using that lenqs by simp
    then have "CHR ''/'' \<notin> set (?ss ! i)"
      by (auto simp: splitPathSegments_def dest: split_on_parts)
    with seg [OF that] show ?thesis using fragment_no_slash by metis
  qed
  then have "\<forall>x \<in> set qs. CHR ''/'' \<notin> set x" by (auto simp: in_set_conv_nth)
  moreover have "qs \<noteq> []" using lenqs by (cases qs) auto
  ultimately have "splitPathSegments q = qs"
    by (simp add: qs(1) splitPathSegments_def split_on_join)
  then show ?thesis
    using seg lenqs unfolding same_shape_def by (simp add: list_all2_conv_all_nth) (metis fragment_re append.simps)
qed

section \<open>The clusters\<close>

text \<open>The segments a path is emitted with, and the signature it is clustered by.\<close>

definition lit_segs :: "segmentClass option list \<Rightarrow> string \<Rightarrow> string list" where
  "lit_segs cs p = map2 seg_pattern cs (splitPathSegments p)"

definition signature :: "segmentClass option list \<Rightarrow> string \<Rightarrow> string" where
  "signature cs p = join [CHR 0x00] (lit_segs cs p)"

lemma path_pattern_lit_segs: "path_pattern cs p = template_pattern (lit_segs cs p)"
  by (simp add: path_pattern_def lit_segs_def)

lemma cluster_paths_snoc:
  "cluster_paths (map (map_option patternFragment) cs) (ps @ [p]) =
     upsert (signature cs p) (path_pattern cs p, []) (\<lambda>(pattern, qs). (pattern, qs @ [p]))
       (cluster_paths (map (map_option patternFragment) cs) ps)"
  by (simp add: cluster_paths_def Let_def signature_def path_pattern_def lit_segs_def
      literal_segments_patterns)

lemma map_of_cluster_paths:
  "map_of (cluster_paths (map (map_option patternFragment) cs) ps) sig =
     (let qs = filter (\<lambda>p. signature cs p = sig) ps
      in if qs = [] then None else Some (path_pattern cs (hd qs), qs))"
proof (induction ps rule: rev_induct)
  case Nil
  then show ?case by (simp add: cluster_paths_def)
next
  case (snoc p ps)
  then show ?case
    by (auto simp: cluster_paths_snoc map_of_upsert get_or_def Let_def hd_append)
qed

lemma distinct_cluster_paths:
  "distinct (map fst (cluster_paths (map (map_option patternFragment) cs) ps))"
proof (induction ps rule: rev_induct)
  case Nil
  then show ?case by (simp add: cluster_paths_def)
next
  case (snoc p ps)
  then show ?case by (simp add: cluster_paths_snoc distinct_upsert)
qed

lemma cluster_paths_mem:
  "(sig, pattern, qs) \<in> set (cluster_paths (map (map_option patternFragment) cs) ps) \<longleftrightarrow>
     qs = filter (\<lambda>p. signature cs p = sig) ps \<and> qs \<noteq> [] \<and> pattern = path_pattern cs (hd qs)"
  using map_of_eq_Some_iff [OF distinct_cluster_paths, of cs ps sig "(pattern, qs)"]
  by (auto simp: map_of_cluster_paths Let_def split: if_splits)

text \<open>Without NUL bytes the signature determines the segments.\<close>

lemma set_QuoteMeta: "set (QuoteMeta s) \<subseteq> insert (CHR 0x5C) (set s)"
  by (induction s) auto

lemma lit_segs_no_NUL:
  assumes "wf_path p" and "x \<in> set (lit_segs cs p)"
  shows "CHR 0x00 \<notin> set x"
proof -
  from assms(2) obtain c seg where x: "x = seg_pattern c seg" "seg \<in> set (splitPathSegments p)"
    by (auto simp: lit_segs_def dest: set_zip_rightD)
  have "set seg \<subseteq> set (trim_prefix p ''/'')"
    using x(2) set_split_on_parts by (auto simp: splitPathSegments_def)
  then have "CHR 0x00 \<notin> set seg"
    using assms(1) set_drop_subset [of "length ''/''" p] by (auto simp: wf_path_def trim_prefix_def split: if_splits)
  then have "CHR 0x00 \<notin> set (QuoteMeta seg)"
    using set_QuoteMeta [of seg] by auto
  then show ?thesis
    by (cases c; cases "the c") (auto simp: x(1) seg_pattern_def)
qed

lemma signature_inject:
  assumes "wf_path p" "wf_path q" "segment_count p = segment_count q"
  shows "signature cs p = signature cs q \<longleftrightarrow> lit_segs cs p = lit_segs cs q"
proof
  assume "signature cs p = signature cs q"
  then show "lit_segs cs p = lit_segs cs q"
    unfolding signature_def
    using assms lit_segs_no_NUL
    by (intro join_inject_length [where c = "CHR 0x00"]) (auto simp: segment_count_def lit_segs_def)
qed (simp add: signature_def)

section \<open>The rules of one segment-count group\<close>

definition group_ok :: "nat \<Rightarrow> string list \<Rightarrow> bool" where
  "group_ok n paths \<longleftrightarrow> list_all (\<lambda>p. wf_path p \<and> segment_count p = n) paths"

lemma group_rules:
  "collapseSegmentCountGroup method paths0 minDistinct =
     (let paths = sort paths0; cs = group_classes paths
      in if list_all (\<lambda>c. c = None) cs then literal_rules method paths
         else concat (map (\<lambda>(sig, c). emit_cluster method minDistinct c)
                (cluster_paths (map (map_option patternFragment) cs) paths)))"
proof -
  have "map (map_option patternFragment) (group_classes paths) =
    (let segs = map splitPathSegments paths
     in map (\<lambda>pos. class_position (map (\<lambda>s. s ! pos) segs))
          [0..<(case segs of [] \<Rightarrow> 0 | s # _ \<Rightarrow> length s)])" for paths
    by (cases paths) (simp_all add: group_classes_def class_position_eq Let_def comp_def segment_count_def)
  note * = this [of "sort paths0", symmetric]
  have "list_all (\<lambda>fr. fr = None) (map (map_option patternFragment) cs) = list_all (\<lambda>c. c = None) cs" for cs
    by (simp add: list_all_iff)
  with * show ?thesis
    unfolding collapseSegmentCountGroup_def Let_def by simp
qed

lemma literalAnchored_match: "re_match (literalAnchoredRule p) q \<longleftrightarrow> q = (if p = [] then ''/'' else p)"
  using re_match_quoted [of "''/''" q] re_match_quoted [of p q]
  by (auto simp: literalAnchoredRule_def meta_chars_def)

lemma hr_http_entry [simp]: "hr_Method (http_entry m p) = m" "hr_Path (http_entry m p) = p"
  by simp_all

lemma wf_path_not_Nil: "wf_path p \<Longrightarrow> p \<noteq> []"
  by (auto simp: wf_path_def)

lemma literal_rules_cover:
  "p \<in> set ps \<Longrightarrow> wf_path p \<Longrightarrow> \<exists>h \<in> set (literal_rules method ps). re_match (hr_Path h) p"
  by (intro bexI [of _ "http_entry method (literalAnchoredRule p)"])
    (simp_all add: literal_rules_def literalAnchored_match wf_path_not_Nil)

lemma literal_rules_only:
  assumes "h \<in> set (literal_rules method ps)" and "\<forall>p \<in> set ps. wf_path p" and "re_match (hr_Path h) q"
  shows "hr_Method h = method \<and> q \<in> set ps"
proof -
  from assms(1) obtain p where "p \<in> set ps" "h = http_entry method (literalAnchoredRule p)"
    by (auto simp: literal_rules_def)
  with assms(2,3) show ?thesis by (simp add: literalAnchored_match wf_path_not_Nil)
qed

text \<open>Every path of the group is matched by a rule, and every rule is of this method.\<close>

lemma group_covers:
  assumes "group_ok n paths0" and "p \<in> set paths0"
  shows "\<exists>h \<in> set (collapseSegmentCountGroup method paths0 minDistinct). re_match (hr_Path h) p"
proof -
  let ?paths = "sort paths0" let ?cs = "group_classes ?paths"
  let ?qs = "filter (\<lambda>q. signature ?cs q = signature ?cs p) ?paths"
  have p: "p \<in> set ?paths" and wf: "\<forall>q \<in> set ?paths. wf_path q \<and> segment_count q = n"
    using assms by (auto simp: group_ok_def list_all_iff)
  have lit: "\<exists>h \<in> set (literal_rules method ps). re_match (hr_Path h) p" if "p \<in> set ps" for ps
    using that wf p by (simp add: literal_rules_cover)
  have "?qs \<noteq> []" using p by (auto simp: filter_empty_conv)
  then have "hd ?qs \<in> set ?qs" by (rule hd_in_set)
  then have "hd ?qs \<in> set ?paths" "signature ?cs (hd ?qs) = signature ?cs p" by auto
  then have "lit_segs ?cs (hd ?qs) = lit_segs ?cs p"
    using signature_inject [of "hd ?qs" p ?cs] wf p by auto
  then have pat: "path_pattern ?cs (hd ?qs) = path_pattern ?cs p" by (simp add: path_pattern_lit_segs)
  have "\<exists>h \<in> set (emit_cluster method minDistinct (path_pattern ?cs (hd ?qs), ?qs)). re_match (hr_Path h) p"
  proof (cases "minDistinct \<le> int (length ?qs) \<and> length (path_pattern ?cs (hd ?qs)) \<le> maxL7TemplatePatternLen")
    case True
    have "re_match (path_pattern ?cs p) p" using p wf by (intro path_pattern_self) auto
    with True show ?thesis by (simp add: emit_cluster_def pat)
  next
    case False
    have "p \<in> set ?qs" using p by simp
    from lit [OF this] False show ?thesis by (auto simp only: emit_cluster_def split_conv if_False)
  qed
  moreover have "(signature ?cs p, path_pattern ?cs (hd ?qs), ?qs)
     \<in> set (cluster_paths (map (map_option patternFragment) ?cs) ?paths)"
    using \<open>?qs \<noteq> []\<close> by (simp only: cluster_paths_mem) simp
  ultimately show ?thesis
    using lit [OF p] unfolding group_rules Let_def by (auto intro!: bexI)
qed

text \<open>
  A path a rule matches is an observed one, or the rule is a template of bounded length
  backed by \<open>minDistinct\<close> observed paths of the same shape.
\<close>

lemma group_tight:
  assumes ok: "group_ok n paths0" and d: "distinct paths0"
    and h: "h \<in> set (collapseSegmentCountGroup method paths0 minDistinct)" and m: "re_match (hr_Path h) q"
  shows "hr_Method h = method \<and> (q \<in> set paths0 \<or>
     (length (hr_Path h) \<le> maxL7TemplatePatternLen \<and>
      minDistinct \<le> int (card {p \<in> set paths0. same_shape p q})))"
proof -
  let ?paths = "sort paths0" let ?cs = "group_classes ?paths"
  have wf: "\<forall>q \<in> set ?paths. wf_path q \<and> segment_count q = n"
    using ok by (auto simp: group_ok_def list_all_iff)
  have lit: "hr_Method h = method \<and> q \<in> set paths0"
    if "h \<in> set (literal_rules method ps)" "set ps \<subseteq> set paths0" for ps
    using literal_rules_only [OF that(1) _ m] that(2) wf by auto
  show ?thesis
  proof (cases "list_all (\<lambda>c. c = None) ?cs")
    case True
    then show ?thesis using h lit [of ?paths] by (simp add: group_rules Let_def)
  next
    case False
    then obtain sig pattern ps where
      c: "(sig, pattern, ps) \<in> set (cluster_paths (map (map_option patternFragment) ?cs) ?paths)"
      and e: "h \<in> set (emit_cluster method minDistinct (pattern, ps))"
      using h by (auto simp: group_rules Let_def)
    have ps: "ps = filter (\<lambda>p. signature ?cs p = sig) ?paths" "ps \<noteq> []"
      and pat: "pattern = path_pattern ?cs (hd ps)"
      using c unfolding cluster_paths_mem by blast+
    have sub: "set ps \<subseteq> set paths0" using ps(1) by auto
    show ?thesis
    proof (cases "minDistinct \<le> int (length ps) \<and> length pattern \<le> maxL7TemplatePatternLen")
      case False
      then show ?thesis using e lit [OF _ sub] by (simp add: emit_cluster_def split: if_splits)
    next
      case True
      with e have hh: "hr_Method h = method" "hr_Path h = pattern" by (auto simp: emit_cluster_def)
      have "same_shape p q" if "p \<in> set ps" for p
      proof -
        have "hd ps \<in> set ps" using ps(2) by simp
        with that have "signature ?cs p = sig" "signature ?cs (hd ps) = sig" "p \<in> set ?paths" "hd ps \<in> set ?paths"
          unfolding ps(1) by auto
        then have "lit_segs ?cs p = lit_segs ?cs (hd ps)"
          using signature_inject [of p "hd ps" ?cs] wf by auto
        then have "re_match (path_pattern ?cs p) q"
          using m hh(2) pat by (simp add: path_pattern_lit_segs)
        with path_pattern_shape [of p ?paths n q] wf \<open>p \<in> set ?paths\<close> show ?thesis by blast
      qed
      then have "set ps \<subseteq> {p \<in> set paths0. same_shape p q}" using sub by auto
      then have "card (set ps) \<le> card {p \<in> set paths0. same_shape p q}" by (intro card_mono) auto
      moreover have "distinct ps" using d by (simp add: ps(1))
      ultimately show ?thesis using True hh by (auto simp: distinct_card)
    qed
  qed
qed

section \<open>The rules of one observation set\<close>

lemma get_or_mem: "distinct (map fst m) \<Longrightarrow> (k, v) \<in> set m \<Longrightarrow> get_or d m k = v"
  by (simp add: get_or_def)

lemma method_rules_mem:
  "h \<in> set (collapseMethodPaths method paths minDistinct) \<longleftrightarrow>
     (\<exists>n \<in> segment_count ` set paths. h \<in> set (collapseSegmentCountGroup method
        (filter (\<lambda>p. segment_count p = n) paths) minDistinct))"
  by (simp add: collapseMethodPaths_def Let_def get_group_by keys_group_by)

lemma rules_mem:
  assumes "distinct (map fst ps)"
  shows "h \<in> set (CollapseHTTPPaths ps minDistinct) \<longleftrightarrow>
     (\<exists>(method, paths) \<in> set ps. h \<in> set (collapseMethodPaths method paths minDistinct))"
proof -
  have "(\<exists>x \<in> set ps. h \<in> set (collapseMethodPaths (fst x) (get_or [] ps (fst x)) minDistinct))
     \<longleftrightarrow> (\<exists>x \<in> set ps. h \<in> set (collapseMethodPaths (fst x) (snd x) minDistinct))"
    using get_or_mem [OF assms] by (intro bex_cong refl) (metis prod.collapse)
  then show ?thesis by (simp add: CollapseHTTPPaths_def case_prod_beta)
qed

lemma group_ok_filter:
  "list_all wf_path paths \<Longrightarrow> group_ok n (filter (\<lambda>p. segment_count p = n) paths)"
  by (auto simp: group_ok_def list_all_iff)

definition wf_path_set :: "l7_path_set \<Rightarrow> bool" where
  "wf_path_set ps \<longleftrightarrow> distinct (map fst ps)
     \<and> list_all (\<lambda>(method, paths). distinct paths \<and> list_all wf_path paths) ps"

lemma rules_cover:
  assumes wf: "wf_path_set ps" and "(mth, paths) \<in> set ps" and "p \<in> set paths"
  shows "\<exists>h \<in> set (CollapseHTTPPaths ps minDistinct). hr_Method h = mth \<and> re_match (hr_Path h) p"
proof -
  let ?g = "filter (\<lambda>q. segment_count q = segment_count p) paths"
  have d: "distinct (map fst ps)" and ok: "group_ok (segment_count p) ?g" "distinct ?g"
    using assms(1,2) by (auto simp: wf_path_set_def list_all_iff intro!: group_ok_filter)
  from group_covers [OF ok(1), of p mth minDistinct] assms(3) obtain h
    where h: "h \<in> set (collapseSegmentCountGroup mth ?g minDistinct)" "re_match (hr_Path h) p" by auto
  with group_tight [OF ok h(1,2)] have "hr_Method h = mth" by blast
  moreover have "h \<in> set (CollapseHTTPPaths ps minDistinct)"
    using h(1) assms(2,3) by (auto simp: rules_mem [OF d] method_rules_mem)
  ultimately show ?thesis using h(2) by blast
qed

definition witness_paths :: l7_path_set where
  "witness_paths =
     [(''GET'', [''/u/1'', ''/u/22'', ''/u/3'']), (''PUT'', [''/u/1''])]"

text \<open>C33: No observed path is lost: every path observed for a method is matched by a rule the
  generaliser emits for that method, whatever the threshold, for sets of observed paths in which methods
  and, per method, paths are distinct and every path starts with a slash and holds no NUL.\<close>

theorem CollapseHTTPPaths_covers:
  assumes "wf_path_set ps" and "(method, paths) \<in> set ps" and "p \<in> set paths"
  shows "\<exists>h \<in> set (CollapseHTTPPaths ps minDistinct). hr_Method h = method \<and> re_match (hr_Path h) p"
  using assms by (rule rules_cover)

theorem CollapseHTTPPaths_covers_witness:
  "\<exists>h \<in> set (CollapseHTTPPaths witness_paths 3). hr_Method h = ''GET'' \<and> re_match (hr_Path h) ''/u/22''"
  by (rule CollapseHTTPPaths_covers
      [of witness_paths "''GET''" "[''/u/1'', ''/u/22'', ''/u/3'']" "''/u/22''" 3])
    (code_simp, code_simp, code_simp)

text \<open>C34: Least privilege of the generaliser: a path matched by an emitted rule was observed for the
  rule's method, or the rule is a template of at most 256 bytes backed by at least the threshold of
  distinct observed paths that have the path's shape, segment for segment; for sets of observed paths in which
  methods and, per method, paths are distinct and every path starts with a slash and holds no NUL.\<close>

theorem CollapseHTTPPaths_tight:
  assumes wf: "wf_path_set ps" and h: "h \<in> set (CollapseHTTPPaths ps minDistinct)"
    and m: "re_match (hr_Path h) q"
  shows "\<exists>paths. (hr_Method h, paths) \<in> set ps \<and>
     (q \<in> set paths \<or> (length (hr_Path h) \<le> maxL7TemplatePatternLen \<and>
        minDistinct \<le> int (card {p \<in> set paths. same_shape p q})))"
proof -
  have d: "distinct (map fst ps)" using wf by (simp add: wf_path_set_def)
  from h obtain mth paths n where ps: "(mth, paths) \<in> set ps"
    and g: "h \<in> set (collapseSegmentCountGroup mth (filter (\<lambda>p. segment_count p = n) paths) minDistinct)"
    by (auto simp: rules_mem [OF d] method_rules_mem)
  let ?g = "filter (\<lambda>p. segment_count p = n) paths"
  have ok: "group_ok n ?g" "distinct ?g"
    using wf ps by (auto simp: wf_path_set_def list_all_iff intro!: group_ok_filter)
  have "card {p \<in> set ?g. same_shape p q} \<le> card {p \<in> set paths. same_shape p q}"
    by (intro card_mono) auto
  with group_tight [OF ok g m] ps show ?thesis by (auto intro!: exI [of _ paths])
qed

theorem CollapseHTTPPaths_tight_witness:
  "\<exists>paths. (hr_Method (http_entry ''GET'' ''^/u/[0-9]+$''), paths) \<in> set witness_paths \<and>
     (''/u/77'' \<in> set paths \<or> (length (hr_Path (http_entry ''GET'' ''^/u/[0-9]+$'')) \<le> maxL7TemplatePatternLen \<and>
        3 \<le> int (card {p \<in> set paths. same_shape p ''/u/77''})))"
  by (rule CollapseHTTPPaths_tight [of witness_paths "http_entry ''GET'' ''^/u/[0-9]+$''" 3 "''/u/77''"])
    (code_simp, code_simp, code_simp)

section \<open>Order independence\<close>

text \<open>Two path sets with the same paths per method, in whatever order they were collected.\<close>

definition same_paths :: "l7_path_set \<Rightarrow> l7_path_set \<Rightarrow> bool" where
  "same_paths ps qs \<longleftrightarrow> distinct (map fst ps) \<and> distinct (map fst qs) \<and> fst ` set ps = fst ` set qs \<and>
     (\<forall>method \<in> fst ` set ps. distinct (get_or [] ps method) \<and> distinct (get_or [] qs method)
        \<and> set (get_or [] ps method) = set (get_or [] qs method))"

lemma sort_eq_sets: "distinct xs \<Longrightarrow> distinct ys \<Longrightarrow> set xs = set ys \<Longrightarrow> sort xs = sort ys"
  by (intro sorted_distinct_set_unique) simp_all

lemma collapseMethodPaths_order:
  assumes "distinct xs" "distinct ys" "set xs = set ys"
  shows "collapseMethodPaths method xs minDistinct = collapseMethodPaths method ys minDistinct"
proof -
  have "sort (filter P xs) = sort (filter P ys)" for P
    using assms by (intro sort_eq_sets) auto
  then have "collapseSegmentCountGroup method (filter P xs) minDistinct
     = collapseSegmentCountGroup method (filter P ys) minDistinct" for P
    by (simp add: group_rules)
  moreover have "sort (map fst (group_by segment_count xs)) = sort (map fst (group_by segment_count ys))"
    using assms(3) by (intro sort_eq_sets) (simp_all add: distinct_group_by keys_group_by)
  ultimately show ?thesis
    by (simp add: collapseMethodPaths_def Let_def get_group_by)
qed

text \<open>The generalised rules are deterministic: they depend on which paths were observed for each
  method, not on the order in which flows reported them.\<close>

theorem CollapseHTTPPaths_order_independent:
  assumes "same_paths ps qs"
  shows "CollapseHTTPPaths ps minDistinct = CollapseHTTPPaths qs minDistinct"
proof -
  have "sort (map fst ps) = sort (map fst qs)"
    using assms by (intro sort_eq_sets) (auto simp: same_paths_def)
  moreover have "collapseMethodPaths mth (get_or [] ps mth) minDistinct
     = collapseMethodPaths mth (get_or [] qs mth) minDistinct" if "mth \<in> fst ` set qs" for mth
    using assms that unfolding same_paths_def by (intro collapseMethodPaths_order) metis+
  ultimately show ?thesis
    unfolding CollapseHTTPPaths_def by (intro arg_cong [of _ _ "sort_key _"] arg_cong [of _ _ concat]) auto
qed

theorem CollapseHTTPPaths_order_independent_witness:
  "CollapseHTTPPaths [(''PUT'', [''/u/1'']), (''GET'', [''/u/3'', ''/u/1'', ''/u/22''])] 3
     = CollapseHTTPPaths witness_paths 3"
  by (rule CollapseHTTPPaths_order_independent) code_simp

section \<open>The observation store keeps every path\<close>

definition wf_store :: "(string \<times> l7_path_set) list \<Rightarrow> bool" where
  "wf_store st \<longleftrightarrow> distinct (map fst st) \<and> (\<forall>(k, ps) \<in> set st. distinct (map fst ps))"

definition wf_collapse :: "collapse_state \<Rightarrow> bool" where
  "wf_collapse s \<longleftrightarrow> wf_store (cs_Retained s) \<and> wf_store (cs_Collected s)"

definition stored :: "(string \<times> l7_path_set) list \<Rightarrow> string \<Rightarrow> string \<Rightarrow> string set" where
  "stored st obsKey method = set (get_or [] (get_or [] st obsKey) method)"

text \<open>The paths a policy is generated from: \<open>mergeL7PathSets(Retained[k], collected[k])\<close>.\<close>

definition known_paths :: "collapse_state \<Rightarrow> string \<Rightarrow> string \<Rightarrow> string set" where
  "known_paths s obsKey method =
     set (get_or [] (mergeL7PathSets [get_or [] (cs_Retained s) obsKey, get_or [] (cs_Collected s) obsKey]) method)"

lemma get_or_absent: "k \<notin> fst ` set m \<Longrightarrow> get_or d m k = d"
  by (simp add: get_or_def map_of_eq_None_iff [THEN iffD2])

lemma get_add_path_set:
  "distinct (map fst ps) \<Longrightarrow>
     set (get_or [] (add_path_set ps out) m) = set (get_or [] out m) \<union> set (get_or [] ps m)"
proof (induction ps arbitrary: out)
  case Nil
  then show ?case by (simp add: add_path_set_def get_or_def)
next
  case (Cons a ps)
  obtain k paths where a: "a = (k, paths)" by (cases a)
  have step: "add_path_set ((k, paths) # ps) out = add_path_set ps (upsert k [] (\<lambda>m. merge_new id m paths) out)"
    by (simp add: add_path_set_def)
  have "get_or [] ps k = []" using Cons.prems by (intro get_or_absent) (simp add: a)
  moreover have "get_or [] ((k, paths) # ps) m = (if m = k then paths else get_or [] ps m)"
    by (auto simp: get_or_def a)
  ultimately show ?case
    using Cons.prems by (auto simp: step Cons.IH get_or_upsert a set_merge_new_inj)
qed

lemma distinct_add_path_set: "distinct (map fst (add_path_set ps out)) \<longleftrightarrow> distinct (map fst out)"
proof (induction ps arbitrary: out)
  case Nil
  then show ?case by (simp add: add_path_set_def)
next
  case (Cons a ps)
  obtain k paths where a: "a = (k, paths)" by (cases a)
  have "add_path_set (a # ps) out = add_path_set ps (upsert k [] (\<lambda>m. merge_new id m paths) out)"
    by (simp add: add_path_set_def a)
  then show ?case by (simp only: Cons.IH distinct_upsert)
qed

lemma wf_store_get: "wf_store st \<Longrightarrow> distinct (map fst (get_or [] st k))"
  by (cases "map_of st k") (auto simp: wf_store_def get_or_def dest: map_of_SomeD)

lemma known_paths_eq:
  "wf_collapse s \<Longrightarrow> known_paths s k m = stored (cs_Retained s) k m \<union> stored (cs_Collected s) k m"
  by (simp add: known_paths_def mergeL7PathSets_def get_add_path_set wf_store_get wf_collapse_def stored_def)
    (simp add: get_or_def)

lemma wf_store_upsert:
  assumes "wf_store st" and "\<And>ps. distinct (map fst ps) \<Longrightarrow> distinct (map fst (f ps))"
  shows "wf_store (upsert k [] f st)"
  using assms upsert_values [where P = "\<lambda>ps. distinct (map fst ps)" and d = "[]" and f = f and m = st and k = k]
  by (force simp: wf_store_def distinct_upsert)

lemma stored_fold:
  assumes "distinct (map fst col)" and "\<forall>(k, ps) \<in> set col. distinct (map fst ps)" and "wf_store ret"
  shows "wf_store (fold (\<lambda>(k, ps) ret. upsert k [] (add_path_set ps) ret) col ret) \<and>
     stored (fold (\<lambda>(k, ps) ret. upsert k [] (add_path_set ps) ret) col ret) key m
       = stored ret key m \<union> stored col key m"
  using assms
proof (induction col arbitrary: ret)
  case Nil
  then show ?case by (simp add: stored_def get_or_def)
next
  case (Cons a col)
  obtain k ps where a: "a = (k, ps)" by (cases a)
  have wf: "wf_store (upsert k [] (add_path_set ps) ret)"
    using Cons.prems(3) by (rule wf_store_upsert) (simp add: distinct_add_path_set)
  have "get_or [] col k = []"
    using Cons.prems(1) by (intro get_or_absent) (simp add: a)
  then have "stored ret key m \<union> stored (a # col) key m
     = stored (upsert k [] (add_path_set ps) ret) key m \<union> stored col key m"
    using Cons.prems(2) by (auto simp: stored_def get_or_upsert a get_add_path_set) (auto simp: get_or_def)
  with Cons wf show ?case by (simp add: a)
qed

lemma wf_Absorb: "wf_collapse s \<Longrightarrow> wf_collapse (Absorb s)"
  using stored_fold [of "cs_Collected s" "cs_Retained s"]
  by (simp add: wf_collapse_def Absorb_def wf_store_def)

lemma wf_observe: "wf_collapse s \<Longrightarrow> wf_collapse (observe k m p s)"
  by (simp add: wf_collapse_def observe_def wf_store_upsert distinct_upsert)

lemma wf_NewL7CollapseState: "wf_collapse NewL7CollapseState"
  by (simp add: wf_collapse_def NewL7CollapseState_def wf_store_def)

text \<open>The effective path set of a key is well-formed when its paths are.\<close>

lemma distinct_paths_add_path_set:
  "\<forall>v \<in> snd ` set out. distinct v \<Longrightarrow> v \<in> snd ` set (add_path_set ps out) \<Longrightarrow> distinct v"
proof (induction ps arbitrary: out)
  case Nil
  then show ?case by (auto simp: add_path_set_def)
next
  case (Cons a ps)
  obtain k paths where a: "a = (k, paths)" by (cases a)
  let ?out = "upsert k [] (\<lambda>m. merge_new id m paths) out"
  have "\<forall>w \<in> snd ` set ?out. distinct w"
  proof
    fix w assume w: "w \<in> snd ` set ?out"
    have "distinct (merge_new id v paths)" if "distinct v" for v :: "string list"
      using distinct_merge_new [of id v paths] that by simp
    then show "distinct w"
      using upsert_values [of out distinct "[]" "\<lambda>m. merge_new id m paths" w k] Cons.prems(1) w by simp
  qed
  moreover have "add_path_set (a # ps) out = add_path_set ps ?out"
    by (simp add: add_path_set_def a)
  ultimately show ?case using Cons.IH Cons.prems(2) by simp
qed

abbreviation effective_paths :: "collapse_state \<Rightarrow> string \<Rightarrow> l7_path_set" where
  "effective_paths s k \<equiv> mergeL7PathSets [get_or [] (cs_Retained s) k, get_or [] (cs_Collected s) k]"

lemma effective_mem:
  assumes "p \<in> known_paths s k m"
  shows "\<exists>paths. (m, paths) \<in> set (effective_paths s k) \<and> p \<in> set paths"
proof (cases "map_of (effective_paths s k) m")
  case None
  with assms show ?thesis by (simp add: known_paths_def get_or_def)
next
  case (Some paths)
  with assms show ?thesis
    by (auto simp: known_paths_def get_or_def dest: map_of_SomeD)
qed

lemma wf_effective:
  assumes "\<forall>m. \<forall>p \<in> known_paths s k m. wf_path p"
  shows "wf_path_set (effective_paths s k)"
proof -
  have d: "distinct (map fst (effective_paths s k))"
    by (simp add: mergeL7PathSets_def distinct_add_path_set)
  have "\<forall>v \<in> snd ` set (add_path_set ps []). distinct v" for ps
    using distinct_paths_add_path_set [of "[]" _ ps] by simp
  then have dp: "distinct v" if "v \<in> snd ` set (effective_paths s k)" for v
    using that distinct_paths_add_path_set [of "add_path_set (get_or [] (cs_Retained s) k) []" v "get_or [] (cs_Collected s) k"]
    by (simp add: mergeL7PathSets_def)
  have "distinct paths \<and> list_all wf_path paths" if mem: "(m, paths) \<in> set (effective_paths s k)" for m paths
  proof
    show "distinct paths" using dp [of paths] mem by force
    have "set paths = known_paths s k m"
      using mem d by (simp add: known_paths_def get_or_mem)
    with assms show "list_all wf_path paths" by (auto simp: list_all_iff)
  qed
  with d show ?thesis by (auto simp: wf_path_set_def list_all_iff)
qed

text \<open>One flush period: flows are observed, and the store absorbs them when a policy was written.\<close>

inductive collapse_step :: "collapse_state \<Rightarrow> (string \<times> string \<times> string) option \<Rightarrow> collapse_state \<Rightarrow> bool" where
  step_observe: "collapse_step s (Some (k, m, p)) (observe k m p s)"
| step_absorb: "collapse_step s None (Absorb s)"

inductive collapse_run :: "(string \<times> string \<times> string) option list \<Rightarrow> collapse_state \<Rightarrow> bool" where
  run_new: "collapse_run [] NewL7CollapseState"
| run_step: "collapse_run evs s \<Longrightarrow> collapse_step s ev s' \<Longrightarrow> collapse_run (evs @ [ev]) s'"

inductive_cases collapse_stepE: "collapse_step s ev s'"

lemma wf_collapse_run: "collapse_run evs s \<Longrightarrow> wf_collapse s"
proof (induction rule: collapse_run.induct)
  case run_new
  show ?case by (rule wf_NewL7CollapseState)
next
  case (run_step evs s ev s')
  then show ?case by (auto elim!: collapse_stepE simp: wf_Absorb wf_observe)
qed

lemma known_paths_Absorb: "wf_collapse s \<Longrightarrow> known_paths (Absorb s) k m = known_paths s k m"
  using stored_fold [of "cs_Collected s" "cs_Retained s" k m]
  by (simp add: known_paths_eq wf_Absorb) (simp add: wf_collapse_def wf_store_def Absorb_def stored_def get_or_def)

lemma known_paths_observe:
  "wf_collapse s \<Longrightarrow>
     known_paths (observe k m p s) k' m' = known_paths s k' m' \<union> (if k' = k \<and> m' = m then {p} else {})"
  using known_paths_eq [OF wf_observe, of s k m p k' m']
  by (auto simp: known_paths_eq stored_def observe_def get_or_upsert add_new_def)

text \<open>Across any interleaving of observations and absorptions the paths known for a key and method
  are exactly the ones observed for them: the store neither loses nor invents a path.\<close>

theorem collapse_run_known_paths:
  assumes "collapse_run evs s"
  shows "known_paths s k m = {p. Some (k, m, p) \<in> set evs}"
  using assms
proof (induction rule: collapse_run.induct)
  case run_new
  then show ?case by (simp add: known_paths_eq wf_NewL7CollapseState)
    (simp add: NewL7CollapseState_def stored_def get_or_def)
next
  case (run_step evs s ev s')
  note wf = wf_collapse_run [OF run_step.hyps(1)]
  from run_step.hyps(2) show ?case
    by (rule collapse_stepE) (auto simp: run_step.IH known_paths_Absorb [OF wf] known_paths_observe [OF wf])
qed

theorem collapse_run_known_paths_witness:
  "known_paths (observe ''k'' ''GET'' ''/b'' (Absorb (observe ''k'' ''GET'' ''/a'' NewL7CollapseState))) ''k'' ''GET''
     = {p. Some (''k'', ''GET'', p) \<in> set ((([] @ [Some (''k'', ''GET'', ''/a'')]) @ [None]) @ [Some (''k'', ''GET'', ''/b'')])}"
  by (rule collapse_run_known_paths,
      rule run_step [OF run_step [OF run_step [OF run_new step_observe] step_absorb] step_observe])

end
