(* ===== verification/Builder.thy ===== *)
theory Builder
  imports Merge Companion Collapse
begin

text \<open>
  \<open>pkg/policy/builder.go\<close> and \<open>bootstrap_builder.go\<close>: dropped flows of one workload to a
  \<open>CiliumNetworkPolicy\<close>.  Flows are routed into entity, CIDR and endpoint buckets kept in
  first-seen order (\<open>upsert\<close> on an association list is a Go map with its order slice);
  each bucket collects ports, ICMP types, HTTP rules and DNS names and becomes rules.
  The calls on the tracker are returned as a log, the collapse state is threaded.
\<close>

section \<open>Peers and protocols\<close>

definition ReservedWorldIdentity :: u32 where "ReservedWorldIdentity = 2"

definition PolicyName :: "string \<Rightarrow> string" where
  "PolicyName workload = ''cpg-'' @ workload"

definition reservedEntityMap :: "(string \<times> string) list" where
  "reservedEntityMap =
     [(''reserved:kube-apiserver'', ''kube-apiserver''), (''reserved:host'', ''host''),
      (''reserved:remote-node'', ''remote-node''), (''reserved:health'', ''health'')]"

definition isWorldIdentity :: "endpoint option \<Rightarrow> bool" where
  "isWorldIdentity ep =
     (case ep of
        None \<Rightarrow> False
      | Some e \<Rightarrow>
          if ep_identity e = ReservedWorldIdentity then True
          else list_ex (\<lambda>l. l = ''reserved:world'') (ep_labels e))"

fun first_entity :: "string list \<Rightarrow> string" where
  "first_entity [] = []"
| "first_entity (l # ls) =
     (case map_of reservedEntityMap l of Some e \<Rightarrow> e | None \<Rightarrow> first_entity ls)"

definition reservedEntity :: "endpoint option \<Rightarrow> string" where
  "reservedEntity ep = (case ep of None \<Rightarrow> [] | Some e \<Rightarrow> first_entity (ep_labels e))"

fun pickSelectorLabels :: "flow list \<Rightarrow> string list option" where
  "pickSelectorLabels [] = None"
| "pickSelectorLabels (f # fs) =
     (if fl_direction f = INGRESS \<and> fl_destination f \<noteq> None then Some (ep_labels (the (fl_destination f)))
      else if fl_direction f = EGRESS \<and> fl_source f \<noteq> None then Some (ep_labels (the (fl_source f)))
      else pickSelectorLabels fs)"

definition peerKey :: "externals \<Rightarrow> string list \<Rightarrow> string" where
  "peerKey E peerLabels = join '','' (sort (map (\<lambda>(k, v). k @ ''='' @ v) (SelectLabels E peerLabels)))"

record flowProto =
  fp_port :: u32
  fp_proto :: string
  fp_icmp :: bool

definition extractProto :: "flow \<Rightarrow> flowProto option" where
  "extractProto f =
     (case fl_l4 f of
        Some (L4_TCP p) \<Rightarrow> Some \<lparr>fp_port = p, fp_proto = ProtoTCP, fp_icmp = False\<rparr>
      | Some (L4_UDP p) \<Rightarrow> Some \<lparr>fp_port = p, fp_proto = ProtoUDP, fp_icmp = False\<rparr>
      | Some (L4_ICMPv4 t) \<Rightarrow> Some \<lparr>fp_port = t, fp_proto = ProtoICMP, fp_icmp = True\<rparr>
      | Some (L4_ICMPv6 t) \<Rightarrow> Some \<lparr>fp_port = t, fp_proto = ProtoICMPv6, fp_icmp = True\<rparr>
      | _ \<Rightarrow> None)"

definition icmpFamily :: "string \<Rightarrow> string" where
  "icmpFamily proto = (if proto = ProtoICMPv6 then IPv6Family else IPv4Family)"

definition protoDisplayName :: "string \<Rightarrow> string" where
  "protoDisplayName p =
     (if p = ProtoTCP then ''TCP'' else if p = ProtoUDP then ''UDP''
      else if p = ProtoICMP then ''ICMPv4'' else if p = ProtoICMPv6 then ''ICMPv6'' else ''UNKNOWN'')"

definition proto_key :: "flowProto \<Rightarrow> string" where
  "proto_key fp = format_uint (unat (fp_port fp)) @ ''/'' @ fp_proto fp"

definition ruleKeyFor :: "string \<Rightarrow> peer \<Rightarrow> flowProto \<Rightarrow> rule_key" where
  "ruleKeyFor direction p fp =
     \<lparr>rk_Direction = direction, rk_Peer = p, rk_Port = format_uint (unat (fp_port fp)),
      rk_Protocol = protoDisplayName (fp_proto fp), rk_L7 = None\<rparr>"

definition ruleKeyForL7 :: "string \<Rightarrow> peer \<Rightarrow> flowProto \<Rightarrow> l7_discriminator \<Rightarrow> rule_key" where
  "ruleKeyForL7 direction p fp l7 = (ruleKeyFor direction p fp)\<lparr>rk_L7 := Some l7\<rparr>"

section \<open>Options\<close>

text \<open>\<open>AttributionOptions\<close>; its collapse state is the threaded state.\<close>

record attribution_options =
  ao_MaxSamples :: int
  ao_L7Enabled :: bool
  ao_MinFlowsPerL7Rule :: int
  ao_DNSSelector :: label_map

section \<open>Peer buckets\<close>

record peerRules =
  pl_ports :: "port_protocol list"
  pl_icmpFields :: "icmp_field list"
  pl_seen :: "string list"
  pl_attrib :: "(string \<times> rule_attribution) list"
  pl_httpRules :: "(string \<times> http_rule list) list"
  pl_obsPeerKey :: string
  pl_dnsOrder :: "string list"

definition newPeerRules :: peerRules where
  "newPeerRules = \<lparr>pl_ports = [], pl_icmpFields = [], pl_seen = [], pl_attrib = [], pl_httpRules = [],
     pl_obsPeerKey = [], pl_dnsOrder = []\<rparr>"

definition addDNSName :: "string \<Rightarrow> peerRules \<Rightarrow> peerRules" where
  "addDNSName name pr =
     (if name = [] then pr else pr\<lparr>pl_dnsOrder := add_new id name (pl_dnsOrder pr)\<rparr>)"

text \<open>\<open>httpSeen\<close> of a port holds the keys of the rules collected for it.\<close>

definition addHTTPRules :: "string \<Rightarrow> http_rule list \<Rightarrow> peerRules \<Rightarrow> peerRules" where
  "addHTTPRules portProtoKey rules pr =
     (if rules = [] then pr
      else pr\<lparr>pl_httpRules :=
             upsert portProtoKey [] (\<lambda>hs. merge_new httpRuleKey hs rules) (pl_httpRules pr)\<rparr>)"

definition attribute_flow :: "flow \<Rightarrow> int \<Rightarrow> rule_attribution \<Rightarrow> rule_attribution" where
  "attribute_flow f maxSamples e =
     (let ts = FlowTime f;
          first = (if ts \<noteq> 0 \<and> (ra_FirstSeen e = 0 \<or> ts < ra_FirstSeen e) then ts else ra_FirstSeen e);
          last = (if ts \<noteq> 0 \<and> ts > ra_LastSeen e then ts else ra_LastSeen e)
      in e\<lparr>ra_FlowCount := ra_FlowCount e + 1, ra_FirstSeen := first, ra_LastSeen := last,
           ra_Samples := (if int (length (ra_Samples e)) < maxSamples then ra_Samples e @ [f]
                          else tl (ra_Samples e) @ [f])\<rparr>)"

definition recordAttribution :: "rule_key \<Rightarrow> flow \<Rightarrow> int \<Rightarrow> peerRules \<Rightarrow> peerRules" where
  "recordAttribution key f maxSamples pr =
     (if maxSamples \<le> 0 then pr
      else pr\<lparr>pl_attrib :=
             upsert (RuleKey_String key)
               \<lparr>ra_Key = key, ra_FlowCount = 0, ra_FirstSeen = 0, ra_LastSeen = 0, ra_Samples = []\<rparr>
               (attribute_flow f maxSamples) (pl_attrib pr)\<rparr>)"

definition addFlow :: "flowProto \<Rightarrow> peerRules \<Rightarrow> peerRules" where
  "addFlow fp pr =
     (let portStr = format_uint (unat (fp_port fp)); dedupKey = portStr @ ''/'' @ fp_proto fp
      in if dedupKey \<in> set (pl_seen pr) then pr
         else let pr1 = pr\<lparr>pl_seen := pl_seen pr @ [dedupKey]\<rparr>
              in if fp_icmp fp
                 then pr1\<lparr>pl_icmpFields := pl_icmpFields pr1
                        @ [\<lparr>if_Family = icmpFamily (fp_proto fp), if_Type = Some (IntVal (sint (fp_port fp)))\<rparr>]\<rparr>
                 else pr1\<lparr>pl_ports := pl_ports pr1 @ [\<lparr>pp_Port = portStr, pp_Protocol = fp_proto fp\<rparr>]\<rparr>)"

section \<open>Layer 7\<close>

datatype l7Kind = l7None | l7HTTP | l7DNS

definition flow_url :: "flow \<Rightarrow> string" where
  "flow_url f = (case fl_l7 f of Some (L7_HTTP _ u) \<Rightarrow> u | _ \<Rightarrow> [])"

definition recordL7 ::
  "externals \<Rightarrow> flow \<Rightarrow> flowProto \<Rightarrow> string \<Rightarrow> peer \<Rightarrow> attribution_options \<Rightarrow>
     peerRules \<times> collapse_state option \<Rightarrow> l7Kind \<times> peerRules \<times> collapse_state option" where
  "recordL7 E f fp direction p opts s =
     (case s of (pr, cs) \<Rightarrow>
        if \<not> ao_L7Enabled opts then (l7None, pr, cs)
        else if is_http f then
          (let rules = extractHTTPRules E f
           in if rules = [] then (l7None, pr, cs)
              else let portKey = proto_key fp;
                       pr1 = addHTTPRules portKey rules pr;
                       cs1 = map_option (observe (collapseObsKey direction (pl_obsPeerKey pr) portKey)
                               (hr_Method (hd rules)) (rawPathFromURL E (flow_url f))) cs;
                       pr2 = fold (\<lambda>r. recordAttribution
                               (ruleKeyForL7 direction p fp
                                 \<lparr>ld_Protocol = ''http'', ld_HTTPMethod = hr_Method r,
                                  ld_HTTPPath = hr_Path r, ld_DNSMatchName = []\<rparr>) f (ao_MaxSamples opts))
                             rules pr1
                   in (l7HTTP, pr2, cs1))
        else if direction = ''egress'' \<and> is_dns f then
          (case extractDNSQuery f of
             None \<Rightarrow> (l7None, pr, cs)
           | Some name \<Rightarrow>
               (l7DNS,
                recordAttribution
                  (ruleKeyForL7 direction p fp
                    \<lparr>ld_Protocol = ''dns'', ld_HTTPMethod = [], ld_HTTPPath = [], ld_DNSMatchName = name\<rparr>)
                  f (ao_MaxSamples opts) (addDNSName name pr),
                cs))
        else (l7None, pr, cs))"

definition applyL7Collapse ::
  "string \<Rightarrow> attribution_options \<Rightarrow> collapse_state option \<Rightarrow> peerRules \<Rightarrow> peerRules" where
  "applyL7Collapse direction opts cs pr =
     (case cs of
        None \<Rightarrow> pr
      | Some c \<Rightarrow>
          if \<not> ao_L7Enabled opts then pr
          else pr\<lparr>pl_httpRules := map (\<lambda>(portKey, _).
                 (portKey,
                  let obsKey = collapseObsKey direction (pl_obsPeerKey pr) portKey;
                      effective = mergeL7PathSets [get_or [] (cs_Retained c) obsKey, get_or [] (cs_Collected c) obsKey]
                  in CollapseHTTPPaths effective (ResolveMinFlowsPerL7Rule (ao_MinFlowsPerL7Rule opts))))
               (pl_httpRules pr)\<rparr>)"

section \<open>Grouping the flows\<close>

record peerBuckets =
  pb_peers :: "(string \<times> endpoint_selector \<times> peerRules) list"
  pb_cidrs :: "(string \<times> peerRules) list"
  pb_entities :: "(string \<times> peerRules) list"

definition newPeerBuckets :: peerBuckets where
  "newPeerBuckets = \<lparr>pb_peers = [], pb_cidrs = [], pb_entities = []\<rparr>"

record reasons =
  rs_nilPeer :: UnhandledReason
  rs_unknownL4 :: UnhandledReason
  rs_worldNoIP :: UnhandledReason

definition ingressReasons :: reasons where
  "ingressReasons = \<lparr>rs_nilPeer = ReasonNilSource, rs_unknownL4 = ReasonUnknownProtocol, rs_worldNoIP = ReasonWorldNoIP\<rparr>"

definition egressReasons :: reasons where
  "egressReasons = \<lparr>rs_nilPeer = ReasonNilDestination, rs_unknownL4 = ReasonUnknownProtocol, rs_worldNoIP = ReasonWorldNoIP\<rparr>"

text \<open>Buckets, collapse state and tracker log.\<close>

type_synonym track_log = "(flow \<times> UnhandledReason) list"
type_synonym group_state = "peerBuckets \<times> collapse_state option \<times> track_log"

text \<open>The common end of the three branches: one flow into its bucket.\<close>

definition bucket_flow ::
  "externals \<Rightarrow> flow \<Rightarrow> flowProto \<Rightarrow> string \<Rightarrow> peer \<Rightarrow> attribution_options \<Rightarrow>
     peerRules \<times> collapse_state option \<Rightarrow> peerRules \<times> collapse_state option" where
  "bucket_flow E f fp direction p opts s =
     (case s of (pr0, cs) \<Rightarrow>
        let pr = (if pl_obsPeerKey pr0 = [] then pr0\<lparr>pl_obsPeerKey := encodePeer p\<rparr> else pr0)
        in case recordL7 E f fp direction p opts (pr, cs) of (kind, pr1, cs1) \<Rightarrow>
             let pr2 = (if kind \<noteq> l7DNS then addFlow fp pr1 else pr1);
                 pr3 = (if kind = l7None
                        then recordAttribution (ruleKeyFor direction p fp) f (ao_MaxSamples opts) pr2 else pr2)
             in (pr3, cs1))"

definition entity_peer :: "string \<Rightarrow> peer" where
  "entity_peer e = \<lparr>pe_Type = PeerEntity, pe_Labels = [], pe_CIDR = [], pe_Entity = e\<rparr>"

definition cidr_peer :: "string \<Rightarrow> peer" where
  "cidr_peer c = \<lparr>pe_Type = PeerCIDR, pe_Labels = [], pe_CIDR = c, pe_Entity = []\<rparr>"

definition selectedLabelsFromFlow :: "externals \<Rightarrow> endpoint \<Rightarrow> label_map" where
  "selectedLabelsFromFlow E ep = SelectLabels E (ep_labels ep)"

definition endpoint_peer :: "externals \<Rightarrow> endpoint \<Rightarrow> peer" where
  "endpoint_peer E ep =
     \<lparr>pe_Type = PeerEndpoint, pe_Labels = selectedLabelsFromFlow E ep, pe_CIDR = [], pe_Entity = []\<rparr>"

definition group_flow ::
  "externals \<Rightarrow> string \<Rightarrow> reasons \<Rightarrow> string \<Rightarrow> attribution_options \<Rightarrow>
     (flow \<Rightarrow> endpoint option) \<Rightarrow> (flow \<Rightarrow> string) \<Rightarrow> flow \<Rightarrow> group_state \<Rightarrow> group_state" where
  "group_flow E policyNamespace r direction opts peer peerIP f st =
     (case st of (b, cs, log) \<Rightarrow>
        case peer f of
          None \<Rightarrow> (b, cs, log @ [(f, rs_nilPeer r)])
        | Some ep \<Rightarrow>
            (case extractProto f of
               None \<Rightarrow> (b, cs, log @ [(f, rs_unknownL4 r)])
             | Some fp \<Rightarrow>
                 let entity = reservedEntity (Some ep)
                 in if entity \<noteq> [] then
                      (case bucket_flow E f fp direction (entity_peer entity) opts
                              (get_or newPeerRules (pb_entities b) entity, cs) of
                         (er, cs1) \<Rightarrow> (b\<lparr>pb_entities := aput entity er (pb_entities b)\<rparr>, cs1, log))
                    else if isWorldIdentity (Some ep) then
                      (let ip = peerIP f
                       in if ip = [] then (b, cs, log @ [(f, rs_worldNoIP r)])
                          else let cidrStr = ip @ ''/32''
                               in case bucket_flow E f fp direction (cidr_peer cidrStr) opts
                                         (get_or newPeerRules (pb_cidrs b) cidrStr, cs) of
                                    (cb, cs1) \<Rightarrow> (b\<lparr>pb_cidrs := aput cidrStr cb (pb_cidrs b)\<rparr>, cs1, log))
                    else
                      let key = peerKey E (ep_labels ep)
                      in case get_or (BuildPeerSelector E (ep_labels ep) (ep_namespace ep) policyNamespace, newPeerRules)
                                (pb_peers b) key of
                           (sel, pr) \<Rightarrow>
                             (case bucket_flow E f fp direction (endpoint_peer E ep) opts (pr, cs) of
                                (eb, cs1) \<Rightarrow> (b\<lparr>pb_peers := aput key (sel, eb) (pb_peers b)\<rparr>, cs1, log))))"

definition groupFlows ::
  "externals \<Rightarrow> flow list \<Rightarrow> string \<Rightarrow> reasons \<Rightarrow> string \<Rightarrow> attribution_options \<Rightarrow>
     (flow \<Rightarrow> endpoint option) \<Rightarrow> (flow \<Rightarrow> string) \<Rightarrow> collapse_state option \<Rightarrow> group_state" where
  "groupFlows E flows policyNamespace r direction opts peer peerIP cs =
     fold (group_flow E policyNamespace r direction opts peer peerIP) flows (newPeerBuckets, cs, [])"

section \<open>Emitting the rules\<close>

definition portRulesFor :: "port_protocol list \<Rightarrow> (string \<times> http_rule list) list \<Rightarrow> port_rule list" where
  "portRulesFor ports httpByPort =
     (if \<not> list_ex (\<lambda>p. get_or [] httpByPort (port_key p) \<noteq> []) ports
      then [\<lparr>pr_Ports = ports, pr_Rules = None\<rparr>]
      else map (\<lambda>p. let rules = get_or [] httpByPort (port_key p)
                     in \<lparr>pr_Ports = [p],
                         pr_Rules = (if rules \<noteq> [] then Some \<lparr>l7_HTTP = rules, l7_DNS = [], l7_L7Proto = []\<rparr> else None)\<rparr>)
             ports)"

definition ingressRulesFrom :: "ingress_rule \<Rightarrow> peerRules \<Rightarrow> ingress_rule list" where
  "ingressRulesFrom common pr =
     (if pl_ports pr \<noteq> [] then [common\<lparr>ir_ToPorts := portRulesFor (pl_ports pr) (pl_httpRules pr)\<rparr>] else [])
     @ (if pl_icmpFields pr \<noteq> [] then [common\<lparr>ir_ICMPs := [pl_icmpFields pr]\<rparr>] else [])"

definition egressRulesFrom :: "egress_rule \<Rightarrow> peerRules \<Rightarrow> egress_rule list" where
  "egressRulesFrom common pr =
     (if pl_ports pr \<noteq> [] then [common\<lparr>er_ToPorts := portRulesFor (pl_ports pr) (pl_httpRules pr)\<rparr>] else [])
     @ (if pl_icmpFields pr \<noteq> [] then [common\<lparr>er_ICMPs := [pl_icmpFields pr]\<rparr>] else [])"

definition fqdn_egress_rule :: "peerRules \<Rightarrow> egress_rule list" where
  "fqdn_egress_rule pr =
     (if pl_dnsOrder pr = [] then []
      else let names = sort (pl_dnsOrder pr)
           in [empty_egress\<lparr>er_ToFQDNs := map match_name names,
                 er_ToPorts := [\<lparr>pr_Ports = dns_ports,
                   pr_Rules = Some \<lparr>l7_HTTP = [], l7_DNS = map match_name names, l7_L7Proto = []\<rparr>\<rparr>]\<rparr>])"

definition fqdnEgressRulesFrom :: "peerBuckets \<Rightarrow> egress_rule list" where
  "fqdnEgressRulesFrom b =
     concat (map (\<lambda>(_, pr). fqdn_egress_rule pr) (pb_entities b))
     @ concat (map (\<lambda>(_, pr). fqdn_egress_rule pr) (pb_cidrs b))
     @ concat (map (\<lambda>(_, _, pr). fqdn_egress_rule pr) (pb_peers b))"

text \<open>The attributions of all buckets, in the order of the buckets.\<close>

definition bucket_attribution :: "peerBuckets \<Rightarrow> rule_attribution list" where
  "bucket_attribution b =
     concat (map (\<lambda>(_, pr). map snd (pl_attrib pr)) (pb_entities b))
     @ concat (map (\<lambda>(_, pr). map snd (pl_attrib pr)) (pb_cidrs b))
     @ concat (map (\<lambda>(_, _, pr). map snd (pl_attrib pr)) (pb_peers b))"

definition buildIngressRules ::
  "externals \<Rightarrow> flow list \<Rightarrow> string \<Rightarrow> attribution_options \<Rightarrow> collapse_state option \<Rightarrow>
     ingress_rule list \<times> rule_attribution list \<times> collapse_state option \<times> track_log" where
  "buildIngressRules E flows policyNamespace opts cs0 =
     (case groupFlows E flows policyNamespace ingressReasons ''ingress'' opts fl_source flowSourceIP cs0 of
        (b, cs, log) \<Rightarrow>
          (concat (map (\<lambda>(entity, er). ingressRulesFrom (empty_ingress\<lparr>ir_FromEntities := [entity]\<rparr>)
               (applyL7Collapse ''ingress'' opts cs er)) (pb_entities b))
           @ concat (map (\<lambda>(cidr, cb). ingressRulesFrom (empty_ingress\<lparr>ir_FromCIDR := [cidr]\<rparr>)
               (applyL7Collapse ''ingress'' opts cs cb)) (pb_cidrs b))
           @ concat (map (\<lambda>(key, sel, eb). ingressRulesFrom (empty_ingress\<lparr>ir_FromEndpoints := [sel]\<rparr>)
               (applyL7Collapse ''ingress'' opts cs eb)) (pb_peers b)),
           bucket_attribution b, cs, log))"

definition buildEgressRules ::
  "externals \<Rightarrow> flow list \<Rightarrow> string \<Rightarrow> attribution_options \<Rightarrow> collapse_state option \<Rightarrow>
     egress_rule list \<times> rule_attribution list \<times> collapse_state option \<times> track_log" where
  "buildEgressRules E flows policyNamespace opts cs0 =
     (case groupFlows E flows policyNamespace egressReasons ''egress'' opts fl_destination flowDestinationIP cs0 of
        (b, cs, log) \<Rightarrow>
          (concat (map (\<lambda>(entity, er). egressRulesFrom (empty_egress\<lparr>er_ToEntities := [entity]\<rparr>)
               (applyL7Collapse ''egress'' opts cs er)) (pb_entities b))
           @ concat (map (\<lambda>(cidr, cb). egressRulesFrom (empty_egress\<lparr>er_ToCIDR := [cidr]\<rparr>)
               (applyL7Collapse ''egress'' opts cs cb)) (pb_cidrs b))
           @ concat (map (\<lambda>(key, sel, eb). egressRulesFrom (empty_egress\<lparr>er_ToEndpoints := [sel]\<rparr>)
               (applyL7Collapse ''egress'' opts cs eb)) (pb_peers b))
           @ fqdnEgressRulesFrom b,
           bucket_attribution b, cs, log))"

section \<open>The policy\<close>

record policy_event =
  ev_Namespace :: string
  ev_Workload :: string
  ev_Policy :: cnp
  ev_Attribution :: "rule_attribution list"
  ev_ReplaceL7HTTP :: bool

definition cnp_stub :: "string \<Rightarrow> string \<Rightarrow> rule \<Rightarrow> cnp" where
  "cnp_stub name namespace spec =
     \<lparr>cnp_APIVersion = ''cilium.io/v2'', cnp_Kind = ''CiliumNetworkPolicy'', cnp_Name = name,
      cnp_Namespace = namespace, cnp_Labels = [(''app.kubernetes.io/managed-by'', ''cpg'')],
      cnp_Spec = Some spec\<rparr>"

definition no_l4_log :: "flow list \<Rightarrow> track_log" where
  "no_l4_log flows = map (\<lambda>f. (f, ReasonNoL4)) (filter (\<lambda>f. fl_l4 f = None) flows)"

definition BuildPolicy ::
  "externals \<Rightarrow> string \<Rightarrow> string \<Rightarrow> flow list \<Rightarrow> attribution_options \<Rightarrow> collapse_state option \<Rightarrow>
     cnp \<times> rule_attribution list \<times> collapse_state option \<times> track_log" where
  "BuildPolicy E namespace workload flows opts cs =
     (let ingressFlows = filter (\<lambda>f. fl_l4 f \<noteq> None \<and> fl_direction f = INGRESS) flows;
          egressFlows = filter (\<lambda>f. fl_l4 f \<noteq> None \<and> fl_direction f = EGRESS) flows;
          selector = (case pickSelectorLabels flows of
                        None \<Rightarrow> None
                      | Some ls \<Rightarrow> if ls = [] then None else BuildEndpointSelector E ls)
      in case buildIngressRules E ingressFlows namespace opts cs of
           (ingressRules, ingressAttrib, cs1, log1) \<Rightarrow>
             (case buildEgressRules E egressFlows namespace opts cs1 of
                (egressRules, egressAttrib, cs2, log2) \<Rightarrow>
                  (ensureKubeDNSCompanion
                     (cnp_stub (PolicyName workload) namespace
                        \<lparr>ru_EndpointSelector = selector, ru_Ingress = ingressRules, ru_Egress = egressRules,
                         ru_DefaultDenyIngress = None, ru_DefaultDenyEgress = None\<rparr>)
                     (ao_DNSSelector opts),
                   ingressAttrib @ egressAttrib, cs2, no_l4_log flows @ log1 @ log2)))"

definition BuildBootstrapPolicy :: "externals \<Rightarrow> string \<Rightarrow> cnp" where
  "BuildBootstrapPolicy E namespace =
     cnp_stub (''default-deny-'' @ namespace) namespace
       \<lparr>ru_EndpointSelector = BuildEndpointSelector E [], ru_Ingress = [empty_ingress], ru_Egress = [empty_egress],
        ru_DefaultDenyIngress = Some True, ru_DefaultDenyEgress = Some True\<rparr>"

section \<open>Keyed folds\<close>

text \<open>The loop that sends each element into the bucket its key names, or nowhere.\<close>

definition bucket_fold :: "('a \<Rightarrow> 'k option) \<Rightarrow> ('a \<Rightarrow> 'v) \<Rightarrow> ('a \<Rightarrow> 'v \<Rightarrow> 'v) \<Rightarrow> 'a list \<Rightarrow> ('k \<times> 'v) list" where
  "bucket_fold sel d g xs = fold (\<lambda>x m. case sel x of None \<Rightarrow> m | Some k \<Rightarrow> upsert k (d x) (g x) m) xs []"

lemma aput_upsert: "aput k (f (get_or d m k)) m = upsert k d f m"
  by (induction k d f m rule: upsert.induct) (auto simp: get_or_def)

lemma bucket_fold_snoc:
  "bucket_fold sel d g (xs @ [x]) =
     (case sel x of None \<Rightarrow> bucket_fold sel d g xs | Some k \<Rightarrow> upsert k (d x) (g x) (bucket_fold sel d g xs))"
  by (simp add: bucket_fold_def split: option.split)

lemma distinct_bucket_fold: "distinct (map fst (bucket_fold sel d g xs))"
  by (induction xs rule: rev_induct) (simp_all add: bucket_fold_def distinct_upsert split: option.split)

lemma map_of_bucket_fold:
  "map_of (bucket_fold sel d g xs) k =
     (case filter (\<lambda>x. sel x = Some k) xs of [] \<Rightarrow> None | y # ys \<Rightarrow> Some (fold g (y # ys) (d y)))"
proof (induction xs rule: rev_induct)
  case Nil
  then show ?case by (simp add: bucket_fold_def)
next
  case (snoc x xs)
  then show ?case
    by (auto simp: bucket_fold_snoc map_of_upsert get_or_def split: option.split list.split)
qed

lemma bucket_fold_mem:
  "(k, v) \<in> set (bucket_fold sel d g xs) \<longleftrightarrow>
     (let ys = filter (\<lambda>x. sel x = Some k) xs in ys \<noteq> [] \<and> v = fold g ys (d (hd ys)))"
  unfolding map_of_eq_Some_iff [OF distinct_bucket_fold, symmetric] map_of_bucket_fold
  by (auto simp: Let_def split: list.split)

section \<open>Where a flow goes\<close>

datatype bucket_id = BEntity string | BCIDR string | BPeer string

definition route ::
  "externals \<Rightarrow> reasons \<Rightarrow> (flow \<Rightarrow> endpoint option) \<Rightarrow> (flow \<Rightarrow> string) \<Rightarrow> flow \<Rightarrow> UnhandledReason + bucket_id" where
  "route E r peer peerIP f =
     (case peer f of
        None \<Rightarrow> Inl (rs_nilPeer r)
      | Some ep \<Rightarrow>
          if extractProto f = None then Inl (rs_unknownL4 r)
          else if reservedEntity (Some ep) \<noteq> [] then Inr (BEntity (reservedEntity (Some ep)))
          else if isWorldIdentity (Some ep) then
            if peerIP f = [] then Inl (rs_worldNoIP r) else Inr (BCIDR (peerIP f @ ''/32''))
          else Inr (BPeer (peerKey E (ep_labels ep))))"

text \<open>The peer a flow is attributed to.\<close>

definition flow_peer :: "externals \<Rightarrow> (flow \<Rightarrow> endpoint option) \<Rightarrow> (flow \<Rightarrow> string) \<Rightarrow> flow \<Rightarrow> peer" where
  "flow_peer E peer peerIP f =
     (if reservedEntity (peer f) \<noteq> [] then entity_peer (reservedEntity (peer f))
      else if isWorldIdentity (peer f) then cidr_peer (peerIP f @ ''/32'')
      else endpoint_peer E (the (peer f)))"

text \<open>The effect of a flow on its bucket, and the one on the collapse state.\<close>

definition flow_into ::
  "externals \<Rightarrow> string \<Rightarrow> attribution_options \<Rightarrow> (flow \<Rightarrow> endpoint option) \<Rightarrow> (flow \<Rightarrow> string) \<Rightarrow>
     flow \<Rightarrow> peerRules \<Rightarrow> peerRules" where
  "flow_into E direction opts peer peerIP f pr =
     fst (bucket_flow E f (the (extractProto f)) direction (flow_peer E peer peerIP f) opts (pr, None))"

lemma fst_recordL7: "fst (recordL7 E f fp direction p opts (pr, cs)) = fst (recordL7 E f fp direction p opts (pr, None))"
  by (simp add: recordL7_def Let_def split: option.split)

lemma pr_recordL7:
  "fst (snd (recordL7 E f fp direction p opts (pr, cs))) = fst (snd (recordL7 E f fp direction p opts (pr, None)))"
  by (simp add: recordL7_def Let_def split: option.split)

lemma fst_bucket_flow:
  "fst (bucket_flow E f fp direction p opts (pr, cs)) = fst (bucket_flow E f fp direction p opts (pr, None))"
  using fst_recordL7 [of E f fp direction p opts _ cs] pr_recordL7 [of E f fp direction p opts _ cs]
  by (simp add: bucket_flow_def Let_def case_prod_beta)

definition bucket_sel :: "(UnhandledReason + bucket_id) \<Rightarrow> (bucket_id \<Rightarrow> string option) \<Rightarrow> string option" where
  "bucket_sel r f = (case r of Inl _ \<Rightarrow> None | Inr b \<Rightarrow> f b)"

fun entity_id where "entity_id (BEntity e) = Some e" | "entity_id _ = None"
fun cidr_id where "cidr_id (BCIDR c) = Some c" | "cidr_id _ = None"
fun peer_id where "peer_id (BPeer k) = Some k" | "peer_id _ = None"

text \<open>One flow of the grouping loop, bucket by bucket.\<close>

lemma flow_into_fun:
  "flow_into E direction opts peer peerIP f =
     (\<lambda>pr. fst (bucket_flow E f (the (extractProto f)) direction (flow_peer E peer peerIP f) opts (pr, None)))"
  by (simp add: flow_into_def fun_eq_iff)

lemma aput_flow:
  "aput k (fst (bucket_flow E f fp direction p opts (get_or d m k, cs))) m =
     upsert k d (\<lambda>pr. fst (bucket_flow E f fp direction p opts (pr, None))) m"
  by (subst aput_upsert [where f = "\<lambda>pr. fst (bucket_flow E f fp direction p opts (pr, cs))"])
    (simp add: fst_bucket_flow [of _ _ _ _ _ _ _ cs])

lemma aput_peer_flow:
  "aput k (fst (get_or d m k), fst (bucket_flow E f fp direction p opts (snd (get_or d m k), cs))) m =
     upsert k d (\<lambda>(sel, pr). (sel, fst (bucket_flow E f fp direction p opts (pr, None)))) m"
  by (subst aput_upsert [where f = "\<lambda>x. (fst x, fst (bucket_flow E f fp direction p opts (snd x, cs)))"])
    (simp add: fst_bucket_flow [of _ _ _ _ _ _ _ cs] case_prod_beta')

lemma group_flow_buckets:
  "group_flow E ns r direction opts peer peerIP f (b, cs, log) = (b', cs', log') \<Longrightarrow>
     pb_entities b' = (case bucket_sel (route E r peer peerIP f) entity_id of None \<Rightarrow> pb_entities b
        | Some k \<Rightarrow> upsert k newPeerRules (flow_into E direction opts peer peerIP f) (pb_entities b)) \<and>
     pb_cidrs b' = (case bucket_sel (route E r peer peerIP f) cidr_id of None \<Rightarrow> pb_cidrs b
        | Some k \<Rightarrow> upsert k newPeerRules (flow_into E direction opts peer peerIP f) (pb_cidrs b)) \<and>
     pb_peers b' = (case bucket_sel (route E r peer peerIP f) peer_id of None \<Rightarrow> pb_peers b
        | Some k \<Rightarrow> upsert k (BuildPeerSelector E (ep_labels (the (peer f))) (ep_namespace (the (peer f))) ns, newPeerRules)
                      (\<lambda>(sel, pr). (sel, flow_into E direction opts peer peerIP f pr)) (pb_peers b)) \<and>
     log' = log @ (case route E r peer peerIP f of Inl reason \<Rightarrow> [(f, reason)] | Inr _ \<Rightarrow> [])"
proof -
  assume g: "group_flow E ns r direction opts peer peerIP f (b, cs, log) = (b', cs', log')"
  show ?thesis
  proof (cases "peer f = None \<or> extractProto f = None")
    case True
    with g show ?thesis
      by (auto simp: group_flow_def route_def bucket_sel_def split: option.splits)
  next
    case False
    then obtain ep fp where ep: "peer f = Some ep" and fp: "extractProto f = Some fp" by auto
    consider (ent) "reservedEntity (Some ep) \<noteq> []"
      | (noip) "reservedEntity (Some ep) = []" "isWorldIdentity (Some ep)" "peerIP f = []"
      | (cidr) "reservedEntity (Some ep) = []" "isWorldIdentity (Some ep)" "peerIP f \<noteq> []"
      | (lab) "reservedEntity (Some ep) = []" "\<not> isWorldIdentity (Some ep)"
      by blast
    then show ?thesis
    proof cases
      case ent
      with g ep fp show ?thesis
        by (auto simp: group_flow_def route_def bucket_sel_def flow_into_fun flow_peer_def Let_def
            case_prod_beta aput_flow)
    next
      case noip
      with g ep fp show ?thesis by (auto simp: group_flow_def route_def bucket_sel_def Let_def)
    next
      case cidr
      with g ep fp show ?thesis
        by (auto simp: group_flow_def route_def bucket_sel_def flow_into_fun flow_peer_def Let_def
            case_prod_beta aput_flow)
    next
      case lab
      with g ep fp show ?thesis
        by (auto simp: group_flow_def route_def bucket_sel_def flow_into_fun flow_peer_def Let_def
            case_prod_beta aput_peer_flow)
    qed
  qed
qed

lemma groupFlows_snoc:
  "groupFlows E (fs @ [f]) ns r direction opts peer peerIP cs =
     group_flow E ns r direction opts peer peerIP f (groupFlows E fs ns r direction opts peer peerIP cs)"
  by (simp add: groupFlows_def)

lemma groupFlows_buckets:
  "groupFlows E fs ns r direction opts peer peerIP cs = (b, cs', log) \<Longrightarrow>
     pb_entities b = bucket_fold (\<lambda>f. bucket_sel (route E r peer peerIP f) entity_id) (\<lambda>_. newPeerRules)
        (flow_into E direction opts peer peerIP) fs \<and>
     pb_cidrs b = bucket_fold (\<lambda>f. bucket_sel (route E r peer peerIP f) cidr_id) (\<lambda>_. newPeerRules)
        (flow_into E direction opts peer peerIP) fs \<and>
     pb_peers b = bucket_fold (\<lambda>f. bucket_sel (route E r peer peerIP f) peer_id)
        (\<lambda>f. (BuildPeerSelector E (ep_labels (the (peer f))) (ep_namespace (the (peer f))) ns, newPeerRules))
        (\<lambda>f (sel, pr). (sel, flow_into E direction opts peer peerIP f pr)) fs \<and>
     log = concat (map (\<lambda>f. case route E r peer peerIP f of Inl reason \<Rightarrow> [(f, reason)] | Inr _ \<Rightarrow> []) fs)"
proof (induction fs arbitrary: b cs' log rule: rev_induct)
  case Nil
  then show ?case by (auto simp: groupFlows_def newPeerBuckets_def bucket_fold_def)
next
  case (snoc f fs)
  obtain b0 cs0 log0 where g: "groupFlows E fs ns r direction opts peer peerIP cs = (b0, cs0, log0)"
    by (cases "groupFlows E fs ns r direction opts peer peerIP cs") auto
  with snoc.prems have "group_flow E ns r direction opts peer peerIP f (b0, cs0, log0) = (b, cs', log)"
    by (simp add: groupFlows_snoc)
  from group_flow_buckets [OF this] snoc.IH [OF g] show ?case
    by (simp add: bucket_fold_snoc split: option.split)
qed

section \<open>What a bucket collects\<close>

definition flow_kind :: "externals \<Rightarrow> attribution_options \<Rightarrow> string \<Rightarrow> flow \<Rightarrow> l7Kind" where
  "flow_kind E opts direction f =
     (if \<not> ao_L7Enabled opts then l7None
      else if is_http f then (if extractHTTPRules E f = [] then l7None else l7HTTP)
      else if direction = ''egress'' \<and> extractDNSQuery f \<noteq> None then l7DNS
      else l7None)"

lemma extractDNSQuery_is_dns: "extractDNSQuery f \<noteq> None \<Longrightarrow> is_dns f"
  by (auto simp: extractDNSQuery_def is_dns_def split: option.splits layer7.splits)

lemma recordAttribution_fields [simp]:
  "pl_ports (recordAttribution key f n pr) = pl_ports pr"
  "pl_icmpFields (recordAttribution key f n pr) = pl_icmpFields pr"
  "pl_seen (recordAttribution key f n pr) = pl_seen pr"
  "pl_httpRules (recordAttribution key f n pr) = pl_httpRules pr"
  "pl_obsPeerKey (recordAttribution key f n pr) = pl_obsPeerKey pr"
  "pl_dnsOrder (recordAttribution key f n pr) = pl_dnsOrder pr"
  by (simp_all add: recordAttribution_def)

lemma fold_recordAttribution_fields [simp]:
  "pl_ports (fold (\<lambda>r. recordAttribution (k r) f n) rs pr) = pl_ports pr"
  "pl_icmpFields (fold (\<lambda>r. recordAttribution (k r) f n) rs pr) = pl_icmpFields pr"
  "pl_seen (fold (\<lambda>r. recordAttribution (k r) f n) rs pr) = pl_seen pr"
  "pl_httpRules (fold (\<lambda>r. recordAttribution (k r) f n) rs pr) = pl_httpRules pr"
  "pl_obsPeerKey (fold (\<lambda>r. recordAttribution (k r) f n) rs pr) = pl_obsPeerKey pr"
  "pl_dnsOrder (fold (\<lambda>r. recordAttribution (k r) f n) rs pr) = pl_dnsOrder pr"
  by (induction rs arbitrary: pr) simp_all

lemma collect_fields [simp]:
  "pl_ports (addHTTPRules k hs pr) = pl_ports pr" "pl_ports (addDNSName n pr) = pl_ports pr"
  "pl_icmpFields (addHTTPRules k hs pr) = pl_icmpFields pr" "pl_icmpFields (addDNSName n pr) = pl_icmpFields pr"
  "pl_seen (addHTTPRules k hs pr) = pl_seen pr" "pl_seen (addDNSName n pr) = pl_seen pr"
  "pl_obsPeerKey (addHTTPRules k hs pr) = pl_obsPeerKey pr" "pl_obsPeerKey (addDNSName n pr) = pl_obsPeerKey pr"
  "pl_dnsOrder (addHTTPRules k hs pr) = pl_dnsOrder pr" "pl_httpRules (addDNSName n pr) = pl_httpRules pr"
  by (simp_all add: addHTTPRules_def addDNSName_def)

lemma addFlow_fields [simp]:
  "pl_httpRules (addFlow fp pr) = pl_httpRules pr"
  "pl_obsPeerKey (addFlow fp pr) = pl_obsPeerKey pr"
  "pl_dnsOrder (addFlow fp pr) = pl_dnsOrder pr"
  by (simp_all add: addFlow_def Let_def)

lemma addFlow_cong:
  assumes "pl_seen pr = pl_seen pr'" "pl_ports pr = pl_ports pr'" "pl_icmpFields pr = pl_icmpFields pr'"
  shows "pl_seen (addFlow fp pr) = pl_seen (addFlow fp pr')"
    and "pl_ports (addFlow fp pr) = pl_ports (addFlow fp pr')"
    and "pl_icmpFields (addFlow fp pr) = pl_icmpFields (addFlow fp pr')"
  using assms by (simp_all add: addFlow_def Let_def)

lemma fst_recordL7_kind:
  "recordL7 E f fp direction p opts (pr, cs) = (kind, pr', cs') \<Longrightarrow> kind = flow_kind E opts direction f"
  using extractDNSQuery_is_dns [of f]
  by (cases "extractDNSQuery f") (auto simp: recordL7_def flow_kind_def Let_def split: if_splits)

text \<open>The L4 side of one flow.\<close>

abbreviation flow_l4 :: "externals \<Rightarrow> attribution_options \<Rightarrow> string \<Rightarrow> flow \<Rightarrow> bool" where
  "flow_l4 E opts direction f \<equiv> flow_kind E opts direction f \<noteq> l7DNS"

lemma recordL7_l4_fields:
  assumes "recordL7 E f fp direction p opts (pr, cs) = (kind, pr', cs')"
  shows "pl_seen pr' = pl_seen pr \<and> pl_ports pr' = pl_ports pr \<and> pl_icmpFields pr' = pl_icmpFields pr
    \<and> pl_obsPeerKey pr' = pl_obsPeerKey pr"
  using assms by (auto simp: recordL7_def Let_def split: if_splits option.splits)

lemma flow_into_l4:
  "pl_ports (flow_into E direction opts peer peerIP f pr) =
     pl_ports (if flow_l4 E opts direction f then addFlow (the (extractProto f)) pr else pr) \<and>
   pl_icmpFields (flow_into E direction opts peer peerIP f pr) =
     pl_icmpFields (if flow_l4 E opts direction f then addFlow (the (extractProto f)) pr else pr) \<and>
   pl_seen (flow_into E direction opts peer peerIP f pr) =
     pl_seen (if flow_l4 E opts direction f then addFlow (the (extractProto f)) pr else pr)"
proof -
  let ?fp = "the (extractProto f)" and ?p = "flow_peer E peer peerIP f"
  let ?pr = "if pl_obsPeerKey pr = [] then pr\<lparr>pl_obsPeerKey := encodePeer ?p\<rparr> else pr"
  obtain kind pr1 cs1 where r: "recordL7 E f ?fp direction ?p opts (?pr, None) = (kind, pr1, cs1)"
    by (cases "recordL7 E f ?fp direction ?p opts (?pr, None)") auto
  note k = fst_recordL7_kind [OF r] and l4 = recordL7_l4_fields [OF r]
  have same: "pl_seen pr1 = pl_seen pr" "pl_ports pr1 = pl_ports pr" "pl_icmpFields pr1 = pl_icmpFields pr"
    using l4 by (simp_all split: if_splits)
  have "flow_into E direction opts peer peerIP f pr =
    (let pr2 = (if kind \<noteq> l7DNS then addFlow ?fp pr1 else pr1)
     in if kind = l7None then recordAttribution (ruleKeyFor direction ?p ?fp) f (ao_MaxSamples opts) pr2 else pr2)"
    unfolding flow_into_def bucket_flow_def Let_def split_conv r by simp
  then show ?thesis
    using k same addFlow_cong [OF same, of ?fp] by (auto simp: Let_def)
qed

text \<open>The port or ICMP entry of a protocol.\<close>

definition fp_entry_port :: "flowProto \<Rightarrow> port_protocol" where
  "fp_entry_port fp = \<lparr>pp_Port = format_uint (unat (fp_port fp)), pp_Protocol = fp_proto fp\<rparr>"

definition fp_entry_icmp :: "flowProto \<Rightarrow> icmp_field" where
  "fp_entry_icmp fp = \<lparr>if_Family = icmpFamily (fp_proto fp), if_Type = Some (IntVal (sint (fp_port fp)))\<rparr>"

lemma port_key_entry [simp]: "port_key (fp_entry_port fp) = proto_key fp"
  by (simp add: port_key_def fp_entry_port_def proto_key_def)

lemma slash_not_in_uint: "CHR ''/'' \<notin> set (format_uint n)"
  by (rule format_uint_no_char) (simp add: is_digit_iff)

lemma extractProto_cases:
  assumes "extractProto f = Some fp"
  shows "\<not> fp_icmp fp \<and> (fp_proto fp = ProtoTCP \<or> fp_proto fp = ProtoUDP)
     \<or> fp_icmp fp \<and> (fp_proto fp = ProtoICMP \<or> fp_proto fp = ProtoICMPv6)"
  using assms by (auto simp: extractProto_def split: option.splits layer4.splits)

lemma proto_key_inject:
  assumes "extractProto f = Some fp" "extractProto f' = Some fp'" "proto_key fp = proto_key fp'"
  shows "fp = fp'"
proof -
  have "format_uint (unat (fp_port fp)) = format_uint (unat (fp_port fp')) \<and> fp_proto fp = fp_proto fp'"
    using assms(3) append_sep_inject [OF slash_not_in_uint slash_not_in_uint,
        of "unat (fp_port fp)" "fp_proto fp" "unat (fp_port fp')" "fp_proto fp'"]
    by (simp add: proto_key_def)
  then have "fp_port fp = fp_port fp'" "fp_proto fp = fp_proto fp'"
    by (simp_all add: word_unat_eq_iff)
  moreover from this have "fp_icmp fp = fp_icmp fp'"
    using extractProto_cases [OF assms(1)] extractProto_cases [OF assms(2)] by auto
  ultimately show ?thesis by simp
qed

abbreviation bucket_of where
  "bucket_of E direction opts peer peerIP fs \<equiv> fold (flow_into E direction opts peer peerIP) fs newPeerRules"

text \<open>The protocols of the flows that count for L4.\<close>

definition l4_protos :: "externals \<Rightarrow> string \<Rightarrow> attribution_options \<Rightarrow> flow list \<Rightarrow> flowProto set" where
  "l4_protos E direction opts fs = {fp. \<exists>f \<in> set fs. flow_l4 E opts direction f \<and> extractProto f = Some fp}"

lemma bucket_l4:
  assumes "\<forall>f \<in> set fs. extractProto f \<noteq> None"
  shows "set (pl_ports (bucket_of E direction opts peer peerIP fs))
       = fp_entry_port ` {fp \<in> l4_protos E direction opts fs. \<not> fp_icmp fp} \<and>
     set (pl_icmpFields (bucket_of E direction opts peer peerIP fs))
       = fp_entry_icmp ` {fp \<in> l4_protos E direction opts fs. fp_icmp fp} \<and>
     set (pl_seen (bucket_of E direction opts peer peerIP fs)) = proto_key ` l4_protos E direction opts fs \<and>
     distinct (map port_key (pl_ports (bucket_of E direction opts peer peerIP fs)))"
  using assms
proof (induction fs rule: rev_induct)
  case Nil
  then show ?case by (simp add: newPeerRules_def l4_protos_def)
next
  case (snoc f fs)
  let ?B = "bucket_of E direction opts peer peerIP fs"
  obtain fp where fp: "extractProto f = Some fp" using snoc.prems by auto
  have IH: "set (pl_ports ?B) = fp_entry_port ` {fp \<in> l4_protos E direction opts fs. \<not> fp_icmp fp}"
    "set (pl_icmpFields ?B) = fp_entry_icmp ` {fp \<in> l4_protos E direction opts fs. fp_icmp fp}"
    "set (pl_seen ?B) = proto_key ` l4_protos E direction opts fs"
    "distinct (map port_key (pl_ports ?B))"
    using snoc by simp_all
  have eqs: "pl_ports (bucket_of E direction opts peer peerIP (fs @ [f]))
        = pl_ports (if flow_l4 E opts direction f then addFlow fp ?B else ?B)"
    "pl_icmpFields (bucket_of E direction opts peer peerIP (fs @ [f]))
        = pl_icmpFields (if flow_l4 E opts direction f then addFlow fp ?B else ?B)"
    "pl_seen (bucket_of E direction opts peer peerIP (fs @ [f]))
        = pl_seen (if flow_l4 E opts direction f then addFlow fp ?B else ?B)"
    using flow_into_l4 [of E direction opts peer peerIP f ?B] fp by simp_all
  have protos: "l4_protos E direction opts (fs @ [f]) =
      (if flow_l4 E opts direction f then insert fp (l4_protos E direction opts fs) else l4_protos E direction opts fs)"
    by (auto simp: l4_protos_def fp)
  have dup: "fp \<in> l4_protos E direction opts fs" if "proto_key fp \<in> proto_key ` l4_protos E direction opts fs"
    using that proto_key_inject [OF fp] by (auto simp: l4_protos_def)
  have sub: "port_key ` set (pl_ports ?B) \<subseteq> proto_key ` l4_protos E direction opts fs"
    by (auto simp: IH(1))
  show ?case
  proof (cases "flow_l4 E opts direction f \<and> proto_key fp \<notin> set (pl_seen ?B)")
    case True
    then have new: "addFlow fp ?B = (let pr1 = ?B\<lparr>pl_seen := pl_seen ?B @ [proto_key fp]\<rparr>
        in if fp_icmp fp then pr1\<lparr>pl_icmpFields := pl_icmpFields ?B @ [fp_entry_icmp fp]\<rparr>
           else pr1\<lparr>pl_ports := pl_ports ?B @ [fp_entry_port fp]\<rparr>)"
      by (simp add: addFlow_def Let_def proto_key_def fp_entry_icmp_def fp_entry_port_def)
    have "proto_key fp \<notin> port_key ` set (pl_ports ?B)" using True sub IH(3) by auto
    moreover have "{x \<in> insert fp S. P x} = (if P fp then insert fp {x \<in> S. P x} else {x \<in> S. P x})" for S P
      by auto
    ultimately show ?thesis
      using True IH unfolding eqs protos new
      by (cases "fp_icmp fp") (simp_all add: Let_def)
  next
    case False
    then have same: "(if flow_l4 E opts direction f then addFlow fp ?B else ?B) = ?B"
      by (auto simp: addFlow_def Let_def proto_key_def)
    have "flow_l4 E opts direction f \<Longrightarrow> insert fp (l4_protos E direction opts fs) = l4_protos E direction opts fs"
      using False dup IH(3) by auto
    with same IH show ?thesis unfolding eqs protos by simp
  qed
qed

section \<open>The buckets a policy is emitted from\<close>

type_synonym rule_peer = "endpoint_selector list \<times> string list \<times> string list"

text \<open>Endpoint selectors, entities and CIDRs a rule for the flow's peer names.\<close>

definition flow_rule_peer ::
  "externals \<Rightarrow> string \<Rightarrow> (flow \<Rightarrow> endpoint option) \<Rightarrow> (flow \<Rightarrow> string) \<Rightarrow> flow \<Rightarrow> rule_peer" where
  "flow_rule_peer E ns peer peerIP f =
     (if reservedEntity (peer f) \<noteq> [] then ([], [reservedEntity (peer f)], [])
      else if isWorldIdentity (peer f) then ([], [], [peerIP f @ ''/32''])
      else ([BuildPeerSelector E (ep_labels (the (peer f))) (ep_namespace (the (peer f))) ns], [], []))"

definition emitted :: "peerBuckets \<Rightarrow> (rule_peer \<times> peerRules) list" where
  "emitted b = map (\<lambda>(e, pr). (([], [e], []), pr)) (pb_entities b)
     @ map (\<lambda>(c, pr). (([], [], [c]), pr)) (pb_cidrs b)
     @ map (\<lambda>(k, sel, pr). (([sel], [], []), pr)) (pb_peers b)"

text \<open>
  Endpoint buckets are keyed by labels only and keep the selector of their first flow, so
  the theorems ask for peers with equal labels to live in one namespace, and for labels
  without the separators of the key.
\<close>

definition plain_labels :: "externals \<Rightarrow> endpoint \<Rightarrow> bool" where
  "plain_labels E ep \<longleftrightarrow> list_all (\<lambda>(k, v). plain k \<and> plain v) (SelectLabels E (ep_labels ep))"

definition one_namespace :: "externals \<Rightarrow> (flow \<Rightarrow> endpoint option) \<Rightarrow> flow list \<Rightarrow> bool" where
  "one_namespace E peer flows \<longleftrightarrow>
     list_all (\<lambda>f. case peer f of None \<Rightarrow> True | Some a \<Rightarrow> plain_labels E a \<and>
       list_all (\<lambda>g. case peer g of None \<Rightarrow> True | Some b \<Rightarrow>
           SelectLabels E (ep_labels a) \<noteq> SelectLabels E (ep_labels b) \<or> ep_namespace a = ep_namespace b) flows) flows"

lemma peerKey_inject:
  assumes "plain_labels E a" "plain_labels E b" "peerKey E (ep_labels a) = peerKey E (ep_labels b)"
  shows "SelectLabels E (ep_labels a) = SelectLabels E (ep_labels b)"
proof -
  let ?e = "\<lambda>(k, v). k @ ''='' @ v :: string"
  let ?A = "SelectLabels E (ep_labels a)" and ?B = "SelectLabels E (ep_labels b)"
  have pl: "\<forall>(k, v) \<in> set ?A \<union> set ?B. plain k \<and> plain v"
    using assms(1,2) by (auto simp: plain_labels_def list_all_iff)
  then have sep: "CHR '','' \<notin> set (?e x) \<and> ?e x \<noteq> []" if "x \<in> set ?A \<union> set ?B" for x
    using that by (auto simp: plain_def split: prod.splits)
  have eq: "join '','' (sort (map ?e ?A)) = join '','' (sort (map ?e ?B))"
    using assms(3) by (simp add: peerKey_def)
  have "sort (map ?e ?A) = sort (map ?e ?B)"
  proof (rule join_inject_nonempty [OF _ eq])
    have "set (sort (map ?e ?A)) \<union> set (sort (map ?e ?B)) = ?e ` (set ?A \<union> set ?B)"
      by (simp only: set_sort set_map image_Un)
    then show "\<forall>x \<in> set (sort (map ?e ?A)) \<union> set (sort (map ?e ?B)). CHR '','' \<notin> set x \<and> x \<noteq> []"
      using sep by (simp only: ball_simps(9) Ball_def [of "set ?A \<union> set ?B"]) blast
  qed
  then have "set (map ?e ?A) = set (map ?e ?B)" by (metis set_sort)
  then have img: "?e ` set ?A = ?e ` set ?B" by simp
  have inj: "inj_on ?e (set ?A \<union> set ?B)"
  proof (rule inj_onI)
    fix x y assume x: "x \<in> set ?A \<union> set ?B" and y: "y \<in> set ?A \<union> set ?B" and e: "?e x = ?e y"
    have "CHR ''='' \<notin> set (fst x)" using pl x by (cases x) (fastforce simp: plain_def)
    moreover have "CHR ''='' \<notin> set (fst y)" using pl y by (cases y) (fastforce simp: plain_def)
    ultimately show "x = y" using e by (cases x; cases y) (simp add: append_sep_inject)
  qed
  have "set ?A = set ?B"
    by (rule iffD1 [OF inj_on_image_eq_iff [OF inj] img]) (rule Un_upper1, rule Un_upper2)
  moreover have d: "sorted_keys ?A" "sorted_keys ?B" by (rule sorted_SelectLabels)+
  ultimately have "map_of ?A = map_of ?B"
    by (metis sorted_keys_distinct map_of_inject_set)
  with d show ?thesis by (intro sorted_map_eqI)
qed

lemma route_Inr:
  assumes "route E r peer peerIP f = Inr bid"
  shows "\<exists>ep fp. peer f = Some ep \<and> extractProto f = Some fp"
  using assms by (auto simp: route_def split: option.splits if_splits)

lemma one_namespaceD:
  assumes "one_namespace E peer flows" "f \<in> set flows" "g \<in> set flows" "peer f = Some a" "peer g = Some b"
  shows "plain_labels E a \<and> (SelectLabels E (ep_labels a) \<noteq> SelectLabels E (ep_labels b) \<or> ep_namespace a = ep_namespace b)"
proof -
  have "list_all (\<lambda>g. case peer g of None \<Rightarrow> True | Some b \<Rightarrow>
           SelectLabels E (ep_labels a) \<noteq> SelectLabels E (ep_labels b) \<or> ep_namespace a = ep_namespace b) flows"
    and "plain_labels E a"
    using bspec [OF assms(1) [unfolded one_namespace_def list_all_iff [of _ flows]] assms(2)] assms(4)
    by (simp_all add: list_all_iff)
  with bspec [OF this(1) [unfolded list_all_iff] assms(3)] assms(5) show ?thesis by simp
qed

lemma route_BPeer:
  "route E r peer peerIP f = Inr (BPeer k) \<Longrightarrow> flow_rule_peer E ns peer peerIP f =
     ([BuildPeerSelector E (ep_labels (the (peer f))) (ep_namespace (the (peer f))) ns], [], [])"
  by (auto simp: route_def flow_rule_peer_def split: option.splits if_splits)

lemma same_route_same_peer:
  assumes ns: "one_namespace E peer flows" and fg: "f \<in> set flows" "g \<in> set flows"
    and r: "route E r peer peerIP f = Inr bid" "route E r peer peerIP g = Inr bid"
  shows "flow_rule_peer E ns peer peerIP f = flow_rule_peer E ns peer peerIP g"
proof -
  obtain a b where ab: "peer f = Some a" "peer g = Some b"
    using route_Inr [OF r(1)] route_Inr [OF r(2)] by auto
  show ?thesis
  proof (cases bid)
    case (BPeer k)
    have key: "peerKey E (ep_labels a) = peerKey E (ep_labels b)"
      "reservedEntity (Some a) = []" "\<not> isWorldIdentity (Some a)"
      "reservedEntity (Some b) = []" "\<not> isWorldIdentity (Some b)"
      using r ab BPeer by (auto simp: route_def split: if_splits)
    have "plain_labels E a" "plain_labels E b"
      "SelectLabels E (ep_labels a) \<noteq> SelectLabels E (ep_labels b) \<or> ep_namespace a = ep_namespace b"
      using one_namespaceD [OF ns fg ab] one_namespaceD [OF ns fg(2,1) ab(2,1)] by auto
    with peerKey_inject [of E a b] key have "SelectLabels E (ep_labels a) = SelectLabels E (ep_labels b)"
      "ep_namespace a = ep_namespace b" by auto
    with key ab show ?thesis by (simp add: flow_rule_peer_def BuildPeerSelector_def)
  qed (use r ab in \<open>auto simp: route_def flow_rule_peer_def split: if_splits\<close>)
qed

lemma fold_peer_pair: "fold (\<lambda>f (sel, pr). (sel, h f pr)) fs (s, p) = (s, fold h fs p)"
  by (induction fs arbitrary: p) auto

lemma bucket_sel_iff:
  "bucket_sel x entity_id = Some k \<longleftrightarrow> x = Inr (BEntity k)"
  "bucket_sel x cidr_id = Some k \<longleftrightarrow> x = Inr (BCIDR k)"
  "bucket_sel x peer_id = Some k \<longleftrightarrow> x = Inr (BPeer k)"
  by (auto simp: bucket_sel_def split: sum.splits elim: entity_id.elims cidr_id.elims peer_id.elims)

text \<open>Every emitted bucket is made of the flows of one route.\<close>

lemma emitted_sound:
  assumes g: "groupFlows E fs ns r direction opts peer peerIP cs = (b, cs', log)"
    and ns: "one_namespace E peer fs" and e: "(pc, pr) \<in> set (emitted b)"
  shows "\<exists>bid gs. gs = filter (\<lambda>f. route E r peer peerIP f = Inr bid) fs \<and> gs \<noteq> []
     \<and> pr = bucket_of E direction opts peer peerIP gs \<and> (\<forall>g \<in> set gs. flow_rule_peer E ns peer peerIP g = pc)"
proof -
  note B = groupFlows_buckets [OF g]
  consider (ent) e where "pc = ([], [e], [])" "(e, pr) \<in> set (pb_entities b)"
    | (cidr) c where "pc = ([], [], [c])" "(c, pr) \<in> set (pb_cidrs b)"
    | (lab) k sel where "pc = ([sel], [], [])" "(k, sel, pr) \<in> set (pb_peers b)"
    using e by (auto simp: emitted_def)
  then show ?thesis
  proof cases
    case ent
    have "flow_rule_peer E ns peer peerIP f = pc" if "route E r peer peerIP f = Inr (BEntity e)" for f
      using that ent(1) by (auto simp: route_def flow_rule_peer_def split: option.splits if_splits)
    with ent(2) B show ?thesis
      by (intro exI [of _ "BEntity e"]) (simp add: bucket_fold_mem bucket_sel_iff Let_def)
  next
    case cidr
    have "flow_rule_peer E ns peer peerIP f = pc" if "route E r peer peerIP f = Inr (BCIDR c)" for f
      using that cidr(1) by (auto simp: route_def flow_rule_peer_def split: option.splits if_splits)
    with cidr(2) B show ?thesis
      by (intro exI [of _ "BCIDR c"]) (simp add: bucket_fold_mem bucket_sel_iff Let_def)
  next
    case lab
    let ?gs = "filter (\<lambda>f. route E r peer peerIP f = Inr (BPeer k)) fs"
    have gs: "?gs \<noteq> []" "pr = bucket_of E direction opts peer peerIP ?gs"
      "sel = BuildPeerSelector E (ep_labels (the (peer (hd ?gs)))) (ep_namespace (the (peer (hd ?gs)))) ns"
      using lab(2) B by (auto simp: bucket_fold_mem bucket_sel_iff Let_def fold_peer_pair)
    have hd: "hd ?gs \<in> set fs" "route E r peer peerIP (hd ?gs) = Inr (BPeer k)"
      using hd_in_set [OF gs(1)] by auto
    then have "flow_rule_peer E ns peer peerIP (hd ?gs) = pc"
      using gs(3) lab(1) route_BPeer [OF hd(2), of ns] by simp
    moreover have "flow_rule_peer E ns peer peerIP g = flow_rule_peer E ns peer peerIP (hd ?gs)" if "g \<in> set ?gs" for g
      using that hd by (intro same_route_same_peer [OF ns]) auto
    ultimately show ?thesis using gs by (intro exI [of _ "BPeer k"]) auto
  qed
qed

text \<open>Every routed flow is in an emitted bucket of its peer.\<close>

lemma emitted_complete:
  assumes g: "groupFlows E fs ns r direction opts peer peerIP cs = (b, cs', log)"
    and ns: "one_namespace E peer fs" and f: "f \<in> set fs" "route E r peer peerIP f = Inr bid"
  shows "(flow_rule_peer E ns peer peerIP f,
      bucket_of E direction opts peer peerIP (filter (\<lambda>f. route E r peer peerIP f = Inr bid) fs)) \<in> set (emitted b)"
proof -
  note B = groupFlows_buckets [OF g]
  let ?gs = "filter (\<lambda>f. route E r peer peerIP f = Inr bid) fs"
  have ne: "?gs \<noteq> []" using f by (auto simp: filter_empty_conv)
  show ?thesis
  proof (cases bid)
    case (BEntity e)
    have "(e, bucket_of E direction opts peer peerIP ?gs) \<in> set (pb_entities b)"
      using B ne BEntity by (simp add: bucket_fold_mem bucket_sel_iff Let_def)
    moreover have "flow_rule_peer E ns peer peerIP f = ([], [e], [])"
      using f(2) BEntity by (auto simp: route_def flow_rule_peer_def split: option.splits if_splits)
    ultimately show ?thesis by (force simp: emitted_def)
  next
    case (BCIDR c)
    have "(c, bucket_of E direction opts peer peerIP ?gs) \<in> set (pb_cidrs b)"
      using B ne BCIDR by (simp add: bucket_fold_mem bucket_sel_iff Let_def)
    moreover have "flow_rule_peer E ns peer peerIP f = ([], [], [c])"
      using f(2) BCIDR by (auto simp: route_def flow_rule_peer_def split: option.splits if_splits)
    ultimately show ?thesis by (force simp: emitted_def)
  next
    case (BPeer k)
    let ?sel = "BuildPeerSelector E (ep_labels (the (peer (hd ?gs)))) (ep_namespace (the (peer (hd ?gs)))) ns"
    have m: "(k, ?sel, bucket_of E direction opts peer peerIP ?gs) \<in> set (pb_peers b)"
      using B ne BPeer by (simp add: bucket_fold_mem bucket_sel_iff Let_def fold_peer_pair)
    have hd: "hd ?gs \<in> set fs" "route E r peer peerIP (hd ?gs) = Inr bid"
      using hd_in_set [OF ne] by auto
    then have "flow_rule_peer E ns peer peerIP (hd ?gs) = ([?sel], [], [])"
      using BPeer by (simp add: route_BPeer)
    with same_route_same_peer [OF ns f(1) hd(1) f(2) hd(2)]
    have "flow_rule_peer E ns peer peerIP f = ([?sel], [], [])" by simp
    with m show ?thesis by (force simp: emitted_def)
  qed
qed

end
