(* ===== verification/Files.thy ===== *)
theory Files
  imports Prelude
begin

text \<open>
  Files and paths, shared by the writers of policies, of evidence and of the health report:
  Go's \<open>path/filepath\<close> on Unix, the guard on path components of \<open>pkg/evidence/paths.go\<close>, and
  the sequence create-temporary-file, write, close, rename that all three writers end with.
  A file system is the map from the paths of files to their bytes; which system calls fail
  is a parameter.
\<close>

section \<open>Paths\<close>

text \<open>One element of \<open>filepath.Clean\<close>: the elements so far, last one first.\<close>

definition clean_step :: "bool \<Rightarrow> string \<Rightarrow> string list \<Rightarrow> string list" where
  "clean_step rooted e out =
     (if e = [] \<or> e = ''.'' then out
      else if e = ''..'' then
        (case out of
           [] \<Rightarrow> if rooted then [] else [''..'']
         | prev # rest \<Rightarrow> if prev = ''..'' then ''..'' # out else rest)
      else e # out)"

definition Clean :: "string \<Rightarrow> string" where
  "Clean p =
     (let rooted = (p \<noteq> [] \<and> hd p = CHR ''/'');
          body = join ''/'' (rev (fold (clean_step rooted) (split_on CHR ''/'' p) []))
      in if rooted then ''/'' @ body else if body = [] then ''.'' else body)"

text \<open>\<open>filepath.Join\<close> ignores empty elements.\<close>

definition Join :: "string list \<Rightarrow> string" where
  "Join elems =
     (let ne = filter (\<lambda>e. e \<noteq> []) elems in if ne = [] then [] else Clean (join ''/'' ne))"

datatype path_error = EmptyComponent string | TraversalComponent string | SeparatorComponent string

definition validatePathComponent :: "string \<Rightarrow> string \<Rightarrow> path_error option" where
  "validatePathComponent kind value =
     (if value = [] then Some (EmptyComponent kind)
      else if value = ''.'' \<or> value = ''..'' then Some (TraversalComponent kind)
      else if CHR ''/'' \<in> set value then Some (SeparatorComponent kind)
      else None)"

definition ValidatePolicyRef :: "string \<Rightarrow> string \<Rightarrow> path_error option" where
  "ValidatePolicyRef namespace workload =
     (case validatePathComponent ''namespace'' namespace of
        Some e \<Rightarrow> Some e
      | None \<Rightarrow> validatePathComponent ''workload'' workload)"

section \<open>Writing a file atomically\<close>

type_synonym files = "(string \<times> string) list"

datatype syscall = MkdirAll | ReadFile | ReadAgain | CreateTemp | WriteTemp | CloseTemp | ChmodTemp | Rename | RemoveTemp

text \<open>
  Which calls fail, the name \<open>CreateTemp\<close> picks, and the bytes a failing write leaves behind.
\<close>

record os_oracle =
  os_fails :: "syscall \<Rightarrow> bool"
  os_tmp :: string
  os_partial :: string

definition unlink :: "string \<Rightarrow> files \<Rightarrow> files" where
  "unlink p fs = filter (\<lambda>(q, _). q \<noteq> p) fs"

text \<open>The clean-up \<open>os.Remove\<close>, whose own failure is ignored.\<close>

definition remove_temp :: "os_oracle \<Rightarrow> files \<Rightarrow> files" where
  "remove_temp os fs = (if os_fails os RemoveTemp then fs else unlink (os_tmp os) fs)"

text \<open>
  The result (the call that failed, if one did) with the file systems after each call that
  changed it, the last one first.
\<close>

definition write_atomic ::
  "os_oracle \<Rightarrow> bool \<Rightarrow> string \<Rightarrow> string \<Rightarrow> files \<Rightarrow> syscall option \<times> files list" where
  "write_atomic os chmod path data fs =
     (if os_fails os CreateTemp then (Some CreateTemp, [fs])
      else let tmp = os_tmp os; fs1 = aput tmp [] fs
           in if os_fails os WriteTemp
              then let fs2 = aput tmp (os_partial os) fs1 in (Some WriteTemp, [remove_temp os fs2, fs2, fs1, fs])
              else let fs2 = aput tmp data fs1
                   in if os_fails os CloseTemp then (Some CloseTemp, [remove_temp os fs2, fs2, fs1, fs])
                      else if chmod \<and> os_fails os ChmodTemp then (Some ChmodTemp, [remove_temp os fs2, fs2, fs1, fs])
                      else if os_fails os Rename then (Some Rename, [remove_temp os fs2, fs2, fs1, fs])
                      else (None, [aput path data (unlink tmp fs2), fs2, fs1, fs]))"

section \<open>Path components\<close>

lemma valid_component:
  "validatePathComponent kind v = None \<longleftrightarrow> v \<noteq> [] \<and> v \<noteq> ''.'' \<and> v \<noteq> ''..'' \<and> CHR ''/'' \<notin> set v"
  by (simp add: validatePathComponent_def)

lemma ValidatePolicyRef_None:
  "ValidatePolicyRef ns w = None \<longleftrightarrow> validatePathComponent ''namespace'' ns = None \<and> validatePathComponent ''workload'' w = None"
  by (simp add: ValidatePolicyRef_def split: option.split)

text \<open>A path without empty, dot and dot-dot elements is clean, and so is what \<open>Join\<close> adds to one.\<close>

definition proper_elem :: "string \<Rightarrow> bool" where
  "proper_elem e \<longleftrightarrow> e \<noteq> [] \<and> e \<noteq> ''.'' \<and> e \<noteq> ''..'' \<and> CHR ''/'' \<notin> set e"

text \<open>A clean directory: the absolute path with the given elements.\<close>

definition abs_path :: "string list \<Rightarrow> string" where
  "abs_path es = ''/'' @ join ''/'' es"

lemma clean_fold_proper:
  "list_all proper_elem es \<Longrightarrow> fold (clean_step rooted) es out = rev es @ out"
  by (induction es arbitrary: out) (auto simp: clean_step_def proper_elem_def)

lemma split_abs_path:
  assumes "list_all proper_elem es" and "es \<noteq> []"
  shows "split_on CHR ''/'' (abs_path es) = [] # es"
proof -
  have "split_on CHR ''/'' (join ''/'' es) = es"
    using assms by (intro split_on_join) (auto simp: list_all_iff proper_elem_def)
  then show ?thesis
    using split_on_append_sep [of "CHR ''/''" "[]" "join ''/'' es"] by (simp add: abs_path_def)
qed

lemma Clean_abs_path:
  assumes "list_all proper_elem es" and "es \<noteq> []"
  shows "Clean (abs_path es) = abs_path es"
proof -
  have "hd (abs_path es) = CHR ''/''" "abs_path es \<noteq> []" by (simp_all add: abs_path_def)
  moreover have "fold (clean_step True) ([] # es) [] = rev es"
    using clean_fold_proper [OF assms(1), of True "[]"] by (simp add: clean_step_def)
  ultimately show ?thesis
    by (simp add: Clean_def split_abs_path [OF assms] Let_def) (simp add: abs_path_def)
qed

lemma join_append: "xs \<noteq> [] \<Longrightarrow> ys \<noteq> [] \<Longrightarrow> join sep (xs @ ys) = join sep xs @ sep @ join sep ys"
proof (induction xs)
  case (Cons x xs)
  then show ?case by (cases xs) (auto simp: join_Cons)
qed simp

lemma Join_abs_path:
  assumes "list_all proper_elem (es @ rest)" and "es \<noteq> []"
  shows "Join (abs_path es # rest) = abs_path (es @ rest)"
proof -
  have ne: "filter (\<lambda>e. e \<noteq> []) (abs_path es # rest) = abs_path es # rest"
    using assms(1) by (auto simp: abs_path_def filter_id_conv list_all_iff proper_elem_def)
  have "join ''/'' (abs_path es # rest) = abs_path (es @ rest)"
    using assms(2) by (cases rest) (simp_all add: abs_path_def join_Cons join_append)
  then show ?thesis
    unfolding Join_def ne Let_def using Clean_abs_path [OF assms(1)] assms(2) by simp
qed

lemma abs_path_inject:
  assumes "list_all proper_elem es" "list_all proper_elem es'" "es \<noteq> []" "es' \<noteq> []" "abs_path es = abs_path es'"
  shows "es = es'"
proof -
  have "[] # es = [] # es'"
    unfolding split_abs_path [OF assms(1,3), symmetric] split_abs_path [OF assms(2,4), symmetric] assms(5) ..
  then show ?thesis by simp
qed

lemma proper_component: "validatePathComponent kind v = None \<Longrightarrow> proper_elem v"
  by (simp add: valid_component proper_elem_def)

lemma proper_file_name:
  assumes "validatePathComponent kind v = None" and "CHR ''/'' \<notin> set ext" and "2 \<le> length ext"
  shows "proper_elem (v @ ext)"
proof -
  have "v \<noteq> []" "CHR ''/'' \<notin> set v" using assms(1) by (simp_all add: valid_component)
  then have "3 \<le> length (v @ ext)" using assms(3) by (cases v) auto
  then have "v @ ext \<noteq> ''..''" "v @ ext \<noteq> ''.''" by (auto dest!: arg_cong [of _ _ length])
  with \<open>v \<noteq> []\<close> \<open>CHR ''/'' \<notin> set v\<close> assms(2) show ?thesis by (simp add: proper_elem_def)
qed

text \<open>The file of a workload below a clean absolute directory.\<close>

lemma workload_path:
  assumes "ValidatePolicyRef ns w = None" and "list_all proper_elem es" "es \<noteq> []"
    and "CHR ''/'' \<notin> set ext" "2 \<le> length ext"
  shows "Join [Join [abs_path es, ns], w @ ext] = abs_path (es @ [ns, w @ ext])"
    and "list_all proper_elem (es @ [ns, w @ ext])"
proof -
  have p: "proper_elem ns" "proper_elem (w @ ext)"
    using assms(1,4,5) proper_component proper_file_name by (auto simp: ValidatePolicyRef_None)
  then show "list_all proper_elem (es @ [ns, w @ ext])" using assms(2) by simp
  show "Join [Join [abs_path es, ns], w @ ext] = abs_path (es @ [ns, w @ ext])"
    using Join_abs_path [of es "[ns]"] Join_abs_path [of "es @ [ns]" "[w @ ext]"] assms(2,3) p by simp
qed

section \<open>Atomicity\<close>

lemma map_of_unlink: "map_of (unlink p fs) = (map_of fs)(p := None)"
  by (induction fs) (auto simp: unlink_def fun_eq_iff)

lemma map_of_remove_temp:
  "map_of (remove_temp os fs) q = (if q = os_tmp os \<and> \<not> os_fails os RemoveTemp then None else map_of fs q)"
  by (simp add: remove_temp_def map_of_unlink)

text \<open>
  The contract of an update of one file: a state that others can see has, at each path but the
  temporary one, the old bytes, or, at the target, the new ones; in the end the target has
  the new bytes exactly when the update reports success.
\<close>

locale file_update =
  fixes update :: "'o \<Rightarrow> string \<Rightarrow> string \<Rightarrow> files \<Rightarrow> 'e option \<times> files list"
    and tmp :: "'o \<Rightarrow> string"
  assumes states: "update os path data fs = (r, sts) \<Longrightarrow> sts \<noteq> []"
    and others: "update os path data fs = (r, sts) \<Longrightarrow> st \<in> set sts \<Longrightarrow> q \<noteq> path \<Longrightarrow> q \<noteq> tmp os
      \<Longrightarrow> map_of st q = map_of fs q"
    and target: "update os path data fs = (r, sts) \<Longrightarrow> st \<in> set sts \<Longrightarrow> tmp os \<noteq> path
      \<Longrightarrow> map_of st path = map_of fs path \<or> map_of st path = Some data"
    and success: "update os path data fs = (None, sts) \<Longrightarrow> map_of (hd sts) path = Some data"
    and failure: "update os path data fs = (Some e, sts) \<Longrightarrow> tmp os \<noteq> path
      \<Longrightarrow> map_of (hd sts) path = map_of fs path"
begin

text \<open>A reader never sees a file half written.\<close>

lemma readers_see_whole:
  assumes u: "update os path data fs = (r, sts)" and st: "st \<in> set sts" and t: "tmp os \<noteq> path"
    and ok: "\<And>q c. map_of fs q = Some c \<Longrightarrow> P q c" "P path data"
    and q: "q \<noteq> tmp os" "map_of st q = Some c"
  shows "P q c"
proof (cases "q = path")
  case True
  with target [OF u st t] ok q(2) show ?thesis by auto
next
  case False
  with others [OF u st False q(1)] ok(1) q(2) show ?thesis by simp
qed

end

interpretation atomic: file_update "\<lambda>os. write_atomic os chmod" os_tmp for chmod
proof unfold_locales
  fix os path data fs r sts st q e
  show "write_atomic os chmod path data fs = (r, sts) \<Longrightarrow> sts \<noteq> []"
    by (auto simp: write_atomic_def Let_def split: if_splits)
  show "write_atomic os chmod path data fs = (r, sts) \<Longrightarrow> st \<in> set sts \<Longrightarrow> q \<noteq> path \<Longrightarrow> q \<noteq> os_tmp os
      \<Longrightarrow> map_of st q = map_of fs q"
    by (auto simp: write_atomic_def Let_def map_of_upsert map_of_remove_temp map_of_unlink split: if_splits)
  show "write_atomic os chmod path data fs = (r, sts) \<Longrightarrow> st \<in> set sts \<Longrightarrow> os_tmp os \<noteq> path
      \<Longrightarrow> map_of st path = map_of fs path \<or> map_of st path = Some data"
    by (auto simp: write_atomic_def Let_def map_of_upsert map_of_remove_temp map_of_unlink split: if_splits)
  show "write_atomic os chmod path data fs = (None, sts) \<Longrightarrow> map_of (hd sts) path = Some data"
    by (auto simp: write_atomic_def Let_def map_of_upsert get_or_def split: if_splits)
  show "write_atomic os chmod path data fs = (Some e, sts) \<Longrightarrow> os_tmp os \<noteq> path
      \<Longrightarrow> map_of (hd sts) path = map_of fs path"
    by (auto simp: write_atomic_def Let_def map_of_upsert map_of_remove_temp split: if_splits)
qed

lemma write_atomic_cleans:
  assumes "write_atomic os chmod path data fs = (r, sts)" and "map_of fs (os_tmp os) = None"
    and "\<not> os_fails os RemoveTemp" and "os_tmp os \<noteq> path"
  shows "map_of (hd sts) (os_tmp os) = None"
  using assms by (auto simp: write_atomic_def Let_def map_of_upsert map_of_remove_temp map_of_unlink split: if_splits)

end
