(* ===== verification/Output.thy ===== *)
theory Output
  imports Builder Files
begin

text \<open>
  \<open>pkg/output\<close>: the comments that describe a rule in the YAML (\<open>annotate.go\<close>) and the writer
  that merges a policy into its file (\<open>writer.go\<close>).  The YAML codec is a parameter.
\<close>

section \<open>Annotation\<close>

definition newline :: char where "newline = CHR 0x0A"

definition describeMatchExpression :: "label_requirement \<Rightarrow> string" where
  "describeMatchExpression x =
     (if lr_Operator x = ''Exists'' then lr_Key x @ '' exists''
      else if lr_Operator x = ''DoesNotExist'' then lr_Key x @ '' does not exist''
      else if lr_Operator x = ''In'' then lr_Key x @ '' in ('' @ join '', '' (lr_Values x) @ '')''
      else if lr_Operator x = ''NotIn'' then lr_Key x @ '' not in ('' @ join '', '' (lr_Values x) @ '')''
      else lr_Key x @ '' '' @ lr_Operator x @ '' '' @ join '', '' (lr_Values x))"

definition describeSelector :: "endpoint_selector \<Rightarrow> string" where
  "describeSelector ep =
     (case ep of
        None \<Rightarrow> []
      | Some ls \<Rightarrow> join '', '' (sort (map (\<lambda>(k, v). k @ ''='' @ v) (ls_MatchLabels ls)
                    @ map describeMatchExpression (ls_MatchExpressions ls))))"

definition describePeer :: "endpoint_selector list \<Rightarrow> string list \<Rightarrow> string list \<Rightarrow> string \<Rightarrow> string" where
  "describePeer endpoints entities cidrs direction =
     (let descs = filter (\<lambda>d. d \<noteq> []) (map describeSelector endpoints)
      in if entities \<noteq> [] then direction @ '' entity '' @ join '', '' entities
         else if cidrs \<noteq> [] then direction @ '' CIDR '' @ join '', '' cidrs
         else if descs \<noteq> [] then direction @ '' '' @ join '' or '' descs
         else direction @ '' any'')"

definition describe_icmp :: "icmp_field \<Rightarrow> string" where
  "describe_icmp f =
     (case if_Type f of
        Some t \<Rightarrow> if_Family f @ ''(type='' @ int_or_string_String t @ '')''
      | None \<Rightarrow> if_Family f)"

definition describeTraffic :: "port_rule list \<Rightarrow> icmp_rule list \<Rightarrow> string" where
  "describeTraffic ports icmps =
     (let parts = concat (map (\<lambda>pr. map (\<lambda>p. pp_Protocol p @ ''/'' @ pp_Port p) (pr_Ports pr)) ports)
                  @ concat (map (map describe_icmp) icmps)
      in if parts = [] then ''all traffic'' else join '', '' parts)"

definition describeIngressRule :: "ingress_rule \<Rightarrow> string" where
  "describeIngressRule r =
     describeTraffic (ir_ToPorts r) (ir_ICMPs r) @ '' '' @
     describePeer (ir_FromEndpoints r) (ir_FromEntities r) (ir_FromCIDR r) ''from''"

definition describeEgressRule :: "egress_rule \<Rightarrow> string" where
  "describeEgressRule r =
     describeTraffic (er_ToPorts r) (er_ICMPs r) @ '' '' @
     describePeer (er_ToEndpoints r) (er_ToEntities r) (er_ToCIDR r) ''to''"

datatype yaml_section = NoSection | IngressSection | EgressSection

definition next_section :: "string \<Rightarrow> yaml_section \<times> nat \<Rightarrow> yaml_section \<times> nat" where
  "next_section line s =
     (if line = ''  ingress:'' then (IngressSection, 0)
      else if line = ''  egress:'' then (EgressSection, 0)
      else if 2 < length line \<and> line ! 0 = CHR '' '' \<and> line ! 1 = CHR '' '' \<and> line ! 2 \<noteq> CHR '' '' \<and> line ! 2 \<noteq> CHR ''-''
      then (NoSection, snd s)
      else s)"

definition rule_comment :: "string list \<Rightarrow> string list \<Rightarrow> yaml_section \<times> nat \<Rightarrow> string list" where
  "rule_comment ingressDescs egressDescs s =
     (let desc = (case s of
                    (IngressSection, i) \<Rightarrow> if i < length ingressDescs then ingressDescs ! i else []
                  | (EgressSection, i) \<Rightarrow> if i < length egressDescs then egressDescs ! i else []
                  | (NoSection, _) \<Rightarrow> [])
      in if desc \<noteq> [] then [''  # '' @ desc] else [])"

fun annotate_lines :: "string list \<Rightarrow> string list \<Rightarrow> yaml_section \<times> nat \<Rightarrow> string list \<Rightarrow> string list" where
  "annotate_lines ins egs s [] = []"
| "annotate_lines ins egs s (line # rest) =
     (let s1 = next_section line s
      in if fst s1 \<noteq> NoSection \<and> has_prefix line ''  - ''
         then rule_comment ins egs s1 @ line # annotate_lines ins egs (fst s1, Suc (snd s1)) rest
         else line # annotate_lines ins egs s1 rest)"

definition annotateRules :: "string \<Rightarrow> rule option \<Rightarrow> string" where
  "annotateRules yamlData spec =
     (case spec of
        None \<Rightarrow> yamlData
      | Some r \<Rightarrow>
          join [newline] (annotate_lines (map describeIngressRule (ru_Ingress r)) (map describeEgressRule (ru_Egress r))
            (NoSection, 0) (split_on newline yamlData)))"

definition comment_line :: "string \<Rightarrow> bool" where
  "comment_line line \<longleftrightarrow> trim_space line \<noteq> [] \<and> has_prefix (trim_space line) ''#''"

definition stripComments :: "string \<Rightarrow> string" where
  "stripComments yamlStr = join [newline] (filter (\<lambda>line. \<not> comment_line line) (split_on newline yamlStr))"

section \<open>The writer\<close>

record yaml_codec =
  ya_marshal :: "cnp \<Rightarrow> string option"
  ya_unmarshal :: "string \<Rightarrow> cnp option"

datatype write_error = RefusedRef path_error | MkdirError | ReadError | UnmarshalError | MarshalError | SysError syscall

text \<open>\<open>None\<close> inside \<open>Inr\<close> is the missing file.\<close>

definition readExistingPolicy :: "yaml_codec \<Rightarrow> os_oracle \<Rightarrow> string \<Rightarrow> files \<Rightarrow> write_error + cnp option" where
  "readExistingPolicy Y os path fs =
     (if os_fails os ReadFile then Inl ReadError
      else case map_of fs path of
             None \<Rightarrow> Inr None
           | Some data \<Rightarrow> (case ya_unmarshal Y data of None \<Rightarrow> Inl UnmarshalError | Some p \<Rightarrow> Inr (Some p)))"

definition policy_path :: "string \<Rightarrow> string \<Rightarrow> string \<Rightarrow> string" where
  "policy_path outputDir namespace workload = Join [Join [outputDir, namespace], workload @ ''.yaml'']"

definition write_policy_file ::
  "os_oracle \<Rightarrow> string \<Rightarrow> string \<Rightarrow> rule option \<Rightarrow> files \<Rightarrow> write_error option \<times> files list" where
  "write_policy_file os path data spec fs =
     (case write_atomic os True path (annotateRules data spec) fs of
        (r, sts) \<Rightarrow> (map_option SysError r, sts))"

text \<open>The error, if any, and the file systems the call went through, the last one first.\<close>

definition Write ::
  "externals \<Rightarrow> yaml_codec \<Rightarrow> os_oracle \<Rightarrow> string \<Rightarrow> policy_event \<Rightarrow> files \<Rightarrow> write_error option \<times> files list" where
  "Write E Y os outputDir ev fs =
     (case ValidatePolicyRef (ev_Namespace ev) (ev_Workload ev) of
        Some e \<Rightarrow> (Some (RefusedRef e), [fs])
      | None \<Rightarrow>
          if os_fails os MkdirAll then (Some MkdirError, [fs])
          else let path = policy_path outputDir (ev_Namespace ev) (ev_Workload ev)
               in case readExistingPolicy Y os path fs of
                    Inl e \<Rightarrow> (Some e, [fs])
                  | Inr (Some existing) \<Rightarrow>
                      (let merged = MergePolicyWithOptions E existing (ev_Policy ev) \<lparr>mo_ReplaceL7HTTP = ev_ReplaceL7HTTP ev\<rparr>
                       in case ya_marshal Y merged of
                            None \<Rightarrow> (Some MarshalError, [fs])
                          | Some data \<Rightarrow>
                              if \<not> os_fails os ReadAgain \<and> map_option stripComments (map_of fs path) = Some data
                              then (None, [fs])
                              else write_policy_file os path data (cnp_Spec merged) fs)
                  | Inr None \<Rightarrow>
                      (case ya_marshal Y (ev_Policy ev) of
                         None \<Rightarrow> (Some MarshalError, [fs])
                       | Some data \<Rightarrow> write_policy_file os path data (cnp_Spec (ev_Policy ev)) fs))"

text \<open>\<open>ReadExisting\<close>: the bytes of the file, or nothing when there is none.\<close>

definition ReadExisting :: "os_oracle \<Rightarrow> string \<Rightarrow> string \<Rightarrow> string \<Rightarrow> files \<Rightarrow> write_error + string option" where
  "ReadExisting os outputDir namespace workload fs =
     (if os_fails os ReadFile then Inl ReadError
      else Inr (map_of fs (Join [outputDir, namespace, workload @ ''.yaml''])))"

definition UnmarshalPolicy :: "yaml_codec \<Rightarrow> string \<Rightarrow> write_error + cnp" where
  "UnmarshalPolicy Y data = (case ya_unmarshal Y data of None \<Rightarrow> Inl UnmarshalError | Some p \<Rightarrow> Inr p)"

text \<open>A missing file is an error here, told apart from the others.\<close>

datatype read_file_error = FileMissing | FileUnreadable | FileMalformed

definition ReadPolicyFile :: "yaml_codec \<Rightarrow> os_oracle \<Rightarrow> string \<Rightarrow> files \<Rightarrow> read_file_error + cnp" where
  "ReadPolicyFile Y os path fs =
     (if os_fails os ReadFile then Inl FileUnreadable
      else case map_of fs path of
             None \<Rightarrow> Inl FileMissing
           | Some data \<Rightarrow> (case UnmarshalPolicy Y data of Inl _ \<Rightarrow> Inl FileMalformed | Inr p \<Rightarrow> Inr p))"

section \<open>Annotation is invisible to the comparison\<close>

lemma trim_with_split: "\<exists>w. s = w @ trim_with sps s \<and> set w \<subseteq> \<Union> (set ` set sps)"
proof (induction sps s rule: trim_with.induct)
  case (1 sps s)
  show ?case
  proof (cases "find (\<lambda>sp. sp \<noteq> [] \<and> has_prefix s sp) sps")
    case None
    then show ?thesis by (simp add: trim_with.simps [of sps s])
  next
    case (Some sp)
    from 1 [OF Some] obtain w where w: "drop (length sp) s = w @ trim_with sps (drop (length sp) s)"
      "set w \<subseteq> \<Union> (set ` set sps)" by blast
    have sp: "sp \<in> set sps" "take (length sp) s = sp"
      using Some by (auto simp: find_Some_iff has_prefix_def)
    have "s = (sp @ w) @ trim_with sps s"
      using w(1) sp(2) Some append_take_drop_id [of "length sp" s] by (simp add: trim_with.simps [of sps s])
    moreover have "set (sp @ w) \<subseteq> \<Union> (set ` set sps)" using w(2) sp(1) by auto
    ultimately show ?thesis by blast
  qed
qed

lemma space_rune_heads:
  "list_all (\<lambda>r. r \<noteq> [] \<and> CHR ''#'' \<notin> set r \<and> (hd r = CHR '' '' \<longrightarrow> r = [CHR '' ''])) space_runes"
  by code_simp

lemma trim_with_blank: "trim_with space_runes (CHR '' '' # s) = trim_with space_runes s"
proof -
  let ?P = "\<lambda>sp. sp \<noteq> [] \<and> has_prefix (CHR '' '' # s) sp"
  have "[CHR '' ''] \<in> set space_runes" by (simp add: space_runes_def)
  moreover have "?P [CHR '' '']" by (simp add: has_prefix_def)
  ultimately obtain sp where f: "find ?P space_runes = Some sp"
    by (cases "find ?P space_runes") (auto simp: find_None_iff)
  then have "?P sp" "sp \<in> set space_runes" by (auto simp: find_Some_iff)
  moreover from this have "hd sp = CHR '' ''" by (cases sp) (auto simp: has_prefix_def)
  ultimately have "sp = [CHR '' '']" using space_rune_heads by (auto simp: list_all_iff)
  with f show ?thesis by (simp add: trim_with.simps [of space_runes "CHR '' '' # s"])
qed

lemma trim_with_hash: "trim_with space_runes (CHR ''#'' # s) = CHR ''#'' # s"
proof -
  have "\<not> has_prefix (CHR ''#'' # s) sp" if "sp \<in> set space_runes" for sp
    using space_rune_heads that by (cases sp) (auto simp: list_all_iff has_prefix_def)
  then have "find (\<lambda>sp. sp \<noteq> [] \<and> has_prefix (CHR ''#'' # s) sp) space_runes = None"
    by (auto simp: find_None_iff)
  then show ?thesis by (simp add: trim_with.simps [of space_runes "CHR ''#'' # s"])
qed

lemma trim_space_comment: "\<exists>t. trim_space (CHR '' '' # CHR '' '' # CHR ''#'' # s) = CHR ''#'' # t"
proof -
  let ?s = "CHR ''#'' # s" and ?runes = "map rev space_runes"
  obtain w where w: "rev ?s = w @ trim_with ?runes (rev ?s)" "set w \<subseteq> \<Union> (set ` set ?runes)"
    using trim_with_split by blast
  have "CHR ''#'' \<notin> set w"
    using w(2) space_rune_heads by (fastforce simp: list_all_iff)
  moreover have "CHR ''#'' \<in> set (w @ trim_with ?runes (rev ?s))" unfolding w(1) [symmetric] by simp
  ultimately have ne: "trim_with ?runes (rev ?s) \<noteq> []" by auto
  have "?s = rev (trim_with ?runes (rev ?s)) @ rev w"
    using arg_cong [OF w(1), of rev] by (simp only: rev_rev_ident rev_append)
  with ne have "hd (rev (trim_with ?runes (rev ?s))) = CHR ''#''"
    by (metis hd_append list.sel(1) rev_is_Nil_conv)
  moreover have "trim_space (CHR '' '' # CHR '' '' # ?s) = rev (trim_with ?runes (rev ?s))"
    by (simp add: trim_space_def trim_with_blank trim_with_hash)
  ultimately show ?thesis using ne by (metis hd_Cons_tl rev_is_Nil_conv)
qed

lemma comment_comment: "comment_line (''  # '' @ d)"
  using trim_space_comment [of "'' '' @ d"] by (auto simp: comment_line_def has_prefix_def)

lemma rule_comment_lines: "list_all comment_line (rule_comment ins egs s)"
  using comment_comment by (simp add: rule_comment_def Let_def)

lemma filter_annotate_lines:
  "filter (\<lambda>l. \<not> comment_line l) (annotate_lines ins egs s ls) = filter (\<lambda>l. \<not> comment_line l) ls"
proof (induction ins egs s ls rule: annotate_lines.induct)
  case (2 ins egs s line rest)
  have "filter (\<lambda>l. \<not> comment_line l) (rule_comment ins egs (next_section line s)) = []"
    using rule_comment_lines [of ins egs "next_section line s"] by (simp add: filter_empty_conv list_all_iff)
  with 2 show ?case by (simp add: Let_def)
qed simp

lemma annotate_lines_not_Nil: "ls \<noteq> [] \<Longrightarrow> annotate_lines ins egs s ls \<noteq> []"
  by (cases ls) (simp_all add: Let_def)

text \<open>One comment is one line as long as no part of the description contains a line break.\<close>

definition one_line_rules :: "rule \<Rightarrow> bool" where
  "one_line_rules r \<longleftrightarrow>
     list_all (\<lambda>d. newline \<notin> set d) (map describeIngressRule (ru_Ingress r) @ map describeEgressRule (ru_Egress r))"

lemma annotate_lines_no_newline:
  assumes "list_all (\<lambda>d. newline \<notin> set d) ins" "list_all (\<lambda>d. newline \<notin> set d) egs"
    and "list_all (\<lambda>l. newline \<notin> set l) ls"
  shows "list_all (\<lambda>l. newline \<notin> set l) (annotate_lines ins egs s ls)"
  using assms
proof (induction ins egs s ls rule: annotate_lines.induct)
  case (2 ins egs s line rest)
  have "list_all (\<lambda>l. newline \<notin> set l) (rule_comment ins egs (next_section line s))"
    using 2(3,4) by (auto simp: rule_comment_def Let_def list_all_length newline_def split: prod.splits yaml_section.splits)
  with 2 show ?case by (simp add: Let_def)
qed simp

lemma stripComments_annotate:
  assumes "case spec of None \<Rightarrow> True | Some r \<Rightarrow> one_line_rules r"
  shows "stripComments (annotateRules data spec) = stripComments data"
proof (cases spec)
  case None
  then show ?thesis by (simp add: annotateRules_def)
next
  case (Some r)
  let ?ins = "map describeIngressRule (ru_Ingress r)" and ?egs = "map describeEgressRule (ru_Egress r)"
  let ?ls = "annotate_lines ?ins ?egs (NoSection, 0) (split_on newline data)"
  have "list_all (\<lambda>l. newline \<notin> set l) ?ls"
    using assms Some split_on_parts [of _ newline data]
    by (intro annotate_lines_no_newline) (auto simp: one_line_rules_def list_all_iff)
  then have "split_on newline (join [newline] ?ls) = ?ls"
    by (intro split_on_join annotate_lines_not_Nil) (auto simp: list_all_iff)
  then show ?thesis
    by (simp add: stripComments_def annotateRules_def Some filter_annotate_lines)
qed

section \<open>Properties of the writer\<close>

text \<open>What \<open>Write\<close> may put into the file: the policy of the event, or its merge with the one read.\<close>

definition written_policy :: "externals \<Rightarrow> yaml_codec \<Rightarrow> policy_event \<Rightarrow> string option \<Rightarrow> cnp \<Rightarrow> bool" where
  "written_policy E Y ev old p \<longleftrightarrow>
     (case old of
        None \<Rightarrow> p = ev_Policy ev
      | Some data \<Rightarrow> (case ya_unmarshal Y data of
            None \<Rightarrow> False
          | Some existing \<Rightarrow> p = MergePolicyWithOptions E existing (ev_Policy ev) \<lparr>mo_ReplaceL7HTTP = ev_ReplaceL7HTTP ev\<rparr>))"

abbreviation event_path :: "string \<Rightarrow> policy_event \<Rightarrow> string" where
  "event_path dir ev \<equiv> policy_path dir (ev_Namespace ev) (ev_Workload ev)"

lemma Write_cases:
  assumes "Write E Y os dir ev fs = (r, sts)"
  obtains (Untouched) "sts = [fs]"
  | (Updated) p data where "ya_marshal Y p = Some data" "written_policy E Y ev (map_of fs (event_path dir ev)) p"
      "ValidatePolicyRef (ev_Namespace ev) (ev_Workload ev) = None"
      "write_policy_file os (event_path dir ev) data (cnp_Spec p) fs = (r, sts)"
proof -
  let ?path = "event_path dir ev"
  consider "sts = [fs]"
    | "ValidatePolicyRef (ev_Namespace ev) (ev_Workload ev) = None" "\<not> os_fails os MkdirAll" "sts \<noteq> [fs]"
    using assms by (cases "ValidatePolicyRef (ev_Namespace ev) (ev_Workload ev)"; cases "os_fails os MkdirAll")
      (auto simp: Write_def)
  then show ?thesis
  proof cases
    case 1
    then show ?thesis by (rule Untouched)
  next
    case 2
    show ?thesis
    proof (cases "readExistingPolicy Y os ?path fs")
      case (Inl e)
      then show ?thesis using assms 2 by (auto simp: Write_def)
    next
      case (Inr b)
      show ?thesis
      proof (cases b)
        case None
        then have "map_of fs ?path = None"
          using Inr by (auto simp: readExistingPolicy_def split: if_splits option.splits)
        then have w: "written_policy E Y ev (map_of fs ?path) (ev_Policy ev)" by (simp add: written_policy_def)
        show ?thesis
          using assms 2 Inr None Updated [OF _ w]
          by (cases "ya_marshal Y (ev_Policy ev)") (auto simp: Write_def)
      next
        case (Some existing)
        let ?m = "MergePolicyWithOptions E existing (ev_Policy ev) \<lparr>mo_ReplaceL7HTTP = ev_ReplaceL7HTTP ev\<rparr>"
        have w: "written_policy E Y ev (map_of fs ?path) ?m"
          using Inr Some by (auto simp: readExistingPolicy_def written_policy_def split: if_splits option.splits)
        show ?thesis
          using assms 2 Inr Some Updated [OF _ w]
          by (cases "ya_marshal Y ?m") (auto simp: Write_def Let_def split: if_splits)
      qed
    qed
  qed
qed

lemma write_policy_file_states:
  assumes "write_policy_file os path data spec fs = (r, sts)"
  shows "sts \<noteq> []"
    and "st \<in> set sts \<Longrightarrow> q \<noteq> path \<Longrightarrow> q \<noteq> os_tmp os \<Longrightarrow> map_of st q = map_of fs q"
    and "st \<in> set sts \<Longrightarrow> os_tmp os \<noteq> path \<Longrightarrow> map_of st path = map_of fs path \<or> map_of st path = Some (annotateRules data spec)"
    and "r = None \<Longrightarrow> map_of (hd sts) path = Some (annotateRules data spec)"
    and "r \<noteq> None \<Longrightarrow> os_tmp os \<noteq> path \<Longrightarrow> map_of (hd sts) path = map_of fs path"
proof -
  obtain r0 where w: "write_atomic os True path (annotateRules data spec) fs = (r0, sts)" "r = map_option SysError r0"
    using assms by (auto simp: write_policy_file_def split: prod.splits)
  show "sts \<noteq> []" by (rule atomic.states [OF w(1)])
  show "st \<in> set sts \<Longrightarrow> q \<noteq> path \<Longrightarrow> q \<noteq> os_tmp os \<Longrightarrow> map_of st q = map_of fs q"
    by (rule atomic.others [OF w(1)])
  show "st \<in> set sts \<Longrightarrow> os_tmp os \<noteq> path \<Longrightarrow> map_of st path = map_of fs path \<or> map_of st path = Some (annotateRules data spec)"
    by (rule atomic.target [OF w(1)])
  show "r = None \<Longrightarrow> map_of (hd sts) path = Some (annotateRules data spec)"
    using atomic.success [of os True path "annotateRules data spec" fs sts] w by simp
  show "r \<noteq> None \<Longrightarrow> os_tmp os \<noteq> path \<Longrightarrow> map_of (hd sts) path = map_of fs path"
    using atomic.failure [of os True path "annotateRules data spec" fs _ sts] w by auto
qed

lemma Write_state:
  assumes "Write E Y os dir ev fs = (r, sts)" and "event_path dir ev \<noteq> os_tmp os"
    and "st \<in> set sts" and "q \<noteq> os_tmp os"
  shows "map_of st q = map_of fs q
     \<or> (q = event_path dir ev \<and> (\<exists>p data. ya_marshal Y p = Some data \<and> written_policy E Y ev (map_of fs q) p
          \<and> map_of st q = Some (annotateRules data (cnp_Spec p))))"
  using assms(1)
proof (cases rule: Write_cases)
  case Untouched
  with assms(3) show ?thesis by simp
next
  case (Updated p data)
  show ?thesis
  proof (cases "q = event_path dir ev")
    case True
    with write_policy_file_states(3) [OF Updated(4) assms(3)] assms(2) Updated(1,2) show ?thesis by auto
  next
    case False
    with write_policy_file_states(2) [OF Updated(4) assms(3) _ assms(4)] show ?thesis by simp
  qed
qed

lemma Write_failed:
  assumes "Write E Y os dir ev fs = (Some e, sts)" and "event_path dir ev \<noteq> os_tmp os"
  shows "map_of (hd sts) (event_path dir ev) = map_of fs (event_path dir ev)"
  using assms(1)
proof (cases rule: Write_cases)
  case (Updated p data)
  then show ?thesis using write_policy_file_states(5) [OF Updated(4)] assms(2) by auto
qed simp

text \<open>C35: A policy write is atomic and local: in every state of the file system the call goes through, each
  path other than the temporary one has its old bytes, or it is the workload's own file and has the
  complete annotated YAML of the event's policy, merged with the policy read from that file if there
  was one; and when the call reports an error the workload's file is as before.\<close>

theorem Write_atomic:
  assumes "Write E Y os dir ev fs = (r, sts)" and "event_path dir ev \<noteq> os_tmp os"
    and "st \<in> set sts" and "q \<noteq> os_tmp os"
  shows "(map_of st q = map_of fs q
     \<or> (q = event_path dir ev \<and> (\<exists>p data. ya_marshal Y p = Some data \<and> written_policy E Y ev (map_of fs q) p
          \<and> map_of st q = Some (annotateRules data (cnp_Spec p)))))
    \<and> (r \<noteq> None \<longrightarrow> map_of (hd sts) (event_path dir ev) = map_of fs (event_path dir ev))"
  using Write_state [OF assms] Write_failed [of E Y os dir ev fs _ sts] assms(1,2) by (cases r) simp_all

text \<open>C39: A file name never escapes the output directory and is never shared: below a clean absolute directory,
  the file of an accepted namespace and workload is that directory, the namespace, the workload with
  its extension, and a different accepted pair has a different file.\<close>

theorem policy_path_confined:
  assumes "ValidatePolicyRef ns w = None" and "list_all proper_elem es" and "es \<noteq> []"
  shows "policy_path (abs_path es) ns w = abs_path es @ ''/'' @ ns @ ''/'' @ w @ ''.yaml''
    \<and> (ValidatePolicyRef ns' w' = None \<and> policy_path (abs_path es) ns' w' = policy_path (abs_path es) ns w
        \<longrightarrow> ns' = ns \<and> w' = w)"
proof -
  have ext: "CHR ''/'' \<notin> set ''.yaml''" "2 \<le> length ''.yaml''" by simp_all
  have p: "policy_path (abs_path es) n v = abs_path (es @ [n, v @ ''.yaml''])"
    "list_all proper_elem (es @ [n, v @ ''.yaml''])" if "ValidatePolicyRef n v = None" for n v
    using workload_path [OF that assms(2,3) ext] by (simp_all add: policy_path_def)
  have "ns' = ns \<and> w' = w" if v: "ValidatePolicyRef ns' w' = None"
    and e: "policy_path (abs_path es) ns' w' = policy_path (abs_path es) ns w"
  proof -
    have "es @ [ns', w' @ ''.yaml''] = es @ [ns, w @ ''.yaml'']"
      by (rule abs_path_inject [OF p(2) [OF v] p(2) [OF assms(1)] _ _ e [unfolded p(1) [OF v] p(1) [OF assms(1)]]]) simp_all
    then show ?thesis by simp
  qed
  moreover have "abs_path (es @ [ns, w @ ''.yaml'']) = abs_path es @ ''/'' @ ns @ ''/'' @ w @ ''.yaml''"
    using assms(3) by (simp add: abs_path_def join_append join_Cons)
  ultimately show ?thesis using p(1) [OF assms(1)] by auto
qed

theorem policy_path_confined_witness:
  "policy_path ''/out'' ''prod'' ''api'' = ''/out/prod/api.yaml''
   \<and> policy_path ''/out'' ''prod'' ''api'' \<noteq> policy_path ''/out'' ''prod'' ''db''"
proof -
  have o: "abs_path [''out''] = ''/out''" and v: "ValidatePolicyRef ''prod'' ''api'' = None" "ValidatePolicyRef ''prod'' ''db'' = None"
    by (simp_all add: abs_path_def ValidatePolicyRef_def validatePathComponent_def)
  show ?thesis
    using policy_path_confined [OF v(1), of "[''out'']" "''prod''" "''db''", unfolded o] v(2)
    by (auto simp: proper_elem_def)
qed

text \<open>Annotation is invisible to the comparison: stripping the comments from an annotated file gives what
  stripping them from the plain YAML gives, as long as no description contains a line break.\<close>

theorem annotateRules_invisible:
  assumes "one_line_rules r"
  shows "stripComments (annotateRules data (Some r)) = stripComments data"
  by (rule stripComments_annotate) (simp add: assms)

theorem annotateRules_invisible_witness:
  "stripComments (annotateRules (join [newline] [''spec:'', ''  ingress:'', ''  - fromEntities:'']) (Some demo_rule))
     = stripComments (join [newline] [''spec:'', ''  ingress:'', ''  - fromEntities:''])"
  by (rule annotateRules_invisible) code_simp

section \<open>Writing twice\<close>

text \<open>
  What the writer expects of the codec for one policy: its YAML has no comment lines, and
  text that differs from it in comment lines only is read back as the policy.
\<close>

definition codec_reads_back :: "yaml_codec \<Rightarrow> cnp \<Rightarrow> bool" where
  "codec_reads_back Y p \<longleftrightarrow>
     (\<exists>data. ya_marshal Y p = Some data \<and> stripComments data = data
        \<and> (\<forall>d. stripComments d = data \<longrightarrow> ya_unmarshal Y d = Some p))"

text \<open>Writing the same policy again does nothing: after a first successful write to a new file, a second
  write of the same event leaves the file system as it is, for policies in the form the builder
  gives them and a codec that ignores comments.\<close>

theorem Write_twice:
  assumes "map_of fs (event_path dir ev) = None" and "Write E Y os dir ev fs = (None, sts)"
    and "cnp_Spec (ev_Policy ev) = Some sp" and "separate_rules E sp" and "one_line_rules sp"
    and "list_all nf_ingress (ru_Ingress sp)" and "list_all nf_egress (ru_Egress sp)"
    and "codec_reads_back Y (ev_Policy ev)"
    and "\<not> os_fails os' MkdirAll" "\<not> os_fails os' ReadFile" "\<not> os_fails os' ReadAgain"
  shows "Write E Y os' dir ev (hd sts) = (None, [hd sts])"
proof -
  let ?path = "event_path dir ev" and ?p = "ev_Policy ev"
  obtain data where data: "ya_marshal Y ?p = Some data" "stripComments data = data"
    "\<And>d. stripComments d = data \<Longrightarrow> ya_unmarshal Y d = Some ?p"
    using assms(8) by (auto simp: codec_reads_back_def)
  have v: "ValidatePolicyRef (ev_Namespace ev) (ev_Workload ev) = None"
    using assms(2) by (auto simp: Write_def split: option.splits)
  then have "write_policy_file os ?path data (cnp_Spec ?p) fs = (None, sts)"
    using assms(1,2) data(1) by (auto simp: Write_def readExistingPolicy_def Let_def split: if_splits)
  then have cont: "map_of (hd sts) ?path = Some (annotateRules data (Some sp))"
    using write_policy_file_states(4) assms(3) by fastforce
  have strip: "stripComments (annotateRules data (Some sp)) = data"
    using stripComments_annotate [of "Some sp" data] assms(5) data(2) by simp
  have merge: "MergePolicyWithOptions E ?p ?p opts = ?p" for opts
    using merge_spec_absorb [OF assms(4) subset_refl assms(6) subset_refl assms(7)] assms(3)
    by (simp add: MergePolicyWithOptions_def)
  show ?thesis
    using v assms(9-11) data(1) cont strip data(3) [OF strip] merge
    by (simp add: Write_def readExistingPolicy_def Let_def)
qed

definition demo_codec :: yaml_codec where
  "demo_codec = \<lparr>ya_marshal = (\<lambda>p. Some (cnp_Name p)),
     ya_unmarshal = (\<lambda>d. if stripComments d = ''cpg-a'' then Some demo_policy else None)\<rparr>"

definition demo_event :: policy_event where
  "demo_event = \<lparr>ev_Namespace = ''ns'', ev_Workload = ''a'', ev_Policy = demo_policy, ev_Attribution = [], ev_ReplaceL7HTTP = False\<rparr>"

definition demo_os :: os_oracle where
  "demo_os = \<lparr>os_fails = (\<lambda>_. False), os_tmp = ''/out/ns/a.yaml.tmp-1'', os_partial = []\<rparr>"

abbreviation demo_write where
  "demo_write \<equiv> Write demo_externals demo_codec demo_os ''/out'' demo_event []"

theorem Write_twice_witness:
  "Write demo_externals demo_codec demo_os ''/out'' demo_event (hd (snd demo_write)) = (None, [hd (snd demo_write)])"
proof (rule Write_twice [where fs = "[]" and os = demo_os and sp = demo_rule])
  show "map_of [] (event_path ''/out'' demo_event) = None" by simp
  show "demo_write = (None, snd demo_write)" by code_simp
  show "cnp_Spec (ev_Policy demo_event) = Some demo_rule" by (simp add: demo_event_def demo_policy_def)
  show "separate_rules demo_externals demo_rule" "one_line_rules demo_rule"
    "list_all nf_ingress (ru_Ingress demo_rule)" "list_all nf_egress (ru_Egress demo_rule)" by code_simp+
  have "stripComments ''cpg-a'' = ''cpg-a''" by code_simp
  then show "codec_reads_back demo_codec (ev_Policy demo_event)"
    by (simp add: codec_reads_back_def demo_codec_def demo_event_def demo_policy_def)
  show "\<not> os_fails demo_os MkdirAll" "\<not> os_fails demo_os ReadFile" "\<not> os_fails demo_os ReadAgain"
    by (simp_all add: demo_os_def)
qed

theorem Write_atomic_witness:
  "map_of (hd (snd demo_write)) ''/other'' = map_of [] ''/other''"
proof -
  have w: "demo_write = (fst demo_write, snd demo_write)" by simp
  have s: "event_path ''/out'' demo_event = ''/out/ns/a.yaml''" "os_tmp demo_os = ''/out/ns/a.yaml.tmp-1''"
    "hd (snd demo_write) \<in> set (snd demo_write)"
    by code_simp+
  show ?thesis
    using Write_atomic [OF w _ s(3), of "''/other''"] s(1,2) by simp
qed

end
