(* ===== verification/PolicyWriter.thy ===== *)
theory PolicyWriter
  imports Dedup Output
begin

text \<open>
  \<open>pkg/hubble/writer.go\<close>, with the cluster snapshot it compares against
  (\<open>pkg/k8s/cluster_dedup.go\<close>), the dry-run diff (\<open>pkg/diff/yaml.go\<close>) and the session
  counters it feeds (\<open>SessionStats\<close> of \<open>pkg/hubble/pipeline.go\<close>).  The API server, the diff
  library and the YAML codec are parameters; log lines are not kept.
\<close>

section \<open>Session statistics\<close>

record session_stats =
  ss_StartTime :: time
  ss_FlowsSeen :: u64
  ss_PoliciesWritten :: u64
  ss_PoliciesSkipped :: u64
  ss_PoliciesFailed :: u64
  ss_PoliciesWouldWrite :: u64
  ss_PoliciesWouldSkip :: u64
  ss_LostEvents :: u64
  ss_L7HTTPCount :: u64
  ss_L7DNSCount :: u64
  ss_AuditVerdictCount :: u64
  ss_IgnoredByProtocol :: "(string \<times> u64) list"
  ss_InfraDropTotal :: u64
  ss_InfraDropsByReason :: "(drop_reason \<times> u64) list"
  ss_OutputDir :: string

definition new_stats :: "time \<Rightarrow> string \<Rightarrow> session_stats" where
  "new_stats start outputDir =
     \<lparr>ss_StartTime = start, ss_FlowsSeen = 0, ss_PoliciesWritten = 0, ss_PoliciesSkipped = 0,
      ss_PoliciesFailed = 0, ss_PoliciesWouldWrite = 0, ss_PoliciesWouldSkip = 0, ss_LostEvents = 0,
      ss_L7HTTPCount = 0, ss_L7DNSCount = 0, ss_AuditVerdictCount = 0, ss_IgnoredByProtocol = [],
      ss_InfraDropTotal = 0, ss_InfraDropsByReason = [], ss_OutputDir = outputDir\<rparr>"

section \<open>The cluster snapshot\<close>

text \<open>A policy of the API server is paired with its namespace; the map is keyed by its name alone.\<close>

type_synonym cnp_map = "(string \<times> cnp) list"

definition buildClusterPolicyMap :: "cnp list \<Rightarrow> cnp_map" where
  "buildClusterPolicyMap policies = fold (\<lambda>p m. aput (cnp_Name p) p m) policies []"

text \<open>The listing of the managed policies of a namespace, \<open>None\<close> on an error.\<close>

definition LoadClusterPolicies :: "(string \<Rightarrow> cnp list option) \<Rightarrow> string \<Rightarrow> cnp_map option" where
  "LoadClusterPolicies api namespace = map_option buildClusterPolicyMap (api namespace)"

definition LoadClusterPoliciesForNamespaces :: "(string \<Rightarrow> cnp list option) \<Rightarrow> string list \<Rightarrow> cnp_map option" where
  "LoadClusterPoliciesForNamespaces api namespaces =
     fold (\<lambda>ns r. case r of
         None \<Rightarrow> None
       | Some result \<Rightarrow>
           (case LoadClusterPolicies api ns of
              None \<Rightarrow> None
            | Some policies \<Rightarrow> Some (fold (\<lambda>(name, pol) m. aput name pol m) policies result)))
       namespaces (Some [])"

section \<open>The diff\<close>

text \<open>\<open>strings.SplitAfter(s, newline)\<close>: each piece but the last ends with the line break.\<close>

fun split_after :: "string \<Rightarrow> string list" where
  "split_after [] = [[]]"
| "split_after (c # s) =
     (if c = newline then [c] # split_after s
      else case split_after s of [] \<Rightarrow> [[c]] | l # ls \<Rightarrow> (c # l) # ls)"

definition escape :: char where "escape = CHR 0x1B"

definition colorize_line :: "string \<Rightarrow> string" where
  "colorize_line line =
     (let red = escape # ''[31m''; green = escape # ''[32m''; reset = escape # ''[0m''
      in if has_prefix line ''+++'' \<or> has_prefix line ''---'' then line
         else if has_prefix line ''+'' then green @ line @ reset
         else if has_prefix line ''-'' then red @ line @ reset
         else line)"

definition colorize :: "string \<Rightarrow> string" where
  "colorize s = concat (map colorize_line (split_after s))"

text \<open>
  The diff library gets the two names and the two texts; \<open>None\<close> is its error.
\<close>

type_synonym differ = "string \<Rightarrow> string \<Rightarrow> string \<Rightarrow> string \<Rightarrow> string option"

definition UnifiedYAML :: "differ \<Rightarrow> string \<Rightarrow> string \<Rightarrow> string \<Rightarrow> string \<Rightarrow> bool \<Rightarrow> string option" where
  "UnifiedYAML D aName bName a b color =
     (if a = b then Some []
      else case D aName bName a b of
             None \<Rightarrow> None
           | Some out \<Rightarrow> Some (if color then colorize out else out))"

section \<open>The writer\<close>

text \<open>What the writer calls: the codec of policies and of rules, the diff library.\<close>

record writer_env =
  we_externals :: externals
  we_yaml :: yaml_codec
  we_marshal_rule :: "rule \<Rightarrow> string option"
  we_differ :: differ

record policy_writer =
  pw_outputDir :: string
  pw_clusterPolicies :: "cnp_map option"
  pw_written :: cnp_map
  pw_stats :: session_stats
  pw_dryRun :: bool
  pw_dryRunDiff :: bool
  pw_dryRunColor :: bool
  pw_diffOut :: string

definition newPolicyWriter :: "string \<Rightarrow> cnp_map option \<Rightarrow> session_stats \<Rightarrow> policy_writer" where
  "newPolicyWriter outputDir clusterPolicies stats =
     \<lparr>pw_outputDir = outputDir, pw_clusterPolicies = clusterPolicies, pw_written = [], pw_stats = stats,
      pw_dryRun = False, pw_dryRunDiff = False, pw_dryRunColor = False, pw_diffOut = []\<rparr>"

definition equivalent :: "writer_env \<Rightarrow> cnp \<Rightarrow> policy_event \<Rightarrow> bool" where
  "equivalent W a pe = (case PoliciesEquivalent (we_marshal_rule W) (Some a) (Some (ev_Policy pe)) of
      Inl _ \<Rightarrow> False | Inr same \<Rightarrow> same)"

definition skipForClusterMatch :: "writer_env \<Rightarrow> policy_event \<Rightarrow> policy_writer \<Rightarrow> bool" where
  "skipForClusterMatch W pe w =
     (case pw_clusterPolicies w of
        None \<Rightarrow> False
      | Some m \<Rightarrow>
          (case map_of m (PolicyName (ev_Workload pe)) of
             None \<Rightarrow> False
           | Some existing \<Rightarrow> equivalent W existing pe))"

definition skipForCrossFlushMatch :: "writer_env \<Rightarrow> policy_event \<Rightarrow> string \<Rightarrow> policy_writer \<Rightarrow> bool" where
  "skipForCrossFlushMatch W pe dedupKey w =
     (case map_of (pw_written w) dedupKey of
        None \<Rightarrow> False
      | Some lastWritten \<Rightarrow> equivalent W lastWritten pe)"

definition bumpSkip :: "policy_writer \<Rightarrow> policy_writer" where
  "bumpSkip w =
     (let s = pw_stats w
      in w\<lparr>pw_stats := (if pw_dryRun w then s\<lparr>ss_PoliciesWouldSkip := ss_PoliciesWouldSkip s + 1\<rparr>
                        else s\<lparr>ss_PoliciesSkipped := ss_PoliciesSkipped s + 1\<rparr>)\<rparr>)"

definition dryRunEmit :: "writer_env \<Rightarrow> os_oracle \<Rightarrow> files \<Rightarrow> policy_event \<Rightarrow> policy_writer \<Rightarrow> policy_writer" where
  "dryRunEmit W os fs pe w =
     (if \<not> pw_dryRunDiff w then w
      else case ya_marshal (we_yaml W) (ev_Policy pe) of
             None \<Rightarrow> w
           | Some rendered \<Rightarrow>
               (let existing = (case ReadExisting os (pw_outputDir w) (ev_Namespace pe) (ev_Workload pe) fs of
                      Inl _ \<Rightarrow> [] | Inr None \<Rightarrow> [] | Inr (Some data) \<Rightarrow> data);
                    target = Join [pw_outputDir w, ev_Namespace pe, ev_Workload pe @ ''.yaml'']
                in case UnifiedYAML (we_differ W) target (target @ '' (in memory)'') existing rendered (pw_dryRunColor w) of
                     None \<Rightarrow> w
                   | Some d \<Rightarrow> if d = [] then w else w\<lparr>pw_diffOut := pw_diffOut w @ d\<rparr>))"

definition dedup_key :: "policy_event \<Rightarrow> string" where
  "dedup_key pe = ev_Namespace pe @ ''/'' @ ev_Workload pe"

text \<open>The writer and the file system after the event.\<close>

definition handle :: "writer_env \<Rightarrow> os_oracle \<Rightarrow> policy_event \<Rightarrow> policy_writer \<times> files \<Rightarrow> policy_writer \<times> files" where
  "handle W os pe st =
     (case st of (w, fs) \<Rightarrow>
        if skipForClusterMatch W pe w then (bumpSkip w, fs)
        else let dedupKey = dedup_key pe
             in if skipForCrossFlushMatch W pe dedupKey w then (bumpSkip w, fs)
                else if pw_dryRun w then
                  (let w1 = dryRunEmit W os fs pe w; s = pw_stats w1
                   in (w1\<lparr>pw_stats := s\<lparr>ss_PoliciesWouldWrite := ss_PoliciesWouldWrite s + 1\<rparr>,
                          pw_written := aput dedupKey (ev_Policy pe) (pw_written w1)\<rparr>, fs))
                else (case Write (we_externals W) (we_yaml W) os (pw_outputDir w) pe fs of
                        (Some e, sts) \<Rightarrow>
                          (w\<lparr>pw_stats := (pw_stats w)\<lparr>ss_PoliciesFailed := ss_PoliciesFailed (pw_stats w) + 1\<rparr>\<rparr>, hd sts)
                      | (None, sts) \<Rightarrow>
                          (w\<lparr>pw_stats := (pw_stats w)\<lparr>ss_PoliciesWritten := ss_PoliciesWritten (pw_stats w) + 1\<rparr>,
                             pw_written := aput dedupKey (ev_Policy pe) (pw_written w)\<rparr>, hd sts)))"

text \<open>Stage 2 of the pipeline: every event in turn, each with the operating system it meets.\<close>

definition handle_all :: "writer_env \<Rightarrow> (os_oracle \<times> policy_event) list \<Rightarrow> policy_writer \<times> files \<Rightarrow> policy_writer \<times> files" where
  "handle_all W evs st = fold (\<lambda>(os, pe). handle W os pe) evs st"

section \<open>One event, one outcome\<close>

text \<open>What becomes of an event.\<close>

datatype outcome = Skipped | WouldWrite | Written | WriteFailed

definition outcome_of :: "writer_env \<Rightarrow> os_oracle \<Rightarrow> policy_event \<Rightarrow> policy_writer \<times> files \<Rightarrow> outcome" where
  "outcome_of W os pe st =
     (case st of (w, fs) \<Rightarrow>
        if skipForClusterMatch W pe w \<or> skipForCrossFlushMatch W pe (dedup_key pe) w then Skipped
        else if pw_dryRun w then WouldWrite
        else if fst (Write (we_externals W) (we_yaml W) os (pw_outputDir w) pe fs) = None then Written
        else WriteFailed)"

lemma handle_cases:
  obtains (Skip) "outcome_of W os pe (w, fs) = Skipped" "handle W os pe (w, fs) = (bumpSkip w, fs)"
    "skipForClusterMatch W pe w \<or> skipForCrossFlushMatch W pe (dedup_key pe) w"
  | (Dry) out where "outcome_of W os pe (w, fs) = WouldWrite" "pw_dryRun w"
    "handle W os pe (w, fs) = (w\<lparr>pw_diffOut := out,
       pw_stats := (pw_stats w)\<lparr>ss_PoliciesWouldWrite := ss_PoliciesWouldWrite (pw_stats w) + 1\<rparr>,
       pw_written := aput (dedup_key pe) (ev_Policy pe) (pw_written w)\<rparr>, fs)"
  | (Write) sts where "outcome_of W os pe (w, fs) = Written" "\<not> pw_dryRun w"
    "Write (we_externals W) (we_yaml W) os (pw_outputDir w) pe fs = (None, sts)"
    "handle W os pe (w, fs) =
      (w\<lparr>pw_stats := (pw_stats w)\<lparr>ss_PoliciesWritten := ss_PoliciesWritten (pw_stats w) + 1\<rparr>,
         pw_written := aput (dedup_key pe) (ev_Policy pe) (pw_written w)\<rparr>, hd sts)"
  | (Fail) e sts where "outcome_of W os pe (w, fs) = WriteFailed" "\<not> pw_dryRun w"
    "Write (we_externals W) (we_yaml W) os (pw_outputDir w) pe fs = (Some e, sts)"
    "handle W os pe (w, fs) =
      (w\<lparr>pw_stats := (pw_stats w)\<lparr>ss_PoliciesFailed := ss_PoliciesFailed (pw_stats w) + 1\<rparr>\<rparr>, hd sts)"
proof -
  have emit: "\<exists>out. dryRunEmit W os fs pe w = w\<lparr>pw_diffOut := out\<rparr>"
  proof -
    have "\<exists>out. w = w\<lparr>pw_diffOut := out\<rparr>" by (rule exI [of _ "pw_diffOut w"]) simp
    then show ?thesis
      unfolding dryRunEmit_def Let_def by (auto split: option.split)
  qed
  show ?thesis
  proof (cases "skipForClusterMatch W pe w \<or> skipForCrossFlushMatch W pe (dedup_key pe) w")
    case True
    then show ?thesis by (intro Skip) (auto simp: outcome_of_def handle_def Let_def)
  next
    case no: False
    show ?thesis
    proof (cases "pw_dryRun w")
      case True
      from emit obtain out where "dryRunEmit W os fs pe w = w\<lparr>pw_diffOut := out\<rparr>" ..
      with no True show ?thesis by (intro Dry [of out]) (simp_all add: outcome_of_def handle_def Let_def)
    next
      case False
      obtain r sts where w: "Write (we_externals W) (we_yaml W) os (pw_outputDir w) pe fs = (r, sts)"
        by (cases "Write (we_externals W) (we_yaml W) os (pw_outputDir w) pe fs")
      show ?thesis
        using no False w Write [of sts] Fail [of _ sts]
        by (cases r) (simp_all add: outcome_of_def handle_def)
    qed
  qed
qed

text \<open>The outcomes of a run, in order.\<close>

fun outcomes :: "writer_env \<Rightarrow> (os_oracle \<times> policy_event) list \<Rightarrow> policy_writer \<times> files \<Rightarrow> outcome list" where
  "outcomes W [] st = []"
| "outcomes W ((os, pe) # evs) st = outcome_of W os pe st # outcomes W evs (handle W os pe st)"

lemma length_outcomes [simp]: "length (outcomes W evs st) = length evs"
  by (induction W evs st rule: outcomes.induct) auto

lemma handle_all_Nil [simp]: "handle_all W [] st = st"
  by (simp add: handle_all_def)

lemma handle_all_Cons [simp]: "handle_all W ((os, pe) # evs) st = handle_all W evs (handle W os pe st)"
  by (simp add: handle_all_def)

lemma handle_config:
  "pw_dryRun (fst (handle W os pe st)) = pw_dryRun (fst st)"
  "pw_outputDir (fst (handle W os pe st)) = pw_outputDir (fst st)"
  "pw_clusterPolicies (fst (handle W os pe st)) = pw_clusterPolicies (fst st)"
  by (cases st; rule handle_cases [of W os pe "fst st" "snd st"]; simp add: bumpSkip_def Let_def)+

text \<open>The session counters account for the policies: after a run of the writer each event it was given
  has been counted once, as written, skipped or failed in a normal run and as would-write or would-skip
  in a dry run, the counters of the other mode and all other statistics are untouched, and a dry run
  leaves the file system as it was.\<close>

theorem handle_all_accounts:
  "case handle_all W evs (w, fs) of (w', fs') \<Rightarrow>
     (let os = outcomes W evs (w, fs); n = (\<lambda>x. of_nat (count_list os x)) in
     length os = length evs
     \<and> pw_stats w' = (if pw_dryRun w
         then (pw_stats w)\<lparr>ss_PoliciesWouldWrite := ss_PoliciesWouldWrite (pw_stats w) + n WouldWrite,
                ss_PoliciesWouldSkip := ss_PoliciesWouldSkip (pw_stats w) + n Skipped\<rparr>
         else (pw_stats w)\<lparr>ss_PoliciesWritten := ss_PoliciesWritten (pw_stats w) + n Written,
                ss_PoliciesSkipped := ss_PoliciesSkipped (pw_stats w) + n Skipped,
                ss_PoliciesFailed := ss_PoliciesFailed (pw_stats w) + n WriteFailed\<rparr>)
     \<and> set os \<subseteq> (if pw_dryRun w then {WouldWrite, Skipped} else {Written, Skipped, WriteFailed})
     \<and> (if pw_dryRun w then fs' = fs else True))"
proof (induction evs arbitrary: w fs)
  case Nil
  then show ?case by simp
next
  case (Cons e evs)
  obtain os pe where e: "e = (os, pe)" by (cases e)
  show ?case
    by (rule handle_cases [of W os pe w fs]; insert Cons.IH [of "fst (handle W os pe (w, fs))" "snd (handle W os pe (w, fs))"])
      (auto simp: e bumpSkip_def Let_def algebra_simps split: if_splits)
qed

section \<open>A dry run predicts the run\<close>

text \<open>A dry writer shadows a normal one when they compare with the same policies.\<close>

definition shadows :: "policy_writer \<Rightarrow> policy_writer \<Rightarrow> bool" where
  "shadows v w \<longleftrightarrow> pw_dryRun v \<and> \<not> pw_dryRun w
     \<and> pw_clusterPolicies v = pw_clusterPolicies w \<and> pw_written v = pw_written w"

definition predicted :: "outcome \<Rightarrow> outcome" where
  "predicted x = (if x = Written then WouldWrite else x)"

lemma shadows_step:
  assumes "shadows v w" and "outcome_of W os pe (w, fs) \<noteq> WriteFailed"
  shows "outcome_of W os' pe (v, fs') = predicted (outcome_of W os pe (w, fs))"
    and "shadows (fst (handle W os' pe (v, fs'))) (fst (handle W os pe (w, fs)))"
proof -
  have skip: "skipForClusterMatch W pe v = skipForClusterMatch W pe w"
    "skipForCrossFlushMatch W pe k v = skipForCrossFlushMatch W pe k w" for k
    using assms(1) by (simp_all add: shadows_def skipForClusterMatch_def skipForCrossFlushMatch_def)
  then show "outcome_of W os' pe (v, fs') = predicted (outcome_of W os pe (w, fs))"
    using assms by (auto simp: outcome_of_def predicted_def shadows_def)
  show "shadows (fst (handle W os' pe (v, fs'))) (fst (handle W os pe (w, fs)))"
    by (rule handle_cases [of W os pe w fs]; rule handle_cases [of W os' pe v fs'])
      (insert assms skip, auto simp: shadows_def bumpSkip_def Let_def outcome_of_def split: if_splits)
qed

lemma shadows_run:
  "shadows v w \<Longrightarrow> list_all (\<lambda>x. x \<noteq> WriteFailed) (outcomes W evs (w, fs)) \<Longrightarrow> map snd evs' = map snd evs \<Longrightarrow>
     outcomes W evs' (v, fs') = map predicted (outcomes W evs (w, fs))
     \<and> pw_written (fst (handle_all W evs' (v, fs'))) = pw_written (fst (handle_all W evs (w, fs)))"
proof (induction evs arbitrary: evs' v w fs fs')
  case Nil
  then show ?case by (simp add: shadows_def)
next
  case (Cons e evs)
  obtain os pe where e: "e = (os, pe)" by (cases e)
  from Cons.prems(3) obtain os' rest where r: "evs' = (os', pe) # rest" "map snd rest = map snd evs"
    by (cases evs') (auto simp: e)
  let ?st = "handle W os pe (w, fs)" and ?st' = "handle W os' pe (v, fs')"
  have ok: "outcome_of W os pe (w, fs) \<noteq> WriteFailed" "list_all (\<lambda>x. x \<noteq> WriteFailed) (outcomes W evs (fst ?st, snd ?st))"
    using Cons.prems(2) by (simp_all add: e)
  note step = shadows_step [OF Cons.prems(1) ok(1), of os' fs']
  from Cons.IH [OF step(2) ok(2) r(2), of "snd ?st'"] step(1) show ?case
    by (simp add: e r(1))
qed


definition demo_env :: writer_env where
  "demo_env = \<lparr>we_externals = demo_externals, we_yaml = demo_codec, we_marshal_rule = demo_marshal,
     we_differ = (\<lambda>_ _ a b. Some (a @ b))\<rparr>"

definition demo_writer :: policy_writer where
  "demo_writer = newPolicyWriter ''/out'' None (new_stats 0 ''/out'')"


section \<open>Colour\<close>

text \<open>A reader that drops the escape sequences of a terminal.\<close>

fun strip_in :: "bool \<Rightarrow> string \<Rightarrow> string" where
  "strip_in inside [] = []"
| "strip_in True (c # s) = strip_in (c \<noteq> CHR ''m'') s"
| "strip_in False (c # s) = (if c = escape then strip_in True s else c # strip_in False s)"

abbreviation strip_ansi :: "string \<Rightarrow> string" where
  "strip_ansi \<equiv> strip_in False"

lemma strip_in_plain: "escape \<notin> set xs \<Longrightarrow> strip_ansi (xs @ ys) = xs @ strip_ansi ys"
  by (induction xs) auto

lemma strip_colorize_line:
  assumes "escape \<notin> set line"
  shows "strip_ansi (colorize_line line @ ys) = line @ strip_ansi ys"
  using assms by (simp add: colorize_line_def Let_def strip_in_plain)

lemma concat_split_after: "concat (split_after s) = s"
  by (induction s) (auto split: list.splits)

text \<open>Colouring a diff only adds escape sequences: taking them out of the coloured text of a diff without
  escape characters gives back the diff, and a diff of equal texts is empty.\<close>

theorem UnifiedYAML_colour:
  assumes "D aName bName a b = Some out" and "escape \<notin> set out"
  shows "map_option strip_ansi (UnifiedYAML D aName bName a b True) = UnifiedYAML D aName bName a b False
    \<and> UnifiedYAML D aName bName a a color = Some []"
proof -
  have "strip_ansi (concat (map colorize_line ls)) = concat ls" if "escape \<notin> set (concat ls)" for ls
    using that by (induction ls) (simp_all add: strip_colorize_line)
  from this [of "split_after out"] assms(2) have "strip_ansi (colorize out) = out"
    by (simp add: colorize_def concat_split_after)
  with assms(1) show ?thesis by (simp add: UnifiedYAML_def)
qed

theorem UnifiedYAML_colour_witness:
  "map_option strip_ansi (UnifiedYAML (\<lambda>_ _ a b. Some (''+'' @ b)) ''x'' ''y'' ''a'' ''b'' True) = Some ''+b''"
  using UnifiedYAML_colour [of "\<lambda>_ _ a b. Some (''+'' @ b)" "''x''" "''y''" "''a''" "''b''" "''+b''"]
  by (simp add: escape_def UnifiedYAML_def)

end
