(* ===== verification/Session.thy ===== *)
theory Session
  imports Cluster PolicyWriter
begin

text \<open>
  \<open>pkg/session/session.go\<close> and \<open>manager.go\<close>: the capture session of the MCP server and the manager
  that starts, reports, stops and shuts it down.  Sessions live in a store and the manager's slot
  points into it, because a goroutine keeps its pointer when the slot has moved on.  Every call of
  \<open>Start\<close>, \<open>Stop\<close> and \<open>Shutdown\<close> and every pipeline goroutine is a program counter; a step is one
  critical section under \<open>m.mu\<close> or one action on what they share (a cancellation, the \<open>done\<close>
  channel, \<open>stopOnce\<close>, a directory), with what the outside world answers (the clock, the temporary
  directory, the result of the set-up, whether a deadline passed) in an oracle.  Calls interleave
  in any order.
\<close>

section \<open>Data\<close>

text \<open>\<open>State\<close> is an \<open>int\<close> with two named values.\<close>

type_synonym State = int

definition StateCapturing :: State where "StateCapturing = 0"
definition StateStopped :: State where "StateStopped = 1"

definition State_String :: "State \<Rightarrow> string" where
  "State_String s =
     (if s = StateCapturing then ''capturing'' else if s = StateStopped then ''stopped'' else ''unknown'')"

datatype once = OnceNew | OnceRunning | OnceDone

text \<open>
  \<open>se_canceled\<close> is the state of the session's context, \<open>se_done\<close> the content of the channel of
  capacity one, an error being its text.
\<close>

record session =
  se_ID :: string
  se_TmpDir :: string
  se_StartedAt :: time
  se_StoppedAt :: time
  se_State :: State
  se_compat :: CompatInfo
  se_canceled :: bool
  se_done :: "string option option"
  se_stopOnce :: once
  se_final :: "session_stats option"
  se_pipelineErr :: "string option"
  se_explicitStopSeen :: bool

definition new_session :: "string \<Rightarrow> time \<Rightarrow> session" where
  "new_session newID now =
     \<lparr>se_ID = newID, se_TmpDir = [], se_StartedAt = now, se_StoppedAt = 0, se_State = StateCapturing,
      se_compat = undetermined\<lparr>ci_Source := []\<rparr>, se_canceled = False, se_done = None, se_stopOnce = OnceNew,
      se_final = None, se_pipelineErr = None, se_explicitStopSeen = False\<rparr>"

text \<open>\<open>Duration.Round(time.Second)\<close>, and \<open>Duration.String\<close> on whole seconds.\<close>

definition round_seconds :: "int \<Rightarrow> int" where
  "round_seconds d =
     (let r = \<bar>d\<bar> mod second; up = (second \<le> 2 * r); a = \<bar>d\<bar> - r + (if up then second else 0)
      in if d < 0 then - a else a)"

definition seconds_String :: "int \<Rightarrow> string" where
  "seconds_String d =
     (let s = nat (\<bar>d\<bar> div second); sec = format_uint (s mod 60) @ ''s'';
          body = (if 3600 \<le> s then format_uint (s div 3600) @ ''h'' @ format_uint (s div 60 mod 60) @ ''m'' @ sec
                  else if 60 \<le> s then format_uint (s div 60) @ ''m'' @ sec else sec)
      in if d < 0 \<and> s \<noteq> 0 then CHR ''-'' # body else body)"

definition elapsed_String :: "int \<Rightarrow> string" where
  "elapsed_String d = seconds_String (round_seconds d)"

record start_result =
  sr_SessionID :: string
  sr_DiscardedSession :: string
  sr_Server' :: string
  sr_Compat :: CompatInfo

record status_result =
  st_SessionID :: string
  st_State :: string
  st_Elapsed :: string
  st_PolicyFileCount :: nat
  st_EvidenceFileCount :: nat
  st_TmpDir :: string
  st_Compat :: CompatInfo
  st_Error :: string

record stop_result =
  sp_SessionID :: string
  sp_State :: string
  sp_Error :: string
  sp_AlreadyStopped :: bool
  sp_Duration :: string
  sp_FlowsSeen :: u64
  sp_PoliciesWritten :: u64
  sp_PoliciesSkipped :: u64
  sp_PoliciesFailed :: u64
  sp_LostEvents :: u64
  sp_L7HTTPCount :: u64
  sp_L7DNSCount :: u64
  sp_AuditVerdictCount :: u64
  sp_InfraDropTotal :: u64
  sp_InfraDropsByReason :: "(string \<times> u64) list"
  sp_ClusterHealthPath :: string
  sp_TmpDir :: string

definition error_text :: "string option \<Rightarrow> string" where
  "error_text e = (case e of None \<Rightarrow> [] | Some m \<Rightarrow> m)"

text \<open>The name a drop reason has in the result.\<close>

fun reason_text :: "drop_reason \<Rightarrow> string" where
  "reason_text (DropReason n) = n"
| "reason_text (DropReason_Unrecognized i) = ''UNKNOWN('' @ format_int i @ '')''"

definition buildSummary :: "time \<Rightarrow> bool \<Rightarrow> string \<Rightarrow> session \<Rightarrow> stop_result" where
  "buildSummary now alreadyStopped clusterHealthPath s =
     (let elapsed = (if se_StoppedAt s = 0 then now - se_StartedAt s else se_StoppedAt s - se_StartedAt s);
          result = \<lparr>sp_SessionID = se_ID s, sp_State = State_String StateStopped, sp_Error = error_text (se_pipelineErr s),
            sp_AlreadyStopped = alreadyStopped, sp_Duration = elapsed_String elapsed, sp_FlowsSeen = 0,
            sp_PoliciesWritten = 0, sp_PoliciesSkipped = 0, sp_PoliciesFailed = 0, sp_LostEvents = 0, sp_L7HTTPCount = 0,
            sp_L7DNSCount = 0, sp_AuditVerdictCount = 0, sp_InfraDropTotal = 0, sp_InfraDropsByReason = [],
            sp_ClusterHealthPath = clusterHealthPath, sp_TmpDir = se_TmpDir s\<rparr>
      in case se_final s of
           None \<Rightarrow> result
         | Some stats \<Rightarrow>
             result\<lparr>sp_FlowsSeen := ss_FlowsSeen stats, sp_PoliciesWritten := ss_PoliciesWritten stats,
               sp_PoliciesSkipped := ss_PoliciesSkipped stats, sp_PoliciesFailed := ss_PoliciesFailed stats,
               sp_LostEvents := ss_LostEvents stats, sp_L7HTTPCount := ss_L7HTTPCount stats,
               sp_L7DNSCount := ss_L7DNSCount stats, sp_AuditVerdictCount := ss_AuditVerdictCount stats,
               sp_InfraDropTotal := ss_InfraDropTotal stats,
               sp_InfraDropsByReason := fold (\<lambda>(reason, count). aput (reason_text reason) count) (ss_InfraDropsByReason stats) []\<rparr>)"

section \<open>The world\<close>

datatype session_error =
    AlreadyRunning string string | MkdirTempFailed | SetupFailed string | ShuttingDown string | SessionNotFound string

text \<open>What \<open>resolveSetup\<close> hands back, as far as the manager keeps it.\<close>

record setup_result =
  su_Server :: string
  su_Compat :: CompatInfo

text \<open>
  Where a call stands.  The pointer of its session comes first; \<open>Start\<close> carries the discarded
  session's ID and its temporary directory, \<open>Stop\<close> the path of the health report, \<open>Shutdown\<close> the
  directory it copied.  \<open>ShutLeft\<close> is a \<open>Shutdown\<close> that returned with the removal still running.
\<close>

datatype call =
    Idle
  | StartMkdir nat string
  | StartSetup nat string string
  | StartFail nat session_error
  | StartRelease nat session_error
  | StartFinalize nat string string setup_result
  | StartAbort nat string
  | StartLaunch nat start_result
  | StartReturned "session_error + start_result"
  | StopOnce nat string
  | StopCancel nat string
  | StopWait nat string
  | StopMark nat string
  | StopSummary nat string
  | StopUnknown session_error
  | StopReturned nat stop_result
  | ShutCancel nat string
  | ShutWait nat string
  | ShutRemove string
  | ShutLeft string
  | ShutDone

text \<open>The pipeline goroutine of a session, with the error the pipeline returned.\<close>

datatype pipe =
    PipeNone | PipeRunning
  | PipeExited "string option"
  | PipeCheck "string option"
  | PipeMark "string option"
  | PipeRelease "string option"
  | PipeSend "string option"
  | PipeEnded

text \<open>
  \<open>wl_dirs\<close> are the session directories on disk that \<open>Start\<close> made, \<open>wl_revived\<close> those on disk that a pipeline
  made again by writing into them after their removal, \<open>wl_unremoved\<close> those whose removal failed (the
  program ignores that error); \<open>wl_late\<close> are the sessions whose bounded wait ended by its deadline, which
  the program logs; \<open>wl_forwards\<close> tells whose port-forward is still to be closed,
  \<open>wl_root\<close> whether the server's root context is cancelled.
\<close>

record world =
  wl_slot :: "nat option"
  wl_heap :: "nat \<Rightarrow> session"
  wl_next :: nat
  wl_dirs :: "string list"
  wl_revived :: "string list"
  wl_unremoved :: "string list"
  wl_late :: "nat list"
  wl_forwards :: "nat \<Rightarrow> bool"
  wl_pipes :: "nat \<Rightarrow> pipe"
  wl_calls :: "nat \<Rightarrow> call"
  wl_root :: bool

definition NewManager :: world where
  "NewManager = \<lparr>wl_slot = None, wl_heap = (\<lambda>_. new_session [] 0), wl_next = 0, wl_dirs = [], wl_revived = [], wl_unremoved = [], wl_late = [],
     wl_forwards = (\<lambda>_. False), wl_pipes = (\<lambda>_. PipeNone), wl_calls = (\<lambda>_. Idle), wl_root = False\<rparr>"

definition upd_session :: "nat \<Rightarrow> (session \<Rightarrow> session) \<Rightarrow> world \<Rightarrow> world" where
  "upd_session p f w = w\<lparr>wl_heap := (wl_heap w)(p := f (wl_heap w p))\<rparr>"

abbreviation cancel :: "nat \<Rightarrow> world \<Rightarrow> world" where
  "cancel p \<equiv> upd_session p (\<lambda>s. s\<lparr>se_canceled := True\<rparr>)"

definition RemoveAll :: "bool \<Rightarrow> string \<Rightarrow> world \<Rightarrow> world" where
  "RemoveAll ok dir w =
     (if dir = [] then w
      else if ok then w\<lparr>wl_dirs := removeAll dir (wl_dirs w), wl_revived := removeAll dir (wl_revived w)\<rparr>
      else w\<lparr>wl_unremoved := dir # wl_unremoved w\<rparr>)"

definition set_forward :: "nat \<Rightarrow> bool \<Rightarrow> world \<Rightarrow> world" where
  "set_forward p b w = w\<lparr>wl_forwards := (wl_forwards w)(p := b)\<rparr>"

section \<open>Start\<close>

definition claim_slot :: "string \<Rightarrow> time \<Rightarrow> string \<Rightarrow> world \<Rightarrow> world \<times> call" where
  "claim_slot newID now discarded w =
     (let p = wl_next w
      in (w\<lparr>wl_heap := (wl_heap w)(p := new_session newID now), wl_next := Suc p, wl_slot := Some p\<rparr>,
          StartMkdir p discarded))"

definition Start_claim :: "string \<Rightarrow> time \<Rightarrow> bool \<Rightarrow> world \<Rightarrow> world \<times> call" where
  "Start_claim newID now ok w =
     (case wl_slot w of
        None \<Rightarrow> claim_slot newID now [] w
      | Some p \<Rightarrow>
          (let s = wl_heap w p
           in if se_State s = StateCapturing
              then (w, StartReturned (Inl (AlreadyRunning (se_ID s) (elapsed_String (now - se_StartedAt s)))))
              else claim_slot newID now (se_ID s) ((RemoveAll ok (se_TmpDir s) w)\<lparr>wl_slot := None\<rparr>)))"

definition Start_mkdir :: "string option \<Rightarrow> nat \<Rightarrow> string \<Rightarrow> world \<Rightarrow> world \<times> call" where
  "Start_mkdir tmp p discarded w =
     (case tmp of
        None \<Rightarrow> (w, StartFail p MkdirTempFailed)
      | Some dir \<Rightarrow> (w\<lparr>wl_dirs := dir # wl_dirs w\<rparr>, StartSetup p discarded dir))"

definition Start_setup :: "string + setup_result \<Rightarrow> bool \<Rightarrow> nat \<Rightarrow> string \<Rightarrow> string \<Rightarrow> world \<Rightarrow> world \<times> call" where
  "Start_setup r ok p discarded dir w =
     (case r of
        Inl e \<Rightarrow> (RemoveAll ok dir w, StartFail p (SetupFailed e))
      | Inr su \<Rightarrow> (set_forward p True w, StartFinalize p discarded dir su))"

text \<open>The closure \<open>fail\<close>: cancel, then release the slot if it is still ours.\<close>

definition Start_release :: "nat \<Rightarrow> session_error \<Rightarrow> world \<Rightarrow> world \<times> call" where
  "Start_release p e w =
     ((if wl_slot w = Some p then w\<lparr>wl_slot := None\<rparr> else w), StartReturned (Inl e))"

definition Start_finalize :: "nat \<Rightarrow> string \<Rightarrow> string \<Rightarrow> setup_result \<Rightarrow> world \<Rightarrow> world \<times> call" where
  "Start_finalize p discarded dir su w =
     (if wl_slot w \<noteq> Some p then (w, StartAbort p dir)
      else (upd_session p (\<lambda>s. s\<lparr>se_TmpDir := dir, se_compat := su_Compat su\<rparr>) w,
            StartLaunch p \<lparr>sr_SessionID = se_ID (wl_heap w p), sr_DiscardedSession = discarded,
              sr_Server' = su_Server su, sr_Compat = su_Compat su\<rparr>))"

definition Start_abort :: "bool \<Rightarrow> nat \<Rightarrow> string \<Rightarrow> world \<Rightarrow> world \<times> call" where
  "Start_abort ok p dir w =
     (RemoveAll ok dir (set_forward p False (cancel p w)), StartReturned (Inl (ShuttingDown (se_ID (wl_heap w p)))))"

definition Start_launch :: "nat \<Rightarrow> start_result \<Rightarrow> world \<Rightarrow> world \<times> call" where
  "Start_launch p r w = (w\<lparr>wl_pipes := (wl_pipes w)(p := PipeRunning)\<rparr>, StartReturned (Inr r))"

section \<open>The pipeline goroutine\<close>

text \<open>\<open>sessionCtx.Err() != nil\<close>.\<close>

definition ctx_done :: "world \<Rightarrow> nat \<Rightarrow> bool" where
  "ctx_done w p \<longleftrightarrow> se_canceled (wl_heap w p) \<or> wl_root w"

definition Pipe_check :: "string option \<Rightarrow> nat \<Rightarrow> world \<Rightarrow> world \<times> pipe" where
  "Pipe_check err p w =
     (if ctx_done w p then (w, PipeSend err)
      else ((case err of None \<Rightarrow> w | Some e \<Rightarrow> upd_session p (\<lambda>s. s\<lparr>se_pipelineErr := Some e\<rparr>) w), PipeMark err))"

definition Pipe_mark :: "time \<Rightarrow> nat \<Rightarrow> world \<Rightarrow> world" where
  "Pipe_mark now p w =
     (if wl_slot w = Some p \<and> se_State (wl_heap w p) = StateCapturing
      then upd_session p (\<lambda>s. s\<lparr>se_State := StateStopped, se_StoppedAt := now\<rparr>) w else w)"

section \<open>Stop\<close>

definition Stop_lookup :: "(string \<Rightarrow> string) \<Rightarrow> string \<Rightarrow> world \<Rightarrow> call" where
  "Stop_lookup healthPath sid w =
     (case wl_slot w of
        None \<Rightarrow> StopUnknown (SessionNotFound sid)
      | Some p \<Rightarrow>
          (let s = wl_heap w p
           in if se_ID s \<noteq> sid then StopUnknown (SessionNotFound sid)
              else if se_State s = StateStopped then StopSummary p (healthPath (se_TmpDir s))
              else StopOnce p (healthPath (se_TmpDir s))))"

text \<open>\<open>stopOnce.Do\<close>: the first caller runs the body, the others block until it has returned.\<close>

definition Stop_once :: "nat \<Rightarrow> string \<Rightarrow> world \<Rightarrow> (world \<times> call) option" where
  "Stop_once p hp w =
     (case se_stopOnce (wl_heap w p) of
        OnceNew \<Rightarrow> Some (upd_session p (\<lambda>s. s\<lparr>se_stopOnce := OnceRunning\<rparr>) w, StopCancel p hp)
      | OnceRunning \<Rightarrow> None
      | OnceDone \<Rightarrow> Some (w, StopSummary p hp))"

text \<open>\<open>select\<close> on the channel and the deadline: either receives, or the deadline has passed.\<close>

definition wait_done :: "bool \<Rightarrow> nat \<Rightarrow> world \<Rightarrow> world option" where
  "wait_done timeout p w =
     (if timeout then Some (w\<lparr>wl_late := p # wl_late w\<rparr>)
      else case se_done (wl_heap w p) of
             None \<Rightarrow> None
           | Some _ \<Rightarrow> Some (upd_session p (\<lambda>s. s\<lparr>se_done := None\<rparr>) w))"

definition Stop_mark :: "time \<Rightarrow> nat \<Rightarrow> world \<Rightarrow> world" where
  "Stop_mark now p w =
     upd_session p (\<lambda>s. s\<lparr>se_State := StateStopped, se_StoppedAt := now, se_stopOnce := OnceDone\<rparr>) w"

definition Stop_summary :: "time \<Rightarrow> nat \<Rightarrow> string \<Rightarrow> world \<Rightarrow> world \<times> call" where
  "Stop_summary now p hp w =
     (let s = wl_heap w p
      in (upd_session p (\<lambda>s. s\<lparr>se_explicitStopSeen := True\<rparr>) w,
          StopReturned p (buildSummary now (se_explicitStopSeen s) hp s)))"

section \<open>Shutdown\<close>

definition Shutdown_take :: "world \<Rightarrow> world \<times> call" where
  "Shutdown_take w =
     (case wl_slot w of
        None \<Rightarrow> (w, ShutDone)
      | Some p \<Rightarrow>
          (w\<lparr>wl_slot := None\<rparr>,
           if se_State (wl_heap w p) = StateCapturing then ShutCancel p (se_TmpDir (wl_heap w p))
           else ShutRemove (se_TmpDir (wl_heap w p))))"

section \<open>Steps\<close>

datatype operation = OpStart | OpStop string | OpShutdown

record env_choice =
  or_op :: operation
  or_now :: time
  or_id :: string
  or_ok :: bool
  or_tmp :: "string option"
  or_setup :: "string + setup_result"
  or_timeout :: bool
  or_hang :: bool
  or_writes :: bool
  or_final :: "session_stats option"
  or_err :: "string option"

text \<open>
  One step of a call; \<open>None\<close> when it has returned, is blocked, or the oracle is impossible (the
  system makes no temporary directory with the name of an existing one).  A call in \<open>ShutRemove\<close>
  passes its deadline and leaves the removal running, or sees it finish, or waits while it hangs.
\<close>

fun call_step :: "(string \<Rightarrow> string) \<Rightarrow> env_choice \<Rightarrow> world \<Rightarrow> call \<Rightarrow> (world \<times> call) option" where
  "call_step H R w Idle =
     (case or_op R of
        OpStart \<Rightarrow> Some (Start_claim (or_id R) (or_now R) (or_ok R) w)
      | OpStop sid \<Rightarrow> Some (w, Stop_lookup H sid w)
      | OpShutdown \<Rightarrow> Some (Shutdown_take w))"
| "call_step H R w (StartMkdir p d) =
     (if (case or_tmp R of None \<Rightarrow> False | Some dir \<Rightarrow> dir = [] \<or> dir \<in> set (wl_dirs w) \<union> set (wl_revived w)) then None
      else Some (Start_mkdir (or_tmp R) p d w))"
| "call_step H R w (StartSetup p d dir) = Some (Start_setup (or_setup R) (or_ok R) p d dir w)"
| "call_step H R w (StartFail p e) = Some (cancel p w, StartRelease p e)"
| "call_step H R w (StartRelease p e) = Some (Start_release p e w)"
| "call_step H R w (StartFinalize p d dir su) = Some (Start_finalize p d dir su w)"
| "call_step H R w (StartAbort p dir) = Some (Start_abort (or_ok R) p dir w)"
| "call_step H R w (StartLaunch p r) = Some (Start_launch p r w)"
| "call_step H R w (StartReturned r) = None"
| "call_step H R w (StopOnce p hp) = Stop_once p hp w"
| "call_step H R w (StopCancel p hp) = Some (cancel p w, StopWait p hp)"
| "call_step H R w (StopWait p hp) = map_option (\<lambda>w'. (w', StopMark p hp)) (wait_done (or_timeout R) p w)"
| "call_step H R w (StopMark p hp) = Some (Stop_mark (or_now R) p w, StopSummary p hp)"
| "call_step H R w (StopSummary p hp) = Some (Stop_summary (or_now R) p hp w)"
| "call_step H R w (StopUnknown e) = None"
| "call_step H R w (StopReturned p r) = None"
| "call_step H R w (ShutCancel p dir) = Some (cancel p w, ShutWait p dir)"
| "call_step H R w (ShutWait p dir) = map_option (\<lambda>w'. (w', ShutRemove dir)) (wait_done (or_timeout R) p w)"
| "call_step H R w (ShutRemove dir) =
     (if or_timeout R then Some (w, ShutLeft dir)
      else if or_hang R then None
      else Some (RemoveAll (or_ok R) dir w, ShutDone))"
| "call_step H R w (ShutLeft dir) = (if or_hang R then None else Some (RemoveAll (or_ok R) dir w, ShutDone))"
| "call_step H R w ShutDone = None"

text \<open>
  One step of the goroutine of session \<open>p\<close>.  The running pipeline writes below the directory of its
  session at any time, each writer making the directories it needs (\<open>MkdirAll\<close>), calls \<open>OnFinal\<close> at most
  once and may return at any time, with any error.
\<close>

definition Pipe_write :: "nat \<Rightarrow> world \<Rightarrow> world" where
  "Pipe_write p w =
     (let dir = se_TmpDir (wl_heap w p)
      in if dir \<in> set (wl_dirs w) \<union> set (wl_revived w) then w else w\<lparr>wl_revived := dir # wl_revived w\<rparr>)"

fun pipe_step :: "env_choice \<Rightarrow> world \<Rightarrow> nat \<Rightarrow> pipe \<Rightarrow> (world \<times> pipe) option" where
  "pipe_step R w p PipeNone = None"
| "pipe_step R w p PipeRunning =
     (if or_writes R then Some (Pipe_write p w, PipeRunning)
      else case or_final R of
        None \<Rightarrow> Some (w, PipeExited (or_err R))
      | Some st \<Rightarrow> if se_final (wl_heap w p) = None
                  then Some (upd_session p (\<lambda>s. s\<lparr>se_final := Some st\<rparr>) w, PipeRunning) else None)"
| "pipe_step R w p (PipeExited err) = Some (set_forward p False w, PipeCheck err)"
| "pipe_step R w p (PipeCheck err) = Some (Pipe_check err p w)"
| "pipe_step R w p (PipeMark err) = Some (Pipe_mark (or_now R) p w, PipeRelease err)"
| "pipe_step R w p (PipeRelease err) = Some (cancel p w, PipeSend err)"
| "pipe_step R w p (PipeSend err) = Some (upd_session p (\<lambda>s. s\<lparr>se_done := Some err\<rparr>) w, PipeEnded)"
| "pipe_step R w p PipeEnded = None"

datatype actor = ByCall nat | ByPipe nat | ByRoot

inductive mgr_step :: "(string \<Rightarrow> string) \<Rightarrow> world \<Rightarrow> actor \<Rightarrow> world \<Rightarrow> bool" for H :: "string \<Rightarrow> string" where
  Call: "call_step H R w (wl_calls w t) = Some (w', c) \<Longrightarrow> mgr_step H w (ByCall t) (w'\<lparr>wl_calls := (wl_calls w')(t := c)\<rparr>)"
| Pipe: "pipe_step R w p (wl_pipes w p) = Some (w', g) \<Longrightarrow> mgr_step H w (ByPipe p) (w'\<lparr>wl_pipes := (wl_pipes w')(p := g)\<rparr>)"
| Root: "mgr_step H w ByRoot (w\<lparr>wl_root := True\<rparr>)"

inductive mgr_run :: "(string \<Rightarrow> string) \<Rightarrow> world \<Rightarrow> actor list \<Rightarrow> world \<Rightarrow> bool" for H :: "string \<Rightarrow> string" where
  Refl: "mgr_run H w [] w"
| Snoc: "mgr_run H w ls w' \<Longrightarrow> mgr_step H w' l w'' \<Longrightarrow> mgr_run H w (ls @ [l]) w''"

section \<open>Status\<close>

text \<open>
  \<open>filepath.Glob\<close> for a pattern of literal segments and segments with one star, on the regular
  files: \<open>dir\<close>, then a list of (before the star, after the star) or of literals.
\<close>

datatype segment = Lit string | Star string

fun matches_segment :: "segment \<Rightarrow> string \<Rightarrow> bool" where
  "matches_segment (Lit l) s \<longleftrightarrow> s = l"
| "matches_segment (Star suffix) s \<longleftrightarrow> has_suffix s suffix"

definition countGlob :: "string \<Rightarrow> segment list \<Rightarrow> files \<Rightarrow> nat" where
  "countGlob dir segs fs =
     length (filter (\<lambda>(path, _). has_prefix path (dir @ ''/'')
         \<and> list_all2 matches_segment segs (split_on CHR ''/'' (drop (length dir + 1) path))) fs)"

text \<open>A failing glob counts zero.\<close>

definition glob_count :: "bool \<Rightarrow> string \<Rightarrow> segment list \<Rightarrow> files \<Rightarrow> nat" where
  "glob_count fails dir segs fs = (if fails then 0 else countGlob dir segs fs)"

definition Status :: "time \<Rightarrow> bool \<Rightarrow> files \<Rightarrow> string \<Rightarrow> world \<Rightarrow> session_error + status_result" where
  "Status now globFails fs sid w =
     (case wl_slot w of
        None \<Rightarrow> Inl (SessionNotFound sid)
      | Some p \<Rightarrow>
          (let s = wl_heap w p
           in if se_ID s \<noteq> sid then Inl (SessionNotFound sid)
              else let elapsed = (if se_State s = StateStopped then se_StoppedAt s - se_StartedAt s else now - se_StartedAt s)
                   in Inr \<lparr>st_SessionID = sid, st_State = State_String (se_State s), st_Elapsed = elapsed_String elapsed,
                        st_PolicyFileCount = glob_count globFails (se_TmpDir s) [Lit ''policies'', Star [], Star ''.yaml''] fs,
                        st_EvidenceFileCount = glob_count globFails (se_TmpDir s) [Lit ''evidence'', Star [], Star [], Star ''.json''] fs,
                        st_TmpDir = se_TmpDir s, st_Compat = se_compat s, st_Error = error_text (se_pipelineErr s)\<rparr>))"

end
