(* ===== verification/SessionSpec.thy ===== *)
theory SessionSpec
  imports Session
begin

text \<open>
  What the session manager guarantees whatever the interleaving of its calls and goroutines: one
  capture at a time, one owner per directory and nothing left behind, a session that stays stopped,
  one first \<open>Stop\<close> per session, and calls that return though the pipeline hangs.
\<close>

named_theorems mgr_defs \<open>the operations of the manager\<close>

lemmas [mgr_defs] = claim_slot_def Start_claim_def Start_mkdir_def Start_setup_def Start_release_def Start_finalize_def
  Start_abort_def Start_launch_def Stop_lookup_def Stop_once_def wait_done_def Stop_mark_def Stop_summary_def
  Shutdown_take_def RemoveAll_def set_forward_def upd_session_def Let_def Pipe_check_def Pipe_mark_def Pipe_write_def

lemmas mgr_splits = if_splits option.splits sum.splits once.splits operation.splits

lemma State_values [simp]: "StateCapturing \<noteq> StateStopped" "StateStopped \<noteq> StateCapturing"
  by (simp_all add: StateCapturing_def StateStopped_def)

lemma new_session_simps [simp]:
  "se_State (new_session i n) = StateCapturing" "\<not> se_canceled (new_session i n)" "se_TmpDir (new_session i n) = []"
  "se_stopOnce (new_session i n) = OnceNew" "\<not> se_explicitStopSeen (new_session i n)" "se_StoppedAt (new_session i n) = 0"
  "se_ID (new_session i n) = i" "se_done (new_session i n) = None" "se_final (new_session i n) = None"
  by (simp_all add: new_session_def)

text \<open>The session a call holds, and whether it is a start that has not yet launched its pipeline.\<close>

fun call_ptr :: "call \<Rightarrow> nat option" where
  "call_ptr (StartMkdir p _) = Some p"
| "call_ptr (StartSetup p _ _) = Some p"
| "call_ptr (StartFail p _) = Some p"
| "call_ptr (StartRelease p _) = Some p"
| "call_ptr (StartFinalize p _ _ _) = Some p"
| "call_ptr (StartAbort p _) = Some p"
| "call_ptr (StartLaunch p _) = Some p"
| "call_ptr (StopOnce p _) = Some p"
| "call_ptr (StopCancel p _) = Some p"
| "call_ptr (StopWait p _) = Some p"
| "call_ptr (StopMark p _) = Some p"
| "call_ptr (StopSummary p _) = Some p"
| "call_ptr (StopReturned p _) = Some p"
| "call_ptr (ShutCancel p _) = Some p"
| "call_ptr (ShutWait p _) = Some p"
| "call_ptr _ = None"

fun starting :: "call \<Rightarrow> bool" where
  "starting (StartMkdir p _) = True"
| "starting (StartSetup p _ _) = True"
| "starting (StartFail p _) = True"
| "starting (StartRelease p _) = True"
| "starting (StartFinalize p _ _ _) = True"
| "starting (StartAbort p _) = True"
| "starting (StartLaunch p _) = True"
| "starting _ = False"

fun tearing :: "call \<Rightarrow> bool" where
  "tearing (StopCancel p _) = True"
| "tearing (StopWait p _) = True"
| "tearing (StopMark p _) = True"
| "tearing _ = False"

text \<open>The directory of the session in the slot, and the directory a call owns.\<close>

definition slot_dir :: "world \<Rightarrow> string" where
  "slot_dir w = (case wl_slot w of None \<Rightarrow> [] | Some p \<Rightarrow> se_TmpDir (wl_heap w p))"

fun call_dir :: "call \<Rightarrow> string" where
  "call_dir (StartSetup _ _ dir) = dir"
| "call_dir (StartFinalize _ _ dir _) = dir"
| "call_dir (StartAbort _ dir) = dir"
| "call_dir (ShutCancel _ dir) = dir"
| "call_dir (ShutWait _ dir) = dir"
| "call_dir (ShutRemove dir) = dir"
| "call_dir (ShutLeft dir) = dir"
| "call_dir _ = []"

lemma RemoveAll_frame [simp]:
  "wl_slot (RemoveAll ok d w) = wl_slot w" "wl_heap (RemoveAll ok d w) = wl_heap w" "wl_next (RemoveAll ok d w) = wl_next w"
  "wl_pipes (RemoveAll ok d w) = wl_pipes w" "wl_calls (RemoveAll ok d w) = wl_calls w" "wl_root (RemoveAll ok d w) = wl_root w"
  "wl_forwards (RemoveAll ok d w) = wl_forwards w" "wl_late (RemoveAll ok d w) = wl_late w" "RemoveAll ok [] w = w"
  by (simp_all add: RemoveAll_def)

lemma claim_slot_slot [simp]: "claim_slot i n d (w\<lparr>wl_slot := x\<rparr>) = claim_slot i n d w"
  by (simp add: claim_slot_def Let_def)

section \<open>Pointers, states and the context\<close>

fun past_mark :: "pipe \<Rightarrow> bool" where
  "past_mark (PipeRelease _) = True"
| "past_mark (PipeSend _) = True"
| "past_mark PipeEnded = True"
| "past_mark _ = False"

definition ptr_inv :: "world \<Rightarrow> bool" where
  "ptr_inv w \<longleftrightarrow>
     (\<forall>p. wl_slot w = Some p \<longrightarrow> p < wl_next w)
     \<and> (\<forall>t p. call_ptr (wl_calls w t) = Some p \<longrightarrow> p < wl_next w)
     \<and> (\<forall>p. wl_pipes w p \<noteq> PipeNone \<longrightarrow> p < wl_next w)
     \<and> (\<forall>t p. starting (wl_calls w t) \<and> call_ptr (wl_calls w t) = Some p \<longrightarrow> wl_pipes w p = PipeNone)
     \<and> (\<forall>t u p. starting (wl_calls w t) \<and> starting (wl_calls w u) \<and> call_ptr (wl_calls w t) = Some p
          \<and> call_ptr (wl_calls w u) = Some p \<longrightarrow> t = u)"

text \<open>What a step of a call does to the slot, the pointers and the goroutines.\<close>

lemma call_step_kinds:
  assumes "call_step H R w c0 = Some (w', c)"
  obtains (Claim) d where "c0 = Idle" "c = StartMkdir (wl_next w) d" "wl_next w' = Suc (wl_next w)"
      "wl_slot w' = Some (wl_next w)" "wl_heap w' = (wl_heap w)(wl_next w := new_session (or_id R) (or_now R))"
      "wl_pipes w' = wl_pipes w" "\<And>q. wl_slot w = Some q \<Longrightarrow> se_State (wl_heap w q) \<noteq> StateCapturing"
      "wl_dirs w' = wl_dirs (RemoveAll (or_ok R) (slot_dir w) w)" "wl_unremoved w' = wl_unremoved (RemoveAll (or_ok R) (slot_dir w) w)"
  | (Launch) p r where "c0 = StartLaunch p r" "c = StartReturned (Inr r)" "w' = w\<lparr>wl_pipes := (wl_pipes w)(p := PipeRunning)\<rparr>"
  | (Move) "wl_next w' = wl_next w" "wl_pipes w' = wl_pipes w" "wl_slot w' = wl_slot w \<or> wl_slot w' = None"
      "call_ptr c = call_ptr c0 \<or> call_ptr c = None \<or> call_ptr c = wl_slot w \<and> \<not> starting c" "starting c \<Longrightarrow> starting c0 \<and> call_ptr c = call_ptr c0"
      "\<And>p. call_ptr c0 \<noteq> Some p \<Longrightarrow> wl_heap w' p = wl_heap w p"
proof (cases c0)
  case Idle
  show ?thesis
  proof (cases "or_op R")
    case OpStart
    with assms Idle have c: "Start_claim (or_id R) (or_now R) (or_ok R) w = (w', c)" by simp
    show ?thesis
    proof (cases "\<exists>q. wl_slot w = Some q \<and> se_State (wl_heap w q) = StateCapturing")
      case True
      with c show ?thesis by (intro Move) (auto simp: Start_claim_def Let_def)
    next
      case False
      obtain d where d: "(w', c) = claim_slot (or_id R) (or_now R) d (RemoveAll (or_ok R) (slot_dir w) w)"
      proof (cases "wl_slot w")
        case None
        with c that [of "[]"] show ?thesis by (simp add: Start_claim_def slot_dir_def)
      next
        case (Some q)
        with c False that [of "se_ID (wl_heap w q)"] show ?thesis by (simp add: Start_claim_def slot_dir_def Let_def)
      qed
      show ?thesis using False d Idle by (intro Claim [of d]) (auto simp: claim_slot_def Let_def)
    qed
  next
    case (OpStop sid)
    with assms Idle show ?thesis by (intro Move) (auto simp: Stop_lookup_def Let_def split: option.splits if_splits)
  next
    case OpShutdown
    with assms Idle show ?thesis by (intro Move) (auto simp: Shutdown_take_def split: option.splits if_splits)
  qed
next
  case (StartLaunch p r)
  with assms show ?thesis by (intro Launch) (auto simp: Start_launch_def)
qed (use assms in \<open>intro Move; auto simp: mgr_defs split: if_splits option.splits sum.splits once.splits\<close>)+

lemma pipe_step_kinds:
  assumes "pipe_step R w p g0 = Some (w', g)"
  shows "wl_calls w' = wl_calls w" "wl_next w' = wl_next w" "wl_slot w' = wl_slot w" "wl_pipes w' = wl_pipes w"
    "wl_dirs w' = wl_dirs w" "wl_unremoved w' = wl_unremoved w" "wl_root w' = wl_root w" "\<And>q. q \<noteq> p \<Longrightarrow> wl_heap w' q = wl_heap w q"
    "g0 \<noteq> PipeNone" "g \<noteq> PipeNone"
  using assms by (cases g0; auto simp: mgr_defs split: option.splits if_splits)+

lemma call_step_frame:
  assumes "call_step H R w c0 = Some (w', c)"
  shows "wl_calls w' = wl_calls w" "wl_root w' = wl_root w"
  using assms by (cases c0; auto simp: mgr_defs split: if_splits option.splits sum.splits once.splits operation.splits)+

lemma ptr_inv_call:
  assumes "ptr_inv w" and st: "call_step H R w (wl_calls w t) = Some (w', c)"
  shows "ptr_inv (w'\<lparr>wl_calls := (wl_calls w')(t := c)\<rparr>)"
proof -
  note iv = assms(1) [unfolded ptr_inv_def]
  from st show ?thesis
  proof (cases rule: call_step_kinds)
    case (Claim d)
    then show ?thesis using iv call_step_frame [OF st] unfolding ptr_inv_def
      by (simp add: less_Suc_eq) (metis less_irrefl)
  next
    case (Launch p r)
    then show ?thesis using iv unfolding ptr_inv_def
      by simp (metis call_ptr.simps(7) starting.simps(7))
  next
    case Move
    then show ?thesis using iv call_step_frame [OF st] unfolding ptr_inv_def
      by simp (smt (verit) option.distinct(1))
  qed
qed

lemma ptr_inv_pipe:
  assumes "ptr_inv w" and "pipe_step R w p (wl_pipes w p) = Some (w', g)"
  shows "ptr_inv (w'\<lparr>wl_pipes := (wl_pipes w')(p := g)\<rparr>)"
  using assms(1) pipe_step_kinds [OF assms(2)] unfolding ptr_inv_def by auto

section \<open>One capture at a time\<close>

lemma call_step_heap:
  assumes "call_step H R w c0 = Some (w', c)" and "q \<noteq> wl_next w"
  shows "se_canceled (wl_heap w q) \<Longrightarrow> se_canceled (wl_heap w' q)"
    and "se_State (wl_heap w' q) = se_State (wl_heap w q) \<or> se_State (wl_heap w' q) = StateStopped \<and> (\<exists>hp. c0 = StopMark q hp)"
    and "c = StopWait q hp \<or> c = StopMark q hp \<or> c = ShutWait q hp \<Longrightarrow>
      se_canceled (wl_heap w' q) \<or> c0 = StopWait q hp \<or> c0 = StopMark q hp \<or> c0 = ShutWait q hp"
    and "c = StartLaunch q r \<Longrightarrow> wl_slot w = Some q \<and> wl_slot w' = Some q \<and> starting c0 \<and> call_ptr c0 = Some q"
    and "c0 = ShutCancel q d \<Longrightarrow> se_canceled (wl_heap w' q)"
    and "wl_slot w = Some q \<Longrightarrow> wl_slot w' = None \<Longrightarrow>
      se_State (wl_heap w q) \<noteq> StateCapturing \<or> (\<exists>d. c = ShutCancel q d) \<or> (\<exists>e. c0 = StartRelease q e)"
  using assms by (cases c0; auto simp: mgr_defs split: mgr_splits)+

lemma pipe_step_heap:
  assumes "pipe_step R w p g0 = Some (w', g)"
  shows "se_canceled (wl_heap w q) \<Longrightarrow> se_canceled (wl_heap w' q)"
    and "se_State (wl_heap w' q) = se_State (wl_heap w q) \<or> se_State (wl_heap w' q) = StateStopped \<and> q = p \<and> past_mark g"
    and "past_mark g0 \<Longrightarrow> past_mark g" and "g = PipeRunning \<Longrightarrow> g0 = PipeRunning"
  using assms by (cases g0; auto simp: mgr_defs split: option.splits if_splits)+

definition cap_inv :: "world \<Rightarrow> bool" where
  "cap_inv w \<longleftrightarrow>
     (\<forall>p. se_State (wl_heap w p) = StateCapturing \<or> se_State (wl_heap w p) = StateStopped)
     \<and> (\<forall>p. se_State (wl_heap w p) = StateStopped \<longrightarrow> se_canceled (wl_heap w p) \<or> past_mark (wl_pipes w p))
     \<and> (\<forall>t p hp. wl_calls w t = StopWait p hp \<or> wl_calls w t = StopMark p hp \<or> wl_calls w t = ShutWait p hp
          \<longrightarrow> se_canceled (wl_heap w p))
     \<and> (\<forall>p. \<not> se_canceled (wl_heap w p) \<and> (wl_pipes w p = PipeRunning \<or> (\<exists>t r. wl_calls w t = StartLaunch p r))
          \<longrightarrow> wl_slot w = Some p \<or> (\<exists>t d. wl_calls w t = ShutCancel p d))"

lemma cap_invI:
  assumes "\<And>p. se_State (wl_heap w p) = StateCapturing \<or> se_State (wl_heap w p) = StateStopped"
    and "\<And>p. se_State (wl_heap w p) = StateStopped \<Longrightarrow> se_canceled (wl_heap w p) \<or> past_mark (wl_pipes w p)"
    and "\<And>t p hp. wl_calls w t = StopWait p hp \<or> wl_calls w t = StopMark p hp \<or> wl_calls w t = ShutWait p hp
          \<Longrightarrow> se_canceled (wl_heap w p)"
    and "\<And>p. \<not> se_canceled (wl_heap w p) \<Longrightarrow> wl_pipes w p = PipeRunning \<or> (\<exists>t r. wl_calls w t = StartLaunch p r)
          \<Longrightarrow> wl_slot w = Some p \<or> (\<exists>t d. wl_calls w t = ShutCancel p d)"
  shows "cap_inv w"
  unfolding cap_inv_def by (intro conjI allI impI; use assms in blast)

lemma cap_invD:
  assumes "cap_inv w"
  shows "se_State (wl_heap w p) = StateCapturing \<or> se_State (wl_heap w p) = StateStopped"
    and "se_State (wl_heap w p) = StateStopped \<Longrightarrow> se_canceled (wl_heap w p) \<or> past_mark (wl_pipes w p)"
    and "wl_calls w t = StopWait p hp \<or> wl_calls w t = StopMark p hp \<or> wl_calls w t = ShutWait p hp \<Longrightarrow> se_canceled (wl_heap w p)"
    and "\<not> se_canceled (wl_heap w p) \<Longrightarrow> wl_pipes w p = PipeRunning \<or> (\<exists>t r. wl_calls w t = StartLaunch p r)
          \<Longrightarrow> wl_slot w = Some p \<or> (\<exists>t d. wl_calls w t = ShutCancel p d)"
  using assms unfolding cap_inv_def by blast+

lemma cap_inv_pipe:
  assumes "cap_inv w" and st: "pipe_step R w p (wl_pipes w p) = Some (w', g)"
  shows "cap_inv (w'\<lparr>wl_pipes := (wl_pipes w')(p := g)\<rparr>)"
proof -
  note iv = cap_invD [OF assms(1)] and k = pipe_step_kinds [OF st] and h = pipe_step_heap [OF st]
  show ?thesis
  proof (rule cap_invI)
    fix q
    show "se_State (wl_heap (w'\<lparr>wl_pipes := (wl_pipes w')(p := g)\<rparr>) q) = StateCapturing
        \<or> se_State (wl_heap (w'\<lparr>wl_pipes := (wl_pipes w')(p := g)\<rparr>) q) = StateStopped"
      using iv(1) [of q] h(2) [of q] by auto
  next
    fix q
    assume "se_State (wl_heap (w'\<lparr>wl_pipes := (wl_pipes w')(p := g)\<rparr>) q) = StateStopped"
    then show "se_canceled (wl_heap (w'\<lparr>wl_pipes := (wl_pipes w')(p := g)\<rparr>) q)
        \<or> past_mark (wl_pipes (w'\<lparr>wl_pipes := (wl_pipes w')(p := g)\<rparr>) q)"
      using iv(2) [of q] h(1,2) [of q] h(3) k(4) by auto
  next
    fix t q hp
    assume "wl_calls (w'\<lparr>wl_pipes := (wl_pipes w')(p := g)\<rparr>) t = StopWait q hp
      \<or> wl_calls (w'\<lparr>wl_pipes := (wl_pipes w')(p := g)\<rparr>) t = StopMark q hp
      \<or> wl_calls (w'\<lparr>wl_pipes := (wl_pipes w')(p := g)\<rparr>) t = ShutWait q hp"
    then show "se_canceled (wl_heap (w'\<lparr>wl_pipes := (wl_pipes w')(p := g)\<rparr>) q)"
      using iv(3) [of t q hp] h(1) [of q] k(1) by simp
  next
    fix q
    assume "\<not> se_canceled (wl_heap (w'\<lparr>wl_pipes := (wl_pipes w')(p := g)\<rparr>) q)"
      and "wl_pipes (w'\<lparr>wl_pipes := (wl_pipes w')(p := g)\<rparr>) q = PipeRunning
        \<or> (\<exists>t r. wl_calls (w'\<lparr>wl_pipes := (wl_pipes w')(p := g)\<rparr>) t = StartLaunch q r)"
    then show "wl_slot (w'\<lparr>wl_pipes := (wl_pipes w')(p := g)\<rparr>) = Some q
        \<or> (\<exists>t d. wl_calls (w'\<lparr>wl_pipes := (wl_pipes w')(p := g)\<rparr>) t = ShutCancel q d)"
      using iv(4) [of q] h(1) [of q] h(4) k(1,3,4) by (auto split: if_splits)
  qed
qed

lemma ptr_invD:
  assumes "ptr_inv w"
  shows "wl_slot w = Some p \<Longrightarrow> p < wl_next w" and "call_ptr (wl_calls w t) = Some p \<Longrightarrow> p < wl_next w"
    and "wl_pipes w p \<noteq> PipeNone \<Longrightarrow> p < wl_next w"
    and "starting (wl_calls w t) \<Longrightarrow> call_ptr (wl_calls w t) = Some p \<Longrightarrow> wl_pipes w p = PipeNone"
    and "starting (wl_calls w t) \<Longrightarrow> starting (wl_calls w u) \<Longrightarrow> call_ptr (wl_calls w t) = Some p
      \<Longrightarrow> call_ptr (wl_calls w u) = Some p \<Longrightarrow> t = u"
  using assms unfolding ptr_inv_def by blast+

lemma live_old:
  assumes "ptr_inv w" and "wl_pipes w q = PipeRunning \<or> (\<exists>u r. wl_calls w u = StartLaunch q r)"
  shows "q < wl_next w \<and> \<not> past_mark (wl_pipes w q)"
  using assms(2)
proof
  assume "wl_pipes w q = PipeRunning"
  then show ?thesis using ptr_invD(3) [OF assms(1), of q] by simp
next
  assume "\<exists>u r. wl_calls w u = StartLaunch q r"
  then obtain u r where "wl_calls w u = StartLaunch q r" by blast
  then show ?thesis using ptr_invD(2,4) [OF assms(1), of u q] by simp
qed

lemma cap_inv_call:
  assumes "cap_inv w" and pt: "ptr_inv w" and st: "call_step H R w (wl_calls w t) = Some (w', c)"
  shows "cap_inv (w'\<lparr>wl_calls := (wl_calls w')(t := c)\<rparr>)"
proof -
  let ?w = "w'\<lparr>wl_calls := (wl_calls w')(t := c)\<rparr>"
  note iv = cap_invD [OF assms(1)] and fr = call_step_frame [OF st] and pd = ptr_invD [OF pt]
  have calls: "wl_calls ?w u = (if u = t then c else wl_calls w u)" for u by (simp add: fr)
  from st show ?thesis
  proof (cases rule: call_step_kinds)
    case (Claim d)
    let ?n = "wl_next w"
    have old: "q \<noteq> ?n" if "call_ptr (wl_calls w u) = Some q" for u q using pd(2) [OF that] by simp
    show ?thesis
    proof (rule cap_invI)
      fix q show "se_State (wl_heap ?w q) = StateCapturing \<or> se_State (wl_heap ?w q) = StateStopped"
        using iv(1) [of q] by (simp add: Claim)
    next
      fix q assume "se_State (wl_heap ?w q) = StateStopped"
      then show "se_canceled (wl_heap ?w q) \<or> past_mark (wl_pipes ?w q)" using iv(2) [of q] by (auto simp: Claim split: if_splits)
    next
      fix u q hp assume "wl_calls ?w u = StopWait q hp \<or> wl_calls ?w u = StopMark q hp \<or> wl_calls ?w u = ShutWait q hp"
      then have "wl_calls w u = StopWait q hp \<or> wl_calls w u = StopMark q hp \<or> wl_calls w u = ShutWait q hp"
        by (auto simp: fr Claim split: if_splits)
      then show "se_canceled (wl_heap ?w q)" using iv(3) old [of u q] by (auto simp: Claim)
    next
      fix q assume c: "\<not> se_canceled (wl_heap ?w q)" and l: "wl_pipes ?w q = PipeRunning \<or> (\<exists>u r. wl_calls ?w u = StartLaunch q r)"
      then have l': "wl_pipes w q = PipeRunning \<or> (\<exists>u r. wl_calls w u = StartLaunch q r)"
        by (auto simp: fr Claim split: if_splits)
      then have n: "q \<noteq> ?n" using live_old [OF pt l'] by simp
      then have c': "\<not> se_canceled (wl_heap w q)" using c by (simp add: Claim)
      have "\<not> past_mark (wl_pipes w q)" using live_old [OF pt l'] by simp
      then have "se_State (wl_heap w q) = StateCapturing" using iv(1,2) [of q] c' by auto
      then have "wl_slot w \<noteq> Some q" using Claim(7) by auto
      then obtain u d where u: "wl_calls w u = ShutCancel q d" using iv(4) [OF c' l'] by blast
      then have "u \<noteq> t" using Claim(1) by auto
      with u show "wl_slot ?w = Some q \<or> (\<exists>t d. wl_calls ?w t = ShutCancel q d)" by (auto simp: fr)
    qed
  next
    case (Launch p r)
    show ?thesis
    proof (rule cap_invI)
      fix q show "se_State (wl_heap ?w q) = StateCapturing \<or> se_State (wl_heap ?w q) = StateStopped"
        using iv(1) [of q] by (simp add: Launch)
    next
      fix q assume "se_State (wl_heap ?w q) = StateStopped"
      moreover have "wl_pipes w p = PipeNone" using pd(4) [of t p] by (simp add: Launch)
      ultimately show "se_canceled (wl_heap ?w q) \<or> past_mark (wl_pipes ?w q)" using iv(2) [of q] by (auto simp: Launch)
    next
      fix u q hp assume "wl_calls ?w u = StopWait q hp \<or> wl_calls ?w u = StopMark q hp \<or> wl_calls ?w u = ShutWait q hp"
      then show "se_canceled (wl_heap ?w q)" using iv(3) [of u q hp] by (auto simp: Launch split: if_splits)
    next
      fix q assume "\<not> se_canceled (wl_heap ?w q)" and "wl_pipes ?w q = PipeRunning \<or> (\<exists>u r. wl_calls ?w u = StartLaunch q r)"
      then have "\<not> se_canceled (wl_heap w q)" "wl_pipes w q = PipeRunning \<or> (\<exists>u r. wl_calls w u = StartLaunch q r)"
        using Launch(1) by (auto simp: Launch(2,3) split: if_splits)
      from iv(4) [OF this] have "wl_slot w = Some q \<or> (\<exists>u d. wl_calls w u = ShutCancel q d)" .
      moreover have "wl_calls w u = ShutCancel q d \<Longrightarrow> u \<noteq> t" for u d using Launch(1) by auto
      ultimately show "wl_slot ?w = Some q \<or> (\<exists>t d. wl_calls ?w t = ShutCancel q d)" by (auto simp: Launch(2,3))
    qed
  next
    case Move
    have fresh: "q \<noteq> wl_next w" if "call_ptr (wl_calls w u) = Some q" for u q using pd(2) [OF that] by simp
    note h = call_step_heap [OF st]
    have same: "wl_heap w' (wl_next w) = wl_heap w (wl_next w)" using Move(6) fresh [of t] by fastforce
    have mono: "se_canceled (wl_heap w q) \<Longrightarrow> se_canceled (wl_heap w' q)" for q using h(1) [of q] same by metis
    have state: "se_State (wl_heap w' q) = se_State (wl_heap w q)
        \<or> se_State (wl_heap w' q) = StateStopped \<and> (\<exists>hp. wl_calls w t = StopMark q hp)" for q
      using h(2) [of q] same by metis
    show ?thesis
    proof (rule cap_invI)
      fix q show "se_State (wl_heap ?w q) = StateCapturing \<or> se_State (wl_heap ?w q) = StateStopped"
        using iv(1) [of q] state [of q] by auto
    next
      fix q assume "se_State (wl_heap ?w q) = StateStopped"
      then show "se_canceled (wl_heap ?w q) \<or> past_mark (wl_pipes ?w q)"
        using iv(2) [of q] state [of q] mono [of q] iv(3) [of t q] by (auto simp: Move)
    next
      fix u q hp assume a: "wl_calls ?w u = StopWait q hp \<or> wl_calls ?w u = StopMark q hp \<or> wl_calls ?w u = ShutWait q hp"
      show "se_canceled (wl_heap ?w q)"
      proof (cases "u = t")
        case True
        then have c: "c = StopWait q hp \<or> c = StopMark q hp \<or> c = ShutWait q hp" using a by auto
        then have "call_ptr (wl_calls w t) = Some q"
          using Move(4) by (cases "wl_calls w t"; use st c in \<open>auto simp: mgr_defs split: mgr_splits\<close>)
        with c h(3) [of q hp] fresh iv(3) [of t q hp] mono [of q] show ?thesis by auto
      next
        case False
        then have "wl_calls w u = StopWait q hp \<or> wl_calls w u = StopMark q hp \<or> wl_calls w u = ShutWait q hp"
          using a by (auto simp: fr)
        then show ?thesis using iv(3) [of u q hp] mono by auto
      qed
    next
      fix q assume nc: "\<not> se_canceled (wl_heap ?w q)" and l: "wl_pipes ?w q = PipeRunning \<or> (\<exists>u r. wl_calls ?w u = StartLaunch q r)"
      have nc': "\<not> se_canceled (wl_heap w q)" using nc mono by auto
      show "wl_slot ?w = Some q \<or> (\<exists>t d. wl_calls ?w t = ShutCancel q d)"
      proof (cases "\<exists>r. c = StartLaunch q r")
        case True
        then obtain r where r: "c = StartLaunch q r" by blast
        then have "call_ptr (wl_calls w t) = Some q" using Move(5) by auto
        then show ?thesis using h(4) [of q r] fresh r by auto
      next
        case False
        then have l': "wl_pipes w q = PipeRunning \<or> (\<exists>u r. wl_calls w u = StartLaunch q r)"
          using l by (auto simp: Move fr split: if_splits)
        have n: "q \<noteq> wl_next w" and np: "\<not> past_mark (wl_pipes w q)" using live_old [OF pt l'] by simp_all
        then have cap: "se_State (wl_heap w q) = StateCapturing" using iv(1,2) [of q] nc' by auto
        have rel: "wl_calls w t \<noteq> StartRelease q e" for e
        proof
          assume r: "wl_calls w t = StartRelease q e"
          then have "wl_pipes w q = PipeNone" using pd(4) [of t q] by simp
          with l' obtain u r where u: "wl_calls w u = StartLaunch q r" by auto
          with pd(5) [of t u q] r have "t = u" by simp
          with r u show False by simp
        qed
        from iv(4) [OF nc' l'] show ?thesis
        proof
          assume s: "wl_slot w = Some q"
          from Move(3) show ?thesis
          proof
            assume "wl_slot w' = wl_slot w" with s show ?thesis by simp
          next
            assume "wl_slot w' = None"
            with h(6) [OF n s] cap rel show ?thesis by auto
          qed
        next
          assume "\<exists>u d. wl_calls w u = ShutCancel q d"
          then obtain u d where u: "wl_calls w u = ShutCancel q d" by blast
          then have "u \<noteq> t" using h(5) [OF n] nc by auto
          with u show ?thesis by (auto simp: fr)
        qed
      qed
    qed
  qed
qed

end
