(* ===== verification/SessionDirs.thy ===== *)
theory SessionDirs
  imports SessionSpec
begin

text \<open>
  The runs of the session manager: what \<open>SessionSpec\<close> shows of one step, carried along them, and the
  directories.  Each directory that \<open>Start\<close> made has exactly one owner, the slot or a call, or is one whose
  removal failed.
\<close>

section \<open>Runs\<close>

lemma NewManager_simps [simp]:
  "wl_slot NewManager = None" "wl_next NewManager = 0" "wl_dirs NewManager = []" "wl_revived NewManager = []" "wl_late NewManager = []" "wl_unremoved NewManager = []"
  "wl_pipes NewManager p = PipeNone" "wl_calls NewManager t = Idle" "wl_heap NewManager p = new_session [] 0"
  "wl_forwards NewManager p = False" "wl_root NewManager = False"
  by (simp_all add: NewManager_def)

lemma mgr_invs_run:
  assumes "mgr_run H w0 ls w" and "w0 = NewManager"
  shows "ptr_inv w \<and> cap_inv w"
  using assms
proof (induction rule: mgr_run.induct)
  case (Refl w)
  then show ?case by (simp add: ptr_inv_def cap_inv_def)
next
  case (Snoc w0 ls w' l w'')
  then have iv: "ptr_inv w'" "cap_inv w'" by simp_all
  from Snoc.hyps(2) show ?case
  proof cases
    case (Call R t w1 c)
    with iv show ?thesis by (simp add: ptr_inv_call cap_inv_call)
  next
    case (Pipe R p w1 g)
    with iv show ?thesis by (simp add: ptr_inv_pipe cap_inv_pipe)
  next
    case Root
    with iv show ?thesis by (simp add: ptr_inv_def cap_inv_def)
  qed
qed

text \<open>C7: One capture at a time: however the calls of \<open>Start\<close>, \<open>Stop\<close> and \<open>Shutdown\<close> and the pipeline goroutines
  interleave, two sessions whose pipelines run on contexts nobody has cancelled are the same session, and
  it is the one in the slot, unless a \<open>Shutdown\<close> that has already emptied the slot is about to cancel
  one of them.\<close>

theorem one_capture:
  assumes "mgr_run H NewManager ls w"
    and "wl_pipes w p = PipeRunning" and "\<not> se_canceled (wl_heap w p)"
    and "wl_pipes w q = PipeRunning" and "\<not> se_canceled (wl_heap w q)"
    and "\<And>t d. wl_calls w t \<noteq> ShutCancel p d \<and> wl_calls w t \<noteq> ShutCancel q d"
  shows "p = q \<and> wl_slot w = Some p"
proof -
  have "cap_inv w" using mgr_invs_run [OF assms(1) refl] by simp
  then have "wl_slot w = Some p" "wl_slot w = Some q"
    using cap_invD(4) [of w p] cap_invD(4) [of w q] assms(2-6) by blast+
  then show ?thesis by simp
qed

text \<open>Runs that are computed.\<close>

fun exec :: "(string \<Rightarrow> string) \<Rightarrow> world \<Rightarrow> (actor \<times> env_choice) list \<Rightarrow> world option" where
  "exec H w [] = Some w"
| "exec H w ((ByCall t, R) # acts) =
     (case call_step H R w (wl_calls w t) of
        None \<Rightarrow> None
      | Some (w', c) \<Rightarrow> exec H (w'\<lparr>wl_calls := (wl_calls w')(t := c)\<rparr>) acts)"
| "exec H w ((ByPipe p, R) # acts) =
     (case pipe_step R w p (wl_pipes w p) of
        None \<Rightarrow> None
      | Some (w', g) \<Rightarrow> exec H (w'\<lparr>wl_pipes := (wl_pipes w')(p := g)\<rparr>) acts)"
| "exec H w ((ByRoot, R) # acts) = exec H (w\<lparr>wl_root := True\<rparr>) acts"

lemma exec_run: "exec H w acts = Some w' \<Longrightarrow> mgr_run H w0 ls w \<Longrightarrow> mgr_run H w0 (ls @ map fst acts) w'"
proof (induction H w acts arbitrary: ls rule: exec.induct)
  case (2 H w t R acts)
  then obtain w1 c where st: "call_step H R w (wl_calls w t) = Some (w1, c)"
    and ex: "exec H (w1\<lparr>wl_calls := (wl_calls w1)(t := c)\<rparr>) acts = Some w'" by (auto split: option.splits)
  from "2.IH" [OF st refl ex mgr_run.Snoc [OF "2.prems"(2) mgr_step.Call [OF st]]] show ?case by simp
next
  case (3 H w p R acts)
  then obtain w1 g where st: "pipe_step R w p (wl_pipes w p) = Some (w1, g)"
    and ex: "exec H (w1\<lparr>wl_pipes := (wl_pipes w1)(p := g)\<rparr>) acts = Some w'" by (auto split: option.splits)
  from "3.IH" [OF st refl ex mgr_run.Snoc [OF "3.prems"(2) mgr_step.Pipe [OF st]]] show ?case by simp
next
  case (4 H w R acts)
  from "4.IH" [OF _ mgr_run.Snoc [OF "4.prems"(2) mgr_step.Root]] "4.prems"(1) show ?case by simp
qed simp

definition demo_choice :: env_choice where
  "demo_choice = \<lparr>or_op = OpStart, or_now = 5, or_id = ''sess_1'', or_ok = True, or_tmp = Some ''/tmp/a'',
     or_setup = Inr \<lparr>su_Server = ''relay:80'', su_Compat = undetermined\<rparr>, or_timeout = False, or_hang = False, or_writes = False, or_final = None, or_err = None\<rparr>"

text \<open>A start that is through, after which a second one is refused.\<close>

definition demo_acts :: "(actor \<times> env_choice) list" where
  "demo_acts = replicate 5 (ByCall 0, demo_choice) @ [(ByCall 1, demo_choice\<lparr>or_now := 2 * second\<rparr>)]"

definition demo_path :: "string \<Rightarrow> string" where "demo_path d = d @ ''/health''"

definition demo_world :: world where "demo_world = the (exec demo_path NewManager demo_acts)"

lemma demo_exec: "exec demo_path NewManager demo_acts = Some demo_world"
proof -
  have "exec demo_path NewManager demo_acts \<noteq> None" by code_simp
  then show ?thesis by (simp add: demo_world_def)
qed

lemma demo_capture_run: "mgr_run demo_path NewManager (map fst demo_acts) demo_world"
  using exec_run [OF demo_exec mgr_run.Refl] by simp

theorem one_capture_witness:
  "wl_slot demo_world = Some 0 \<and> wl_pipes demo_world 0 = PipeRunning
   \<and> wl_calls demo_world 1 = StartReturned (Inl (AlreadyRunning ''sess_1'' ''2s''))"
proof -
  have f: "wl_pipes demo_world 0 = PipeRunning" "\<not> se_canceled (wl_heap demo_world 0)"
    "wl_calls demo_world 1 = StartReturned (Inl (AlreadyRunning ''sess_1'' ''2s''))"
    "wl_calls demo_world 0 = StartReturned (Inr \<lparr>sr_SessionID = ''sess_1'', sr_DiscardedSession = [], sr_Server' = ''relay:80'', sr_Compat = undetermined\<rparr>)"
    by code_simp+
  have "wl_calls demo_world t = Idle" if "t \<noteq> 0" "t \<noteq> 1" for t
    using that by (simp add: demo_world_def demo_acts_def demo_choice_def eval_nat_numeral mgr_defs)
  with f(3,4) have "wl_calls demo_world t \<noteq> ShutCancel p d" for t p d by (cases "t = 0"; cases "t = 1"; auto)
  with one_capture [OF demo_capture_run f(1,2) f(1,2)] f show ?thesis by simp
qed

section \<open>Owners of directories\<close>

text \<open>Every live directory has exactly one owner; an owner of the empty name owns nothing.\<close>

definition owned :: "('o \<Rightarrow> string) \<Rightarrow> string set \<Rightarrow> bool" where
  "owned own live \<longleftrightarrow>
     [] \<notin> live \<and> (\<forall>i. own i \<noteq> [] \<longrightarrow> own i \<in> live) \<and> (\<forall>d \<in> live. \<exists>i. own i = d)
     \<and> (\<forall>i j. own i = own j \<and> own i \<noteq> [] \<longrightarrow> i = j)"

lemma owned_new: "owned own live \<Longrightarrow> own i = [] \<Longrightarrow> d \<notin> live \<Longrightarrow> d \<noteq> [] \<Longrightarrow> owned (own(i := d)) (insert d live)"
  unfolding owned_def by (auto split: if_splits; (metis)?)

lemma owned_drop: "owned own live \<Longrightarrow> owned (own(i := [])) (live - {own i})"
  unfolding owned_def by (auto split: if_splits; (metis)?)

lemma owned_move: "owned own live \<Longrightarrow> own i = [] \<Longrightarrow> i \<noteq> j \<Longrightarrow> owned (own(i := own j, j := [])) live"
  unfolding owned_def by (auto split: if_splits; (metis)?)

definition owner :: "world \<Rightarrow> nat option \<Rightarrow> string" where
  "owner w i = (case i of None \<Rightarrow> slot_dir w | Some t \<Rightarrow> call_dir (wl_calls w t))"

definition live_dirs :: "world \<Rightarrow> string set" where
  "live_dirs w = set (wl_dirs w) - set (wl_unremoved w)"

text \<open>A session that is being started has no directory yet.\<close>

fun pre_launch :: "call \<Rightarrow> bool" where
  "pre_launch (StartLaunch p _) = False"
| "pre_launch c = starting c"

definition tmp_inv :: "world \<Rightarrow> bool" where
  "tmp_inv w \<longleftrightarrow> (\<forall>t p. pre_launch (wl_calls w t) \<and> call_ptr (wl_calls w t) = Some p \<longrightarrow> se_TmpDir (wl_heap w p) = [])"

lemma tmp_invD: "tmp_inv w \<Longrightarrow> pre_launch (wl_calls w t) \<Longrightarrow> call_ptr (wl_calls w t) = Some p \<Longrightarrow> se_TmpDir (wl_heap w p) = []"
  unfolding tmp_inv_def by blast

definition dir_inv :: "world \<Rightarrow> bool" where
  "dir_inv w \<longleftrightarrow> owned (owner w) (live_dirs w) \<and> tmp_inv w \<and> set (wl_unremoved w) \<subseteq> set (wl_dirs w)"

lemma live_RemoveAll: "set (wl_unremoved w) \<subseteq> set (wl_dirs w) \<Longrightarrow> [] \<notin> live_dirs w \<Longrightarrow>
    live_dirs (RemoveAll ok d w) = live_dirs w - {d} \<and> (d \<in> live_dirs w \<or> d = [] \<longrightarrow> set (wl_unremoved (RemoveAll ok d w)) \<subseteq> set (wl_dirs (RemoveAll ok d w)))"
  by (auto simp: RemoveAll_def live_dirs_def)

lemma call_step_dirs:
  assumes st: "call_step H R w c0 = Some (w', c)" and "ptr_inv w" and "c0 = wl_calls w t"
    and tmp: "tmp_inv w" and un: "set (wl_unremoved w) \<subseteq> set (wl_dirs w)"
  obtains (Keep) "live_dirs w' = live_dirs w" "slot_dir w' = slot_dir w" "call_dir c = call_dir c0"
      "wl_dirs w' = wl_dirs w" "wl_unremoved w' = wl_unremoved w"
  | (New) d where "d \<notin> set (wl_dirs w)" "d \<noteq> []" "wl_dirs w' = d # wl_dirs w" "wl_unremoved w' = wl_unremoved w"
      "slot_dir w' = slot_dir w" "call_dir c0 = []" "call_dir c = d"
  | (Drop) ok where "wl_dirs w' = wl_dirs (RemoveAll ok (call_dir c0) w)" "wl_unremoved w' = wl_unremoved (RemoveAll ok (call_dir c0) w)"
      "slot_dir w' = slot_dir w" "call_dir c = []"
  | (ToSlot) "wl_dirs w' = wl_dirs w" "wl_unremoved w' = wl_unremoved w" "slot_dir w = []" "slot_dir w' = call_dir c0" "call_dir c = []"
  | (FromSlot) "wl_dirs w' = wl_dirs w" "wl_unremoved w' = wl_unremoved w" "slot_dir w' = []" "call_dir c = slot_dir w" "call_dir c0 = []"
  | (Purge) ok where "wl_dirs w' = wl_dirs (RemoveAll ok (slot_dir w) w)" "wl_unremoved w' = wl_unremoved (RemoveAll ok (slot_dir w) w)"
      "slot_dir w' = []" "call_dir c = []" "call_dir c0 = []"
proof -
  have slot: "p < wl_next w" if "wl_slot w = Some p" for p using ptr_invD(1) [OF assms(2) that] .
  show thesis
  proof (cases c0)
    case Idle
    from st show thesis
    proof (cases rule: call_step_kinds)
      case (Claim d)
      then show thesis by (intro Purge [of "or_ok R"]) (simp_all add: slot_dir_def)
    next
      case (Launch p r)
      with Idle show thesis by simp
    next
      case Move
      show thesis
      proof (cases "or_op R")
        case OpStart
        with st Idle Move show thesis
          by (intro Keep) (auto simp: Start_claim_def claim_slot_def Let_def slot_dir_def split: option.splits if_splits cong: option.case_cong)
      next
        case (OpStop sid)
        with st Idle show thesis
          by (intro Keep) (auto simp: Stop_lookup_def Let_def slot_dir_def live_dirs_def split: option.splits if_splits cong: option.case_cong)
      next
        case OpShutdown
        with st Idle show thesis
          by (intro FromSlot) (auto simp: Shutdown_take_def slot_dir_def split: option.splits if_splits cong: option.case_cong)
      qed
    qed
  next
    case (StartMkdir p d)
    show thesis
    proof (cases "or_tmp R")
      case None
      with st StartMkdir show thesis by (intro Keep) (auto simp: Start_mkdir_def)
    next
      case (Some dir)
      with st StartMkdir show thesis by (intro New [of dir]) (auto simp: Start_mkdir_def slot_dir_def split: if_splits option.splits cong: option.case_cong)
    qed
  next
    case (StartSetup p d dir)
    show thesis
    proof (cases "or_setup R")
      case (Inl e)
      with st StartSetup show thesis by (intro Drop [of "or_ok R"]) (auto simp: Start_setup_def slot_dir_def cong: option.case_cong)
    next
      case (Inr su)
      with st StartSetup show thesis by (intro Keep) (auto simp: Start_setup_def slot_dir_def set_forward_def live_dirs_def cong: option.case_cong)
    qed
  next
    case (StartRelease p e)
    have "se_TmpDir (wl_heap w p) = []" using tmp_invD [OF tmp, of t p] StartRelease [unfolded assms(3)] by simp
    with st StartRelease show thesis by (intro Keep) (auto simp: Start_release_def slot_dir_def live_dirs_def split: if_splits cong: option.case_cong)
  next
    case (StartFinalize p d dir su)
    show thesis
    proof (cases "wl_slot w = Some p")
      case True
      have "se_TmpDir (wl_heap w p) = []" using tmp_invD [OF tmp, of t p] StartFinalize [unfolded assms(3)] by simp
      with st StartFinalize True show thesis by (intro ToSlot) (auto simp: Start_finalize_def slot_dir_def upd_session_def cong: option.case_cong)
    next
      case False
      with st StartFinalize show thesis by (intro Keep) (auto simp: Start_finalize_def slot_dir_def cong: option.case_cong)
    qed
  next
    case (StartAbort p dir)
    with st show thesis
      by (intro Drop [of "or_ok R"]) (auto simp: Start_abort_def slot_dir_def upd_session_def set_forward_def RemoveAll_def split: option.splits if_splits cong: option.case_cong)
  next
    case (ShutRemove dir)
    show thesis
    proof (cases "or_timeout R")
      case True
      with st ShutRemove show thesis by (intro Keep) auto
    next
      case False
      with st ShutRemove show thesis by (intro Drop [of "or_ok R"]) (auto simp: slot_dir_def split: if_splits cong: option.case_cong)
    qed
  next
    case (ShutLeft dir)
    with st show thesis by (intro Drop [of "or_ok R"]) (auto simp: slot_dir_def split: if_splits cong: option.case_cong)
  qed (use st in \<open>intro Keep; auto simp: mgr_defs slot_dir_def live_dirs_def split: if_splits option.splits once.splits cong: option.case_cong\<close>)+
qed

lemma call_step_tmp:
  assumes "call_step H R w c0 = Some (w', c)"
  shows "q \<noteq> wl_next w \<Longrightarrow> se_TmpDir (wl_heap w' q) = se_TmpDir (wl_heap w q) \<or> (\<exists>d dir su r. c0 = StartFinalize q d dir su \<and> c = StartLaunch q r)"
    and "pre_launch c \<Longrightarrow> call_ptr c = Some q \<Longrightarrow>
      q = wl_next w \<and> se_TmpDir (wl_heap w' q) = [] \<or> pre_launch c0 \<and> call_ptr c0 = Some q"
  using assms by (cases c0; auto simp: mgr_defs split: mgr_splits)+

lemma tmp_inv_call:
  assumes "tmp_inv w" and pt: "ptr_inv w" and st: "call_step H R w (wl_calls w t) = Some (w', c)"
  shows "tmp_inv (w'\<lparr>wl_calls := (wl_calls w')(t := c)\<rparr>)"
proof -
  note tm = call_step_tmp [OF st] and fr = call_step_frame [OF st]
  have keep: "se_TmpDir (wl_heap w' q) = []"
    if u: "pre_launch (wl_calls w u)" "call_ptr (wl_calls w u) = Some q" and c: "u = t \<Longrightarrow> pre_launch c" for u q
  proof -
    have "q \<noteq> wl_next w" using ptr_invD(2) [OF pt u(2)] by simp
    moreover have "se_TmpDir (wl_heap w q) = []" by (rule tmp_invD [OF assms(1) u])
    moreover have False if f: "wl_calls w t = StartFinalize q d dir su" "c = StartLaunch q r" for d dir su r
    proof -
      have "starting (wl_calls w u)" using u(1) by (cases "wl_calls w u") simp_all
      then have "u = t" using ptr_invD(5) [OF pt, of u t q] u(2) f(1) by simp
      with c f(2) show False by simp
    qed
    ultimately show ?thesis using tm(1) [of q] by metis
  qed
  show ?thesis unfolding tmp_inv_def
  proof (intro allI impI, elim conjE)
    fix u q
    assume u: "pre_launch (wl_calls (w'\<lparr>wl_calls := (wl_calls w')(t := c)\<rparr>) u)"
      "call_ptr (wl_calls (w'\<lparr>wl_calls := (wl_calls w')(t := c)\<rparr>) u) = Some q"
    show "se_TmpDir (wl_heap (w'\<lparr>wl_calls := (wl_calls w')(t := c)\<rparr>) q) = []"
    proof (cases "u = t")
      case True
      with u tm(2) [of q] keep [of t q] show ?thesis by auto
    next
      case False
      with u keep [of u q] show ?thesis by (simp add: fr)
    qed
  qed
qed

lemma owner_step:
  "wl_calls w' = wl_calls w \<Longrightarrow> owner (w'\<lparr>wl_calls := (wl_calls w')(t := c)\<rparr>) = (owner w)(Some t := call_dir c, None := slot_dir w')"
  by (rule ext) (auto simp: owner_def slot_dir_def split: option.splits)

lemma dir_inv_call:
  assumes "dir_inv w" and pt: "ptr_inv w" and st: "call_step H R w (wl_calls w t) = Some (w', c)"
  shows "dir_inv (w'\<lparr>wl_calls := (wl_calls w')(t := c)\<rparr>)"
proof -
  have ow: "owned (owner w) (live_dirs w)" and tmp: "tmp_inv w" and un: "set (wl_unremoved w) \<subseteq> set (wl_dirs w)"
    using assms(1) by (simp_all add: dir_inv_def)
  have ne: "[] \<notin> live_dirs w" using ow by (simp add: owned_def)
  have own: "owner w None = slot_dir w" "owner w (Some t) = call_dir (wl_calls w t)" by (simp_all add: owner_def)
  have mem: "owner w i \<in> live_dirs w \<or> owner w i = []" for i using ow by (auto simp: owned_def)
  have same: "(owner w)(Some t := x, None := owner w None) = (owner w)(Some t := x)"
    "(owner w)(Some t := owner w (Some t), None := x) = (owner w)(None := x)" for x by auto
  note step = owner_step [OF call_step_frame(1) [OF st], of t c]
  have "owned ((owner w)(Some t := call_dir c, None := slot_dir w')) (live_dirs w') \<and> set (wl_unremoved w') \<subseteq> set (wl_dirs w')"
    using st pt refl tmp un
  proof (cases rule: call_step_dirs)
    case Keep
    then show ?thesis using ow un by (simp add: own [symmetric])
  next
    case (New d)
    then have "owned ((owner w)(Some t := d)) (insert d (live_dirs w))"
      using ow by (intro owned_new) (simp_all add: own live_dirs_def)
    moreover have "live_dirs w' = insert d (live_dirs w)" using New un by (auto simp: live_dirs_def)
    ultimately show ?thesis using New un by (auto simp: own [symmetric] fun_upd_twist)
  next
    case (Drop ok)
    have "live_dirs w' = live_dirs (RemoveAll ok (owner w (Some t)) w)" using Drop by (simp add: live_dirs_def own)
    moreover have "set (wl_unremoved w') \<subseteq> set (wl_dirs w')"
      using Drop live_RemoveAll [OF un ne, of ok "owner w (Some t)"] mem [of "Some t"] by (auto simp: own)
    ultimately show ?thesis
      using owned_drop [OF ow, of "Some t"] live_RemoveAll [OF un ne, of ok "owner w (Some t)"] same(1) Drop by (simp flip: own)
  next
    case ToSlot
    then show ?thesis
      using owned_move [OF ow, of None "Some t"] un by (simp add: own live_dirs_def fun_upd_twist)
  next
    case FromSlot
    then show ?thesis
      using owned_move [OF ow, of "Some t" None] un by (simp add: own live_dirs_def)
  next
    case (Purge ok)
    have "live_dirs w' = live_dirs (RemoveAll ok (owner w None) w)" using Purge by (simp add: live_dirs_def own)
    moreover have "set (wl_unremoved w') \<subseteq> set (wl_dirs w')"
      using Purge live_RemoveAll [OF un ne, of ok "owner w None"] mem [of None] by (auto simp: own)
    moreover have "call_dir c = owner w (Some t)" using Purge by (simp add: own)
    ultimately show ?thesis
      using owned_drop [OF ow, of None] live_RemoveAll [OF un ne, of ok "owner w None"] same(2) Purge(3) by (simp flip: own)
  qed
  then show ?thesis
    using tmp_inv_call [OF tmp pt st] step by (simp add: dir_inv_def live_dirs_def)
qed

lemma pipe_step_tmp: "pipe_step R w p g0 = Some (w', g) \<Longrightarrow> se_TmpDir (wl_heap w' q) = se_TmpDir (wl_heap w q)"
  by (cases g0; auto simp: mgr_defs split: option.splits if_splits)

lemma dir_inv_pipe:
  assumes "dir_inv w" and st: "pipe_step R w p (wl_pipes w p) = Some (w', g)"
  shows "dir_inv (w'\<lparr>wl_pipes := (wl_pipes w')(p := g)\<rparr>)"
proof -
  note k = pipe_step_kinds [OF st] and tmp = pipe_step_tmp [OF st]
  have "slot_dir (w'\<lparr>wl_pipes := (wl_pipes w')(p := g)\<rparr>) = slot_dir w"
    by (simp add: slot_dir_def k tmp cong: option.case_cong)
  then have "owner (w'\<lparr>wl_pipes := (wl_pipes w')(p := g)\<rparr>) = owner w"
    by (intro ext) (simp add: owner_def k cong: option.case_cong)
  then show ?thesis using assms(1) by (simp add: dir_inv_def live_dirs_def tmp_inv_def k tmp)
qed

lemma dir_inv_run:
  assumes "mgr_run H w0 ls w" and "w0 = NewManager"
  shows "dir_inv w \<and> ptr_inv w"
  using assms
proof (induction rule: mgr_run.induct)
  case (Refl w)
  then show ?case
    by (auto simp: dir_inv_def owned_def owner_def slot_dir_def live_dirs_def tmp_inv_def ptr_inv_def split: option.splits)
next
  case (Snoc w0 ls w' l w'')
  then have iv: "dir_inv w'" "ptr_inv w'" by simp_all
  from Snoc.hyps(2) show ?case
  proof cases
    case (Call R t w1 c)
    with iv show ?thesis by (simp add: ptr_inv_call dir_inv_call)
  next
    case (Pipe R p w1 g)
    with iv show ?thesis by (simp add: ptr_inv_pipe dir_inv_pipe)
  next
    case Root
    have "owner (w'\<lparr>wl_root := True\<rparr>) = owner w'" by (rule ext) (simp add: owner_def slot_dir_def cong: option.case_cong)
    with iv Root show ?thesis by (simp add: ptr_inv_def dir_inv_def live_dirs_def tmp_inv_def)
  qed
qed

end
