(* ===== verification/SessionStop.thy ===== *)
theory SessionStop
  imports SessionDirs
begin

text \<open>
  What a client of the session manager sees: the states a session can show, which \<open>Stop\<close> is the
  first, and that calls return.
\<close>

section \<open>A stopped session stays stopped\<close>

lemma call_step_state:
  assumes "call_step H R w c0 = Some (w', c)" and "q \<noteq> wl_next w"
  shows "se_State (wl_heap w q) = StateStopped \<Longrightarrow> se_State (wl_heap w' q) = StateStopped"
    and "se_stopOnce (wl_heap w' q) = OnceDone \<Longrightarrow> se_stopOnce (wl_heap w q) = OnceDone \<or> se_State (wl_heap w' q) = StateStopped"
    and "c = StopSummary q hp \<Longrightarrow> se_State (wl_heap w' q) = StateStopped \<or> se_stopOnce (wl_heap w q) = OnceDone"
    and "c = StopReturned q r \<Longrightarrow> (\<exists>hp. c0 = StopSummary q hp) \<and> se_explicitStopSeen (wl_heap w' q)
      \<and> sp_AlreadyStopped r = se_explicitStopSeen (wl_heap w q)"
    and "se_explicitStopSeen (wl_heap w' q) \<longleftrightarrow> se_explicitStopSeen (wl_heap w q) \<or> (\<exists>r. c = StopReturned q r)"
    and "se_stopOnce (wl_heap w' q) = OnceRunning \<Longrightarrow>
      se_stopOnce (wl_heap w q) = OnceRunning \<and> (tearing c0 \<and> call_ptr c0 = Some q \<longrightarrow> tearing c \<and> call_ptr c = Some q)
      \<or> tearing c \<and> call_ptr c = Some q"
  using assms by (cases c0; auto simp: mgr_defs buildSummary_def split: mgr_splits)+

lemma call_step_new:
  assumes "call_step H R w c0 = Some (w', c)" and "call_ptr c0 \<noteq> Some (wl_next w)"
  shows "wl_heap w' (wl_next w) = wl_heap w (wl_next w) \<or> wl_heap w' (wl_next w) = new_session (or_id R) (or_now R)"
  using assms(1)
proof (cases rule: call_step_kinds)
  case Move
  then show ?thesis using assms(2) by simp
qed simp_all

lemma pipe_step_state:
  assumes "pipe_step R w p g0 = Some (w', g)"
  shows "se_State (wl_heap w q) = StateStopped \<Longrightarrow> se_State (wl_heap w' q) = StateStopped"
    and "se_stopOnce (wl_heap w' q) = se_stopOnce (wl_heap w q)"
    and "se_explicitStopSeen (wl_heap w' q) = se_explicitStopSeen (wl_heap w q)"
  using assms by (cases g0; auto simp: mgr_defs split: option.splits if_splits)+

text \<open>The first \<open>Stop\<close> of a session, and what its flags say.\<close>

definition first_stop :: "world \<Rightarrow> nat \<Rightarrow> nat \<Rightarrow> bool" where
  "first_stop w p t \<longleftrightarrow> (\<exists>r. wl_calls w t = StopReturned p r \<and> \<not> sp_AlreadyStopped r)"

definition stop_inv :: "world \<Rightarrow> bool" where
  "stop_inv w \<longleftrightarrow>
     (\<forall>p. se_stopOnce (wl_heap w p) = OnceDone \<longrightarrow> se_State (wl_heap w p) = StateStopped)
     \<and> (\<forall>t p hp. wl_calls w t = StopSummary p hp \<longrightarrow> se_State (wl_heap w p) = StateStopped)
     \<and> (\<forall>t p r. wl_calls w t = StopReturned p r \<longrightarrow> se_State (wl_heap w p) = StateStopped \<and> se_explicitStopSeen (wl_heap w p))
     \<and> (\<forall>p. se_explicitStopSeen (wl_heap w p) \<longrightarrow> (\<exists>!t. first_stop w p t))
     \<and> (\<forall>p. se_stopOnce (wl_heap w p) = OnceRunning \<longrightarrow> (\<exists>t. tearing (wl_calls w t) \<and> call_ptr (wl_calls w t) = Some p))
     \<and> (\<forall>p. wl_next w \<le> p \<longrightarrow> se_stopOnce (wl_heap w p) = OnceNew \<and> \<not> se_explicitStopSeen (wl_heap w p))"

lemma stop_invD:
  assumes "stop_inv w"
  shows "se_stopOnce (wl_heap w p) = OnceDone \<Longrightarrow> se_State (wl_heap w p) = StateStopped"
    and "wl_calls w t = StopSummary p hp \<Longrightarrow> se_State (wl_heap w p) = StateStopped"
    and "wl_calls w t = StopReturned p r \<Longrightarrow> se_State (wl_heap w p) = StateStopped \<and> se_explicitStopSeen (wl_heap w p)"
    and "se_explicitStopSeen (wl_heap w p) \<Longrightarrow> \<exists>!t. first_stop w p t"
    and "se_stopOnce (wl_heap w p) = OnceRunning \<Longrightarrow> \<exists>t. tearing (wl_calls w t) \<and> call_ptr (wl_calls w t) = Some p"
    and "wl_next w \<le> p \<Longrightarrow> se_stopOnce (wl_heap w p) = OnceNew \<and> \<not> se_explicitStopSeen (wl_heap w p)"
  using assms unfolding stop_inv_def by blast+

lemma stop_inv_pipe:
  assumes "stop_inv w" and st: "pipe_step R w p (wl_pipes w p) = Some (w', g)"
  shows "stop_inv (w'\<lparr>wl_pipes := (wl_pipes w')(p := g)\<rparr>)"
  using assms(1) pipe_step_state [OF st] pipe_step_kinds(1,2) [OF st]
  unfolding stop_inv_def first_stop_def by simp

lemma stop_inv_call:
  assumes si: "stop_inv w" and pt: "ptr_inv w" and st: "call_step H R w (wl_calls w t) = Some (w', c)"
  shows "stop_inv (w'\<lparr>wl_calls := (wl_calls w')(t := c)\<rparr>)"
proof -
  let ?W = "w'\<lparr>wl_calls := (wl_calls w')(t := c)\<rparr>"
  note iv = stop_invD [OF si] and cs = call_step_state [OF st]
  have calls: "wl_calls ?W u = (if u = t then c else wl_calls w u)" for u by (simp add: call_step_frame(1) [OF st])
  have old: "q < wl_next w" if "call_ptr (wl_calls w u) = Some q" for u q using ptr_invD(2) [OF pt that] .
  have fresh: "wl_heap w' q = wl_heap w q \<or> wl_heap w' q = new_session (or_id R) (or_now R)" if "wl_next w \<le> q" for q
  proof (cases "q = wl_next w")
    case True
    with call_step_new [OF st] old [of t "wl_next w"] show ?thesis by auto
  next
    case False
    have "call_ptr (wl_calls w t) \<noteq> Some q" using old [of t q] that by auto
    with st False show ?thesis by (cases rule: call_step_kinds) simp_all
  qed
  have clean: "se_stopOnce (wl_heap w' q) = OnceNew \<and> \<not> se_explicitStopSeen (wl_heap w' q)" if "wl_next w \<le> q" for q
    using fresh [OF that] iv(6) [OF that] by auto
  have ptr: "q \<noteq> wl_next w" if "call_ptr c = Some q" "\<not> starting c" for q
    using st
  proof (cases rule: call_step_kinds)
    case Claim
    with that show ?thesis by simp
  next
    case Launch
    with that show ?thesis by simp
  next
    case Move
    with that old [of t q] ptr_invD(1) [OF pt, of q] show ?thesis by auto
  qed
  have ended: "first_stop w q v \<Longrightarrow> v \<noteq> t" for q v using st by (auto simp: first_stop_def)
  have first: "first_stop ?W q v \<longleftrightarrow> (if v = t then \<exists>r. c = StopReturned q r \<and> \<not> sp_AlreadyStopped r else first_stop w q v)" for q v
    by (simp add: first_stop_def call_step_frame(1) [OF st])
  show ?thesis unfolding stop_inv_def
  proof (intro conjI allI impI)
    fix q assume "se_stopOnce (wl_heap ?W q) = OnceDone"
    then show "se_State (wl_heap ?W q) = StateStopped"
      using cs(1,2) [of q] iv(1) [of q] clean [of q] by (cases "q = wl_next w") auto
  next
    fix u q hp assume a: "wl_calls ?W u = StopSummary q hp"
    show "se_State (wl_heap ?W q) = StateStopped"
    proof (cases "u = t")
      case True
      with a have c: "c = StopSummary q hp" by simp
      then have n: "q \<noteq> wl_next w" using ptr [of q] by simp
      from cs(3) [OF n c] show ?thesis using iv(1) [of q] cs(1) [OF n] by auto
    next
      case False
      with a have b: "wl_calls w u = StopSummary q hp" by (simp add: call_step_frame(1) [OF st])
      then have "q \<noteq> wl_next w" using old [of u q] by simp
      from cs(1) [OF this iv(2) [OF b]] show ?thesis by simp
    qed
  next
    fix u q r assume a: "wl_calls ?W u = StopReturned q r"
    have "se_State (wl_heap w' q) = StateStopped \<and> se_explicitStopSeen (wl_heap w' q)"
    proof (cases "u = t")
      case True
      with a have c: "c = StopReturned q r" by simp
      then have n: "q \<noteq> wl_next w" using ptr [of q] by simp
      from cs(4) [OF n c] obtain hp where "wl_calls w t = StopSummary q hp" "se_explicitStopSeen (wl_heap w' q)" by blast
      with cs(1) [OF n iv(2)] show ?thesis by simp
    next
      case False
      with a have b: "wl_calls w u = StopReturned q r" by (simp add: call_step_frame(1) [OF st])
      then have n: "q \<noteq> wl_next w" using old [of u q] by simp
      show ?thesis using cs(1) [OF n] cs(5) [OF n] iv(3) [OF b] by auto
    qed
    then show "se_State (wl_heap ?W q) = StateStopped" "se_explicitStopSeen (wl_heap ?W q)" by simp_all
  next
    fix q assume "se_explicitStopSeen (wl_heap ?W q)"
    then have e: "se_explicitStopSeen (wl_heap w' q)" by simp
    then have n: "q \<noteq> wl_next w" using clean [of q] by auto
    show "\<exists>!v. first_stop ?W q v"
    proof (cases "se_explicitStopSeen (wl_heap w q)")
      case True
      then obtain v where v: "first_stop w q v" "\<And>u. first_stop w q u \<Longrightarrow> u = v" using iv(4) by blast
      have "\<not> (\<exists>r. c = StopReturned q r \<and> \<not> sp_AlreadyStopped r)" using cs(4) [OF n] True by auto
      then have "first_stop ?W q u \<longleftrightarrow> first_stop w q u" for u using first [of q u] ended [of q u] by auto
      with v show ?thesis by blast
    next
      case False
      then obtain r where r: "c = StopReturned q r" using cs(5) [OF n] e by blast
      then have "\<not> sp_AlreadyStopped r" using cs(4) [OF n] False by blast
      moreover have "\<not> first_stop w q v" for v using iv(3) [of v q] False by (auto simp: first_stop_def)
      ultimately have "first_stop ?W q v \<longleftrightarrow> v = t" for v using first [of q v] r by auto
      then show ?thesis by (intro ex1I [of _ t]) simp_all
    qed
  next
    fix q assume "se_stopOnce (wl_heap ?W q) = OnceRunning"
    then have r: "se_stopOnce (wl_heap w' q) = OnceRunning" by simp
    then have n: "q \<noteq> wl_next w" using clean [of q] by auto
    from cs(6) [OF n r] show "\<exists>u. tearing (wl_calls ?W u) \<and> call_ptr (wl_calls ?W u) = Some q"
    proof
      assume "tearing c \<and> call_ptr c = Some q"
      then show ?thesis by (intro exI [of _ t]) simp
    next
      assume a: "se_stopOnce (wl_heap w q) = OnceRunning \<and>
        (tearing (wl_calls w t) \<and> call_ptr (wl_calls w t) = Some q \<longrightarrow> tearing c \<and> call_ptr c = Some q)"
      then obtain u where "tearing (wl_calls w u) \<and> call_ptr (wl_calls w u) = Some q" using iv(5) by blast
      with a show ?thesis by (intro exI [of _ u]) (auto simp: call_step_frame(1) [OF st])
    qed
  next
    fix q assume "wl_next ?W \<le> q"
    moreover have "wl_next w \<le> wl_next w'" using st by (cases rule: call_step_kinds) simp_all
    ultimately show "se_stopOnce (wl_heap ?W q) = OnceNew" "\<not> se_explicitStopSeen (wl_heap ?W q)" using clean [of q] by auto
  qed
qed

lemma stop_inv_run:
  assumes "mgr_run H w0 ls w" and "w0 = NewManager"
  shows "stop_inv w \<and> ptr_inv w"
  using assms
proof (induction rule: mgr_run.induct)
  case (Refl w)
  then show ?case by (simp add: stop_inv_def ptr_inv_def)
next
  case (Snoc w0 ls w' l w'')
  then have iv: "stop_inv w'" "ptr_inv w'" by simp_all
  from Snoc.hyps(2) show ?case
  proof cases
    case (Call R t w1 c)
    with iv show ?thesis by (simp add: ptr_inv_call stop_inv_call)
  next
    case (Pipe R p w1 g)
    with iv show ?thesis by (simp add: ptr_inv_pipe stop_inv_pipe)
  next
    case Root
    with iv show ?thesis by (simp add: ptr_inv_def stop_inv_def first_stop_def)
  qed
qed

text \<open>C10: \<open>Stop\<close> is idempotent: however many \<open>Stop\<close> calls race, and whether or not the pipeline ended on its own
  before, as soon as one of them has returned for a session exactly one of those that have returned for it
  says that the session was not already stopped, and the session's state is and reads stopped.\<close>

theorem stop_reports_once:
  assumes "mgr_run H NewManager ls w" and "wl_calls w t = StopReturned p r"
  shows "(\<exists>!u. \<exists>s. wl_calls w u = StopReturned p s \<and> \<not> sp_AlreadyStopped s)
    \<and> State_String (se_State (wl_heap w p)) = ''stopped''"
proof -
  have iv: "stop_inv w" using stop_inv_run [OF assms(1) refl] by simp
  note s = stop_invD(3) [OF iv assms(2)]
  show ?thesis using stop_invD(4) [OF iv conjunct2 [OF s]] conjunct1 [OF s]
    by (simp add: first_stop_def State_String_def)
qed

text \<open>Two stops race on the session of \<open>demo_world\<close> while its pipeline hangs.\<close>

definition stop_acts :: "(actor \<times> env_choice) list" where
  "stop_acts = (let R = demo_choice\<lparr>or_op := OpStop ''sess_1'', or_timeout := True\<rparr>
     in replicate 5 (ByCall 0, demo_choice)
        @ [(ByCall 2, R), (ByCall 3, R), (ByCall 2, R), (ByCall 2, R), (ByCall 2, R), (ByCall 2, R), (ByCall 3, R), (ByCall 3, R), (ByCall 2, R)])"

definition stopped_world :: world where "stopped_world = the (exec demo_path NewManager stop_acts)"

lemma stopped_run: "mgr_run demo_path NewManager (map fst stop_acts) stopped_world"
proof -
  have "exec demo_path NewManager stop_acts \<noteq> None" by code_simp
  then show ?thesis using exec_run [OF _ mgr_run.Refl, of demo_path NewManager stop_acts] by (auto simp: stopped_world_def)
qed

definition already_stopped :: "call \<Rightarrow> bool option" where
  "already_stopped c = (case c of StopReturned _ r \<Rightarrow> Some (sp_AlreadyStopped r) | _ \<Rightarrow> None)"

theorem stop_reports_once_witness:
  "already_stopped (wl_calls stopped_world 3) = Some False \<and> already_stopped (wl_calls stopped_world 2) = Some True
   \<and> (\<exists>!u. \<exists>s. wl_calls stopped_world u = StopReturned 0 s \<and> \<not> sp_AlreadyStopped s)"
proof -
  have a: "already_stopped (wl_calls stopped_world 3) = Some False" "already_stopped (wl_calls stopped_world 2) = Some True"
    "call_ptr (wl_calls stopped_world 3) = Some 0" by code_simp+
  then obtain r where "wl_calls stopped_world 3 = StopReturned 0 r" by (auto simp: already_stopped_def split: call.splits)
  with stop_reports_once [OF stopped_run this] a show ?thesis by simp
qed

section \<open>What \<open>Status\<close> shows\<close>

text \<open>C40: \<open>Status\<close> never shows an unknown state: in every reachable state of the manager the session it reports is
  either capturing, or stopped, and then the report does not depend on the clock.\<close>

theorem Status_state:
  assumes "mgr_run H NewManager ls w" and "Status now g fs sid w = Inr st"
  shows "st_State st = ''capturing'' \<or> st_State st = ''stopped'' \<and> Status now' g fs sid w = Inr st"
proof -
  obtain p where p: "wl_slot w = Some p" using assms(2) by (auto simp: Status_def split: option.splits)
  have "cap_inv w" using mgr_invs_run [OF assms(1) refl] by simp
  from cap_invD(1) [OF this, of p] show ?thesis
    using assms(2) by (auto simp: Status_def p Let_def State_String_def split: if_splits)
qed

theorem Status_state_witness:
  "\<exists>st. Status 9 False [] ''sess_1'' stopped_world = Inr st \<and> st_State st = ''stopped'' \<and> Status 77 False [] ''sess_1'' stopped_world = Inr st"
proof -
  have s: "wl_slot stopped_world = Some 0" "se_ID (wl_heap stopped_world 0) = ''sess_1''" "se_State (wl_heap stopped_world 0) = StateStopped"
    by code_simp+
  then obtain st where st: "Status 9 False [] ''sess_1'' stopped_world = Inr st" "st_State st = ''stopped''"
    by (simp add: Status_def Let_def State_String_def)
  with Status_state [OF stopped_run st(1), of 77] show ?thesis by simp
qed

section \<open>Every call returns\<close>

fun returned :: "call \<Rightarrow> bool" where
  "returned (StartReturned _) = True"
| "returned (StopUnknown _) = True"
| "returned (StopReturned _ _) = True"
| "returned (ShutLeft _) = True"
| "returned ShutDone = True"
| "returned _ = False"

text \<open>The steps a call has left.\<close>

fun call_left :: "call \<Rightarrow> nat" where
  "call_left Idle = 7"
| "call_left (StartMkdir _ _) = 6"
| "call_left (StartSetup _ _ _) = 5"
| "call_left (StartFinalize _ _ _ _) = 4"
| "call_left (StartAbort _ _) = 3"
| "call_left (StartLaunch _ _) = 3"
| "call_left (StartFail _ _) = 2"
| "call_left (StartRelease _ _) = 1"
| "call_left (StartReturned _) = 0"
| "call_left (StopOnce _ _) = 5"
| "call_left (StopCancel _ _) = 4"
| "call_left (StopWait _ _) = 3"
| "call_left (StopMark _ _) = 2"
| "call_left (StopSummary _ _) = 1"
| "call_left (StopUnknown _) = 0"
| "call_left (StopReturned _ _) = 0"
| "call_left (ShutCancel _ _) = 4"
| "call_left (ShutWait _ _) = 3"
| "call_left (ShutRemove _) = 2"
| "call_left (ShutLeft _) = 1"
| "call_left ShutDone = 0"

lemma call_step_left: "call_step H R w c0 = Some (w', c) \<Longrightarrow> call_left c < call_left c0"
  by (cases c0; auto simp: mgr_defs split: mgr_splits)

lemma steps_of_call:
  assumes "mgr_run H w ls w'"
  shows "length (filter (\<lambda>l. l = ByCall t) ls) + call_left (wl_calls w' t) \<le> call_left (wl_calls w t)"
  using assms
proof (induction rule: mgr_run.induct)
  case (Snoc w ls w1 l w2)
  from Snoc.hyps(2) have "(if l = ByCall t then 1 else 0) + call_left (wl_calls w2 t) \<le> call_left (wl_calls w1 t)"
  proof cases
    case (Call R u w' c)
    then show ?thesis using call_step_left [OF Call(3)] by (auto simp: call_step_frame(1) [OF Call(3)])
  next
    case (Pipe R p w' g)
    then show ?thesis by (simp add: pipe_step_kinds(1) [OF Pipe(3)])
  qed simp
  with Snoc.IH show ?case by (auto split: if_splits)
qed simp

text \<open>
  The outside world may answer the same, \<open>R\<close>, from some moment on.  A temporary directory it makes
  has a name that is not in use.
\<close>

definition new_dir :: "env_choice \<Rightarrow> world \<Rightarrow> bool" where
  "new_dir R w \<longleftrightarrow> (case or_tmp R of None \<Rightarrow> True | Some d \<Rightarrow> d \<noteq> [] \<and> d \<notin> set (wl_dirs w) \<union> set (wl_revived w))"

lemma call_step_through:
  assumes "or_timeout R" and "\<not> returned c0" and "c0 \<noteq> Idle"
    and "\<And>p hp. c0 = StopOnce p hp \<Longrightarrow> se_stopOnce (wl_heap w p) \<noteq> OnceRunning" and "\<And>p d. c0 = StartMkdir p d \<Longrightarrow> new_dir R w"
  shows "\<exists>w' c. call_step H R w c0 = Some (w', c) \<and> c \<noteq> Idle \<and> (\<forall>p hp. c \<noteq> StopOnce p hp) \<and> (\<forall>p d. c \<noteq> StartMkdir p d)"
  using assms
  by (cases c0; auto simp: mgr_defs new_dir_def split: mgr_splits)

lemma exec_append: "exec H w (as @ bs) = Option.bind (exec H w as) (\<lambda>w'. exec H w' bs)"
  by (induction H w as rule: exec.induct) (auto split: option.splits)

abbreviation calls :: "env_choice \<Rightarrow> nat list \<Rightarrow> (actor \<times> env_choice) list" where
  "calls R ts \<equiv> map (\<lambda>u. (ByCall u, R)) ts"

lemma drive:
  assumes "or_timeout R" and "call_left (wl_calls w t) \<le> n" and "wl_calls w t \<noteq> Idle"
    and "\<And>p hp. wl_calls w t = StopOnce p hp \<Longrightarrow> se_stopOnce (wl_heap w p) \<noteq> OnceRunning"
    and "\<And>p d. wl_calls w t = StartMkdir p d \<Longrightarrow> new_dir R w"
  shows "\<exists>ts w'. exec H w (calls R ts) = Some w' \<and> returned (wl_calls w' t) \<and> length ts \<le> n"
  using assms(2-)
proof (induction n arbitrary: w)
  case 0
  then have "returned (wl_calls w t)" by (cases "wl_calls w t") auto
  then show ?case by (intro exI [of _ "[]"]) simp
next
  case (Suc n)
  show ?case
  proof (cases "returned (wl_calls w t)")
    case True
    then show ?thesis by (intro exI [of _ "[]"]) simp
  next
    case False
    then obtain w1 c where st: "call_step H R w (wl_calls w t) = Some (w1, c)" "c \<noteq> Idle"
      "\<forall>p hp. c \<noteq> StopOnce p hp" "\<forall>p d. c \<noteq> StartMkdir p d"
      using call_step_through [of R "wl_calls w t" w H] assms(1) Suc.prems by blast
    let ?w = "w1\<lparr>wl_calls := (wl_calls w1)(t := c)\<rparr>"
    have "call_left (wl_calls ?w t) \<le> n" using call_step_left [OF st(1)] Suc.prems(1) by simp
    from Suc.IH [OF this] st(2-4) obtain ts w' where
      "exec H ?w (calls R ts) = Some w'" "returned (wl_calls w' t)" "length ts \<le> n" by auto
    with st(1) show ?thesis by (intro exI [of _ "t # ts"] exI [of _ w']) simp
  qed
qed

lemma call_step_tear:
  assumes "or_timeout R" and "tearing c0" and "call_ptr c0 = Some p"
  shows "\<exists>w' c. call_step H R w c0 = Some (w', c)
    \<and> (se_stopOnce (wl_heap w' p) = OnceDone \<or> tearing c \<and> call_ptr c = Some p)"
  using assms by (cases c0; auto simp: mgr_defs)

lemma tear_down:
  assumes "or_timeout R" and "call_left (wl_calls w u) \<le> n" and "tearing (wl_calls w u)" and "call_ptr (wl_calls w u) = Some p"
  shows "\<exists>ts w'. exec H w (calls R ts) = Some w' \<and> se_stopOnce (wl_heap w' p) = OnceDone \<and> length ts \<le> n
    \<and> (\<forall>v. v \<noteq> u \<longrightarrow> wl_calls w' v = wl_calls w v)"
  using assms(2-)
proof (induction n arbitrary: w)
  case 0
  then show ?case by (cases "wl_calls w u") auto
next
  case (Suc n)
  from call_step_tear [OF assms(1) Suc.prems(2,3)] obtain w1 c where st: "call_step H R w (wl_calls w u) = Some (w1, c)"
    and c: "se_stopOnce (wl_heap w1 p) = OnceDone \<or> tearing c \<and> call_ptr c = Some p" by blast
  let ?w = "w1\<lparr>wl_calls := (wl_calls w1)(u := c)\<rparr>"
  note fr = call_step_frame(1) [OF st]
  from c show ?case
  proof
    assume "se_stopOnce (wl_heap w1 p) = OnceDone"
    with st show ?thesis by (intro exI [of _ "[u]"] exI [of _ ?w]) (auto simp: fr)
  next
    assume "tearing c \<and> call_ptr c = Some p"
    with Suc.IH [of ?w] call_step_left [OF st] Suc.prems(1) obtain ts w' where
      r: "exec H ?w (calls R ts) = Some w'" "se_stopOnce (wl_heap w' p) = OnceDone" "length ts \<le> n"
        "\<forall>v. v \<noteq> u \<longrightarrow> wl_calls w' v = wl_calls ?w v" by auto
    with st show ?thesis by (intro exI [of _ "u # ts"] exI [of _ w']) (auto simp: fr)
  qed
qed

text \<open>C9: Every call returns, and neither a hung pipeline nor a hung removal of \<open>Shutdown\<close> can prevent it.  In every
  run a call takes at most seven steps of its own.  And from every reachable state, if from then on the deadlines
  of the bounded waits and of the removal of \<open>Shutdown\<close> pass, whatever else the outside world answers (a removal
  that hangs, any outcome of the set-up, a temporary directory of a new name or none), at most nine steps of calls
  alone, in which no pipeline goroutine moves, bring a call that has begun to its return, even if it is a \<open>Stop\<close>
  that is blocked behind another one.  The model takes for granted that what \<open>Start\<close> itself calls returns
  (\<open>resolveSetup\<close>, which can hang loading a kubeconfig, and its own removals), and that a goroutine that can
  move is scheduled.\<close>

theorem calls_return:
  assumes "mgr_run H NewManager ls w" and "wl_calls w t \<noteq> Idle" and "or_timeout R" and "new_dir R w"
  shows "length (filter (\<lambda>l. l = ByCall t) ls) \<le> 7
    \<and> (\<exists>ts w'. exec H w (map (\<lambda>u. (ByCall u, R)) ts) = Some w' \<and> returned (wl_calls w' t) \<and> length ts \<le> 9)"
proof
  show "length (filter (\<lambda>l. l = ByCall t) ls) \<le> 7" using steps_of_call [OF assms(1), of t] by simp
next
  show "\<exists>ts w'. exec H w (calls R ts) = Some w' \<and> returned (wl_calls w' t) \<and> length ts \<le> 9"
  proof (cases "\<exists>p hp. wl_calls w t = StopOnce p hp \<and> se_stopOnce (wl_heap w p) = OnceRunning")
    case False
    have "call_left (wl_calls w t) \<le> 9" by (cases "wl_calls w t") simp_all
    from drive [OF assms(3) this assms(2)] False assms(4) show ?thesis by blast
  next
    case True
    then obtain p hp where t: "wl_calls w t = StopOnce p hp" "se_stopOnce (wl_heap w p) = OnceRunning" by blast
    have "stop_inv w" using stop_inv_run [OF assms(1) refl] by simp
    from stop_invD(5) [OF this t(2)] obtain u where u: "tearing (wl_calls w u)" "call_ptr (wl_calls w u) = Some p" by blast
    have "call_left (wl_calls w u) \<le> 4" using u(1) by (cases "wl_calls w u") simp_all
    from tear_down [OF assms(3) this u] obtain ts1 w1 where r: "exec H w (calls R ts1) = Some w1"
      "se_stopOnce (wl_heap w1 p) = OnceDone" "length ts1 \<le> 4" "\<forall>v. v \<noteq> u \<longrightarrow> wl_calls w1 v = wl_calls w v" by blast
    have "u \<noteq> t" using u(1) t(1) by auto
    then have t1: "wl_calls w1 t = StopOnce p hp" using r(4) t(1) by simp
    then have "call_left (wl_calls w1 t) \<le> 5" by simp
    from drive [OF assms(3) this, of H] t1 r(2) obtain ts2 w2 where
      r2: "exec H w1 (calls R ts2) = Some w2" "returned (wl_calls w2 t)" "length ts2 \<le> 5" by auto
    have "exec H w (calls R (ts1 @ ts2)) = Some w2" using r(1) r2(1) by (simp add: exec_append)
    with r r2 show ?thesis by (intro exI [of _ "ts1 @ ts2"] exI [of _ w2]) auto
  qed
qed

text \<open>A \<open>Stop\<close> blocked behind another one, the pipeline of their session running and removals hanging.\<close>

definition blocked_world :: world where "blocked_world = the (exec demo_path NewManager (take 8 stop_acts))"

theorem calls_return_witness:
  "\<exists>ts w'. exec demo_path blocked_world (map (\<lambda>u. (ByCall u, demo_choice\<lparr>or_timeout := True, or_hang := True, or_tmp := None\<rparr>)) ts) = Some w'
     \<and> returned (wl_calls w' 3)"
proof -
  have "exec demo_path NewManager (take 8 stop_acts) \<noteq> None" by code_simp
  then have r: "mgr_run demo_path NewManager (map fst (take 8 stop_acts)) blocked_world"
    using exec_run [OF _ mgr_run.Refl, of demo_path NewManager "take 8 stop_acts"] by (auto simp: blocked_world_def)
  have "call_left (wl_calls blocked_world 3) = 5" by code_simp
  then have "wl_calls blocked_world 3 \<noteq> Idle" by auto
  from calls_return [OF r this, of "demo_choice\<lparr>or_timeout := True, or_hang := True, or_tmp := None\<rparr>"]
  show ?thesis by (auto simp: new_dir_def)
qed

end
