(* ===== verification/SessionLate.thy ===== *)
theory SessionLate
  imports SessionDirs
begin

text \<open>
  The bounded waits of \<open>Stop\<close> and \<open>Shutdown\<close>: which pipelines can still run, and write, when the directory of
  their session has been removed, and what is then left on disk.
\<close>

section \<open>Pipelines that outlive the wait\<close>

text \<open>
  A pipeline runs, or will, without its session being in the slot and capturing only if a \<open>Shutdown\<close>
  is waiting for it or the wait for it has ended by the deadline.
\<close>

definition launchable :: "world \<Rightarrow> nat \<Rightarrow> bool" where
  "launchable w p \<longleftrightarrow> wl_pipes w p = PipeRunning \<or> (\<exists>t r. wl_calls w t = StartLaunch p r)"

definition awaited :: "world \<Rightarrow> nat \<Rightarrow> bool" where
  "awaited w p \<longleftrightarrow> (\<exists>t. wl_calls w t = ShutCancel p (se_TmpDir (wl_heap w p)) \<or> wl_calls w t = ShutWait p (se_TmpDir (wl_heap w p)))"

definition late_inv :: "world \<Rightarrow> bool" where
  "late_inv w \<longleftrightarrow>
     (\<forall>p. se_done (wl_heap w p) \<noteq> None \<longrightarrow> wl_pipes w p = PipeEnded)
     \<and> (\<forall>p. se_State (wl_heap w p) = StateStopped \<longrightarrow> p \<in> set (wl_late w) \<or> past_mark (wl_pipes w p))
     \<and> (\<forall>t p hp. wl_calls w t = StopMark p hp \<longrightarrow> p \<in> set (wl_late w) \<or> wl_pipes w p = PipeEnded)
     \<and> (\<forall>p. launchable w p \<longrightarrow> p \<in> set (wl_late w) \<or> wl_slot w = Some p \<and> se_State (wl_heap w p) \<noteq> StateStopped \<or> awaited w p)
     \<and> (\<forall>d \<in> set (wl_revived w). \<exists>p \<in> set (wl_late w). se_TmpDir (wl_heap w p) = d \<and> wl_pipes w p \<noteq> PipeNone)"

lemma late_invD:
  assumes "late_inv w"
  shows "se_done (wl_heap w p) \<noteq> None \<Longrightarrow> wl_pipes w p = PipeEnded"
    and "se_State (wl_heap w p) = StateStopped \<Longrightarrow> p \<in> set (wl_late w) \<or> past_mark (wl_pipes w p)"
    and "wl_calls w t = StopMark p hp \<Longrightarrow> p \<in> set (wl_late w) \<or> wl_pipes w p = PipeEnded"
    and "launchable w p \<Longrightarrow> p \<in> set (wl_late w) \<or> wl_slot w = Some p \<and> se_State (wl_heap w p) \<noteq> StateStopped \<or> awaited w p"
    and "d \<in> set (wl_revived w) \<Longrightarrow> \<exists>p \<in> set (wl_late w). se_TmpDir (wl_heap w p) = d \<and> wl_pipes w p \<noteq> PipeNone"
  using assms unfolding late_inv_def by blast+

lemma call_step_late:
  assumes "call_step H R w c0 = Some (w', c)"
  shows "set (wl_late w) \<subseteq> set (wl_late w')" and "set (wl_revived w') \<subseteq> set (wl_revived w)"
    and "q \<noteq> wl_next w \<Longrightarrow> se_done (wl_heap w' q) \<noteq> None \<Longrightarrow> se_done (wl_heap w q) \<noteq> None"
    and "c = StopMark q hp \<Longrightarrow> q \<in> set (wl_late w') \<or> se_done (wl_heap w q) \<noteq> None"
    and "c0 = ShutCancel q d \<Longrightarrow> c = ShutWait q d"
    and "c0 = ShutWait q d \<Longrightarrow> q \<in> set (wl_late w') \<or> se_done (wl_heap w q) \<noteq> None"
    and "wl_slot w = Some q \<Longrightarrow> wl_slot w' \<noteq> Some q \<Longrightarrow>
      c = ShutCancel q (se_TmpDir (wl_heap w q)) \<and> wl_heap w' q = wl_heap w q \<or> se_State (wl_heap w q) \<noteq> StateCapturing \<or> (\<exists>e. c0 = StartRelease q e)"
    and "wl_pipes w' q \<noteq> wl_pipes w q \<Longrightarrow> (\<exists>r. c0 = StartLaunch q r) \<and> wl_pipes w' q = PipeRunning"
  using assms by (cases c0; auto simp: mgr_defs split: mgr_splits)+

lemma launch_ptr: "call_step H R w c0 = Some (w', c) \<Longrightarrow> c = StartLaunch q r \<Longrightarrow> call_ptr c0 = Some q"
  by (cases c0; auto simp: mgr_defs split: mgr_splits)

lemma starting_not_launchable:
  assumes "ptr_inv w" and "starting (wl_calls w t)" and "call_ptr (wl_calls w t) = Some p" and "\<And>r. wl_calls w t \<noteq> StartLaunch p r"
  shows "\<not> launchable w p"
proof
  assume "launchable w p"
  then consider "wl_pipes w p = PipeRunning" | u r where "wl_calls w u = StartLaunch p r" by (auto simp: launchable_def)
  then show False
  proof cases
    case 1
    then show False using ptr_invD(4) [OF assms(1-3)] by simp
  next
    case (2 u r)
    then have "u = t" using ptr_invD(5) [OF assms(1), of u t p] assms(2,3) by simp
    with 2 assms(4) show False by blast
  qed
qed

lemma launchable_not_ended: "ptr_inv w \<Longrightarrow> launchable w p \<Longrightarrow> wl_pipes w p \<noteq> PipeEnded"
  using ptr_invD(4) [of w _ p] unfolding launchable_def by (elim disjE exE) (simp, metis call_ptr.simps starting.simps pipe.distinct)

lemma launchable_tmp:
  assumes pt: "ptr_inv w" and st: "call_step H R w (wl_calls w t) = Some (w', c)" and l: "wl_pipes w q \<noteq> PipeNone \<or> launchable w q"
  shows "se_TmpDir (wl_heap w' q) = se_TmpDir (wl_heap w q)"
proof -
  have "wl_calls w u \<noteq> StartLaunch (wl_next w) r" for u r using ptr_invD(2) [OF pt, of u "wl_next w"] by auto
  then have n: "q \<noteq> wl_next w" using l ptr_invD(3) [OF pt, of "wl_next w"] by (auto simp: launchable_def)
  have "\<not> (\<exists>d dir su r. wl_calls w t = StartFinalize q d dir su \<and> c = StartLaunch q r)"
    using l starting_not_launchable [OF pt, of t q] ptr_invD(4) [OF pt, of t q] by fastforce
  with call_step_tmp(1) [OF st n] show ?thesis by blast
qed

lemma late_inv_call:
  assumes li: "late_inv w" and pt: "ptr_inv w" and ca: "cap_inv w" and st: "call_step H R w (wl_calls w t) = Some (w', c)"
  shows "late_inv (w'\<lparr>wl_calls := (wl_calls w')(t := c)\<rparr>)"
proof -
  let ?W = "w'\<lparr>wl_calls := (wl_calls w')(t := c)\<rparr>"
  note iv = late_invD [OF li] and cl = call_step_late [OF st] and fr = call_step_frame [OF st] and hp = call_step_heap [OF st]
  have calls: "wl_calls ?W u = (if u = t then c else wl_calls w u)" for u by (simp add: fr)
  have old: "q < wl_next w" if "call_ptr (wl_calls w u) = Some q" for u q using ptr_invD(2) [OF pt that] .
  have no_launch: "wl_calls w u \<noteq> StartLaunch (wl_next w) r" for u r using old [of u "wl_next w"] by auto
  have pipe: "wl_pipes w' q = wl_pipes w q \<or> wl_pipes w q = PipeNone \<and> wl_pipes w' q = PipeRunning" for q
    using cl(8) [of q] ptr_invD(4) [OF pt, of t q] by fastforce
  have kept: "wl_pipes w q = PipeEnded \<Longrightarrow> wl_pipes w' q = PipeEnded" "past_mark (wl_pipes w q) \<Longrightarrow> past_mark (wl_pipes w' q)" for q
    using pipe [of q] by auto
  have late: "q \<in> set (wl_late w) \<Longrightarrow> q \<in> set (wl_late w')" for q using cl(1) by blast
  have fresh: "wl_pipes w (wl_next w) = PipeNone" using ptr_invD(3) [OF pt, of "wl_next w"] by blast
  have new: "wl_heap w' (wl_next w) = wl_heap w (wl_next w) \<or> wl_heap w' (wl_next w) = new_session (or_id R) (or_now R)"
    using st
  proof (cases rule: call_step_kinds)
    case Move
    have "call_ptr (wl_calls w t) \<noteq> Some (wl_next w)" using old [of t "wl_next w"] by auto
    with Move show ?thesis by simp
  qed simp_all
  have tmp: "wl_pipes w q \<noteq> PipeNone \<or> launchable w q \<Longrightarrow> se_TmpDir (wl_heap w' q) = se_TmpDir (wl_heap w q)" for q
    using launchable_tmp [OF pt st] .
  show ?thesis unfolding late_inv_def
  proof (intro conjI allI impI ballI)
    fix q assume "se_done (wl_heap ?W q) \<noteq> None"
    then have d: "se_done (wl_heap w' q) \<noteq> None" by simp
    have "se_done (wl_heap w q) \<noteq> None"
      using cl(3) [OF _ d] new d by (cases "q = wl_next w") auto
    with iv(1) kept(1) [of q] show "wl_pipes ?W q = PipeEnded" by simp
  next
    fix q assume "se_State (wl_heap ?W q) = StateStopped"
    then have s: "se_State (wl_heap w' q) = StateStopped" by simp
    show "q \<in> set (wl_late ?W) \<or> past_mark (wl_pipes ?W q)"
    proof (cases "se_State (wl_heap w q) = StateStopped")
      case True
      with iv(2) [of q] late [of q] kept(2) [of q] show ?thesis by auto
    next
      case False
      have "q \<noteq> wl_next w" using new s False by auto
      with hp(2) [of q] s False obtain h where "wl_calls w t = StopMark q h" by auto
      from iv(3) [OF this] late [of q] kept(1) [of q] show ?thesis by auto
    qed
  next
    fix u q h assume a: "wl_calls ?W u = StopMark q h"
    show "q \<in> set (wl_late ?W) \<or> wl_pipes ?W q = PipeEnded"
    proof (cases "u = t")
      case True
      with a cl(4) [of q h] iv(1) [of q] kept(1) [of q] show ?thesis by auto
    next
      case False
      with a iv(3) [of u q h] late [of q] kept(1) [of q] show ?thesis by (auto simp: fr)
    qed
  next
    fix q assume l: "launchable ?W q"
    show "q \<in> set (wl_late ?W) \<or> wl_slot ?W = Some q \<and> se_State (wl_heap ?W q) \<noteq> StateStopped \<or> awaited ?W q"
    proof (cases "launchable w q")
      case True
      then have n: "q \<noteq> wl_next w" using fresh no_launch by (auto simp: launchable_def)
      have run: "wl_pipes w q \<noteq> PipeEnded" using launchable_not_ended [OF pt True] .
      from iv(4) [OF True] show ?thesis
      proof (elim disjE conjE)
        assume "q \<in> set (wl_late w)"
        with late [of q] show ?thesis by simp
      next
        assume sl: "wl_slot w = Some q" and ns: "se_State (wl_heap w q) \<noteq> StateStopped"
        then have cap: "se_State (wl_heap w q) = StateCapturing" using cap_invD(1) [OF ca, of q] by blast
        show ?thesis
        proof (cases "wl_slot w' = Some q")
          case True
          have "q \<in> set (wl_late w)" if "wl_calls w t = StopMark q h" for h using iv(3) [OF that] run by blast
          with hp(2) [OF n] ns True late [of q] show ?thesis by auto
        next
          case False
          have "wl_calls w t \<noteq> StartRelease q e" for e
            using starting_not_launchable [OF pt, of t q] \<open>launchable w q\<close> by auto
          with cl(7) [OF sl False] cap have "c = ShutCancel q (se_TmpDir (wl_heap w q)) \<and> wl_heap w' q = wl_heap w q" by blast
          then have "awaited ?W q" unfolding awaited_def by (intro exI [of _ t]) simp
          then show ?thesis by blast
        qed
      next
        assume "awaited w q"
        then obtain u where u: "wl_calls w u = ShutCancel q (se_TmpDir (wl_heap w q)) \<or> wl_calls w u = ShutWait q (se_TmpDir (wl_heap w q))"
          by (auto simp: awaited_def)
        have same: "se_TmpDir (wl_heap w' q) = se_TmpDir (wl_heap w q)" using tmp [of q] True by blast
        show ?thesis
        proof (cases "u = t \<and> wl_calls w t \<noteq> ShutCancel q (se_TmpDir (wl_heap w q))")
          case True
          with u have "wl_calls w t = ShutWait q (se_TmpDir (wl_heap w q))" by blast
          from cl(6) [OF this] iv(1) [of q] run show ?thesis by auto
        next
          case False
          with u cl(5) [of q "se_TmpDir (wl_heap w q)"] same have "awaited ?W q"
            unfolding awaited_def by (intro exI [of _ u]) (auto simp: fr)
          then show ?thesis by blast
        qed
      qed
    next
      case False
      have "\<exists>r. c = StartLaunch q r"
        using False l cl(8) [of q] by (auto simp: launchable_def fr split: if_splits)
      then obtain r where c: "c = StartLaunch q r" ..
      have "call_ptr (wl_calls w t) \<noteq> Some (wl_next w)" using old [of t "wl_next w"] by auto
      moreover from st have "call_ptr (wl_calls w t) = Some q" by (rule launch_ptr) (use c in simp_all)
      ultimately have n: "q \<noteq> wl_next w" by auto
      from hp(4) [OF n c] have h: "wl_slot w' = Some q" "starting (wl_calls w t)" "call_ptr (wl_calls w t) = Some q" by simp_all
      have "wl_pipes w q = PipeNone" using ptr_invD(4) [OF pt h(2,3)] .
      moreover have "wl_calls w t \<noteq> StopMark q hh" for hh using h(2) by auto
      ultimately have "se_State (wl_heap w' q) = StateStopped \<longrightarrow> q \<in> set (wl_late w)"
        using hp(2) [OF n] iv(2) [of q] by auto
      with h(1) late [of q] show ?thesis by auto
    qed
  next
    fix d assume "d \<in> set (wl_revived ?W)"
    then have "d \<in> set (wl_revived w)" using cl(2) by auto
    from iv(5) [OF this] obtain q where q: "q \<in> set (wl_late w)" "se_TmpDir (wl_heap w q) = d" "wl_pipes w q \<noteq> PipeNone" by blast
    then have "wl_pipes w' q \<noteq> PipeNone" using pipe [of q] by auto
    with q late [of q] tmp [of q] show "\<exists>p \<in> set (wl_late ?W). se_TmpDir (wl_heap ?W p) = d \<and> wl_pipes ?W p \<noteq> PipeNone" by auto
  qed
qed

lemma pipe_step_late:
  assumes "pipe_step R w p g0 = Some (w', g)"
  shows "wl_late w' = wl_late w" and "g0 \<noteq> PipeEnded"
    and "se_done (wl_heap w' q) \<noteq> None \<Longrightarrow> se_done (wl_heap w q) \<noteq> None \<or> q = p \<and> g = PipeEnded"
    and "d \<in> set (wl_revived w') \<Longrightarrow> d \<in> set (wl_revived w) \<or> g0 = PipeRunning \<and> d = se_TmpDir (wl_heap w p) \<and> d \<notin> set (wl_dirs w)"
  using assms by (cases g0; auto simp: mgr_defs Let_def split: option.splits if_splits)+

text \<open>A pipeline has the name of its session's directory, and no call of \<open>Start\<close> has an empty one.\<close>

fun holds_name :: "call \<Rightarrow> bool" where
  "holds_name (StartSetup p d dir) \<longleftrightarrow> dir \<noteq> []"
| "holds_name (StartFinalize p d dir su) \<longleftrightarrow> dir \<noteq> []"
| "holds_name c \<longleftrightarrow> True"

definition named_inv :: "world \<Rightarrow> bool" where
  "named_inv w \<longleftrightarrow> (\<forall>t. holds_name (wl_calls w t)) \<and> (\<forall>p. launchable w p \<longrightarrow> se_TmpDir (wl_heap w p) \<noteq> [])"

lemma call_step_named:
  assumes "call_step H R w c0 = Some (w', c)" and "holds_name c0"
  shows "holds_name c" and "c = StartLaunch q r \<Longrightarrow> se_TmpDir (wl_heap w' q) \<noteq> []"
  using assms by (cases c0; auto simp: mgr_defs split: mgr_splits)+

lemma named_inv_call:
  assumes "named_inv w" and pt: "ptr_inv w" and st: "call_step H R w (wl_calls w t) = Some (w', c)"
  shows "named_inv (w'\<lparr>wl_calls := (wl_calls w')(t := c)\<rparr>)"
proof -
  let ?W = "w'\<lparr>wl_calls := (wl_calls w')(t := c)\<rparr>"
  have h: "holds_name (wl_calls w u)" and l: "launchable w q \<Longrightarrow> se_TmpDir (wl_heap w q) \<noteq> []" for u q
    using assms(1) by (simp_all add: named_inv_def)
  note fr = call_step_frame [OF st] and nm = call_step_named [OF st h]
  have "se_TmpDir (wl_heap w' q) \<noteq> []" if q: "launchable ?W q" for q
  proof (cases "launchable w q")
    case True
    with l [of q] launchable_tmp [OF pt st, of q] show ?thesis by simp
  next
    case False
    then have "\<exists>r. c = StartLaunch q r"
      using q call_step_late(8) [OF st, of q] by (auto simp: launchable_def fr split: if_splits)
    with nm(2) show ?thesis by blast
  qed
  with h nm(1) show ?thesis by (simp add: named_inv_def fr)
qed

lemma launchable_pipe:
  assumes "pipe_step R w p (wl_pipes w p) = Some (w', g)" and "launchable (w'\<lparr>wl_pipes := (wl_pipes w')(p := g)\<rparr>) q"
  shows "launchable w q"
  using assms(2) pipe_step_heap(4) [OF assms(1)] pipe_step_kinds [OF assms(1)] by (auto simp: launchable_def split: if_splits)

lemma named_inv_pipe:
  assumes "named_inv w" and st: "pipe_step R w p (wl_pipes w p) = Some (w', g)"
  shows "named_inv (w'\<lparr>wl_pipes := (wl_pipes w')(p := g)\<rparr>)"
  using assms(1) launchable_pipe [OF st] pipe_step_tmp [OF st] by (simp add: named_inv_def pipe_step_kinds [OF st])

lemma late_inv_pipe:
  assumes li: "late_inv w" and pt: "ptr_inv w" and nm: "named_inv w" and di: "dir_inv w"
    and st: "pipe_step R w p (wl_pipes w p) = Some (w', g)"
  shows "late_inv (w'\<lparr>wl_pipes := (wl_pipes w')(p := g)\<rparr>)"
proof -
  let ?W = "w'\<lparr>wl_pipes := (wl_pipes w')(p := g)\<rparr>"
  note iv = late_invD [OF li] and pl = pipe_step_late [OF st] and k = pipe_step_kinds [OF st] and h = pipe_step_heap [OF st]
    and tmp = pipe_step_tmp [OF st]
  have own: "d \<in> set (wl_dirs w)" if "owner w i = d" "d \<noteq> []" for i d
    using di that by (auto simp: dir_inv_def owned_def live_dirs_def)
  show ?thesis unfolding late_inv_def
  proof (intro conjI allI impI ballI)
    fix q assume "se_done (wl_heap ?W q) \<noteq> None"
    with pl(2,3) iv(1) [of q] k(4) show "wl_pipes ?W q = PipeEnded" by auto
  next
    fix q assume "se_State (wl_heap ?W q) = StateStopped"
    then have s: "se_State (wl_heap w' q) = StateStopped" by simp
    have "q \<in> set (wl_late w) \<or> past_mark (wl_pipes w q) \<or> q = p \<and> past_mark g" using h(2) [of q] s iv(2) [of q] by auto
    with h(3) k(4) pl(1) show "q \<in> set (wl_late ?W) \<or> past_mark (wl_pipes ?W q)" by auto
  next
    fix t q hp assume "wl_calls ?W t = StopMark q hp"
    with iv(3) [of t q hp] pl(1,2) k(1,4) show "q \<in> set (wl_late ?W) \<or> wl_pipes ?W q = PipeEnded" by auto
  next
    fix q assume l: "launchable ?W q"
    have old: "launchable w q" using launchable_pipe [OF st l] .
    have no: "wl_calls w t \<noteq> StartLaunch p r" for t r using ptr_invD(4) [OF pt, of t p] k(9) by auto
    have "\<not> past_mark g" if "q = p" using l no that by (auto simp: launchable_def k(1))
    then have "se_State (wl_heap w' q) = se_State (wl_heap w q)" using h(2) [of q] by blast
    with iv(4) [OF old] show "q \<in> set (wl_late ?W) \<or> wl_slot ?W = Some q \<and> se_State (wl_heap ?W q) \<noteq> StateStopped \<or> awaited ?W q"
      by (simp add: awaited_def pl(1) k tmp)
  next
    fix d assume "d \<in> set (wl_revived ?W)"
    then have "d \<in> set (wl_revived w) \<or> wl_pipes w p = PipeRunning \<and> d = se_TmpDir (wl_heap w p) \<and> d \<notin> set (wl_dirs w)"
      using pl(4) by simp
    then show "\<exists>q \<in> set (wl_late ?W). se_TmpDir (wl_heap ?W q) = d \<and> wl_pipes ?W q \<noteq> PipeNone"
    proof (elim disjE conjE)
      assume "d \<in> set (wl_revived w)"
      from iv(5) [OF this] obtain q where "q \<in> set (wl_late w)" "se_TmpDir (wl_heap w q) = d" "wl_pipes w q \<noteq> PipeNone" by blast
      with k(4,10) pl(1) tmp show ?thesis by (intro bexI [of _ q]) auto
    next
      assume r: "wl_pipes w p = PipeRunning" and d: "d = se_TmpDir (wl_heap w p)" "d \<notin> set (wl_dirs w)"
      then have la: "launchable w p" by (simp add: launchable_def)
      then have ne: "d \<noteq> []" using nm d(1) by (simp add: named_inv_def)
      have "wl_slot w \<noteq> Some p" using own [of None d] d ne by (auto simp: owner_def slot_dir_def)
      moreover have "\<not> awaited w p"
      proof
        assume "awaited w p"
        then obtain t where "wl_calls w t = ShutCancel p d \<or> wl_calls w t = ShutWait p d" using d(1) by (auto simp: awaited_def)
        then have "call_dir (wl_calls w t) = d" by auto
        with own [of "Some t" d] ne d(2) show False by (simp add: owner_def)
      qed
      ultimately have "p \<in> set (wl_late w)" using iv(4) [OF la] by blast
      with d(1) tmp k(4,10) pl(1) show ?thesis by auto
    qed
  qed
qed

lemma late_inv_run:
  assumes "mgr_run H w0 ls w" and "w0 = NewManager"
  shows "late_inv w \<and> named_inv w"
  using assms
proof (induction rule: mgr_run.induct)
  case (Refl w)
  then show ?case by (simp add: late_inv_def named_inv_def launchable_def awaited_def)
next
  case (Snoc w0 ls w' l w'')
  then have iv: "late_inv w'" "named_inv w'" by simp_all
  have di: "dir_inv w'" and pt: "ptr_inv w'" and ca: "cap_inv w'"
    using dir_inv_run [OF Snoc.hyps(1) Snoc.prems] mgr_invs_run [OF Snoc.hyps(1) Snoc.prems] by simp_all
  from Snoc.hyps(2) show ?case
  proof cases
    case (Call R t w1 c)
    then show ?thesis using late_inv_call [OF iv(1) pt ca Call(3)] named_inv_call [OF iv(2) pt Call(3)] by simp
  next
    case (Pipe R p w1 g)
    then show ?thesis using late_inv_pipe [OF iv(1) pt iv(2) di Pipe(3)] named_inv_pipe [OF iv(2) Pipe(3)] by simp
  next
    case Root
    with iv show ?thesis by (simp add: late_inv_def named_inv_def launchable_def awaited_def)
  qed
qed

section \<open>What is on disk\<close>

text \<open>C8: No directory is lost and none is taken away too early: in every reachable state the directories
  that \<open>Start\<close> made and nobody has removed, apart from those whose removal failed, are exactly the
  directory of the session in the slot and those held by calls still at work, and no two of them hold the
  same one.  So a retained session keeps its directory until the next start or the shutdown, and an
  aborted start and a start that lost the race with a shutdown leave nothing behind.  A directory on disk
  that nobody owns, being made again after its removal, is the directory of a session whose bounded wait
  in \<open>Stop\<close> or \<open>Shutdown\<close> ended by its deadline: only a pipeline that was still running then can write
  into it.  So when the slot is empty, no call holds a directory and no wait ended by its deadline, all
  that is left are the failed removals.\<close>

theorem directories_owned:
  assumes "mgr_run H NewManager ls w"
  shows "set (wl_dirs w) - set (wl_unremoved w) = insert (slot_dir w) (range (\<lambda>t. call_dir (wl_calls w t))) - {[]}
    \<and> (\<forall>t. call_dir (wl_calls w t) = slot_dir w \<longrightarrow> slot_dir w = [])
    \<and> (\<forall>t u. call_dir (wl_calls w t) = call_dir (wl_calls w u) \<longrightarrow> call_dir (wl_calls w t) = [] \<or> t = u)
    \<and> set (wl_revived w) \<subseteq> (\<lambda>p. se_TmpDir (wl_heap w p)) ` set (wl_late w)
    \<and> (wl_slot w = None \<and> (\<forall>t. call_dir (wl_calls w t) = []) \<and> wl_late w = [] \<longrightarrow>
         set (wl_dirs w) \<union> set (wl_revived w) = set (wl_unremoved w))"
proof -
  have "dir_inv w" using dir_inv_run [OF assms refl] by simp
  then have ow: "owned (owner w) (live_dirs w)" and un: "set (wl_unremoved w) \<subseteq> set (wl_dirs w)"
    by (simp_all add: dir_inv_def)
  have own: "owner w None = slot_dir w" "\<And>t. owner w (Some t) = call_dir (wl_calls w t)" by (simp_all add: owner_def)
  have r: "range (owner w) = insert (slot_dir w) (range (\<lambda>t. call_dir (wl_calls w t)))"
  proof -
    have "range (owner w) = owner w ` (insert None (range Some))" by (simp add: UNIV_option_conv)
    also have "\<dots> = insert (slot_dir w) (range (\<lambda>t. call_dir (wl_calls w t)))" by (simp add: own image_image)
    finally show ?thesis .
  qed
  have "live_dirs w = range (owner w) - {[]}" using ow by (fastforce simp: owned_def)
  then have live: "live_dirs w = insert (slot_dir w) (range (\<lambda>t. call_dir (wl_calls w t))) - {[]}" by (simp only: r)
  have inj: "owner w i = owner w j \<Longrightarrow> owner w i = [] \<or> i = j" for i j using ow unfolding owned_def by metis
  have "call_dir (wl_calls w t) = slot_dir w \<Longrightarrow> slot_dir w = []" for t using inj [of "Some t" None] by (simp add: own)
  moreover have "call_dir (wl_calls w t) = call_dir (wl_calls w u) \<Longrightarrow> call_dir (wl_calls w t) = [] \<or> t = u" for t u
    using inj [of "Some t" "Some u"] by (simp add: own)
  moreover have rev: "set (wl_revived w) \<subseteq> (\<lambda>p. se_TmpDir (wl_heap w p)) ` set (wl_late w)"
    using late_inv_run [OF assms refl] late_invD(5) [of w] by blast
  moreover have "set (wl_dirs w) \<union> set (wl_revived w) = set (wl_unremoved w)"
    if "wl_slot w = None" "\<forall>t. call_dir (wl_calls w t) = []" "wl_late w = []"
    using that un live rev by (auto simp: live_dirs_def slot_dir_def)
  ultimately show ?thesis using live by (auto simp: live_dirs_def)
qed

theorem directories_owned_witness:
  "set (wl_dirs demo_world) - set (wl_unremoved demo_world) = {''/tmp/a''} \<and> slot_dir demo_world = ''/tmp/a''"
proof -
  have f: "slot_dir demo_world = ''/tmp/a''" by code_simp
  have "call_dir (wl_calls demo_world t) = []" for t
  proof -
    have "call_dir (wl_calls demo_world 0) = []" "call_dir (wl_calls demo_world 1) = []" by code_simp+
    moreover have "wl_calls demo_world t = Idle" if "t \<noteq> 0" "t \<noteq> 1"
      using that by (simp add: demo_world_def demo_acts_def demo_choice_def eval_nat_numeral mgr_defs)
    ultimately show ?thesis by (cases "t = 0"; cases "t = 1"; simp)
  qed
  with conjunct1 [OF directories_owned [OF demo_capture_run]] f show ?thesis by (simp add: insert_Diff_if)
qed

text \<open>
  Such a directory can stay for good: a shutdown whose wait ends by its deadline removes the
  directory, the pipeline writes once more and ends, and every goroutine and call is over.
\<close>

definition leak_acts :: "(actor \<times> env_choice) list" where
  "leak_acts = replicate 5 (ByCall 0, demo_choice) @ replicate 2 (ByCall 1, demo_choice\<lparr>or_op := OpShutdown\<rparr>)
     @ [(ByCall 1, demo_choice\<lparr>or_timeout := True\<rparr>), (ByCall 1, demo_choice), (ByPipe 0, demo_choice\<lparr>or_writes := True\<rparr>)]
     @ replicate 4 (ByPipe 0, demo_choice)"

lemma late_pipeline_leaks:
  "map_option (\<lambda>w. (wl_slot w, wl_dirs w, wl_unremoved w, wl_revived w, wl_pipes w 0, wl_calls w 1)) (exec demo_path NewManager leak_acts)
     = Some (None, [], [], [''/tmp/a''], PipeEnded, ShutDone)"
  by code_simp

end
