(* ===== verification/Unhandled.thy ===== *)
theory Unhandled
  imports Attribution
begin

text \<open>
  \<open>pkg/hubble/unhandled.go\<close>: the tracker of flows that become no rule.  It counts every
  call by reason, logs each distinct flow and reason once, and flushes the counts.  The
  contract the builder and the aggregator use is the locale \<open>flow_tracker\<close>.
\<close>

section \<open>Definitions\<close>

record unhandled_tracker =
  ut_seen :: "string list"
  ut_counters :: "(string \<times> u64) list"

definition NewUnhandledTracker :: unhandled_tracker where
  "NewUnhandledTracker = \<lparr>ut_seen = [], ut_counters = []\<rparr>"

definition endpointID :: "externals \<Rightarrow> endpoint option \<Rightarrow> string" where
  "endpointID E ep =
     (case ep of
        None \<Rightarrow> ''<nil>''
      | Some e \<Rightarrow>
          if ep_namespace e \<noteq> [] then
            (let workload = WorkloadName E (ep_labels e)
             in if workload \<noteq> [] then ep_namespace e @ ''/'' @ workload else ep_namespace e @ ''/<unknown>'')
          else case ep_labels e of l # _ \<Rightarrow> l | [] \<Rightarrow> ''<unknown>'')"

definition protoFields :: "flow \<Rightarrow> string \<times> string" where
  "protoFields f =
     (case fl_l4 f of
        Some (L4_TCP p) \<Rightarrow> (format_uint (unat p), ''TCP'')
      | Some (L4_UDP p) \<Rightarrow> (format_uint (unat p), ''UDP'')
      | Some (L4_ICMPv4 t) \<Rightarrow> (format_uint (unat t), ''ICMPv4'')
      | Some (L4_ICMPv6 t) \<Rightarrow> (format_uint (unat t), ''ICMPv6'')
      | _ \<Rightarrow> (''0'', ''unknown''))"

fun direction_String :: "traffic_direction \<Rightarrow> string" where
  "direction_String INGRESS = ''INGRESS''"
| "direction_String EGRESS = ''EGRESS''"
| "direction_String (Direction_Other s) = s"

definition dedupKey :: "externals \<Rightarrow> flow \<Rightarrow> string \<Rightarrow> string" where
  "dedupKey E f reason =
     (case protoFields f of (port, proto) \<Rightarrow>
        join ''|'' [endpointID E (fl_source f), endpointID E (fl_destination f), port, proto,
                  direction_String (fl_direction f), reason])"

record debug_entry =
  de_src :: string
  de_dst :: string
  de_port :: string
  de_proto :: string
  de_reason :: string
  de_dst_labels :: "string list"

definition extractFields :: "externals \<Rightarrow> flow \<Rightarrow> string \<Rightarrow> debug_entry" where
  "extractFields E f reason =
     (case protoFields f of (port, proto) \<Rightarrow>
        \<lparr>de_src = endpointID E (fl_source f), de_dst = endpointID E (fl_destination f), de_port = port,
         de_proto = proto, de_reason = reason,
         de_dst_labels = (case fl_destination f of None \<Rightarrow> [] | Some d \<Rightarrow> ep_labels d)\<rparr>)"

text \<open>The debug entries a call logs, and the tracker after it.\<close>

definition Track ::
  "externals \<Rightarrow> flow \<Rightarrow> UnhandledReason \<Rightarrow> unhandled_tracker \<Rightarrow> debug_entry list \<times> unhandled_tracker" where
  "Track E f reason t =
     (let reasonStr = reason_string reason; key = dedupKey E f reasonStr;
          t1 = t\<lparr>ut_counters := upsert reasonStr 0 (\<lambda>c. c + 1) (ut_counters t)\<rparr>
      in if key \<in> set (ut_seen t1) then ([], t1)
         else ([extractFields E f reasonStr], t1\<lparr>ut_seen := ut_seen t1 @ [key]\<rparr>))"

text \<open>The summary line of a flush (\<open>None\<close> when nothing was logged), and the reset tracker.\<close>

definition Flush :: "unhandled_tracker \<Rightarrow> (string \<times> u64) list option \<times> unhandled_tracker" where
  "Flush t =
     (let flds = filter (\<lambda>(reason, count). 0 <s count) (ut_counters t);
          total = sum_list (map snd flds)
      in if total = 0 then (None, t)
         else (Some flds, t\<lparr>ut_counters := map (\<lambda>(k, _). (k, 0)) (ut_counters t)\<rparr>))"

section \<open>The tracker interface\<close>

text \<open>What a client of a tracker relies on: a call counts once, under its own reason.\<close>

locale flow_tracker =
  fixes track :: "'f \<Rightarrow> 'r \<Rightarrow> 's \<Rightarrow> 's"
    and count :: "'s \<Rightarrow> 'r \<Rightarrow> 64 word"
  assumes count_track: "count (track f r s) r' = count s r' + (if r' = r then 1 else 0)"
begin

abbreviation deliver :: "('f \<times> 'r) list \<Rightarrow> 's \<Rightarrow> 's" where
  "deliver \<equiv> fold (\<lambda>(f, r). track f r)"

lemma count_deliver:
  "count (deliver log s) r = count s r + of_nat (length (filter (\<lambda>(f, r'). r' = r) log))"
  by (induction log arbitrary: s) (auto simp: count_track)

lemma count_deliver_append:
  "count (deliver (xs @ ys) s) r = count (deliver ys (deliver xs s)) r"
  by simp

end

definition track_state :: "externals \<Rightarrow> flow \<Rightarrow> UnhandledReason \<Rightarrow> unhandled_tracker \<Rightarrow> unhandled_tracker" where
  "track_state E f r t = snd (Track E f r t)"

definition reason_count :: "unhandled_tracker \<Rightarrow> UnhandledReason \<Rightarrow> u64" where
  "reason_count t r = get_or 0 (ut_counters t) (reason_string r)"

lemma reason_string_inject [simp]: "reason_string r = reason_string r' \<longleftrightarrow> r = r'"
  by (cases r; cases r') simp_all

interpretation unhandled: flow_tracker "track_state E" reason_count for E
  by unfold_locales (simp add: track_state_def reason_count_def Track_def Let_def get_or_upsert)

section \<open>Properties\<close>

text \<open>The state is independent of the previous debug entries; each key is logged once.\<close>

fun track_all :: "externals \<Rightarrow> (flow \<times> UnhandledReason) list \<Rightarrow> unhandled_tracker \<Rightarrow> debug_entry list \<times> unhandled_tracker" where
  "track_all E [] t = ([], t)"
| "track_all E ((f, r) # log) t =
     (case Track E f r t of (ds, t1) \<Rightarrow> case track_all E log t1 of (ds', t2) \<Rightarrow> (ds @ ds', t2))"

lemma track_all_state: "snd (track_all E log t) = fold (\<lambda>(f, r). track_state E f r) log t"
proof (induction log arbitrary: t)
  case (Cons x log)
  then show ?case by (cases x; cases "Track E (fst x) (snd x) t") (simp add: track_state_def case_prod_beta)
qed simp

abbreviation track_key :: "externals \<Rightarrow> flow \<times> UnhandledReason \<Rightarrow> string" where
  "track_key E x \<equiv> dedupKey E (fst x) (reason_string (snd x))"

lemma Track_seen:
  assumes "ut_seen t = map (track_key E) seen"
  shows "ut_seen (snd (Track E f r t)) = map (track_key E) (add_new (track_key E) (f, r) seen)"
    and "fst (Track E f r t) = map (\<lambda>(f, r). extractFields E f (reason_string r))
      (drop (length seen) (add_new (track_key E) (f, r) seen))"
proof -
  have "dedupKey E f (reason_string r) \<in> set (ut_seen t) \<longleftrightarrow> track_key E (f, r) \<in> track_key E ` set seen"
    by (simp add: assms)
  then show "ut_seen (snd (Track E f r t)) = map (track_key E) (add_new (track_key E) (f, r) seen)"
    "fst (Track E f r t) = map (\<lambda>(f, r). extractFields E f (reason_string r))
      (drop (length seen) (add_new (track_key E) (f, r) seen))"
    by (cases "dedupKey E f (reason_string r) \<in> set (ut_seen t)"; simp add: Track_def Let_def add_new_def assms)+
qed

lemma track_all_debug:
  "fst (track_all E log t) = map (\<lambda>(f, r). extractFields E f (reason_string r))
      (drop (length seen) (merge_new (track_key E) seen log))"
  if "ut_seen t = map (track_key E) seen"
  using that
proof (induction log arbitrary: t seen)
  case Nil
  then show ?case by simp
next
  case (Cons x log)
  obtain f r where x: "x = (f, r)" by (cases x)
  obtain ds t1 where t1: "Track E f r t = (ds, t1)" by (cases "Track E f r t")
  have seen1: "ut_seen t1 = map (track_key E) (add_new (track_key E) x seen)"
    and ds: "ds = map (\<lambda>(f, r). extractFields E f (reason_string r)) (drop (length seen) (add_new (track_key E) x seen))"
    using Track_seen [where E = E and f = f and r = r, OF Cons.prems] by (simp_all only: x t1 fst_conv snd_conv)
  let ?s1 = "add_new (track_key E) x seen"
  obtain zs where zs: "merge_new (track_key E) ?s1 log = ?s1 @ zs"
    using merge_new_prefix [of "track_key E" ?s1 log] by (elim exE conjE) (rule that)
  have "fst (track_all E (x # log) t) = ds @ fst (track_all E log t1)"
    by (simp add: x t1 case_prod_beta)
  also have "\<dots> = map (\<lambda>(f, r). extractFields E f (reason_string r)) (drop (length seen) (?s1 @ zs))"
    using zs by (simp add: Cons.IH [OF seen1] ds add_new_def)
  finally show ?case by (simp add: merge_new_Cons zs)
qed

text \<open>The tracker's accounting is exact: after any log of unhandled flows each reason's counter has grown
  by the number of its entries, and the debug log has one line per distinct flow identity and reason,
  the first one seen.\<close>

theorem track_all_accounting:
  "reason_count (snd (track_all E log t)) r = reason_count t r + of_nat (length (filter (\<lambda>(f, r'). r' = r) log))
   \<and> fst (track_all E log NewUnhandledTracker)
       = map (\<lambda>(f, r). extractFields E f (reason_string r)) (merge_new (track_key E) [] log)"
  using track_all_debug [of NewUnhandledTracker E "[]" log]
  by (simp add: track_all_state NewUnhandledTracker_def unhandled.count_deliver)

text \<open>A flush reports exactly the positive counters and clears all of them, while the flows already
  logged stay remembered.\<close>

theorem Flush_resets:
  assumes "Flush t = (Some flds, t')"
  shows "set flds = {(k, c). (k, c) \<in> set (ut_counters t) \<and> 0 <s c}
    \<and> (\<forall>k. get_or 0 (ut_counters t') k = 0) \<and> ut_seen t' = ut_seen t"
proof -
  have "get_or 0 (map (\<lambda>(k, _). (k, 0)) m) k = (0 :: u64)" for m :: "(string \<times> u64) list" and k
    by (induction m) (auto simp: get_or_def)
  with assms show ?thesis by (auto simp: Flush_def Let_def split: if_splits)
qed

theorem Flush_resets_witness:
  "set [(''no_l4'', 2 :: u64)] = {(k, c). (k, c) \<in> set (ut_counters \<lparr>ut_seen = [''x''], ut_counters = [(''no_l4'', 2), (''nil_source'', 0)]\<rparr>) \<and> 0 <s c}
    \<and> (\<forall>k. get_or 0 (ut_counters \<lparr>ut_seen = [''x''], ut_counters = [(''no_l4'', 0), (''nil_source'', 0)]\<rparr>) k = (0 :: u64))
    \<and> ut_seen \<lparr>ut_seen = [''x''], ut_counters = [(''no_l4'', 0 :: u64), (''nil_source'', 0)]\<rparr> = [''x'']"
  using Flush_resets [of "\<lparr>ut_seen = [''x''], ut_counters = [(''no_l4'', 2), (''nil_source'', 0)]\<rparr>" "[(''no_l4'', 2)]"
      "\<lparr>ut_seen = [''x''], ut_counters = [(''no_l4'', 0), (''nil_source'', 0)]\<rparr>"]
  by (simp add: Flush_def Let_def word_sless_alt)

end
