(* ===== verification/Dropclass.thy ===== *)
theory Dropclass
  imports Flow
begin

text \<open>
  \<open>pkg/dropclass\<close>: the bucket every Cilium drop reason falls into, the remediation hint of
  the infrastructure reasons, and the once-per-value warning for unrecognised reasons.
  The process-global state (logger set or not, values already warned about) is threaded;
  the warnings are returned.
\<close>

section \<open>Definitions\<close>

datatype DropClass = DropClassUnknown | DropClassPolicy | DropClassInfra | DropClassTransient | DropClassNoise

definition dropReasonClass :: "(string \<times> DropClass) list" where
  "dropReasonClass =
     [(''DROP_REASON_UNKNOWN'', DropClassTransient),
      (''STALE_OR_UNROUTABLE_IP'', DropClassTransient),
      (''NO_MATCHING_LOCAL_CONTAINER_FOUND'', DropClassTransient),
      (''NO_CONFIGURATION_AVAILABLE_TO_PERFORM_POLICY_DECISION'', DropClassTransient),
      (''INVALID_IDENTITY'', DropClassTransient),
      (''UNKNOWN_SENDER'', DropClassTransient),
      (''TTL_EXCEEDED'', DropClassTransient),
      (''DROP_HOST_NOT_READY'', DropClassTransient),
      (''DROP_EP_NOT_READY'', DropClassTransient),
      (''NAT_NOT_NEEDED'', DropClassNoise),
      (''IS_A_CLUSTERIP'', DropClassNoise),
      (''IGMP_HANDLED'', DropClassNoise),
      (''IGMP_SUBSCRIBED'', DropClassNoise),
      (''MULTICAST_HANDLED'', DropClassNoise),
      (''DROP_PUNT_PROXY'', DropClassNoise),
      (''POLICY_DENIED'', DropClassPolicy),
      (''DENIED_BY_LB_SRC_RANGE_CHECK'', DropClassPolicy),
      (''POLICY_DENY'', DropClassPolicy),
      (''AUTH_REQUIRED'', DropClassPolicy),
      (''INVALID_SOURCE_MAC'', DropClassInfra),
      (''INVALID_DESTINATION_MAC'', DropClassInfra),
      (''INVALID_SOURCE_IP'', DropClassInfra),
      (''INVALID_PACKET_DROPPED'', DropClassInfra),
      (''CT_TRUNCATED_OR_INVALID_HEADER'', DropClassInfra),
      (''CT_MISSING_TCP_ACK_FLAG'', DropClassInfra),
      (''CT_UNKNOWN_L4_PROTOCOL'', DropClassInfra),
      (''CT_CANNOT_CREATE_ENTRY_FROM_PACKET'', DropClassInfra),
      (''UNSUPPORTED_L3_PROTOCOL'', DropClassInfra),
      (''MISSED_TAIL_CALL'', DropClassInfra),
      (''ERROR_WRITING_TO_PACKET'', DropClassInfra),
      (''UNKNOWN_L4_PROTOCOL'', DropClassInfra),
      (''UNKNOWN_ICMPV4_CODE'', DropClassInfra),
      (''UNKNOWN_ICMPV4_TYPE'', DropClassInfra),
      (''UNKNOWN_ICMPV6_CODE'', DropClassInfra),
      (''UNKNOWN_ICMPV6_TYPE'', DropClassInfra),
      (''ERROR_RETRIEVING_TUNNEL_KEY'', DropClassInfra),
      (''ERROR_RETRIEVING_TUNNEL_OPTIONS'', DropClassInfra),
      (''INVALID_GENEVE_OPTION'', DropClassInfra),
      (''UNKNOWN_L3_TARGET_ADDRESS'', DropClassInfra),
      (''ERROR_WHILE_CORRECTING_L3_CHECKSUM'', DropClassInfra),
      (''ERROR_WHILE_CORRECTING_L4_CHECKSUM'', DropClassInfra),
      (''CT_MAP_INSERTION_FAILED'', DropClassInfra),
      (''INVALID_IPV6_EXTENSION_HEADER'', DropClassInfra),
      (''IP_FRAGMENTATION_NOT_SUPPORTED'', DropClassInfra),
      (''SERVICE_BACKEND_NOT_FOUND'', DropClassInfra),
      (''NO_TUNNEL_OR_ENCAPSULATION_ENDPOINT'', DropClassInfra),
      (''FAILED_TO_INSERT_INTO_PROXYMAP'', DropClassInfra),
      (''REACHED_EDT_RATE_LIMITING_DROP_HORIZON'', DropClassInfra),
      (''UNKNOWN_CONNECTION_TRACKING_STATE'', DropClassInfra),
      (''LOCAL_HOST_IS_UNREACHABLE'', DropClassInfra),
      (''UNSUPPORTED_L2_PROTOCOL'', DropClassInfra),
      (''NO_MAPPING_FOR_NAT_MASQUERADE'', DropClassInfra),
      (''UNSUPPORTED_PROTOCOL_FOR_NAT_MASQUERADE'', DropClassInfra),
      (''FIB_LOOKUP_FAILED'', DropClassInfra),
      (''ENCAPSULATION_TRAFFIC_IS_PROHIBITED'', DropClassInfra),
      (''FIRST_LOGICAL_DATAGRAM_FRAGMENT_NOT_FOUND'', DropClassInfra),
      (''FORBIDDEN_ICMPV6_MESSAGE'', DropClassInfra),
      (''SOCKET_LOOKUP_FAILED'', DropClassInfra),
      (''SOCKET_ASSIGN_FAILED'', DropClassInfra),
      (''PROXY_REDIRECTION_NOT_SUPPORTED_FOR_PROTOCOL'', DropClassInfra),
      (''VLAN_FILTERED'', DropClassInfra),
      (''INVALID_VNI'', DropClassInfra),
      (''INVALID_TC_BUFFER'', DropClassInfra),
      (''NO_SID'', DropClassInfra),
      (''MISSING_SRV6_STATE'', DropClassInfra),
      (''NAT46'', DropClassInfra),
      (''NAT64'', DropClassInfra),
      (''CT_NO_MAP_FOUND'', DropClassInfra),
      (''SNAT_NO_MAP_FOUND'', DropClassInfra),
      (''INVALID_CLUSTER_ID'', DropClassInfra),
      (''UNSUPPORTED_PROTOCOL_FOR_DSR_ENCAP'', DropClassInfra),
      (''NO_EGRESS_GATEWAY'', DropClassInfra),
      (''UNENCRYPTED_TRAFFIC'', DropClassInfra),
      (''NO_NODE_ID'', DropClassInfra),
      (''DROP_RATE_LIMITED'', DropClassInfra),
      (''DROP_NO_EGRESS_IP'', DropClassInfra)]"

definition dropReasonHint :: "(string \<times> string) list" where
  "dropReasonHint =
     [(''CT_MAP_INSERTION_FAILED'',
       ''https://docs.cilium.io/en/stable/operations/troubleshooting/#handling-drop-ct-map-insertion-failed''),
      (''SERVICE_BACKEND_NOT_FOUND'',
       ''https://docs.cilium.io/en/stable/operations/troubleshooting/#service-backend-not-found''),
      (''FIB_LOOKUP_FAILED'',
       ''https://docs.cilium.io/en/stable/operations/troubleshooting/#fib-lookup-failed''),
      (''UNENCRYPTED_TRAFFIC'',
       ''https://docs.cilium.io/en/stable/operations/encryption/''),
      (''NO_EGRESS_GATEWAY'',
       ''https://docs.cilium.io/en/stable/network/egress-gateway/egress-gateway-troubleshooting/''),
      (''DROP_NO_EGRESS_IP'',
       ''https://docs.cilium.io/en/stable/network/egress-gateway/egress-gateway-troubleshooting/'')]"

fun DropClass_String :: "DropClass \<Rightarrow> string" where
  "DropClass_String DropClassPolicy = ''policy''"
| "DropClass_String DropClassInfra = ''infra''"
| "DropClass_String DropClassTransient = ''transient''"
| "DropClass_String DropClassNoise = ''noise''"
| "DropClass_String _ = ''unknown''"

text \<open>The lookup \<open>dropReasonClass[reason]\<close>; an unnamed number is never a key.\<close>

definition class_of_reason :: "drop_reason \<Rightarrow> DropClass option" where
  "class_of_reason r = (case drop_reason_name r of None \<Rightarrow> None | Some n \<Rightarrow> map_of dropReasonClass n)"

definition RemediationHint :: "drop_reason \<Rightarrow> string" where
  "RemediationHint r = (case drop_reason_name r of None \<Rightarrow> [] | Some n \<Rightarrow> get_or [] dropReasonHint n)"

record warn_state =
  ws_logger :: bool
  ws_warned :: "drop_reason list"

definition SetWarnLogger :: "bool \<Rightarrow> warn_state \<Rightarrow> warn_state" where
  "SetWarnLogger l s = s\<lparr>ws_logger := l\<rparr>"

text \<open>The class, the reasons warned about by this call, and the new state.\<close>

definition Classify :: "drop_reason \<Rightarrow> warn_state \<Rightarrow> DropClass \<times> drop_reason list \<times> warn_state" where
  "Classify r s =
     (case class_of_reason r of
        Some c \<Rightarrow> (c, [], s)
      | None \<Rightarrow>
          if r \<in> set (ws_warned s) then (DropClassUnknown, [], s)
          else (DropClassUnknown, if ws_logger s then [r] else [],
                s\<lparr>ws_warned := ws_warned s @ [r]\<rparr>))"

text \<open>\<open>flowpb.DropReason_name\<close> is generated code: its names are the argument.\<close>

definition ValidReasonNames :: "string list \<Rightarrow> string list" where
  "ValidReasonNames names = sort names"

text \<open>A sequence of calls.\<close>

fun classify_all :: "drop_reason list \<Rightarrow> warn_state \<Rightarrow> drop_reason list \<times> warn_state" where
  "classify_all [] s = ([], s)"
| "classify_all (r # rs) s =
     (case Classify r s of (c, ws, s1) \<Rightarrow> case classify_all rs s1 of (ws', s2) \<Rightarrow> (ws @ ws', s2))"

section \<open>Lemmas\<close>

lemma Classify_class:
  "fst (Classify r s) = (case class_of_reason r of Some c \<Rightarrow> c | None \<Rightarrow> DropClassUnknown)"
  by (simp add: Classify_def split: option.split)

lemma hints_infra: "list_all (\<lambda>(n, h). map_of dropReasonClass n = Some DropClassInfra \<and> h \<noteq> []) dropReasonHint"
  by code_simp

text \<open>A remediation hint is given only for reasons classified as infrastructure failures.\<close>

theorem RemediationHint_infra:
  assumes "RemediationHint r \<noteq> []"
  shows "fst (Classify r s) = DropClassInfra"
proof -
  have "map_of dropReasonClass n = Some DropClassInfra" if "(n, h) \<in> set dropReasonHint" for n h
    using hints_infra that by (auto simp: list_all_iff)
  then have "RemediationHint r \<noteq> [] \<Longrightarrow> class_of_reason r = Some DropClassInfra"
    by (cases r) (auto simp: RemediationHint_def class_of_reason_def get_or_def split: option.splits dest: map_of_SomeD)
  with assms show ?thesis by (simp add: Classify_class)
qed

theorem RemediationHint_infra_witness:
  "fst (Classify (DropReason ''CT_MAP_INSERTION_FAILED'') \<lparr>ws_logger = False, ws_warned = []\<rparr>) = DropClassInfra"
  by (rule RemediationHint_infra) code_simp

lemma classify_all_warns:
  assumes "ws_logger s"
  shows "distinct (fst (classify_all rs s)) \<and> set (fst (classify_all rs s)) = {r \<in> set rs. class_of_reason r = None \<and> r \<notin> set (ws_warned s)}"
  using assms
proof (induction rs arbitrary: s)
  case Nil
  then show ?case by simp
next
  case (Cons r rs)
  obtain c ws s1 where c: "Classify r s = (c, ws, s1)" by (cases "Classify r s") auto
  then have s1: "ws_logger s1" "set (ws_warned s1) = set (ws_warned s) \<union> set ws"
    "set ws = (if class_of_reason r = None \<and> r \<notin> set (ws_warned s) then {r} else {})" "distinct ws"
    using Cons.prems by (cases "class_of_reason r"; cases "r \<in> set (ws_warned s)"; auto simp: Classify_def)+
  have ih: "distinct (fst (classify_all rs s1))"
    "set (fst (classify_all rs s1)) = {r' \<in> set rs. class_of_reason r' = None \<and> r' \<notin> set (ws_warned s) \<union> set ws}"
    using Cons.IH [OF s1(1)] unfolding s1(2) by blast+
  have e: "fst (classify_all (r # rs) s) = ws @ fst (classify_all rs s1)" by (simp add: c split: prod.split)
  show ?case
  proof (cases "class_of_reason r = None \<and> r \<notin> set (ws_warned s)")
    case True
    then have "set ws = {r}" using s1(3) by simp
    with ih s1(4) True show ?thesis unfolding e by auto
  next
    case False
    then have "ws = []" using s1(3) by (auto split: if_splits)
    with ih False show ?thesis unfolding e by auto
  qed
qed

text \<open>Forward compatibility: a reason outside the taxonomy is classified as unknown, never as a policy
  denial, and however often it is seen it is warned about once, at its first occurrence.\<close>

theorem Classify_unrecognised:
  assumes "ws_logger s"
  shows "(class_of_reason r = None \<longrightarrow> fst (Classify r s) = DropClassUnknown)
   \<and> distinct (fst (classify_all rs s))
   \<and> set (fst (classify_all rs s)) = {r \<in> set rs. class_of_reason r = None \<and> r \<notin> set (ws_warned s)}"
  using classify_all_warns [OF assms] by (simp add: Classify_class)

theorem Classify_unrecognised_witness:
  "distinct (fst (classify_all [DropReason_Unrecognized 999, DropReason ''POLICY_DENIED'', DropReason_Unrecognized 999]
     \<lparr>ws_logger = True, ws_warned = []\<rparr>))"
  using Classify_unrecognised [of "\<lparr>ws_logger = True, ws_warned = []\<rparr>" "DropReason_Unrecognized 999"
      "[DropReason_Unrecognized 999, DropReason ''POLICY_DENIED'', DropReason_Unrecognized 999]"]
  by simp

end
