(* ===== verification/NsAwareness.thy ===== *)
theory NsAwareness
  imports Flow
begin

text \<open>
  \<open>pkg/hubble/ns_awareness.go\<close>: the earliest time each namespace was seen, the namespaces that
  appeared after the start of a capture, and their report.
\<close>

section \<open>Definitions\<close>

datatype NewNamespaceSource = NewNamespacesFromWatch | NewNamespacesFromReplay

text \<open>The nil-safe \<open>GetNamespace()\<close>.\<close>

definition endpoint_namespace :: "endpoint option \<Rightarrow> string" where
  "endpoint_namespace ep = (case ep of None \<Rightarrow> [] | Some e \<Rightarrow> ep_namespace e)"

type_synonym first_seen = "(string \<times> time) list"

definition note_namespace :: "time \<Rightarrow> string \<Rightarrow> first_seen \<Rightarrow> first_seen" where
  "note_namespace t ns m =
     (if ns = [] then m
      else case map_of m ns of
             None \<Rightarrow> aput ns t m
           | Some cur \<Rightarrow> if t < cur then aput ns t m else m)"

text \<open>The map and the flow may be nil.\<close>

definition noteFirstSeen :: "first_seen option \<Rightarrow> flow option \<Rightarrow> first_seen option" where
  "noteFirstSeen firstSeen f =
     (case (firstSeen, f) of
        (Some m, Some fl) \<Rightarrow>
          (case fl_time fl of
             None \<Rightarrow> Some m
           | Some ts \<Rightarrow>
               if \<not> ts_is_valid ts then Some m
               else let t = ts_as_time ts
                    in if t = 0 then Some m
                       else Some (fold (note_namespace t)
                              [endpoint_namespace (fl_source fl), endpoint_namespace (fl_destination fl)] m))
      | _ \<Rightarrow> firstSeen)"

text \<open>The loop that looks for the start of the capture.\<close>

definition capture_start_step :: "string \<times> time \<Rightarrow> time \<times> bool \<Rightarrow> time \<times> bool" where
  "capture_start_step e s =
     (case e of (_, t) \<Rightarrow> case s of (captureStart, first) \<Rightarrow>
        if first \<or> t < captureStart then (t, False) else (captureStart, first))"

definition computeNewNamespaces :: "first_seen \<Rightarrow> string list" where
  "computeNewNamespaces firstSeen =
     (if firstSeen = [] then []
      else case fold capture_start_step firstSeen (0, True) of (captureStart, _) \<Rightarrow>
             sort (map fst (filter (\<lambda>(ns, t). captureStart < t) firstSeen)))"

definition em_dash :: string where
  "em_dash = [CHR 0xE2, CHR 0x80, CHR 0x94]"

fun namespace_hint :: "NewNamespaceSource \<Rightarrow> string \<Rightarrow> string" where
  "namespace_hint NewNamespacesFromWatch ns =
     ''  - namespace '' @ ns @ '' appeared after run start '' @ em_dash @ '' re-run to cover it'' @ [CHR 0x0A]"
| "namespace_hint NewNamespacesFromReplay ns =
     ''  - namespace '' @ ns @ '' first observed after capture start '' @ em_dash @ '' re-run to cover it'' @ [CHR 0x0A]"

text \<open>What is written to \<open>out\<close>.\<close>

definition PrintNewNamespacesSummary :: "string list \<Rightarrow> NewNamespaceSource \<Rightarrow> string" where
  "PrintNewNamespacesSummary namespaces source =
     (if namespaces = [] then []
      else ''New namespaces detected during this run:'' @ [CHR 0x0A]
           @ concat (map (namespace_hint source) (sort namespaces)))"

section \<open>What the map records\<close>

text \<open>The usable sightings of a flow.\<close>

definition sightings :: "flow \<Rightarrow> (string \<times> time) set" where
  "sightings f =
     (case fl_time f of
        None \<Rightarrow> {}
      | Some ts \<Rightarrow>
          if ts_is_valid ts \<and> ts_as_time ts \<noteq> 0
          then {(ns, ts_as_time ts) |ns. ns \<noteq> [] \<and>
                  (ns = endpoint_namespace (fl_source f) \<or> ns = endpoint_namespace (fl_destination f))}
          else {})"

definition all_sightings :: "flow list \<Rightarrow> (string \<times> time) set" where
  "all_sightings fs = (\<Union>f \<in> set fs. sightings f)"

definition note_all :: "flow list \<Rightarrow> first_seen" where
  "note_all fs = the (fold (\<lambda>f m. noteFirstSeen m (Some f)) fs (Some []))"

text \<open>A map is the minimum of a set of sightings.\<close>

definition earliest :: "first_seen \<Rightarrow> (string \<times> time) set \<Rightarrow> bool" where
  "earliest m S \<longleftrightarrow> distinct (map fst m) \<and> set m \<subseteq> S \<and> (\<forall>(ns, t) \<in> S. \<exists>t'. map_of m ns = Some t' \<and> t' \<le> t)"

lemma earliest_Nil: "earliest [] {}"
  by (simp add: earliest_def)

lemma earliest_note:
  assumes "earliest m S" and "ns \<noteq> []"
  shows "earliest (note_namespace t ns m) (insert (ns, t) S)"
proof -
  have mem: "map_of m ns = Some u \<Longrightarrow> (ns, u) \<in> S" for u
    using assms(1) map_of_SomeD [of m ns u] by (auto simp: earliest_def)
  have put: "earliest (aput ns t m) (insert (ns, t) S)"
    if "map_of m ns = None \<or> (\<exists>cur. map_of m ns = Some cur \<and> t < cur)"
  proof -
    have sub: "set (aput ns t m) \<subseteq> insert (ns, t) (set m)"
      using assms(1) by (auto simp: set_upsert earliest_def)
    show ?thesis
      unfolding earliest_def
    proof (intro conjI)
      show "distinct (map fst (aput ns t m))"
        using assms(1) by (simp add: earliest_def distinct_upsert)
      show "set (aput ns t m) \<subseteq> insert (ns, t) S"
        using sub assms(1) by (auto simp: earliest_def)
      show "\<forall>(ns', u) \<in> insert (ns, t) S. \<exists>t'. map_of (aput ns t m) ns' = Some t' \<and> t' \<le> u"
        using that assms(1) by (fastforce simp: earliest_def map_of_upsert get_or_def)
    qed
  qed
  have keep: "earliest m (insert (ns, t) S)" if "map_of m ns = Some cur" "cur \<le> t" for cur
    using that assms(1) by (auto simp: earliest_def)
  show ?thesis
    using put keep assms(2) by (auto simp: note_namespace_def split: option.split)
qed

lemma earliest_noteFirstSeen:
  assumes "earliest m S"
  shows "\<exists>m'. noteFirstSeen (Some m) (Some f) = Some m' \<and> earliest m' (S \<union> sightings f)"
proof (cases "fl_time f")
  case None
  then show ?thesis using assms by (simp add: noteFirstSeen_def sightings_def)
next
  case (Some ts)
  let ?t = "ts_as_time ts"
  let ?a = "endpoint_namespace (fl_source f)" and ?b = "endpoint_namespace (fl_destination f)"
  have empty: "note_namespace ?t [] m' = m'" for m' by (simp add: note_namespace_def)
  have sight: "sightings f = (if ?a = [] then {} else {(?a, ?t)}) \<union> (if ?b = [] then {} else {(?b, ?t)})"
    if "ts_is_valid ts" "?t \<noteq> 0"
    using that Some by (auto simp: sightings_def)
  have "earliest (note_namespace ?t ?b (note_namespace ?t ?a m)) (S \<union> sightings f)"
    if "ts_is_valid ts" "?t \<noteq> 0"
    using assms earliest_note [of m S ?a ?t] earliest_note [of m S ?b ?t]
      earliest_note [of "note_namespace ?t ?a m" "insert (?a, ?t) S" ?b ?t]
    unfolding sight [OF that]
    by (cases "?a = []"; cases "?b = []") (simp_all add: empty insert_commute)
  then show ?thesis
    using assms Some by (auto simp: noteFirstSeen_def sightings_def Let_def)
qed

lemma earliest_note_all: "earliest (note_all fs) (all_sightings fs)"
proof -
  have "\<exists>m'. fold (\<lambda>f m. noteFirstSeen m (Some f)) fs (Some m) = Some m' \<and> earliest m' (S \<union> all_sightings fs)"
    if "earliest m S" for m S
    using that
  proof (induction fs arbitrary: m S)
    case Nil
    then show ?case by (simp add: all_sightings_def)
  next
    case (Cons f fs)
    from earliest_noteFirstSeen [OF Cons.prems, of f] obtain m1
      where m1: "noteFirstSeen (Some m) (Some f) = Some m1" "earliest m1 (S \<union> sightings f)" by blast
    from Cons.IH [OF m1(2)] m1(1) show ?case
      by (simp add: all_sightings_def Un_assoc)
  qed
  from this [OF earliest_Nil] show ?thesis
    by (auto simp: note_all_def)
qed

section \<open>The start of the capture\<close>

lemma capture_start_fold:
  assumes "snd s = False"
  shows "fst (fold capture_start_step m s) = Min (insert (fst s) (snd ` set m)) \<and> \<not> snd (fold capture_start_step m s)"
  using assms
proof (induction m arbitrary: s)
  case Nil
  then show ?case by simp
next
  case (Cons e m)
  have s1: "snd (capture_start_step e s) = False" "fst (capture_start_step e s) = min (fst s) (snd e)"
    using Cons.prems by (auto simp: capture_start_step_def split: prod.splits)
  have "Min (insert (min a b) X) = Min (insert a (insert b X))" if "finite X" for a b :: int and X
    using that by (cases "X = {}") (auto simp: Min_insert2 min.assoc)
  with Cons.IH [OF s1(1)] show ?case
    by (simp add: s1(2))
qed

lemma capture_start_Min:
  assumes "m \<noteq> []"
  shows "fst (fold capture_start_step m (0, True)) = Min (snd ` set m)"
proof -
  obtain e m' where m: "m = e # m'" using assms by (cases m) auto
  have "capture_start_step e (0, True) = (snd e, False)"
    by (simp add: capture_start_step_def split: prod.split)
  with capture_start_fold [of "(snd e, False)" m'] show ?thesis
    by (simp add: m)
qed

lemma Min_earliest:
  assumes "earliest m S" and "finite S" and "m \<noteq> []"
  shows "Min (snd ` set m) = Min (snd ` S)"
proof (rule antisym)
  have sub: "snd ` set m \<subseteq> snd ` S" using assms(1) by (auto simp: earliest_def)
  then show "Min (snd ` S) \<le> Min (snd ` set m)"
    using assms(2,3) by (intro Min_antimono) auto
  have "S \<noteq> {}" using sub assms(3) by auto
  moreover have "Min (snd ` set m) \<le> t" if "(ns, t) \<in> S" for ns t
  proof -
    obtain t' where t': "map_of m ns = Some t'" "t' \<le> t"
      using assms(1) \<open>(ns, t) \<in> S\<close> by (auto simp: earliest_def)
    then have "t' \<in> snd ` set m" by (metis map_of_SomeD image_eqI snd_conv)
    then have "Min (snd ` set m) \<le> t'" by (simp add: assms(3))
    with t'(2) show ?thesis by simp
  qed
  ultimately show "Min (snd ` set m) \<le> Min (snd ` S)"
    using assms(2) by (auto intro!: Min.boundedI)
qed

lemma finite_all_sightings: "finite (all_sightings fs)"
proof -
  have "finite (sightings f)" for f
  proof (rule finite_subset)
    show "sightings f \<subseteq> {endpoint_namespace (fl_source f), endpoint_namespace (fl_destination f)} \<times> {ts_as_time (the (fl_time f))}"
      by (auto simp: sightings_def split: option.splits if_splits)
  qed simp
  then show ?thesis by (simp add: all_sightings_def)
qed

section \<open>Properties\<close>

lemma computeNewNamespaces_mem:
  assumes "earliest m S" and "finite S" and "S \<noteq> {}"
  shows "set (computeNewNamespaces m) = {ns. (\<exists>t. (ns, t) \<in> S) \<and> (\<forall>t. (ns, t) \<in> S \<longrightarrow> Min (snd ` S) < t)}"
proof -
  have ne: "m \<noteq> []" using assms(1,3) by (auto simp: earliest_def)
  have d: "distinct (map fst m)" using assms(1) by (simp add: earliest_def)
  have "set (computeNewNamespaces m) = {ns. \<exists>t. (ns, t) \<in> set m \<and> Min (snd ` S) < t}"
    using ne capture_start_Min [OF ne] Min_earliest [OF assms(1,2) ne]
    by (force simp: computeNewNamespaces_def case_prod_beta)
  also have "\<dots> = {ns. (\<exists>t. (ns, t) \<in> S) \<and> (\<forall>t. (ns, t) \<in> S \<longrightarrow> Min (snd ` S) < t)}"
  proof (intro Collect_cong iffI)
    fix ns assume "\<exists>t. (ns, t) \<in> set m \<and> Min (snd ` S) < t"
    then obtain t where t: "(ns, t) \<in> set m" "Min (snd ` S) < t" by blast
    then have "map_of m ns = Some t" using d by simp
    moreover have "(ns, t) \<in> S" using t(1) assms(1) by (auto simp: earliest_def)
    ultimately show "(\<exists>t. (ns, t) \<in> S) \<and> (\<forall>t. (ns, t) \<in> S \<longrightarrow> Min (snd ` S) < t)"
      using assms(1) t(2) by (fastforce simp: earliest_def)
  next
    fix ns assume a: "(\<exists>t. (ns, t) \<in> S) \<and> (\<forall>t. (ns, t) \<in> S \<longrightarrow> Min (snd ` S) < t)"
    then obtain t where "(ns, t) \<in> S" by blast
    then obtain t' where "map_of m ns = Some t'" using assms(1) by (auto simp: earliest_def)
    then have "(ns, t') \<in> set m" by (rule map_of_SomeD)
    moreover from this have "(ns, t') \<in> S" using assms(1) by (auto simp: earliest_def)
    ultimately show "\<exists>t. (ns, t) \<in> set m \<and> Min (snd ` S) < t" using a by blast
  qed
  finally show ?thesis .
qed

lemma computeNewNamespaces_sorted:
  "distinct (map fst m) \<Longrightarrow> sorted (computeNewNamespaces m) \<and> distinct (computeNewNamespaces m)"
  by (auto simp: computeNewNamespaces_def distinct_map_filter split: prod.splits)

lemma earliest_empty: "earliest m S \<Longrightarrow> S = {} \<Longrightarrow> m = []"
  by (auto simp: earliest_def)

text \<open>A namespace is reported as new exactly when it was seen in the capture and every usable sighting
  of it, as source or destination, is strictly later than the earliest sighting of the capture;
  the report is sorted and free of duplicates, and depends on no ordering of the flows.\<close>

theorem computeNewNamespaces_log:
  "sorted (computeNewNamespaces (note_all fs)) \<and> distinct (computeNewNamespaces (note_all fs))
   \<and> set (computeNewNamespaces (note_all fs)) =
       {ns. {t. (ns, t) \<in> all_sightings fs} \<noteq> {}
          \<and> {t. (ns, t) \<in> all_sightings fs} \<subseteq> {Min (snd ` all_sightings fs) <..}}"
proof (intro conjI)
  let ?m = "note_all fs"
  have d: "distinct (map fst ?m)" using earliest_note_all [of fs] by (simp add: earliest_def)
  show "sorted (computeNewNamespaces ?m)" "distinct (computeNewNamespaces ?m)"
    using computeNewNamespaces_sorted [OF d] by simp_all
  show "set (computeNewNamespaces ?m) = {ns. {t. (ns, t) \<in> all_sightings fs} \<noteq> {}
          \<and> {t. (ns, t) \<in> all_sightings fs} \<subseteq> {Min (snd ` all_sightings fs) <..}}"
  proof (cases "all_sightings fs = {}")
    case True
    then have "?m = []" using earliest_empty [OF earliest_note_all] by blast
    with True show ?thesis by (simp add: computeNewNamespaces_def)
  next
    case False
    show ?thesis
      unfolding computeNewNamespaces_mem [OF earliest_note_all finite_all_sightings False] by blast
  qed
qed

end
