(* ===== verification/Aggregator.thy ===== *)
theory Aggregator
  imports Builder Unhandled Dropclass NsAwareness "HOL-Library.Multiset"
begin

text \<open>
  \<open>pkg/hubble/aggregator.go\<close>: flows are counted, filtered, classified and collected per
  workload, and each flush turns the collected flows into policies.  \<open>receive\<close> is the
  body of the receive case of \<open>Run\<close>, \<open>flush\<close> the method, and \<open>run_step\<close> the select loop.
  The iteration order of the bucket map is any order; the outcome of the non-blocking send
  on the health channel is a parameter of each step.  Log lines are not kept, apart from
  the de-duplicated warning about reserved identities.
\<close>

section \<open>State\<close>

record drop_event =
  dv_Reason :: drop_reason
  dv_Class :: DropClass
  dv_Namespace :: string
  dv_Workload :: string
  dv_NodeName :: string

record agg_key =
  ak_Namespace :: string
  ak_Workload :: string

definition validIgnoreProtocols :: "string list" where
  "validIgnoreProtocols = [''tcp'', ''udp'', ''icmpv4'', ''icmpv6'', ''sctp'']"

definition ValidIgnoreProtocols :: "string list" where
  "ValidIgnoreProtocols = sort validIgnoreProtocols"

text \<open>A nil or empty filter set is the empty list; \<open>ag_warn\<close> is the classifier's package state.\<close>

record aggregator =
  ag_warnedReserved :: "string list"
  ag_reservedLog :: "(string list \<times> string) list"
  ag_tracker :: unhandled_tracker
  ag_warn :: warn_state
  ag_maxSamples :: int
  ag_l7Enabled :: bool
  ag_l7HTTPCount :: u64
  ag_l7DNSCount :: u64
  ag_includeAudit :: bool
  ag_collapseL7Paths :: bool
  ag_minFlowsPerL7Rule :: int
  ag_dnsSelector :: label_map
  ag_l7Collapse :: "collapse_state option"
  ag_auditVerdictCount :: u64
  ag_flowsSeen :: u64
  ag_seenWorkloads :: "string list"
  ag_ignoreProtocols :: "string list"
  ag_ignoredByProtocol :: "(string \<times> u64) list"
  ag_infraDrops :: "(drop_reason \<times> u64) list"
  ag_healthChDrops :: u64
  ag_ignoreDropReasons :: "string list"
  ag_ignoredByDropReason :: "(string \<times> u64) list"
  ag_firstSeenByNamespace :: "first_seen option"

definition NewAggregator :: "unhandled_tracker \<Rightarrow> bool \<Rightarrow> warn_state \<Rightarrow> aggregator" where
  "NewAggregator tracker logger w =
     \<lparr>ag_warnedReserved = [], ag_reservedLog = [], ag_tracker = tracker, ag_warn = SetWarnLogger logger w,
      ag_maxSamples = 0, ag_l7Enabled = False, ag_l7HTTPCount = 0, ag_l7DNSCount = 0,
      ag_includeAudit = False, ag_collapseL7Paths = False, ag_minFlowsPerL7Rule = 0, ag_dnsSelector = [],
      ag_l7Collapse = None, ag_auditVerdictCount = 0, ag_flowsSeen = 0, ag_seenWorkloads = [],
      ag_ignoreProtocols = [], ag_ignoredByProtocol = [], ag_infraDrops = [], ag_healthChDrops = 0,
      ag_ignoreDropReasons = [], ag_ignoredByDropReason = [], ag_firstSeenByNamespace = None\<rparr>"

section \<open>Configuration and accessors\<close>

definition SetIgnoreProtocols :: "string list \<Rightarrow> aggregator \<Rightarrow> aggregator" where
  "SetIgnoreProtocols protos a = a\<lparr>ag_ignoreProtocols := remdups (map to_lower protos)\<rparr>"

definition SetIgnoreDropReasons :: "string list \<Rightarrow> aggregator \<Rightarrow> aggregator" where
  "SetIgnoreDropReasons reasons a = a\<lparr>ag_ignoreDropReasons := remdups (map to_upper reasons)\<rparr>"

definition SetL7Enabled :: "bool \<Rightarrow> aggregator \<Rightarrow> aggregator" where
  "SetL7Enabled enabled a = a\<lparr>ag_l7Enabled := enabled\<rparr>"

definition SetIncludeAudit :: "bool \<Rightarrow> aggregator \<Rightarrow> aggregator" where
  "SetIncludeAudit enabled a = a\<lparr>ag_includeAudit := enabled\<rparr>"

definition SetCollapseL7Paths :: "bool \<Rightarrow> aggregator \<Rightarrow> aggregator" where
  "SetCollapseL7Paths enabled a =
     a\<lparr>ag_collapseL7Paths := enabled,
       ag_l7Collapse := (if enabled \<and> ag_l7Collapse a = None then Some NewL7CollapseState else ag_l7Collapse a)\<rparr>"

definition SetMinFlowsPerL7Rule :: "int \<Rightarrow> aggregator \<Rightarrow> aggregator" where
  "SetMinFlowsPerL7Rule n a = a\<lparr>ag_minFlowsPerL7Rule := n\<rparr>"

definition SetDNSSelector :: "label_map \<Rightarrow> aggregator \<Rightarrow> aggregator" where
  "SetDNSSelector sel a = a\<lparr>ag_dnsSelector := sel\<rparr>"

definition SetMaxSamples :: "int \<Rightarrow> aggregator \<Rightarrow> aggregator" where
  "SetMaxSamples n a = a\<lparr>ag_maxSamples := n\<rparr>"

definition InfraDropTotal :: "aggregator \<Rightarrow> u64" where
  "InfraDropTotal a = sum_list (map snd (ag_infraDrops a))"

definition ObservedWorkloads :: "aggregator \<Rightarrow> string list" where
  "ObservedWorkloads a = sort (ag_seenWorkloads a)"

section \<open>Reading a flow\<close>

definition policyTargetEndpoint :: "flow \<Rightarrow> endpoint option" where
  "policyTargetEndpoint f =
     (case fl_direction f of INGRESS \<Rightarrow> fl_destination f | EGRESS \<Rightarrow> fl_source f | _ \<Rightarrow> None)"

definition buildDropEvent :: "externals \<Rightarrow> flow \<Rightarrow> DropClass \<Rightarrow> drop_event" where
  "buildDropEvent E f class =
     (let ep = policyTargetEndpoint f
      in \<lparr>dv_Reason = fl_drop_reason f, dv_Class = class,
          dv_Namespace = (case ep of Some e \<Rightarrow> if ep_namespace e \<noteq> [] then ep_namespace e else ''_unknown''
                          | None \<Rightarrow> ''_unknown''),
          dv_Workload = (case ep of Some e \<Rightarrow> if ep_labels e \<noteq> [] then WorkloadName E (ep_labels e) else ''_unknown''
                         | None \<Rightarrow> ''_unknown''),
          dv_NodeName = (if fl_node_name f = [] then ''_unknown'' else fl_node_name f)\<rparr>)"

definition flowL4ProtoName :: "flow \<Rightarrow> string" where
  "flowL4ProtoName f =
     (case fl_l4 f of
        Some (L4_TCP _) \<Rightarrow> ''tcp'' | Some (L4_UDP _) \<Rightarrow> ''udp'' | Some (L4_ICMPv4 _) \<Rightarrow> ''icmpv4''
      | Some (L4_ICMPv6 _) \<Rightarrow> ''icmpv6'' | Some (L4_SCTP _) \<Rightarrow> ''sctp'' | _ \<Rightarrow> [])"

definition reservedWarnKey :: "string list \<Rightarrow> flow \<Rightarrow> string" where
  "reservedWarnKey epLabels f =
     (case find (\<lambda>l. has_prefix l ''reserved:'') epLabels of None \<Rightarrow> [] | Some l \<Rightarrow> l)
     @ ''/'' @ direction_String (fl_direction f)"

definition actionableReserved :: "string list" where
  "actionableReserved = [''reserved:health'', ''reserved:host'', ''reserved:remote-node'',
     ''reserved:kube-apiserver'', ''reserved:ingress'']"

definition isActionableReserved :: "string list \<Rightarrow> bool" where
  "isActionableReserved epLabels \<longleftrightarrow> list_ex (\<lambda>l. l \<in> set actionableReserved) epLabels"

definition flowSummary :: "flow \<Rightarrow> string" where
  "flowSummary f =
     (case protoFields f of (port, proto) \<Rightarrow>
        direction_String (fl_direction f) @ '' '' @
        (if proto = ''unknown'' then ''unknown''
         else if proto = ''ICMPv4'' \<or> proto = ''ICMPv6'' then proto @ '' type='' @ port
         else proto @ ''/'' @ port))"

section \<open>Receiving a flow\<close>

abbreviation track_flow :: "externals \<Rightarrow> flow \<Rightarrow> UnhandledReason \<Rightarrow> aggregator \<Rightarrow> aggregator" where
  "track_flow E f r a \<equiv> a\<lparr>ag_tracker := track_state E f r (ag_tracker a)\<rparr>"

definition keyFromFlow :: "externals \<Rightarrow> flow \<Rightarrow> aggregator \<Rightarrow> agg_key option \<times> aggregator" where
  "keyFromFlow E f a =
     (case policyTargetEndpoint f of
        None \<Rightarrow>
          if fl_direction f \<noteq> INGRESS \<and> fl_direction f \<noteq> EGRESS then (None, track_flow E f ReasonUnknownDir a)
          else (None, track_flow E f ReasonNilEndpoint a)
      | Some ep \<Rightarrow>
          if ep_namespace ep = [] then
            if isActionableReserved (ep_labels ep) then
              (let warnKey = reservedWarnKey (ep_labels ep) f;
                   a1 = (if warnKey \<in> set (ag_warnedReserved a) then a
                         else a\<lparr>ag_warnedReserved := ag_warnedReserved a @ [warnKey],
                                ag_reservedLog := ag_reservedLog a @ [(ep_labels ep, flowSummary f)]\<rparr>)
               in (None, track_flow E f ReasonReservedID a1))
            else (None, track_flow E f ReasonEmptyNamespace a)
          else (Some \<lparr>ak_Namespace = ep_namespace ep, ak_Workload = WorkloadName E (ep_labels ep)\<rparr>, a))"

text \<open>The counters that every received flow feeds.\<close>

definition observe_flow :: "flow \<Rightarrow> aggregator \<Rightarrow> aggregator" where
  "observe_flow f a =
     a\<lparr>ag_l7HTTPCount := (if is_http f then ag_l7HTTPCount a + 1 else ag_l7HTTPCount a),
       ag_l7DNSCount := (if is_dns f then ag_l7DNSCount a + 1 else ag_l7DNSCount a),
       ag_auditVerdictCount := (if fl_verdict f = Verdict_AUDIT then ag_auditVerdictCount a + 1
                                else ag_auditVerdictCount a),
       ag_firstSeenByNamespace :=
         noteFirstSeen (Some (case ag_firstSeenByNamespace a of None \<Rightarrow> [] | Some m \<Rightarrow> m)) (Some f)\<rparr>"

text \<open>The name under which a flow is filtered out, if it is.\<close>

definition ignored_reason :: "string list \<Rightarrow> flow \<Rightarrow> string option" where
  "ignored_reason reasons f =
     (case drop_reason_name (fl_drop_reason f) of
        None \<Rightarrow> None
      | Some name \<Rightarrow> if name \<noteq> [] \<and> name \<in> set reasons then Some name else None)"

definition ignored_protocol :: "string list \<Rightarrow> flow \<Rightarrow> string option" where
  "ignored_protocol protos f =
     (let name = flowL4ProtoName f in if name \<noteq> [] \<and> name \<in> set protos then Some name else None)"

definition gated :: "bool \<Rightarrow> flow \<Rightarrow> bool" where
  "gated includeAudit f \<longleftrightarrow>
     (fl_verdict f = Verdict_DROPPED \<or> (includeAudit \<and> fl_verdict f = Verdict_AUDIT))
     \<and> fl_drop_reason f \<noteq> DROP_REASON_UNKNOWN"

text \<open>The outcome of the select around the send on the health channel.\<close>

datatype health_send = SendOK | SendFull | SendCancelled

type_synonym agg_buckets = "(agg_key \<times> flow list) list"

text \<open>Into a bucket, or out of the loop body.\<close>

definition bucket_or_skip :: "externals \<Rightarrow> flow \<Rightarrow> aggregator \<times> agg_buckets \<Rightarrow> aggregator \<times> agg_buckets" where
  "bucket_or_skip E f s =
     (case s of (a, bs) \<Rightarrow>
        case keyFromFlow E f a of
          (None, a1) \<Rightarrow> (a1, bs)
        | (Some key, a1) \<Rightarrow>
            (a1\<lparr>ag_flowsSeen := ag_flowsSeen a1 + 1,
                ag_seenWorkloads := add_new id (ak_Namespace key @ ''/'' @ ak_Workload key) (ag_seenWorkloads a1)\<rparr>,
             upsert key [] (\<lambda>fs. fs @ [f]) bs))"

text \<open>The event sent, whether the send found the context cancelled, and the state after.\<close>

definition suppress ::
  "externals \<Rightarrow> bool \<Rightarrow> health_send \<Rightarrow> flow \<Rightarrow> DropClass \<Rightarrow> aggregator \<Rightarrow> drop_event list \<times> bool \<times> aggregator" where
  "suppress E healthOn send f class a =
     (let a1 = a\<lparr>ag_flowsSeen := ag_flowsSeen a + 1,
                 ag_infraDrops := upsert (fl_drop_reason f) 0 (\<lambda>c. c + 1) (ag_infraDrops a)\<rparr>
      in if \<not> healthOn then ([], False, a1)
         else case send of
                SendOK \<Rightarrow> ([buildDropEvent E f class], False, a1)
              | SendCancelled \<Rightarrow> ([], True, a1)
              | SendFull \<Rightarrow> ([], False, a1\<lparr>ag_healthChDrops := ag_healthChDrops a1 + 1\<rparr>))"

definition receive ::
  "externals \<Rightarrow> bool \<Rightarrow> health_send \<Rightarrow> flow \<Rightarrow> aggregator \<times> agg_buckets
     \<Rightarrow> drop_event list \<times> bool \<times> aggregator \<times> agg_buckets" where
  "receive E healthOn send f s =
     (case s of (a0, bs) \<Rightarrow>
        let a = observe_flow f a0
        in case ignored_reason (ag_ignoreDropReasons a) f of
             Some name \<Rightarrow>
               ([], False, a\<lparr>ag_ignoredByDropReason := upsert name 0 (\<lambda>c. c + 1) (ag_ignoredByDropReason a)\<rparr>, bs)
           | None \<Rightarrow>
               (case ignored_protocol (ag_ignoreProtocols a) f of
                  Some name \<Rightarrow>
                    ([], False, a\<lparr>ag_ignoredByProtocol := upsert name 0 (\<lambda>c. c + 1) (ag_ignoredByProtocol a)\<rparr>, bs)
                | None \<Rightarrow>
                    if gated (ag_includeAudit a) f then
                      (case Classify (fl_drop_reason f) (ag_warn a) of
                         (class, _, w) \<Rightarrow>
                           let a1 = a\<lparr>ag_warn := w\<rparr>
                           in if class \<in> {DropClassInfra, DropClassTransient} then
                                (case suppress E healthOn send f class a1 of (evs, stop, a2) \<Rightarrow> (evs, stop, a2, bs))
                              else if class = DropClassNoise then ([], False, a1, bs)
                              else ([], False, bucket_or_skip E f (a1, bs)))
                    else ([], False, bucket_or_skip E f (a, bs))))"

section \<open>Flushing\<close>

definition agg_options :: "aggregator \<Rightarrow> attribution_options" where
  "agg_options a = \<lparr>ao_MaxSamples = ag_maxSamples a, ao_L7Enabled = ag_l7Enabled a,
     ao_MinFlowsPerL7Rule = ag_minFlowsPerL7Rule a, ao_DNSSelector = ag_dnsSelector a\<rparr>"

definition emit_bucket :: "externals \<Rightarrow> agg_key \<times> flow list \<Rightarrow> aggregator \<Rightarrow> policy_event \<times> aggregator" where
  "emit_bucket E b a =
     (case b of (key, flows) \<Rightarrow>
        case BuildPolicy E (ak_Namespace key) (ak_Workload key) flows (agg_options a) (ag_l7Collapse a) of
          (cnp, attrib, cs, log) \<Rightarrow>
            (\<lparr>ev_Namespace = ak_Namespace key, ev_Workload = ak_Workload key, ev_Policy = cnp, ev_Attribution = attrib,
              ev_ReplaceL7HTTP = (ag_l7Enabled a \<and> ag_l7Collapse a \<noteq> None)\<rparr>,
             a\<lparr>ag_l7Collapse := cs, ag_tracker := fold (\<lambda>(f, r). track_state E f r) log (ag_tracker a)\<rparr>))"

fun emit_buckets :: "externals \<Rightarrow> agg_buckets \<Rightarrow> aggregator \<Rightarrow> policy_event list \<times> aggregator" where
  "emit_buckets E [] a = ([], a)"
| "emit_buckets E (b # bs) a =
     (case emit_bucket E b a of (ev, a1) \<Rightarrow> case emit_buckets E bs a1 of (evs, a2) \<Rightarrow> (ev # evs, a2))"

text \<open>The argument lists the buckets in the order the map is iterated in; afterwards there are none.\<close>

definition flush :: "externals \<Rightarrow> agg_buckets \<Rightarrow> aggregator \<Rightarrow> policy_event list \<times> aggregator" where
  "flush E buckets a =
     (case emit_buckets E buckets a of
        (evs, a1) \<Rightarrow> (evs, a1\<lparr>ag_l7Collapse := map_option Absorb (ag_l7Collapse a1),
                             ag_tracker := snd (Flush (ag_tracker a1))\<rparr>))"

section \<open>The loop\<close>

record run_state =
  rn_agg :: aggregator
  rn_buckets :: agg_buckets
  rn_out :: "policy_event list"
  rn_health :: "drop_event list"
  rn_done :: bool

definition run_start :: "aggregator \<Rightarrow> run_state" where
  "run_start a = \<lparr>rn_agg = a, rn_buckets = [], rn_out = [], rn_health = [], rn_done = False\<rparr>"

definition flush_run :: "externals \<Rightarrow> agg_buckets \<Rightarrow> bool \<Rightarrow> run_state \<Rightarrow> run_state" where
  "flush_run E order stop s =
     (case flush E order (rn_agg s) of
        (evs, a) \<Rightarrow> s\<lparr>rn_agg := a, rn_buckets := [], rn_out := rn_out s @ evs, rn_done := stop\<rparr>)"

text \<open>What a step does, for the record: a flow received, a batch flushed.\<close>

datatype run_label = Received flow | Flushed agg_buckets | Aborted flow agg_buckets

text \<open>The rule Closed stands for both ends of the loop: the input channel is closed, the context is cancelled.\<close>

inductive run_step :: "externals \<Rightarrow> bool \<Rightarrow> run_state \<Rightarrow> run_label \<Rightarrow> run_state \<Rightarrow> bool"
  for E :: externals and healthOn :: bool where
  Receive: "\<not> rn_done s \<Longrightarrow> receive E healthOn send f (rn_agg s, rn_buckets s) = (evs, False, a, bs)
    \<Longrightarrow> run_step E healthOn s (Received f) (s\<lparr>rn_agg := a, rn_buckets := bs, rn_health := rn_health s @ evs\<rparr>)"
| Abort: "\<not> rn_done s \<Longrightarrow> receive E healthOn send f (rn_agg s, rn_buckets s) = (evs, True, a, bs)
    \<Longrightarrow> mset order = mset bs
    \<Longrightarrow> run_step E healthOn s (Aborted f order) (flush_run E order True (s\<lparr>rn_agg := a, rn_buckets := bs\<rparr>))"
| Tick: "\<not> rn_done s \<Longrightarrow> mset order = mset (rn_buckets s)
    \<Longrightarrow> run_step E healthOn s (Flushed order) (flush_run E order False s)"
| Closed: "\<not> rn_done s \<Longrightarrow> mset order = mset (rn_buckets s)
    \<Longrightarrow> run_step E healthOn s (Flushed order) (flush_run E order True s)"

inductive agg_run :: "externals \<Rightarrow> bool \<Rightarrow> run_state \<Rightarrow> run_label list \<Rightarrow> run_state \<Rightarrow> bool"
  for E :: externals and healthOn :: bool where
  Refl: "agg_run E healthOn s [] s"
| Snoc: "agg_run E healthOn s ls s' \<Longrightarrow> run_step E healthOn s' l s'' \<Longrightarrow> agg_run E healthOn s (ls @ [l]) s''"

section \<open>Lost events\<close>

record lost_state =
  lo_total :: u64
  lo_period :: u64
  lo_warnings :: "(u64 \<times> u64) list"
  lo_stored :: "u64 option"

definition lost_start :: lost_state where
  "lost_start = \<lparr>lo_total = 0, lo_period = 0, lo_warnings = [], lo_stored = None\<rparr>"

datatype lost_event = LostEvents u64 | LostTick | LostEnd

definition lost_step :: "lost_event \<Rightarrow> lost_state \<Rightarrow> lost_state" where
  "lost_step e s =
     (if lo_stored s \<noteq> None then s
      else case e of
             LostEvents n \<Rightarrow> s\<lparr>lo_period := lo_period s + n, lo_total := lo_total s + n\<rparr>
           | LostTick \<Rightarrow> if 0 < lo_period s
                         then s\<lparr>lo_warnings := lo_warnings s @ [(lo_period s, lo_total s)], lo_period := 0\<rparr> else s
           | LostEnd \<Rightarrow> s\<lparr>lo_stored := Some (lo_total s)\<rparr>)"

definition monitorLostEvents :: "lost_event list \<Rightarrow> lost_state" where
  "monitorLostEvents es = fold lost_step es lost_start"

end
