(* ===== verification/Health.thy ===== *)
theory Health
  imports PolicyWriter Aggregator
begin

text \<open>
  The report of cluster-critical drops: \<open>pkg/hubble/health_writer.go\<close> accumulates the drop
  events of the aggregator and writes \<open>cluster-health.json\<close>, \<open>health_reader.go\<close> reads it back,
  \<open>summary.go\<close> prints it.  The JSON codec is a parameter; the iteration order of the drop map is
  any order; where Go's sort is not stable the model keeps the given order of ties.
\<close>

section \<open>Accumulating\<close>

record health_drop_entry =
  he_reason :: drop_reason
  he_class :: DropClass
  he_count :: u64
  he_byNode :: "(string \<times> u64) list"
  he_byWorkload :: "(string \<times> u64) list"

record health_writer =
  hw_evidenceDir :: string
  hw_outputHash :: string
  hw_drops :: "(drop_reason \<times> health_drop_entry) list"
  hw_startedAt :: time
  hw_cachedSnapshot :: "health_drop_entry list option"

definition newHealthWriter :: "string \<Rightarrow> string \<Rightarrow> time \<Rightarrow> health_writer" where
  "newHealthWriter evidenceDir outputHash startedAt =
     \<lparr>hw_evidenceDir = evidenceDir, hw_outputHash = outputHash, hw_drops = [], hw_startedAt = startedAt,
      hw_cachedSnapshot = None\<rparr>"

definition or_unknown :: "string \<Rightarrow> string" where
  "or_unknown s = (if s = [] then ''_unknown'' else s)"

definition workload_key :: "drop_event \<Rightarrow> string" where
  "workload_key e = or_unknown (dv_Namespace e) @ ''/'' @ or_unknown (dv_Workload e)"

definition accumulate :: "drop_event \<Rightarrow> health_writer \<Rightarrow> health_writer" where
  "accumulate e hw =
     hw\<lparr>hw_drops :=
          upsert (dv_Reason e)
            \<lparr>he_reason = dv_Reason e, he_class = dv_Class e, he_count = 0, he_byNode = [], he_byWorkload = []\<rparr>
            (\<lambda>entry. entry\<lparr>he_count := he_count entry + 1,
               he_byNode := upsert (or_unknown (dv_NodeName e)) 0 (\<lambda>c. c + 1) (he_byNode entry),
               he_byWorkload := upsert (workload_key e) 0 (\<lambda>c. c + 1) (he_byWorkload entry)\<rparr>)
            (hw_drops hw)\<rparr>"

text \<open>
  A snapshot has the fields of an entry.  The first call fixes it (\<open>sync.Once\<close>); \<open>order\<close> lists
  the entries in the order the map is iterated in.  The writer may be nil.
\<close>

definition Snapshot :: "health_drop_entry list \<Rightarrow> health_writer option \<Rightarrow> health_drop_entry list \<times> health_writer option" where
  "Snapshot order hw =
     (case hw of
        None \<Rightarrow> ([], None)
      | Some w \<Rightarrow>
          (case hw_cachedSnapshot w of
             Some cache \<Rightarrow> (cache, hw)
           | None \<Rightarrow> (order, Some (w\<lparr>hw_cachedSnapshot := Some order\<rparr>))))"

section \<open>The report\<close>

record health_session =
  hs_Started :: time
  hs_Ended :: time
  hs_FlowsSeen :: u64
  hs_InfraDropTotal :: u64

record health_drop_json =
  hd_Reason :: string
  hd_Class :: string
  hd_Count :: u64
  hd_Remediation :: string
  hd_ByNode :: "(string \<times> u64) list"
  hd_ByWorkload :: "(string \<times> u64) list"

record cluster_health_report =
  hr_SchemaVersion :: int
  hr_ClassifierVersion :: string
  hr_Session :: health_session
  hr_Drops :: "health_drop_json list"

definition ClassifierVersion :: string where
  "ClassifierVersion = ''1.0.0-cilium1.19.5''"

text \<open>\<open>flowpb.DropReason_name[int32(r)]\<close>, empty for a missing key.\<close>

definition reason_name :: "drop_reason \<Rightarrow> string" where
  "reason_name r = (case drop_reason_name r of None \<Rightarrow> [] | Some n \<Rightarrow> n)"

definition drop_json :: "health_drop_entry \<Rightarrow> health_drop_json" where
  "drop_json e =
     \<lparr>hd_Reason = reason_name (he_reason e), hd_Class = DropClass_String (he_class e), hd_Count = he_count e,
      hd_Remediation = RemediationHint (he_reason e), hd_ByNode = he_byNode e, hd_ByWorkload = he_byWorkload e\<rparr>"

definition health_report :: "time \<Rightarrow> session_stats \<Rightarrow> health_drop_entry list \<Rightarrow> health_writer \<Rightarrow> cluster_health_report" where
  "health_report ended stats order hw =
     \<lparr>hr_SchemaVersion = 1, hr_ClassifierVersion = ClassifierVersion,
      hr_Session = \<lparr>hs_Started = hw_startedAt hw, hs_Ended = ended, hs_FlowsSeen = ss_FlowsSeen stats,
                    hs_InfraDropTotal = ss_InfraDropTotal stats\<rparr>,
      hr_Drops = map drop_json (sort_key (\<lambda>e. reason_name (he_reason e)) order)\<rparr>"

record report_codec =
  rc_marshal :: "cluster_health_report \<Rightarrow> string option"
  rc_unmarshal :: "string \<Rightarrow> cluster_health_report option"

datatype health_error = HealthEncode | HealthMkdir | HealthSys syscall
  | HealthNotExist | HealthUnreadable | HealthParse | HealthSchema int

definition health_path :: "health_writer \<Rightarrow> string" where
  "health_path hw = Join [hw_evidenceDir hw, hw_outputHash hw, ''cluster-health.json'']"

definition finalize_health ::
  "report_codec \<Rightarrow> os_oracle \<Rightarrow> time \<Rightarrow> session_stats \<Rightarrow> health_drop_entry list \<Rightarrow> health_writer option \<Rightarrow> files
     \<Rightarrow> health_error option \<times> files list" where
  "finalize_health R os ended stats order hw fs =
     (case hw of
        None \<Rightarrow> (None, [fs])
      | Some w \<Rightarrow>
          if hw_drops w = [] then (None, [fs])
          else case rc_marshal R (health_report ended stats order w) of
                 None \<Rightarrow> (Some HealthEncode, [fs])
               | Some out \<Rightarrow>
                   if os_fails os MkdirAll then (Some HealthMkdir, [fs])
                   else case write_atomic os False (health_path w) out fs of
                          (r, sts) \<Rightarrow> (map_option HealthSys r, sts))"

definition ReadClusterHealth :: "report_codec \<Rightarrow> os_oracle \<Rightarrow> string \<Rightarrow> files \<Rightarrow> health_error + cluster_health_report" where
  "ReadClusterHealth R os path fs =
     (if os_fails os ReadFile then Inl HealthUnreadable
      else case map_of fs path of
             None \<Rightarrow> Inl HealthNotExist
           | Some data \<Rightarrow>
               (case rc_unmarshal R data of
                  None \<Rightarrow> Inl HealthParse
                | Some report \<Rightarrow>
                    if hr_SchemaVersion report \<noteq> 1 then Inl (HealthSchema (hr_SchemaVersion report)) else Inr report))"

section \<open>The summary\<close>

definition minReasonNameWidth :: nat where "minReasonNameWidth = 38"
definition maxReasonNameWidth :: nat where "maxReasonNameWidth = 60"

datatype SummaryPathState = SummaryPathWritten | SummaryPathDryRun | SummaryPathEvidenceOff

text \<open>The classes in the order of their numbers.\<close>

fun class_number :: "DropClass \<Rightarrow> nat" where
  "class_number DropClassUnknown = 0"
| "class_number DropClassPolicy = 1"
| "class_number DropClassInfra = 2"
| "class_number DropClassTransient = 3"
| "class_number DropClassNoise = 4"

lemma class_number_inject: "class_number a = class_number b \<longleftrightarrow> a = b"
  by (cases a; cases b) simp_all

instantiation DropClass :: linorder
begin

definition less_eq_DropClass :: "DropClass \<Rightarrow> DropClass \<Rightarrow> bool" where
  "less_eq_DropClass a b \<longleftrightarrow> class_number a \<le> class_number b"

definition less_DropClass :: "DropClass \<Rightarrow> DropClass \<Rightarrow> bool" where
  "less_DropClass a b \<longleftrightarrow> class_number a < class_number b"

instance
  by standard (auto simp: less_eq_DropClass_def less_DropClass_def class_number_inject)

end

text \<open>The contributors shown, and how many are not: a boundary is moved past the entries tied with it.\<close>

definition top3_items :: "(string \<times> u64) list \<Rightarrow> (string \<times> u64) list \<times> nat" where
  "top3_items m =
     (let items = sort_key (\<lambda>(name, n). (- int (unat n), name)) m;
          limit0 = min 3 (length items);
          limit = (if limit0 = 0 then 0
                   else limit0 + length (takeWhile (\<lambda>(_, n). n = snd (items ! (limit0 - 1))) (drop limit0 items)))
      in (take limit items, length items - limit))"

definition top3 :: "(string \<times> u64) list \<Rightarrow> string" where
  "top3 m =
     (if m = [] then ''(none)''
      else case top3_items m of (shown, extra) \<Rightarrow>
             join '', '' (map (\<lambda>(name, n). name @ '' ('' @ format_uint (unat n) @ '')'') shown)
             @ (if 0 < extra then '' (+'' @ format_uint extra @ '' more)'' else []))"

definition pad_right :: "nat \<Rightarrow> string \<Rightarrow> string" where
  "pad_right w s = s @ replicate (w - length s) CHR '' ''"

definition summary_line :: "nat \<Rightarrow> health_drop_entry \<Rightarrow> string" where
  "summary_line reasonW s =
     ''  '' @ pad_right reasonW (reason_name (he_reason s)) @ '' ['' @ DropClass_String (he_class s) @ '']  ''
     @ format_uint (unat (he_count s)) @ '' flows'' @ [newline]"

definition summary_entry :: "nat \<Rightarrow> health_drop_entry \<Rightarrow> string" where
  "summary_entry reasonW s =
     summary_line reasonW s
     @ ''    Top nodes:     '' @ top3 (he_byNode s) @ [newline]
     @ ''    Top workloads: '' @ top3 (he_byWorkload s) @ [newline]
     @ (let hint = RemediationHint (he_reason s) in if hint \<noteq> [] then ''    Hint: '' @ hint @ [newline] else [])
     @ [newline]"

definition reason_width :: "health_drop_entry list \<Rightarrow> nat" where
  "reason_width snapshots =
     min maxReasonNameWidth
       (fold (\<lambda>s w. if w < length (reason_name (he_reason s)) then length (reason_name (he_reason s)) else w)
          snapshots minReasonNameWidth)"

definition path_line :: "string \<Rightarrow> SummaryPathState \<Rightarrow> string" where
  "path_line healthPath state =
     (case state of
        SummaryPathDryRun \<Rightarrow> ''cluster-health.json: '' @ healthPath @ '' (dry-run, not written)'' @ [newline]
      | SummaryPathEvidenceOff \<Rightarrow> ''cluster-health.json: (evidence disabled '' @ em_dash @ '' file not written)'' @ [newline]
      | SummaryPathWritten \<Rightarrow> ''cluster-health.json: '' @ healthPath @ [newline])"

definition summary_order :: "health_drop_entry list \<Rightarrow> health_drop_entry list" where
  "summary_order snapshots = sort_key (\<lambda>s. (he_class s, - int (unat (he_count s)))) snapshots"

text \<open>What is written to \<open>out\<close>; the frame is drawn with U+2501.\<close>

definition PrintClusterHealthSummary :: "health_drop_entry list \<Rightarrow> string \<Rightarrow> SummaryPathState \<Rightarrow> string" where
  "PrintClusterHealthSummary snapshots healthPath state =
     (if snapshots = [] then []
      else let reasonW = reason_width snapshots;
               frame = concat (replicate (reasonW + 28) [CHR 0xE2, CHR 0x94, CHR 0x81]) @ [newline]
           in frame @ ''! Cluster-critical drops detected (NOT a policy issue)'' @ [newline] @ frame
              @ concat (map (summary_entry reasonW) (summary_order snapshots))
              @ path_line healthPath state @ frame)"

section \<open>What is counted\<close>

abbreviation accumulate_all :: "drop_event list \<Rightarrow> health_writer \<Rightarrow> health_writer" where
  "accumulate_all es hw \<equiv> fold accumulate es hw"

text \<open>The entry a list of events leaves for a reason.\<close>

definition counts_events :: "drop_event list \<Rightarrow> drop_reason \<Rightarrow> health_drop_entry \<Rightarrow> bool" where
  "counts_events es r e \<longleftrightarrow>
     he_reason e = r \<and> he_class e = dv_Class (hd (filter (\<lambda>v. dv_Reason v = r) es))
     \<and> he_count e = of_nat (length (filter (\<lambda>v. dv_Reason v = r) es))
     \<and> (\<forall>n. get_or 0 (he_byNode e) n = of_nat (length (filter (\<lambda>v. dv_Reason v = r \<and> or_unknown (dv_NodeName v) = n) es)))
     \<and> (\<forall>w. get_or 0 (he_byWorkload e) w = of_nat (length (filter (\<lambda>v. dv_Reason v = r \<and> workload_key v = w) es)))"

lemma drops_accumulate:
  "distinct (map fst (hw_drops (accumulate v hw))) \<longleftrightarrow> distinct (map fst (hw_drops hw))"
  "fst ` set (hw_drops (accumulate v hw)) = insert (dv_Reason v) (fst ` set (hw_drops hw))"
  by (simp_all add: accumulate_def distinct_upsert fst_set_upsert)

lemma drops_accumulated:
  "distinct (map fst (hw_drops (accumulate_all es (newHealthWriter d h t))))
   \<and> fst ` set (hw_drops (accumulate_all es (newHealthWriter d h t))) = dv_Reason ` set es
   \<and> (\<forall>r e. map_of (hw_drops (accumulate_all es (newHealthWriter d h t))) r = Some e \<longrightarrow> counts_events es r e)"
proof (induction es rule: rev_induct)
  case Nil
  then show ?case by (simp add: newHealthWriter_def)
next
  case (snoc v es)
  let ?hw = "accumulate_all es (newHealthWriter d h t)"
  have none: "map_of (hw_drops ?hw) (dv_Reason v) = None \<longleftrightarrow> filter (\<lambda>x. dv_Reason x = dv_Reason v) es = []"
  proof -
    have k: "fst ` set (hw_drops ?hw) = dv_Reason ` set es" using snoc by simp
    show ?thesis unfolding map_of_eq_None_iff k filter_empty_conv by (metis imageE imageI)
  qed
  have "counts_events (es @ [v]) r e"
    if e: "map_of (hw_drops (accumulate v ?hw)) r = Some e" for r e
  proof (cases "r = dv_Reason v")
    case False
    with e have "map_of (hw_drops ?hw) r = Some e" by (simp add: accumulate_def map_of_upsert)
    with snoc have "counts_events es r e" by blast
    with False show ?thesis by (auto simp: counts_events_def)
  next
    case True
    show ?thesis
    proof (cases "map_of (hw_drops ?hw) r")
      case None
      then have f: "filter (\<lambda>x. dv_Reason x = r) es = []" using none True by simp
      then have f': "filter (\<lambda>x. dv_Reason x = r \<and> P x) es = []" for P by (auto simp: filter_empty_conv)
      from e None True f f' show ?thesis
        by (auto simp: counts_events_def accumulate_def map_of_upsert get_or_def)
    next
      case (Some old)
      then have c: "counts_events es r old" using snoc by blast
      have "filter (\<lambda>x. dv_Reason x = r) es \<noteq> []" using none Some True by auto
      with e Some True c show ?thesis
        by (auto simp: counts_events_def accumulate_def map_of_upsert get_or_upsert get_or_def)
    qed
  qed
  with snoc show ?case by (simp add: drops_accumulate)
qed

lemma sum_counts_accumulated:
  "sum_list (map (\<lambda>(_, e). he_count e) (hw_drops (accumulate_all es (newHealthWriter d h t)))) = of_nat (length es)"
proof -
  have step: "sum_list (map (\<lambda>(_, e). he_count e) (hw_drops (accumulate v hw)))
      = sum_list (map (\<lambda>(_, e). he_count e) (hw_drops hw)) + 1" for v hw
  proof -
    have "sum_list (map (\<lambda>(_, e). he_count e) (upsert k d0 f m)) = sum_list (map (\<lambda>(_, e). he_count e) m) + 1"
      if "he_count d0 = 0" "\<And>e. he_count (f e) = he_count e + 1" for k f and d0 :: health_drop_entry and m :: "(drop_reason \<times> health_drop_entry) list"
      using that by (induction k d0 f m rule: upsert.induct) auto
    then show ?thesis by (simp add: accumulate_def)
  qed
  show ?thesis by (induction es rule: rev_induct) (simp add: newHealthWriter_def, simp add: step)
qed

text \<open>The health report counts every drop event: for each reason there is an entry exactly when an event had
  it, and its count, its count per node and its count per workload are the numbers of events with that
  reason, from that node and for that workload; the counts of all entries add up to all events.\<close>

theorem accumulate_counts:
  "(case map_of (hw_drops (accumulate_all es (newHealthWriter d h t))) r of
      None \<Rightarrow> r \<notin> dv_Reason ` set es
    | Some e \<Rightarrow> r \<in> dv_Reason ` set es \<and> counts_events es r e)
   \<and> sum_list (map (\<lambda>(_, e). he_count e) (hw_drops (accumulate_all es (newHealthWriter d h t)))) = of_nat (length es)"
proof (cases "map_of (hw_drops (accumulate_all es (newHealthWriter d h t))) r")
  case None
  then have "r \<notin> fst ` set (hw_drops (accumulate_all es (newHealthWriter d h t)))" by (simp add: map_of_eq_None_iff)
  with None show ?thesis using drops_accumulated [of es d h t] by (simp add: sum_counts_accumulated)
next
  case (Some e)
  then have "r \<in> fst ` set (hw_drops (accumulate_all es (newHealthWriter d h t)))" by (force dest: map_of_SomeD)
  with Some show ?thesis using drops_accumulated [of es d h t] by (simp add: sum_counts_accumulated)
qed

section \<open>The report on disk\<close>

text \<open>Whether a report reads back as it was; it does when its strings are valid UTF-8.\<close>

definition reads_back :: "report_codec \<Rightarrow> cluster_health_report \<Rightarrow> bool" where
  "reads_back R p \<longleftrightarrow> (\<forall>d. rc_marshal R p = Some d \<longrightarrow> rc_unmarshal R d = Some p)"

text \<open>C30: The health report reads back: a run without drop events writes nothing and leaves every file as it is,
  the report of an earlier run included; otherwise a successful write of a report that JSON reads back as it
  was (its strings are valid UTF-8) leaves a report of the current schema whose drops are sorted by
  reason, add up to the drop events of the run and carry the session's totals; a failed write leaves
  the file as it was.\<close>

theorem health_report_reads_back:
  assumes "finalize_health R os ended stats order (Some hw) fs = (r, sts)"
    and "hw = accumulate_all es (newHealthWriter d h t)" and "mset order = mset (map snd (hw_drops hw))"
    and "reads_back R (health_report ended stats order hw)" and "\<not> os_fails os' ReadFile" and "health_path hw \<noteq> os_tmp os"
  shows "if es = [] then r = None \<and> sts = [fs]
    else if r = None then (\<exists>rep. ReadClusterHealth R os' (health_path hw) (hd sts) = Inr rep
       \<and> sorted (map hd_Reason (hr_Drops rep)) \<and> sum_list (map hd_Count (hr_Drops rep)) = of_nat (length es)
       \<and> hs_FlowsSeen (hr_Session rep) = ss_FlowsSeen stats \<and> hs_InfraDropTotal (hr_Session rep) = ss_InfraDropTotal stats)
    else map_of (hd sts) (health_path hw) = map_of fs (health_path hw)"
proof (cases "es = []")
  case True
  then show ?thesis using assms(1,2) by (simp add: finalize_health_def newHealthWriter_def)
next
  case False
  let ?rep = "health_report ended stats order hw"
  have drops: "hw_drops hw \<noteq> []" using False drops_accumulated [of es d h t] assms(2) by force
  have "sum_list (map hd_Count (hr_Drops ?rep)) = (\<Sum>e\<in>#mset order. he_count e)"
    by (simp add: health_report_def drop_json_def o_def flip: sum_mset_sum_list)
  also have "\<dots> = of_nat (length es)"
    using sum_counts_accumulated [of es d h t] assms(2,3)
    by (simp add: sum_mset_sum_list o_def case_prod_unfold flip: mset_map)
  finally have sum: "sum_list (map hd_Count (hr_Drops ?rep)) = of_nat (length es)" .
  have sorted: "sorted (map hd_Reason (hr_Drops ?rep))"
    by (simp add: health_report_def drop_json_def o_def)
  show ?thesis
  proof (cases "r = None")
    case True
    then obtain out where o: "rc_marshal R ?rep = Some out" "write_atomic os False (health_path hw) out fs = (None, sts)"
      using assms(1) drops by (auto simp: finalize_health_def split: option.splits if_splits prod.splits)
    have "map_of (hd sts) (health_path hw) = Some out" using atomic.success [OF o(2)] .
    then have "ReadClusterHealth R os' (health_path hw) (hd sts) = Inr ?rep"
      using o(1) assms(4,5) by (simp add: ReadClusterHealth_def reads_back_def health_report_def)
    then show ?thesis using False True sum sorted by (simp add: health_report_def)
  next
    case r: False
    have "map_of (hd sts) (health_path hw) = map_of fs (health_path hw)"
      using assms(1,6) r drops atomic.failure [of os False "health_path hw" _ fs _ sts]
      by (fastforce simp: finalize_health_def split: option.splits if_splits prod.splits)
    with False r show ?thesis by auto
  qed
qed

section \<open>The summary\<close>

text \<open>No contributor is hidden at a tie: the list of top contributors shows at least three of them, or all,
  in descending order of their counts, each of those it leaves out has a smaller count than every one
  it shows, and the number it gives for the others is exact.\<close>

theorem top3_items_boundary:
  "case top3_items m of (shown, extra) \<Rightarrow>
     (\<exists>hidden. mset m = mset shown + mset hidden \<and> length hidden = extra
        \<and> (\<forall>(_, a) \<in> set hidden. \<forall>(_, b) \<in> set shown. a < b))
     \<and> sorted (map (\<lambda>(_, n). - int (unat n)) shown) \<and> min 3 (length m) \<le> length shown"
proof -
  define items where "items = sort_key (\<lambda>(name, n). (- int (unat n), name)) m"
  define limit0 where "limit0 = min 3 (length items)"
  define same where "same = (if limit0 = 0 then [] else takeWhile (\<lambda>(_, n). n = snd (items ! (limit0 - 1))) (drop limit0 items))"
  define limit where "limit = limit0 + length same"
  have ms: "mset items = mset m" "length items = length m" by (simp_all add: items_def)
  have top: "top3_items m = (take limit items, length items - limit)"
    unfolding top3_items_def Let_def items_def [symmetric] limit0_def [symmetric] by (simp add: limit_def same_def)
  have "sorted (map (\<lambda>(name, n). (- int (unat n), name)) items)" unfolding items_def by simp
  then have so: "sorted (map (\<lambda>(_, n). - int (unat n)) items)"
    unfolding sorted_wrt_map by (rule sorted_wrt_mono_rel [rotated]) (auto simp: less_eq_prod_def)
  have so_nth: "unat (snd (items ! j)) \<le> unat (snd (items ! i))" if "i \<le> j" "j < length items" for i j
    using sorted_nth_mono [OF so that(1)] that by (simp add: case_prod_unfold) (metis word_le_def word_le_nat_alt)
  have le: "limit \<le> length items"
    using length_takeWhile_le [of "\<lambda>(_, n). n = snd (items ! (limit0 - 1))" "drop limit0 items"]
    by (auto simp: limit_def same_def limit0_def)
  have hidden: "snd (items ! j) < snd (items ! i)" if "i < limit" "limit \<le> j" "j < length items" for i j
  proof (cases "limit0 = 0")
    case True
    with that show ?thesis by (simp add: limit_def same_def)
  next
    case False
    let ?c = "snd (items ! (limit0 - 1))"
    have j0: "limit < length items" using that by simp
    have "length same < length (drop limit0 items)" using j0 by (simp add: limit_def limit0_def)
    then have "\<not> (\<lambda>(_, n). n = ?c) (drop limit0 items ! length same)"
      using False nth_length_takeWhile [of "\<lambda>(_, n). n = ?c" "drop limit0 items"] by (simp add: same_def)
    then have "snd (items ! limit) \<noteq> ?c"
      using False j0 by (simp add: limit_def limit0_def case_prod_unfold add.commute)
    moreover have "unat (snd (items ! limit)) \<le> unat ?c" using so_nth [of "limit0 - 1" limit] False j0 by (simp add: limit_def)
    ultimately have lt: "snd (items ! limit) < ?c" by (simp add: word_less_nat_alt word_unat_eq_iff)
    have "snd (items ! i) = ?c \<or> unat ?c \<le> unat (snd (items ! i))"
    proof (cases "i < limit0")
      case True
      moreover have "limit0 \<le> length items" by (simp add: limit0_def)
      ultimately have "i \<le> limit0 - 1" "limit0 - 1 < length items" using False by linarith+
      then show ?thesis using so_nth by blast
    next
      case i: False
      then have "i - limit0 < length same" using that(1) by (simp add: limit_def)
      then have "(\<lambda>(_, n). n = ?c) (same ! (i - limit0))"
        using nth_mem [of "i - limit0" same] set_takeWhileD [of _ "\<lambda>(_, n). n = ?c" "drop limit0 items"] False
        by (auto simp: same_def)
      moreover have "same ! (i - limit0) = items ! i"
        using \<open>i - limit0 < length same\<close> i that False
        by (simp add: same_def takeWhile_nth limit0_def)
      ultimately show ?thesis by (simp add: case_prod_unfold)
    qed
    then have "unat ?c \<le> unat (snd (items ! i))" by auto
    with lt so_nth [OF that(2,3)] show ?thesis by (simp add: word_less_nat_alt)
  qed
  have "\<forall>(_, a) \<in> set (drop limit items). \<forall>(_, b) \<in> set (take limit items). a < b"
  proof -
    have "a < b" if d: "(x, a) \<in> set (drop limit items)" and t: "(y, b) \<in> set (take limit items)" for x a y b
    proof -
      obtain i where "i < limit" "items ! i = (y, b)" using t le by (auto simp: in_set_conv_nth)
      moreover obtain j where "j < length items - limit" "items ! (limit + j) = (x, a)"
        using d le by (auto simp: in_set_conv_nth)
      ultimately show ?thesis using hidden [of i "limit + j"] by simp
    qed
    then show ?thesis by auto
  qed
  moreover have "mset m = mset (take limit items) + mset (drop limit items)"
    unfolding ms(1) [symmetric] by (metis append_take_drop_id mset_append)
  moreover have "sorted (map (\<lambda>(_, n). - int (unat n)) (take limit items))"
    using so by (simp only: take_map [symmetric] sorted_wrt_take)
  moreover have "min 3 (length m) \<le> length (take limit items)"
    using le by (simp add: limit_def limit0_def ms(2))
  ultimately show ?thesis unfolding top by (auto intro!: exI [of _ "drop limit items"])
qed

text \<open>The printed summary is complete: nothing is printed exactly when there are no drops, and otherwise the
  output contains, for every snapshot, a line with the full name of its reason, its class and its count.\<close>

theorem summary_reports_all:
  "(PrintClusterHealthSummary snapshots path state = [] \<longleftrightarrow> snapshots = [])
   \<and> list_all (\<lambda>s. \<exists>pre post w.
        PrintClusterHealthSummary snapshots path state = pre @ summary_line w s @ post
        \<and> summary_line w s = ''  '' @ reason_name (he_reason s) @ replicate (w - length (reason_name (he_reason s))) CHR '' ''
            @ '' ['' @ DropClass_String (he_class s) @ '']  '' @ format_uint (unat (he_count s)) @ '' flows'' @ [newline]) snapshots"
proof -
  let ?w = "reason_width snapshots"
  let ?frame = "concat (replicate (?w + 28) [CHR 0xE2, CHR 0x94, CHR 0x81]) @ [newline]"
  have "\<exists>pre post. PrintClusterHealthSummary snapshots path state = pre @ summary_line ?w s @ post"
    if s: "s \<in> set snapshots" for s
  proof -
    have "s \<in> set (summary_order snapshots)" using s by (simp add: summary_order_def)
    then obtain xs ys where o: "summary_order snapshots = xs @ s # ys" by (auto simp: in_set_conv_decomp)
    obtain tl where e: "summary_entry ?w s = summary_line ?w s @ tl" by (simp add: summary_entry_def)
    have "snapshots \<noteq> []" using s by auto
    then show ?thesis
      by (intro exI [of _ "?frame @ ''! Cluster-critical drops detected (NOT a policy issue)'' @ [newline] @ ?frame
          @ concat (map (summary_entry ?w) xs)"]
        exI [of _ "tl @ concat (map (summary_entry ?w) ys) @ path_line path state @ ?frame"])
        (simp add: PrintClusterHealthSummary_def Let_def o e)
  qed
  moreover have "PrintClusterHealthSummary snapshots path state = [] \<longleftrightarrow> snapshots = []"
    by (simp add: PrintClusterHealthSummary_def Let_def)
  moreover have "summary_line w s = ''  '' @ reason_name (he_reason s) @ replicate (w - length (reason_name (he_reason s))) CHR '' ''
      @ '' ['' @ DropClass_String (he_class s) @ '']  '' @ format_uint (unat (he_count s)) @ '' flows'' @ [newline]" for w s
    by (simp add: summary_line_def pad_right_def)
  ultimately show ?thesis unfolding list_all_iff by blast
qed

definition demo_drop :: drop_event where
  "demo_drop = \<lparr>dv_Reason = DropReason ''CT_MAP_INSERTION_FAILED'', dv_Class = DropClassInfra, dv_Namespace = ''prod'',
     dv_Workload = ''api'', dv_NodeName = ''node-1''\<rparr>"

definition demo_health :: health_writer where
  "demo_health = accumulate_all [demo_drop, demo_drop] (newHealthWriter ''/ev'' ''h'' 1)"

definition demo_report_codec :: report_codec where
  "demo_report_codec = (let rep = health_report 9 (new_stats 1 ''/out'') (map snd (hw_drops demo_health)) demo_health
     in \<lparr>rc_marshal = (\<lambda>p. if p = rep then Some ''report'' else None), rc_unmarshal = (\<lambda>d. if d = ''report'' then Some rep else None)\<rparr>)"

definition demo_health_os :: os_oracle where
  "demo_health_os = \<lparr>os_fails = (\<lambda>_. False), os_tmp = ''/ev/h/cluster-health.json.tmp-1'', os_partial = []\<rparr>"

theorem health_report_reads_back_witness:
  "\<exists>rep. ReadClusterHealth demo_report_codec demo_health_os ''/ev/h/cluster-health.json''
      (hd (snd (finalize_health demo_report_codec demo_health_os 9 (new_stats 1 ''/out'') (map snd (hw_drops demo_health)) (Some demo_health) []))) = Inr rep
    \<and> sum_list (map hd_Count (hr_Drops rep)) = 2"
proof -
  let ?order = "map snd (hw_drops demo_health)"
  let ?w = "finalize_health demo_report_codec demo_health_os 9 (new_stats 1 ''/out'') ?order (Some demo_health) []"
  have p: "health_path demo_health = ''/ev/h/cluster-health.json''" by code_simp
  have ne: "hw_drops demo_health \<noteq> []" by (simp add: demo_health_def accumulate_def newHealthWriter_def)
  have "fst ?w = None"
    using ne by (simp add: finalize_health_def demo_report_codec_def Let_def demo_health_os_def write_atomic_def)
  then have w: "?w = (None, snd ?w)" by (metis prod.collapse)
  have R: "reads_back demo_report_codec (health_report 9 (new_stats 1 ''/out'') ?order demo_health)"
    by (simp add: reads_back_def demo_report_codec_def Let_def)
  have o: "\<not> os_fails demo_health_os ReadFile" "health_path demo_health \<noteq> os_tmp demo_health_os"
    unfolding p by (simp_all add: demo_health_os_def)
  show ?thesis
    using health_report_reads_back [OF w demo_health_def refl R o] by (auto simp: p)
qed

end
