(* ===== verification/OnDisk.thy ===== *)
theory OnDisk
  imports PolicyWriter
begin

text \<open>
  The policy writer above the policy files: what a reader finds on disk after a run of the
  writer grants what every policy the run was given grants.
\<close>

section \<open>What the comparison and the annotation preserve\<close>

text \<open>Two rules grant the same, and one grants at least what the other does.\<close>

definition grants_within :: "externals \<Rightarrow> rule \<Rightarrow> rule \<Rightarrow> bool" where
  "grants_within E r s \<longleftrightarrow> ingress_grants E r \<subseteq> ingress_grants E s \<and> egress_grants E r \<subseteq> egress_grants E s"

lemma grants_within_refl [simp]: "grants_within E r r"
  by (simp add: grants_within_def)

lemma grants_within_trans: "grants_within E r s \<Longrightarrow> grants_within E s t \<Longrightarrow> grants_within E r t"
  by (auto simp: grants_within_def)

lemma port_entries_sorted: "port_entries (map sort_port_rule prs) = port_entries prs"
proof -
  have "rule_entries k (sortL7Rules rules) = rule_entries k rules" for k rules
    by (simp add: rule_entries_def sortL7Rules_def split: option.split)
  then show ?thesis by (simp add: port_entries_def sort_port_rule_def sortPorts_def)
qed

lemma normalizeRule_grants:
  "ingress_grants E (normalizeRule r) = ingress_grants E r" "egress_grants E (normalizeRule r) = egress_grants E r"
  by (simp_all add: normalizeRule_def ingress_grants_def egress_grants_def port_entries_sorted
      ingress_peer_def egress_peer_def)

text \<open>The keys that a comment spells out have no line breaks.\<close>

definition one_line_entry :: "entry \<Rightarrow> bool" where
  "one_line_entry e = (case e of EPort k \<Rightarrow> newline \<notin> set k | EIcmp k \<Rightarrow> newline \<notin> set k | _ \<Rightarrow> True)"

lemma newline_join: "newline \<notin> set sep \<Longrightarrow> newline \<notin> set (join sep xs) \<longleftrightarrow> (\<forall>x \<in> set xs. newline \<notin> set x)"
  by (induction sep xs rule: join.induct) auto

lemma newline_describeTraffic:
  "newline \<notin> set (describeTraffic ports icmps) \<longleftrightarrow> (\<forall>e \<in> port_entries ports \<union> icmp_entries icmps. one_line_entry e)"
proof -
  let ?parts = "concat (map (\<lambda>pr. map (\<lambda>p. pp_Protocol p @ ''/'' @ pp_Port p) (pr_Ports pr)) ports)
                  @ concat (map (map describe_icmp) icmps)"
  have "newline \<notin> set (describeTraffic ports icmps) \<longleftrightarrow> (\<forall>x \<in> set ?parts. newline \<notin> set x)"
  proof (cases "?parts = []")
    case True
    then show ?thesis by (simp add: describeTraffic_def Let_def) (auto simp: newline_def)
  next
    case False
    have t: "describeTraffic ports icmps = join '', '' ?parts"
      unfolding describeTraffic_def Let_def using False by (rule if_not_P)
    show ?thesis unfolding t by (rule newline_join) (simp add: newline_def)
  qed
  also have "\<dots> \<longleftrightarrow> (\<forall>pr \<in> set ports. \<forall>p \<in> set (pr_Ports pr). newline \<notin> set (port_key p))
      \<and> (\<forall>is \<in> set icmps. \<forall>f \<in> set is. newline \<notin> set (icmpFieldKey f))"
  proof -
    have p: "newline \<notin> set (port_key p) \<longleftrightarrow> newline \<notin> set (pp_Protocol p @ ''/'' @ pp_Port p)" for p
      by (auto simp: port_key_def)
    have i: "newline \<notin> set (icmpFieldKey f) \<longleftrightarrow> newline \<notin> set (describe_icmp f)" for f
      by (auto simp: describe_icmp_def icmpFieldKey_def newline_def split: option.split)
    have "(\<forall>x \<in> set ?parts. Q x) \<longleftrightarrow>
        (\<forall>pr \<in> set ports. \<forall>p \<in> set (pr_Ports pr). Q (pp_Protocol p @ ''/'' @ pp_Port p))
        \<and> (\<forall>is \<in> set icmps. \<forall>f \<in> set is. Q (describe_icmp f))" for Q
      by (simp add: ball_Un)
    then show ?thesis unfolding p i .
  qed
  also have "\<dots> \<longleftrightarrow> (\<forall>e \<in> port_entries ports \<union> icmp_entries icmps. one_line_entry e)"
  proof -
    have "(\<forall>e \<in> rule_entries k rules. one_line_entry e) \<longleftrightarrow> newline \<notin> set k" for k rules
      by (auto simp: rule_entries_def one_line_entry_def split: option.split)
    moreover have "one_line_entry (EIcmp k) \<longleftrightarrow> newline \<notin> set k" for k
      by (simp add: one_line_entry_def)
    ultimately show ?thesis by (simp add: port_entries_def icmp_entries_def ball_Un)
  qed
  finally show ?thesis .
qed

lemma newline_describe_rule:
  "newline \<notin> set (describeIngressRule r) \<longleftrightarrow>
     (\<forall>e \<in> port_entries (ir_ToPorts r) \<union> icmp_entries (ir_ICMPs r). one_line_entry e)
     \<and> newline \<notin> set (describePeer (ir_FromEndpoints r) (ir_FromEntities r) (ir_FromCIDR r) ''from'')"
  "newline \<notin> set (describeEgressRule q) \<longleftrightarrow>
     (\<forall>e \<in> port_entries (er_ToPorts q) \<union> icmp_entries (er_ICMPs q). one_line_entry e)
     \<and> newline \<notin> set (describePeer (er_ToEndpoints q) (er_ToEntities q) (er_ToCIDR q) ''to'')"
  using newline_describeTraffic
  by (auto simp: describeIngressRule_def describeEgressRule_def newline_def)

text \<open>What holds of all rules of two policies, and of what combining two of them gives, holds after a merge.\<close>

lemma merge_first_all:
  "list_all P rs \<Longrightarrow> P r \<Longrightarrow> (\<And>x y. P x \<Longrightarrow> P y \<Longrightarrow> P (comb x y)) \<Longrightarrow> list_all P (merge_first matches comb r rs)"
  by (induction rs) auto

lemma merge_all_all:
  "list_all P rs \<Longrightarrow> list_all P inc \<Longrightarrow> (\<And>x y. P x \<Longrightarrow> P y \<Longrightarrow> P (comb x y)) \<Longrightarrow>
     list_all P (fold (merge_first matches comb) inc rs)"
  by (induction inc arbitrary: rs) (auto intro: merge_first_all)

lemma one_line_merge_spec:
  assumes "one_line_rules r" and "one_line_rules s"
  shows "one_line_rules (merge_spec E False r s)"
proof -
  have i: "newline \<notin> set (describeIngressRule x) \<Longrightarrow> newline \<notin> set (describeIngressRule y)
      \<Longrightarrow> newline \<notin> set (describeIngressRule (merge_ingress False x y))" for x y
    by (simp add: newline_describe_rule merge_ingress_def port_entries_mergePortRules icmp_entries_mergeICMPRules ball_Un)
  have e: "newline \<notin> set (describeEgressRule x) \<Longrightarrow> newline \<notin> set (describeEgressRule y)
      \<Longrightarrow> newline \<notin> set (describeEgressRule (merge_egress False x y))" for x y
    by (simp add: newline_describe_rule merge_egress_def port_entries_mergePortRules icmp_entries_mergeICMPRules ball_Un)
  show ?thesis
    using assms merge_all_all [of "\<lambda>r. newline \<notin> set (describeIngressRule r)", OF _ _ i]
      merge_all_all [of "\<lambda>r. newline \<notin> set (describeEgressRule r)", OF _ _ e]
    by (simp add: one_line_rules_def merge_spec_def list.pred_map o_def)
qed

section \<open>One write\<close>

text \<open>
  What the writer expects of the codec: text that differs from the YAML of a policy in comment
  lines only is read back, as a policy that grants the same (label keys may be normalised) and
  whose names have no more line breaks than before.
\<close>

definition lossless :: "externals \<Rightarrow> yaml_codec \<Rightarrow> bool" where
  "lossless E Y \<longleftrightarrow>
     (\<forall>p data d. ya_marshal Y p = Some data \<and> stripComments d = stripComments data \<longrightarrow>
        (\<exists>q. ya_unmarshal Y d = Some q \<and> ingress_grants E (spec_of q) = ingress_grants E (spec_of p)
           \<and> egress_grants E (spec_of q) = egress_grants E (spec_of p)
           \<and> (one_line_rules (spec_of p) \<longrightarrow> one_line_rules (spec_of q))))"

text \<open>And of the serialisation of rules: equal bytes, equal grants.\<close>

definition faithful_marshal :: "externals \<Rightarrow> (rule \<Rightarrow> string option) \<Rightarrow> bool" where
  "faithful_marshal E M \<longleftrightarrow>
     (\<forall>r s d. M r = Some d \<and> M s = Some d \<longrightarrow>
        ingress_grants E r = ingress_grants E s \<and> egress_grants E r = egress_grants E s)"

text \<open>The file of a workload is read as a policy that grants at least what the given one does.\<close>

definition on_disk :: "externals \<Rightarrow> yaml_codec \<Rightarrow> string \<Rightarrow> cnp \<Rightarrow> files \<Rightarrow> bool" where
  "on_disk E Y path p fs \<longleftrightarrow>
     (\<exists>data q. map_of fs path = Some data \<and> ya_unmarshal Y data = Some q \<and> grants_within E (spec_of p) (spec_of q))"

text \<open>No file the codec reads has a line break in a name.\<close>

definition tidy :: "yaml_codec \<Rightarrow> files \<Rightarrow> bool" where
  "tidy Y fs \<longleftrightarrow> (\<forall>path data q. map_of fs path = Some data \<and> ya_unmarshal Y data = Some q \<longrightarrow> one_line_rules (spec_of q))"

lemma one_line_rules_spec_of:
  "one_line_rules (spec_of p) \<longleftrightarrow> (case cnp_Spec p of None \<Rightarrow> True | Some r \<Rightarrow> one_line_rules r)"
  by (simp add: spec_of_def one_line_rules_def split: option.split)

lemma one_line_merge:
  assumes "one_line_rules (spec_of p)" and "one_line_rules (spec_of q)"
  shows "one_line_rules (spec_of (MergePolicyWithOptions E p q \<lparr>mo_ReplaceL7HTTP = False\<rparr>))"
  using assms one_line_merge_spec
  by (auto simp: one_line_rules_spec_of MergePolicyWithOptions_def split: option.split)

lemma grants_within_merge:
  "grants_within E (spec_of p) (spec_of (MergePolicyWithOptions E p q \<lparr>mo_ReplaceL7HTTP = False\<rparr>))"
  "grants_within E (spec_of q) (spec_of (MergePolicyWithOptions E p q \<lparr>mo_ReplaceL7HTTP = False\<rparr>))"
proof -
  have "ingress_grants E (spec_of (MergePolicyWithOptions E p q \<lparr>mo_ReplaceL7HTTP = False\<rparr>))
      = ingress_grants E (spec_of p) \<union> ingress_grants E (spec_of q)
    \<and> egress_grants E (spec_of (MergePolicyWithOptions E p q \<lparr>mo_ReplaceL7HTTP = False\<rparr>))
      = egress_grants E (spec_of p) \<union> egress_grants E (spec_of q)"
  proof -
    have "ingress_grants E \<lparr>ru_EndpointSelector = s, ru_Ingress = [], ru_Egress = [],
            ru_DefaultDenyIngress = i, ru_DefaultDenyEgress = e\<rparr> = {}"
      "egress_grants E \<lparr>ru_EndpointSelector = s, ru_Ingress = [], ru_Egress = [],
            ru_DefaultDenyIngress = i, ru_DefaultDenyEgress = e\<rparr> = {}" for s i e
      by (simp_all add: ingress_grants_def egress_grants_def)
    then show ?thesis
      by (simp add: MergePolicyWithOptions_def spec_of_def grants_merge_spec split: option.split)
  qed
  then show "grants_within E (spec_of p) (spec_of (MergePolicyWithOptions E p q \<lparr>mo_ReplaceL7HTTP = False\<rparr>))"
    "grants_within E (spec_of q) (spec_of (MergePolicyWithOptions E p q \<lparr>mo_ReplaceL7HTTP = False\<rparr>))"
    by (simp_all add: grants_within_def)
qed

lemma stripComments_idem [simp]: "stripComments (stripComments d) = stripComments d"
proof -
  let ?ls = "filter (\<lambda>l. \<not> comment_line l) (split_on newline d)"
  have "split_on newline (join [newline] ?ls) = (if ?ls = [] then [[]] else ?ls)"
    using split_on_join [of ?ls newline] split_on_parts [of _ newline d] by auto
  then show ?thesis by (simp add: stripComments_def split: if_splits)
qed

text \<open>A successful write puts on disk a policy that holds the event's and what was there.\<close>

lemma Write_on_disk:
  assumes w: "Write E Y os dir ev fs = (None, sts)" and tmp: "event_path dir ev \<noteq> os_tmp os"
    and Y: "lossless E Y" and tidy: "tidy Y fs"
    and ev: "one_line_rules (spec_of (ev_Policy ev))" "\<not> ev_ReplaceL7HTTP ev"
  shows "\<exists>data q. map_of (hd sts) (event_path dir ev) = Some data \<and> ya_unmarshal Y data = Some q
    \<and> one_line_rules (spec_of q) \<and> grants_within E (spec_of (ev_Policy ev)) (spec_of q)
    \<and> (\<forall>p. on_disk E Y (event_path dir ev) p fs \<longrightarrow> grants_within E (spec_of p) (spec_of q))"
proof -
  let ?path = "event_path dir ev" and ?p = "ev_Policy ev"
  have ro: "\<lparr>mo_ReplaceL7HTTP = ev_ReplaceL7HTTP ev\<rparr> = \<lparr>mo_ReplaceL7HTTP = False\<rparr>" using ev(2) by simp
  have read: "\<exists>data q. map_of (hd sts) ?path = Some data \<and> ya_unmarshal Y data = Some q
      \<and> one_line_rules (spec_of q) \<and> grants_within E (spec_of m) (spec_of q)"
    if m: "ya_marshal Y m = Some data" "one_line_rules (spec_of m)"
      "map_of (hd sts) ?path = Some d" "stripComments d = stripComments data" for m data d
    using Y m unfolding lossless_def grants_within_def by blast
  have ann: "stripComments (annotateRules data (cnp_Spec m)) = stripComments data" if "one_line_rules (spec_of m)" for m data
    using that stripComments_annotate [of "cnp_Spec m" data] by (simp add: one_line_rules_spec_of)
  have v: "ValidatePolicyRef (ev_Namespace ev) (ev_Workload ev) = None" "\<not> os_fails os MkdirAll" "\<not> os_fails os ReadFile"
    using w by (auto simp: Write_def readExistingPolicy_def split: option.splits if_splits)
  show ?thesis
  proof (cases "map_of fs ?path")
    case None
    then obtain data where d: "ya_marshal Y ?p = Some data" "write_policy_file os ?path data (cnp_Spec ?p) fs = (None, sts)"
      using w v by (auto simp: Write_def readExistingPolicy_def split: option.splits)
    from read [OF d(1) ev(1) write_policy_file_states(4) [OF d(2) refl] ann [OF ev(1)]] None
    show ?thesis by (auto simp: on_disk_def)
  next
    case (Some old)
    obtain ex where ex: "ya_unmarshal Y old = Some ex"
      using w v Some by (auto simp: Write_def readExistingPolicy_def split: option.splits)
    have "one_line_rules (spec_of ex)" using tidy Some ex by (auto simp: tidy_def)
    define m where "m = MergePolicyWithOptions E ex ?p \<lparr>mo_ReplaceL7HTTP = False\<rparr>"
    have m: "one_line_rules (spec_of m)" "grants_within E (spec_of ex) (spec_of m)" "grants_within E (spec_of ?p) (spec_of m)"
      unfolding m_def by (rule one_line_merge [OF \<open>one_line_rules (spec_of ex)\<close> ev(1)] grants_within_merge)+
    obtain data d where d: "ya_marshal Y m = Some data" "map_of (hd sts) ?path = Some d" "stripComments d = stripComments data"
    proof -
      from w v Some ex ro obtain data where d: "ya_marshal Y m = Some data"
        by (auto simp: Write_def readExistingPolicy_def Let_def m_def split: option.splits)
      show ?thesis
      proof (cases "\<not> os_fails os ReadAgain \<and> map_option stripComments (map_of fs ?path) = Some data")
        case True
        then have "sts = [fs]" using w v Some ex ro d by (simp add: Write_def readExistingPolicy_def Let_def m_def)
        with True Some d that [of data old] show ?thesis by auto
      next
        case False
        then have f: "write_policy_file os ?path data (cnp_Spec m) fs = (None, sts)"
          using w v Some ex ro d by (auto simp: Write_def readExistingPolicy_def Let_def m_def)
        show ?thesis by (rule that [OF d write_policy_file_states(4) [OF f refl] ann [OF m(1)]])
      qed
    qed
    from read [OF d(1) m(1) d(2,3)] obtain data' q where q: "map_of (hd sts) ?path = Some data'" "ya_unmarshal Y data' = Some q"
      "one_line_rules (spec_of q)" "grants_within E (spec_of m) (spec_of q)" by blast
    moreover have "grants_within E (spec_of p) (spec_of q)" if "on_disk E Y ?path p fs" for p
      using that Some ex grants_within_trans [OF grants_within_trans [OF _ m(2)] q(4)] by (auto simp: on_disk_def)
    ultimately show ?thesis using grants_within_trans [OF m(3) q(4)] by blast
  qed
qed

section \<open>A run of the writer\<close>

lemma equivalent_grants:
  assumes "equivalent W p pe" and "faithful_marshal E (we_marshal_rule W)"
  shows "grants_within E (spec_of (ev_Policy pe)) (spec_of p)"
proof -
  let ?q = "ev_Policy pe"
  have eq: "PoliciesEquivalent (we_marshal_rule W) (Some p) (Some ?q) = Inr True"
    using assms(1) by (simp add: equivalent_def split: sum.splits)
  show ?thesis
  proof (cases "cnp_Spec p")
    case None
    then have "cnp_Spec ?q = None" using eq by (simp add: PoliciesEquivalent_def split: option.splits)
    with None show ?thesis by (simp add: spec_of_def)
  next
    case (Some r)
    then obtain s d where s: "cnp_Spec ?q = Some s"
      and d: "we_marshal_rule W (normalizeRule r) = Some d" "we_marshal_rule W (normalizeRule s) = Some d"
      using eq by (auto simp: PoliciesEquivalent_def split: option.splits)
    from assms(2) d have "ingress_grants E (normalizeRule r) = ingress_grants E (normalizeRule s)
        \<and> egress_grants E (normalizeRule r) = egress_grants E (normalizeRule s)"
      unfolding faithful_marshal_def by blast
    with Some s show ?thesis by (simp add: grants_within_def spec_of_def normalizeRule_grants)
  qed
qed

lemma dedup_key_inject:
  assumes "ValidatePolicyRef (ev_Namespace a) (ev_Workload a) = None" and "dedup_key a = dedup_key b"
  shows "ev_Namespace a = ev_Namespace b \<and> ev_Workload a = ev_Workload b"
proof -
  have n: "CHR ''/'' \<notin> set (ev_Namespace a)" "CHR ''/'' \<notin> set (ev_Workload a)"
    using assms(1) by (simp_all add: ValidatePolicyRef_None valid_component)
  have "split_on CHR ''/'' (dedup_key a) = [ev_Namespace a, ev_Workload a]"
    using n by (simp add: dedup_key_def split_on_append_sep split_on_no_sep)
  then have "split_on CHR ''/'' (dedup_key b) = [ev_Namespace a, ev_Workload a]"
    by (simp only: assms(2))
  moreover have "count_list (dedup_key a) CHR ''/'' = 1"
    using n by (simp add: dedup_key_def)
  then have "count_list (dedup_key b) CHR ''/'' = 1" by (simp only: assms(2))
  then have "CHR ''/'' \<notin> set (ev_Namespace b)" "CHR ''/'' \<notin> set (ev_Workload b)"
    by (simp_all add: dedup_key_def count_list_0_iff)
  ultimately show ?thesis by (simp add: dedup_key_def split_on_append_sep split_on_no_sep)
qed

lemma Write_success_temp:
  assumes "Write E Y os dir ev fs = (None, sts)" and "event_path dir ev \<noteq> os_tmp os"
  shows "hd sts = fs \<or> map_of (hd sts) (os_tmp os) = None"
  using assms(1)
proof (cases rule: Write_cases)
  case (Updated p data)
  then show ?thesis using assms(2)
    by (auto simp: write_policy_file_def write_atomic_def Let_def map_of_upsert map_of_unlink split: if_splits)
qed simp

lemma Write_success_others:
  assumes "Write E Y os dir ev fs = (None, sts)" and "q \<noteq> event_path dir ev" and "q \<noteq> os_tmp os"
  shows "map_of (hd sts) q = map_of fs q"
  using assms(1)
proof (cases rule: Write_cases)
  case (Updated p data)
  with write_policy_file_states(1,2) [OF Updated(4)] assms(2,3) show ?thesis by (metis list.set_sel(1))
qed simp

text \<open>The invariant: every event handled so far is on disk, and the written history consists of such events.\<close>

definition writer_inv :: "writer_env \<Rightarrow> string \<Rightarrow> policy_event set \<Rightarrow> policy_writer \<times> files \<Rightarrow> bool" where
  "writer_inv W dir seen st \<longleftrightarrow> (case st of (w, fs) \<Rightarrow>
     pw_outputDir w = dir \<and> pw_clusterPolicies w = None \<and> \<not> pw_dryRun w \<and> tidy (we_yaml W) fs
     \<and> (\<forall>pe \<in> seen. on_disk (we_externals W) (we_yaml W) (event_path dir pe) (ev_Policy pe) fs)
     \<and> (\<forall>k p. map_of (pw_written w) k = Some p \<longrightarrow>
          (\<exists>pe \<in> seen. k = dedup_key pe \<and> p = ev_Policy pe \<and> ValidatePolicyRef (ev_Namespace pe) (ev_Workload pe) = None)))"

lemma writer_inv_step:
  assumes inv: "writer_inv W dir seen (w, fs)" and ok: "outcome_of W os pe (w, fs) \<noteq> WriteFailed"
    and Y: "lossless (we_externals W) (we_yaml W)" and M: "faithful_marshal (we_externals W) (we_marshal_rule W)"
    and ev: "one_line_rules (spec_of (ev_Policy pe))" "\<not> ev_ReplaceL7HTTP pe"
    and tmp: "\<forall>ev \<in> insert pe seen. event_path dir ev \<noteq> os_tmp os"
  shows "writer_inv W dir (insert pe seen) (handle W os pe (w, fs))"
  using handle_cases [of W os pe w fs]
proof cases
  case Skip
  have "skipForCrossFlushMatch W pe (dedup_key pe) w"
    using Skip(3) inv by (simp add: writer_inv_def skipForClusterMatch_def)
  then obtain p where p: "map_of (pw_written w) (dedup_key pe) = Some p" "equivalent W p pe"
    by (auto simp: skipForCrossFlushMatch_def split: option.splits)
  then obtain a where a: "a \<in> seen" "dedup_key a = dedup_key pe" "p = ev_Policy a"
    "ValidatePolicyRef (ev_Namespace a) (ev_Workload a) = None"
    using inv unfolding writer_inv_def by fastforce
  have "event_path dir a = event_path dir pe" using dedup_key_inject [OF a(4,2)] by simp
  moreover have "on_disk (we_externals W) (we_yaml W) (event_path dir a) p fs"
    using inv a(1,3) by (simp add: writer_inv_def)
  ultimately have "on_disk (we_externals W) (we_yaml W) (event_path dir pe) (ev_Policy pe) fs"
    using grants_within_trans [OF equivalent_grants [OF p(2) M]] by (auto simp: on_disk_def)
  then show ?thesis using inv Skip(2) by (auto simp: writer_inv_def bumpSkip_def Let_def)
next
  case Dry
  then show ?thesis using inv by (simp add: writer_inv_def)
next
  case (Write sts)
  let ?E = "we_externals W" and ?Y = "we_yaml W"
  have w: "Write ?E ?Y os dir pe fs = (None, sts)" using Write(3) inv by (simp add: writer_inv_def)
  have t: "event_path dir pe \<noteq> os_tmp os" "tidy ?Y fs" using tmp inv by (simp_all add: writer_inv_def)
  from Write_on_disk [OF w t(1) Y t(2) ev] obtain data q where q: "map_of (hd sts) (event_path dir pe) = Some data"
    "ya_unmarshal ?Y data = Some q" "one_line_rules (spec_of q)" "grants_within ?E (spec_of (ev_Policy pe)) (spec_of q)"
    "\<And>p. on_disk ?E ?Y (event_path dir pe) p fs \<Longrightarrow> grants_within ?E (spec_of p) (spec_of q)"
    by blast
  have "tidy ?Y (hd sts)"
    unfolding tidy_def
  proof (intro allI impI, elim conjE)
    fix path d r assume r: "map_of (hd sts) path = Some d" "ya_unmarshal ?Y d = Some r"
    show "one_line_rules (spec_of r)"
    proof (cases "path = event_path dir pe")
      case True
      with r q show ?thesis by simp
    next
      case False
      then have "map_of fs path = Some d"
        using r(1) Write_success_others [OF w False] Write_success_temp [OF w t(1)] by (cases "path = os_tmp os") auto
      with t(2) r(2) show ?thesis by (auto simp: tidy_def)
    qed
  qed
  moreover have "on_disk ?E ?Y (event_path dir a) (ev_Policy a) (hd sts)" if "a \<in> insert pe seen" for a
  proof (cases "event_path dir a = event_path dir pe")
    case True
    have "grants_within ?E (spec_of (ev_Policy a)) (spec_of q)"
      using that q(4) q(5) [of "ev_Policy a"] inv True by (auto simp: writer_inv_def)
    with q(1,2) True show ?thesis by (auto simp: on_disk_def)
  next
    case False
    then have "on_disk ?E ?Y (event_path dir a) (ev_Policy a) fs" using that inv by (auto simp: writer_inv_def)
    moreover have "event_path dir a \<noteq> os_tmp os" using tmp that by auto
    ultimately show ?thesis using Write_success_others [OF w False] by (simp add: on_disk_def)
  qed
  moreover have "ValidatePolicyRef (ev_Namespace pe) (ev_Workload pe) = None"
    using w by (auto simp: Write_def split: option.splits)
  ultimately show ?thesis
    using inv by (auto simp: Write(4) writer_inv_def map_of_upsert)
next
  case Fail
  with ok show ?thesis by simp
qed

definition plain_events :: "string \<Rightarrow> (os_oracle \<times> policy_event) list \<Rightarrow> bool" where
  "plain_events dir evs \<longleftrightarrow>
     list_all (\<lambda>(os, pe). one_line_rules (spec_of (ev_Policy pe)) \<and> \<not> ev_ReplaceL7HTTP pe
        \<and> list_all (\<lambda>(_, ev). event_path dir ev \<noteq> os_tmp os) evs) evs"

lemma writer_inv_run:
  assumes "writer_inv W dir seen st" and "list_all (\<lambda>x. x \<noteq> WriteFailed) (outcomes W evs st)"
    and "lossless (we_externals W) (we_yaml W)" and "faithful_marshal (we_externals W) (we_marshal_rule W)"
    and "list_all (\<lambda>(os, pe). one_line_rules (spec_of (ev_Policy pe)) \<and> \<not> ev_ReplaceL7HTTP pe) evs"
    and "\<forall>os \<in> fst ` set evs. \<forall>ev \<in> snd ` set evs \<union> seen. event_path dir ev \<noteq> os_tmp os"
  shows "writer_inv W dir (snd ` set evs \<union> seen) (handle_all W evs st)"
  using assms
proof (induction evs arbitrary: seen st)
  case (Cons e evs)
  obtain os pe where e: "e = (os, pe)" by (cases e)
  obtain w fs where st: "st = (w, fs)" by (cases st)
  have "writer_inv W dir (insert pe seen) (handle W os pe (w, fs))"
    by (rule writer_inv_step) (use Cons.prems in \<open>auto simp: e st\<close>)
  then have "writer_inv W dir (snd ` set evs \<union> insert pe seen) (handle_all W evs (handle W os pe (w, fs)))"
    by (rule Cons.IH) (use Cons.prems in \<open>auto simp: e st\<close>)
  then show ?case by (simp add: e st)
qed simp

text \<open>From a writer that has written nothing yet.\<close>

lemma run_on_disk:
  assumes "writer_inv W dir {} (w, fs)"
    and "list_all (\<lambda>x. x \<noteq> WriteFailed) (outcomes W evs (w, fs))"
    and "lossless (we_externals W) (we_yaml W)" and "faithful_marshal (we_externals W) (we_marshal_rule W)"
    and "plain_events dir evs" and "(os, pe) \<in> set evs"
  shows "on_disk (we_externals W) (we_yaml W) (event_path dir pe) (ev_Policy pe) (snd (handle_all W evs (w, fs)))"
proof -
  have "writer_inv W dir (snd ` set evs \<union> {}) (handle_all W evs (w, fs))"
  proof (rule writer_inv_run [OF assms(1-4)])
    show "list_all (\<lambda>(os, pe). one_line_rules (spec_of (ev_Policy pe)) \<and> \<not> ev_ReplaceL7HTTP pe) evs"
      using assms(5) by (auto simp: plain_events_def list_all_iff)
    show "\<forall>os \<in> fst ` set evs. \<forall>ev \<in> snd ` set evs \<union> {}. event_path dir ev \<noteq> os_tmp os"
      using assms(5) by (fastforce simp: plain_events_def list_all_iff)
  qed
  with assms(6) show ?thesis by (force simp: writer_inv_def)
qed

text \<open>C5: What a run of the writer was given stays granted: when a fresh writer without cluster comparison has handled
  its events and no write failed, the file of each event's workload is read as a policy with every pair of a
  peer and a listed port or ICMP type that the event's policy has (names of toFQDNs rules and rules without
  ports are not compared: a merge can lose those), whether the event was written, merged into an existing
  file, found unchanged or skipped as equivalent to an earlier one.  It assumes that no event replaces HTTP
  rules (path collapsing is off), that no name in the events' policies or in policies already on disk has a line
  break, that a temporary file is nobody's policy file, that YAML, comments aside, reads back with the same
  pairs, and that rules of equal bytes have the same pairs.\<close>

theorem handle_all_on_disk:
  assumes "handle_all W evs (newPolicyWriter dir None stats, fs) = (w', fs')"
    and "list_all (\<lambda>x. x \<noteq> WriteFailed) (outcomes W evs (newPolicyWriter dir None stats, fs))"
    and "lossless (we_externals W) (we_yaml W)" and "faithful_marshal (we_externals W) (we_marshal_rule W)"
    and "tidy (we_yaml W) fs" and "plain_events dir evs" and "(os, pe) \<in> set evs"
  shows "on_disk (we_externals W) (we_yaml W) (event_path dir pe) (ev_Policy pe) fs'"
  using run_on_disk [OF _ assms(2-4,6,7)] assms(1,5) by (simp add: writer_inv_def newPolicyWriter_def)

definition disk_codec :: yaml_codec where
  "disk_codec = \<lparr>ya_marshal = (\<lambda>p. if p = demo_policy then Some ''cpg-a'' else None),
     ya_unmarshal = (\<lambda>d. if stripComments d = ''cpg-a'' then Some demo_policy else None)\<rparr>"

definition disk_env :: writer_env where
  "disk_env = \<lparr>we_externals = demo_externals, we_yaml = disk_codec,
     we_marshal_rule = (\<lambda>r. if r = normalizeRule demo_rule then Some ''rule'' else None),
     we_differ = (\<lambda>_ _ a b. Some (a @ b))\<rparr>"

lemma disk_env_ok:
  "lossless demo_externals disk_codec" "faithful_marshal demo_externals (we_marshal_rule disk_env)"
proof -
  have "stripComments ''cpg-a'' = ''cpg-a''" by code_simp
  then show "lossless demo_externals disk_codec" by (simp add: lossless_def disk_codec_def)
  show "faithful_marshal demo_externals (we_marshal_rule disk_env)" by (auto simp: faithful_marshal_def disk_env_def)
qed

theorem handle_all_on_disk_witness:
  "on_disk demo_externals disk_codec ''/out/ns/a.yaml'' demo_policy
     (snd (handle_all disk_env [(demo_os, demo_event), (demo_os, demo_event)] (newPolicyWriter ''/out'' None (new_stats 0 ''/out''), [])))"
proof -
  let ?evs = "[(demo_os, demo_event), (demo_os, demo_event)]" and ?w = "newPolicyWriter ''/out'' None (new_stats 0 ''/out'')"
  have o: "outcomes disk_env ?evs (?w, []) = [Written, Skipped]" by code_simp
  have p: "event_path ''/out'' demo_event = ''/out/ns/a.yaml''" "os_tmp demo_os = ''/out/ns/a.yaml.tmp-1''"
    "ev_Policy demo_event = demo_policy" "ev_ReplaceL7HTTP demo_event = False" "cnp_Spec demo_policy = Some demo_rule"
    "one_line_rules demo_rule"
    by code_simp+
  have W: "we_externals disk_env = demo_externals" "we_yaml disk_env = disk_codec" by (simp_all add: disk_env_def)
  have plain: "plain_events ''/out'' ?evs"
    using p by (simp add: plain_events_def one_line_rules_spec_of)
  show ?thesis
    using handle_all_on_disk [OF surjective_pairing, where W = disk_env and evs = ?evs and dir = "''/out''"
        and stats = "new_stats 0 ''/out''" and fs = "[]" and os = demo_os and pe = demo_event] o plain disk_env_ok p W
    by (simp add: tidy_def)
qed

section \<open>The cluster comparison looks at names only\<close>

text \<open>The comparison with the cluster does not see namespaces: when the snapshot holds, under the name the
  event's workload has, an equivalent policy of any namespace, the event is skipped and nothing is
  written, even if that policy protects another namespace.\<close>

theorem cluster_match_ignores_namespace:
  assumes "pw_clusterPolicies w = Some (buildClusterPolicyMap (ps @ [p]))" and "cnp_Name p = PolicyName (ev_Workload pe)"
    and "PoliciesEquivalent (we_marshal_rule W) (Some p) (Some (ev_Policy pe)) = Inr True"
  shows "handle W os pe (w, fs) = (bumpSkip w, fs)
    \<and> handle W os (pe\<lparr>ev_Namespace := ns\<rparr>) (w, fs) = (bumpSkip w, fs)"
proof -
  have "map_of (buildClusterPolicyMap (ps @ [p])) (cnp_Name p) = Some p"
    by (simp add: buildClusterPolicyMap_def map_of_upsert)
  with assms show ?thesis
    by (simp add: handle_def skipForClusterMatch_def equivalent_def)
qed

theorem cluster_match_ignores_namespace_witness:
  "snd (handle demo_env demo_os (demo_event\<lparr>ev_Namespace := ''other''\<rparr>)
      (newPolicyWriter ''/out'' (Some (buildClusterPolicyMap [demo_policy])) (new_stats 0 ''/out''), [])) = []"
proof -
  let ?w = "newPolicyWriter ''/out'' (Some (buildClusterPolicyMap [demo_policy])) (new_stats 0 ''/out'')"
  have c: "pw_clusterPolicies ?w = Some (buildClusterPolicyMap ([] @ [demo_policy]))" by (simp add: newPolicyWriter_def)
  have n: "cnp_Name demo_policy = PolicyName (ev_Workload demo_event)"
    "PoliciesEquivalent (we_marshal_rule demo_env) (Some demo_policy) (Some (ev_Policy demo_event)) = Inr True"
    by code_simp+
  show ?thesis using cluster_match_ignores_namespace [OF c n, of demo_os "[]" "''other''"] by simp
qed

end
