(* ===== verification/Evidence.thy ===== *)
theory Evidence
  imports Builder Files "HOL-Library.Multiset"
begin

text \<open>
  \<open>pkg/evidence\<close> and \<open>pkg/hubble/evidence_writer.go\<close>: the per-workload evidence file (schema,
  merge, writer, reader) and the pipeline stage that turns the attributions of a policy event
  into evidence.  The JSON codec and the failures of system calls are parameters.  The sort of
  the rules is by a key that separates rules with different keys.
\<close>

section \<open>Schema\<close>

type_synonym i64 = "64 word"

definition SchemaVersion :: int where "SchemaVersion = 2"

record policy_ref =
  pf_Name :: string
  pf_Namespace :: string
  pf_Workload :: string

record source_info =
  sr_Type :: string
  sr_File :: string
  sr_Server :: string

record session_info =
  si_ID :: string
  si_StartedAt :: time
  si_EndedAt :: time
  si_CPGVersion :: string
  si_Source :: source_info
  si_FlowsIngested :: i64
  si_FlowsUnhandled :: i64

record l7_ref =
  lf_Protocol :: string
  lf_HTTPMethod :: string
  lf_HTTPPath :: string
  lf_DNSMatchName :: string

record peer_ref =
  pr_Type :: string
  pr_Labels :: label_map
  pr_CIDR :: string
  pr_Entity :: string

record flow_endpoint =
  fe_Namespace :: string
  fe_Workload :: string
  fe_Pod :: string
  fe_IP :: string

record flow_sample =
  fs_Time :: time
  fs_Src :: flow_endpoint
  fs_Dst :: flow_endpoint
  fs_Port :: u32
  fs_Protocol :: string
  fs_Verdict :: string
  fs_DropReason :: string

record rule_evidence =
  re_Key :: string
  re_Direction :: string
  re_Peer :: peer_ref
  re_Port :: string
  re_Protocol :: string
  re_L7 :: "l7_ref option"
  re_FlowCount :: i64
  re_FirstSeen :: time
  re_LastSeen :: time
  re_ContributingSessions :: "string list"
  re_Samples :: "flow_sample list"

record policy_evidence =
  pv_SchemaVersion :: int
  pv_Policy :: policy_ref
  pv_Sessions :: "session_info list"
  pv_Rules :: "rule_evidence list"

definition NewSkeleton :: "policy_ref \<Rightarrow> policy_evidence" where
  "NewSkeleton ref = \<lparr>pv_SchemaVersion = SchemaVersion, pv_Policy = ref, pv_Sessions = [], pv_Rules = []\<rparr>"

section \<open>Merging\<close>

record merge_caps =
  mc_MaxSamples :: int
  mc_MaxSessions :: int

definition capSamples :: "flow_sample list \<Rightarrow> int \<Rightarrow> flow_sample list" where
  "capSamples s maxSamples =
     (let sorted = sort_key fs_Time s
      in if 0 < maxSamples \<and> maxSamples < int (length s) then drop (length s - nat maxSamples) sorted else sorted)"

definition mergeSessionIDs :: "string list \<Rightarrow> string list \<Rightarrow> string list" where
  "mergeSessionIDs a b = fold (\<lambda>i merged. if i \<in> set merged then merged else merged @ [i]) (a @ b) []"

definition earlier_seen :: "time \<Rightarrow> time \<Rightarrow> time" where
  "earlier_seen a b = (if b \<noteq> 0 \<and> (a = 0 \<or> b < a) then b else a)"

definition mergeRule :: "rule_evidence \<Rightarrow> rule_evidence \<Rightarrow> int \<Rightarrow> rule_evidence" where
  "mergeRule a b maxSamples =
     a\<lparr>re_FlowCount := re_FlowCount a + re_FlowCount b,
       re_FirstSeen := earlier_seen (re_FirstSeen a) (re_FirstSeen b),
       re_LastSeen := (if re_LastSeen a < re_LastSeen b then re_LastSeen b else re_LastSeen a),
       re_ContributingSessions := mergeSessionIDs (re_ContributingSessions a) (re_ContributingSessions b),
       re_Samples := capSamples (re_Samples a @ re_Samples b) maxSamples\<rparr>"

text \<open>The session of that ID is replaced, or the session is appended.\<close>

fun put_session :: "session_info \<Rightarrow> session_info list \<Rightarrow> session_info list" where
  "put_session s [] = [s]"
| "put_session s (x # xs) = (if si_ID x = si_ID s then s # xs else x # put_session s xs)"

definition capSessions :: "session_info list \<Rightarrow> int \<Rightarrow> session_info list" where
  "capSessions ss maxSessions =
     (if 0 < maxSessions \<and> maxSessions < int (length ss)
      then drop (length ss - nat maxSessions) (sort_key si_StartedAt ss) else ss)"

type_synonym rule_index = "(string \<times> nat) list"

definition index_rules :: "rule_evidence list \<Rightarrow> rule_index" where
  "index_rules rules = fold (\<lambda>(i, r) m. aput (re_Key r) i m) (enumerate 0 rules) []"

definition merge_new_rule ::
  "int \<Rightarrow> rule_evidence \<Rightarrow> rule_evidence list \<times> rule_index \<Rightarrow> rule_evidence list \<times> rule_index" where
  "merge_new_rule maxSamples nr s =
     (case s of (rules, byKey) \<Rightarrow>
        case map_of byKey (re_Key nr) of
          Some idx \<Rightarrow> (rules[idx := mergeRule (rules ! idx) nr maxSamples], byKey)
        | None \<Rightarrow> (rules @ [nr\<lparr>re_Samples := capSamples (re_Samples nr) maxSamples\<rparr>],
                   aput (re_Key nr) (length rules) byKey))"

definition Merge :: "policy_evidence \<Rightarrow> session_info \<Rightarrow> rule_evidence list \<Rightarrow> merge_caps \<Rightarrow> policy_evidence" where
  "Merge existing session newRules caps =
     (case fold (merge_new_rule (mc_MaxSamples caps)) newRules
             (pv_Rules existing, index_rules (pv_Rules existing)) of
        (rules, _) \<Rightarrow>
          existing\<lparr>pv_Sessions := capSessions (put_session session (pv_Sessions existing)) (mc_MaxSessions caps),
                   pv_Rules := sort_key (\<lambda>r. (re_Direction r, re_Key r)) rules\<rparr>)"

section \<open>The file\<close>

definition ResolvePolicyPath :: "string \<Rightarrow> string \<Rightarrow> string \<Rightarrow> string \<Rightarrow> string" where
  "ResolvePolicyPath evidenceDir outputHash namespace workload =
     Join [evidenceDir, outputHash, namespace, workload @ ''.json'']"

record json_codec =
  js_marshal :: "policy_evidence \<Rightarrow> string option"
  js_unmarshal :: "string \<Rightarrow> policy_evidence option"

record evidence_store =
  es_evidenceDir :: string
  es_outputHash :: string
  es_caps :: merge_caps

datatype evidence_error = BadTarget path_error | ReadFailed | NotExist | ParseFailed | SchemaMismatch int
  | EncodeFailed | MkdirFailed | SysFailed syscall

definition evidence_path :: "evidence_store \<Rightarrow> policy_ref \<Rightarrow> string" where
  "evidence_path w ref = ResolvePolicyPath (es_evidenceDir w) (es_outputHash w) (pf_Namespace ref) (pf_Workload ref)"

text \<open>What is on disk, or the skeleton.\<close>

definition existing_evidence :: "json_codec \<Rightarrow> os_oracle \<Rightarrow> policy_ref \<Rightarrow> string \<Rightarrow> files \<Rightarrow> evidence_error + policy_evidence" where
  "existing_evidence J os ref path fs =
     (if os_fails os ReadFile then Inl ReadFailed
      else case map_of fs path of
             None \<Rightarrow> Inr (NewSkeleton ref)
           | Some data \<Rightarrow>
               (case js_unmarshal J data of
                  None \<Rightarrow> Inl ParseFailed
                | Some ex \<Rightarrow> if pv_SchemaVersion ex \<noteq> SchemaVersion then Inl (SchemaMismatch (pv_SchemaVersion ex)) else Inr ex))"

definition WriteEvidence ::
  "json_codec \<Rightarrow> os_oracle \<Rightarrow> evidence_store \<Rightarrow> policy_ref \<Rightarrow> session_info \<Rightarrow> rule_evidence list \<Rightarrow> files
     \<Rightarrow> evidence_error option \<times> files list" where
  "WriteEvidence J os w ref session newRules fs =
     (case ValidatePolicyRef (pf_Namespace ref) (pf_Workload ref) of
        Some e \<Rightarrow> (Some (BadTarget e), [fs])
      | None \<Rightarrow>
          (let path = evidence_path w ref
           in case existing_evidence J os ref path fs of
                Inl e \<Rightarrow> (Some e, [fs])
              | Inr existing \<Rightarrow>
                  (case js_marshal J (Merge existing session newRules (es_caps w)) of
                     None \<Rightarrow> (Some EncodeFailed, [fs])
                   | Some out \<Rightarrow>
                       if os_fails os MkdirAll then (Some MkdirFailed, [fs])
                       else case write_atomic os False path out fs of (r, sts) \<Rightarrow> (map_option SysFailed r, sts))))"

definition ReadEvidence :: "json_codec \<Rightarrow> os_oracle \<Rightarrow> evidence_store \<Rightarrow> string \<Rightarrow> string \<Rightarrow> files \<Rightarrow> evidence_error + policy_evidence" where
  "ReadEvidence J os w namespace workload fs =
     (let path = ResolvePolicyPath (es_evidenceDir w) (es_outputHash w) namespace workload
      in if os_fails os ReadFile then Inl ReadFailed
         else case map_of fs path of
                None \<Rightarrow> Inl NotExist
              | Some data \<Rightarrow>
                  (case js_unmarshal J data of
                     None \<Rightarrow> Inl ParseFailed
                   | Some pe \<Rightarrow> if pv_SchemaVersion pe \<noteq> SchemaVersion then Inl (SchemaMismatch (pv_SchemaVersion pe)) else Inr pe))"

section \<open>The pipeline stage\<close>

fun verdict_String :: "verdict \<Rightarrow> string" where
  "verdict_String Verdict_DROPPED = ''DROPPED''"
| "verdict_String Verdict_AUDIT = ''AUDIT''"
| "verdict_String (Verdict_Other s) = s"

fun drop_reason_String :: "drop_reason \<Rightarrow> string" where
  "drop_reason_String (DropReason n) = n"
| "drop_reason_String (DropReason_Unrecognized i) = format_int i"

definition convertPeer :: "peer \<Rightarrow> peer_ref" where
  "convertPeer p = \<lparr>pr_Type = pe_Type p, pr_Labels = pe_Labels p, pr_CIDR = pe_CIDR p, pr_Entity = pe_Entity p\<rparr>"

definition endpointFromFlow :: "externals \<Rightarrow> endpoint option \<Rightarrow> flow_endpoint" where
  "endpointFromFlow E ep =
     (case ep of
        None \<Rightarrow> \<lparr>fe_Namespace = [], fe_Workload = [], fe_Pod = [], fe_IP = []\<rparr>
      | Some e \<Rightarrow> \<lparr>fe_Namespace = ep_namespace e, fe_Workload = WorkloadName E (ep_labels e),
                   fe_Pod = ep_pod_name e, fe_IP = []\<rparr>)"

definition portFromKey :: "rule_key \<Rightarrow> u32" where
  "portFromKey k = (case parse_uint32 (rk_Port k) of None \<Rightarrow> 0 | Some p \<Rightarrow> p)"

definition convertSample :: "externals \<Rightarrow> flow \<Rightarrow> rule_key \<Rightarrow> flow_sample" where
  "convertSample E f key =
     \<lparr>fs_Time = FlowTime f, fs_Src = endpointFromFlow E (fl_source f), fs_Dst = endpointFromFlow E (fl_destination f),
      fs_Port = portFromKey key, fs_Protocol = rk_Protocol key, fs_Verdict = verdict_String (fl_verdict f),
      fs_DropReason = drop_reason_String (fl_drop_reason f)\<rparr>"

definition convert_l7 :: "l7_discriminator option \<Rightarrow> l7_ref option" where
  "convert_l7 d =
     (case d of
        None \<Rightarrow> None
      | Some l \<Rightarrow>
          if ld_Protocol l = ''http'' then
            Some \<lparr>lf_Protocol = ''http'', lf_HTTPMethod = ld_HTTPMethod l, lf_HTTPPath = ld_HTTPPath l, lf_DNSMatchName = []\<rparr>
          else if ld_Protocol l = ''dns'' then
            Some \<lparr>lf_Protocol = ''dns'', lf_HTTPMethod = [], lf_HTTPPath = [], lf_DNSMatchName = ld_DNSMatchName l\<rparr>
          else None)"

record evidence_writer =
  ew_store :: evidence_store
  ew_session :: session_info
  ew_seen :: "(string \<times> policy_ref) list"

definition newEvidenceWriter :: "evidence_store \<Rightarrow> session_info \<Rightarrow> evidence_writer" where
  "newEvidenceWriter store session = \<lparr>ew_store = store, ew_session = session, ew_seen = []\<rparr>"

definition convert_rule :: "externals \<Rightarrow> session_info \<Rightarrow> rule_attribution \<Rightarrow> rule_evidence" where
  "convert_rule E session a =
     \<lparr>re_Key = RuleKey_String (ra_Key a), re_Direction = rk_Direction (ra_Key a),
      re_Peer = convertPeer (rk_Peer (ra_Key a)), re_Port = rk_Port (ra_Key a), re_Protocol = rk_Protocol (ra_Key a),
      re_L7 = convert_l7 (rk_L7 (ra_Key a)), re_FlowCount = ra_FlowCount a, re_FirstSeen = ra_FirstSeen a,
      re_LastSeen = ra_LastSeen a, re_ContributingSessions = [si_ID session],
      re_Samples = map (\<lambda>f. convertSample E f (ra_Key a)) (ra_Samples a)\<rparr>"

definition event_ref :: "policy_event \<Rightarrow> policy_ref" where
  "event_ref pe = \<lparr>pf_Name = cnp_Name (ev_Policy pe), pf_Namespace = ev_Namespace pe, pf_Workload = ev_Workload pe\<rparr>"

definition handle_evidence ::
  "externals \<Rightarrow> json_codec \<Rightarrow> os_oracle \<Rightarrow> policy_event \<Rightarrow> evidence_writer \<times> files \<Rightarrow> evidence_writer \<times> files" where
  "handle_evidence E J os pe st =
     (case st of (ew, fs) \<Rightarrow>
        if ev_Attribution pe = [] then (ew, fs)
        else case WriteEvidence J os (ew_store ew) (event_ref pe) (ew_session ew)
                    (map (convert_rule E (ew_session ew)) (ev_Attribution pe)) fs of
               (Some _, sts) \<Rightarrow> (ew, hd sts)
             | (None, sts) \<Rightarrow>
                 (ew\<lparr>ew_seen := aput (ev_Namespace pe @ ''/'' @ ev_Workload pe) (event_ref pe) (ew_seen ew)\<rparr>, hd sts))"

text \<open>\<open>order\<close> lists the workloads in the order the map is iterated in, each with the operating system it meets.\<close>

definition finalize_evidence ::
  "json_codec \<Rightarrow> i64 \<Rightarrow> i64 \<Rightarrow> (os_oracle \<times> policy_ref) list \<Rightarrow> evidence_writer \<times> files \<Rightarrow> evidence_writer \<times> files" where
  "finalize_evidence J flowsIngested flowsUnhandled order st =
     (case st of (ew, fs) \<Rightarrow>
        let ew1 = ew\<lparr>ew_session := (ew_session ew)\<lparr>si_FlowsIngested := flowsIngested, si_FlowsUnhandled := flowsUnhandled\<rparr>\<rparr>
        in (ew1, fold (\<lambda>(os, ref) fs. hd (snd (WriteEvidence J os (ew_store ew1) ref (ew_session ew1) [] fs))) order fs))"

section \<open>What a merge adds up\<close>

text \<open>A measure of the rules of one key, combined over a list; \<open>None\<close> when there is no such rule.\<close>

fun opt_join :: "('a \<Rightarrow> 'a \<Rightarrow> 'a) \<Rightarrow> 'a option \<Rightarrow> 'a option \<Rightarrow> 'a option" where
  "opt_join j None y = y"
| "opt_join j (Some x) None = Some x"
| "opt_join j (Some x) (Some y) = Some (j x y)"

fun key_total :: "(rule_evidence \<Rightarrow> 'a) \<Rightarrow> ('a \<Rightarrow> 'a \<Rightarrow> 'a) \<Rightarrow> string \<Rightarrow> rule_evidence list \<Rightarrow> 'a option" where
  "key_total m j k [] = None"
| "key_total m j k (r # rs) = (if re_Key r = k then opt_join j (Some (m r)) (key_total m j k rs) else key_total m j k rs)"

text \<open>The index says where the rule of each key is.\<close>

definition indexed :: "rule_evidence list \<Rightarrow> rule_index \<Rightarrow> bool" where
  "indexed rules byKey \<longleftrightarrow>
     (\<forall>k. case map_of byKey k of
            None \<Rightarrow> k \<notin> re_Key ` set rules
          | Some i \<Rightarrow> i < length rules \<and> re_Key (rules ! i) = k)"

lemma indexed_Some: "indexed rules byKey \<Longrightarrow> map_of byKey k = Some i \<Longrightarrow> i < length rules \<and> re_Key (rules ! i) = k"
  unfolding indexed_def by (drule spec [of _ k]) simp

lemma indexed_None: "indexed rules byKey \<Longrightarrow> map_of byKey k = None \<Longrightarrow> k \<notin> re_Key ` set rules"
  unfolding indexed_def by (drule spec [of _ k]) simp

lemma indexed_snoc: "indexed rules byKey \<Longrightarrow> indexed (rules @ [r]) (aput (re_Key r) (length rules) byKey)"
  unfolding indexed_def
proof
  fix k assume a: "\<forall>k. case map_of byKey k of None \<Rightarrow> k \<notin> re_Key ` set rules
      | Some i \<Rightarrow> i < length rules \<and> re_Key (rules ! i) = k"
  show "case map_of (aput (re_Key r) (length rules) byKey) k of None \<Rightarrow> k \<notin> re_Key ` set (rules @ [r])
      | Some i \<Rightarrow> i < length (rules @ [r]) \<and> re_Key ((rules @ [r]) ! i) = k"
    using spec [OF a, of k] by (auto simp: map_of_upsert nth_append split: option.splits)
qed

lemma indexed_index_rules: "indexed rules (index_rules rules)"
proof (induction rules rule: rev_induct)
  case Nil
  then show ?case by (simp add: indexed_def index_rules_def)
next
  case (snoc r rules)
  have "index_rules (rules @ [r]) = aput (re_Key r) (length rules) (index_rules rules)"
    by (simp add: index_rules_def enumerate_append_eq)
  then show ?case using indexed_snoc [OF snoc] by simp
qed

lemma key_mergeRule [simp]: "re_Key (mergeRule a b c) = re_Key a"
  by (simp add: mergeRule_def)

lemma indexed_update: "indexed rules byKey \<Longrightarrow> re_Key r = re_Key (rules ! i) \<Longrightarrow> indexed (rules[i := r]) byKey"
proof (cases "i < length rules")
  case True
  assume a: "indexed rules byKey" and k: "re_Key r = re_Key (rules ! i)"
  have m: "map re_Key (rules[i := r]) = map re_Key rules"
    using True k by (simp add: map_update) (metis list_update_id nth_map)
  then have "re_Key ` set (rules[i := r]) = re_Key ` set rules" by (metis list.set_map)
  moreover have "re_Key (rules[i := r] ! n) = re_Key (rules ! n)" for n
    using k True by (cases "n = i") auto
  ultimately show ?thesis using a unfolding indexed_def by (force split: option.splits)
qed (simp add: list_update_beyond)

text \<open>
  A measure that merging two rules combines: flow counts, first and last sightings, sets of
  sessions.
\<close>

locale rule_measure =
  fixes m :: "rule_evidence \<Rightarrow> 'a" and j :: "'a \<Rightarrow> 'a \<Rightarrow> 'a"
  assumes assoc: "j (j x y) z = j x (j y z)"
    and comm: "j x y = j y x"
    and merged: "m (mergeRule a b c) = j (m a) (m b)"
    and samples: "m (r\<lparr>re_Samples := s\<rparr>) = m r"
begin

lemma opt_assoc: "opt_join j (opt_join j x y) z = opt_join j x (opt_join j y z)"
  by (cases x; cases y; cases z) (simp_all add: assoc)

lemma opt_comm: "opt_join j x y = opt_join j y x"
  by (cases x; cases y) (simp_all add: comm)

lemma opt_left_comm: "opt_join j x (opt_join j y z) = opt_join j y (opt_join j x z)"
  by (metis opt_assoc opt_comm)

lemma opt_None [simp]: "opt_join j x None = x"
  by (cases x) simp_all

lemmas opt_ac = opt_assoc opt_comm opt_left_comm

lemma key_total_append: "key_total m j k (xs @ ys) = opt_join j (key_total m j k xs) (key_total m j k ys)"
  by (induction xs) (simp_all add: opt_assoc)

lemma key_total_insort: "key_total m j k (insort_key f x xs) = key_total m j k (x # xs)"
  by (induction xs) (auto simp: opt_left_comm)

lemma key_total_sort: "key_total m j k (sort_key f xs) = key_total m j k xs"
  by (induction xs) (simp_all add: key_total_insort)

lemma key_total_new:
  assumes "indexed rules byKey" and "merge_new_rule c nr (rules, byKey) = (rules', byKey')"
  shows "key_total m j k rules' = opt_join j (key_total m j k rules) (key_total m j k [nr])"
    and "indexed rules' byKey'"
proof -
  have "key_total m j k rules' = opt_join j (key_total m j k rules) (key_total m j k [nr]) \<and> indexed rules' byKey'"
  proof (cases "map_of byKey (re_Key nr)")
    case None
    then have r: "rules' = rules @ [nr\<lparr>re_Samples := capSamples (re_Samples nr) c\<rparr>]"
      "byKey' = aput (re_Key nr) (length rules) byKey"
      using assms(2) by (simp_all add: merge_new_rule_def)
    show ?thesis
      using indexed_snoc [OF assms(1), of "nr\<lparr>re_Samples := capSamples (re_Samples nr) c\<rparr>"]
      by (simp add: r key_total_append samples)
  next
    case (Some i)
    note i = indexed_Some [OF assms(1) Some]
    let ?x = "mergeRule (rules ! i) nr c"
    have r: "rules' = rules[i := ?x]" "byKey' = byKey" using assms(2) Some by (simp_all add: merge_new_rule_def)
    have split: "rules = take i rules @ rules ! i # drop (Suc i) rules" using i by (simp add: id_take_nth_drop)
    have "key_total m j k (rules[i := ?x])
        = opt_join j (key_total m j k (take i rules)) (key_total m j k (?x # drop (Suc i) rules))"
      using i by (simp only: upd_conv_take_nth_drop key_total_append)
    moreover have "key_total m j k rules
        = opt_join j (key_total m j k (take i rules)) (key_total m j k (rules ! i # drop (Suc i) rules))"
      by (subst split) (simp only: key_total_append)
    moreover have "key_total m j k (?x # ys) = opt_join j (key_total m j k (rules ! i # ys)) (key_total m j k [nr])" for ys
      using i by (cases "key_total m j k ys") (simp_all add: merged, metis assoc comm)
    ultimately have "key_total m j k rules' = opt_join j (key_total m j k rules) (key_total m j k [nr])"
      by (simp only: r opt_assoc)
    moreover have "indexed rules' byKey'" unfolding r using indexed_update [OF assms(1)] by simp
    ultimately show ?thesis ..
  qed
  then show "key_total m j k rules' = opt_join j (key_total m j k rules) (key_total m j k [nr])" "indexed rules' byKey'"
    by simp_all
qed

lemma key_total_fold:
  "indexed rules byKey \<Longrightarrow> fold (merge_new_rule c) new (rules, byKey) = (rules', byKey') \<Longrightarrow>
     key_total m j k rules' = opt_join j (key_total m j k rules) (key_total m j k new)"
proof (induction new arbitrary: rules byKey)
  case (Cons nr new)
  obtain r1 b1 where s: "merge_new_rule c nr (rules, byKey) = (r1, b1)" by fastforce
  note step = key_total_new [OF Cons.prems(1) s]
  have "key_total m j k rules' = opt_join j (key_total m j k r1) (key_total m j k new)"
    by (rule Cons.IH [OF step(2)]) (use Cons.prems(2) s in simp)
  with step(1) show ?case using key_total_append [of k "[nr]" new] by (simp add: opt_assoc del: key_total.simps)
qed simp

lemma key_total_Merge:
  "key_total m j k (pv_Rules (Merge ex s new caps)) = opt_join j (key_total m j k (pv_Rules ex)) (key_total m j k new)"
  using key_total_fold [OF indexed_index_rules]
  by (simp add: Merge_def key_total_sort split: prod.split)

end

interpretation flow_counts: rule_measure re_FlowCount "(+)"
  by unfold_locales (simp_all add: mergeRule_def algebra_simps)

interpretation first_sightings: rule_measure re_FirstSeen earlier_seen
  by unfold_locales (auto simp: mergeRule_def earlier_seen_def)

interpretation last_sightings: rule_measure re_LastSeen max
  by unfold_locales (auto simp: mergeRule_def max_def)

interpretation contributors: rule_measure "\<lambda>r. set (re_ContributingSessions r)" "(\<union>)"
proof unfold_locales
  have ids: "set (fold (\<lambda>i merged. if i \<in> set merged then merged else merged @ [i]) xs acc) = set acc \<union> set xs" for xs acc
    by (induction xs arbitrary: acc) auto
  fix a b c
  show "set (re_ContributingSessions (mergeRule a b c)) = set (re_ContributingSessions a) \<union> set (re_ContributingSessions b)"
    by (simp add: mergeRule_def mergeSessionIDs_def ids del: fold_append)
qed auto

text \<open>A merge of evidence neither loses nor invents: for every rule key the flow counts add up, the first
  sighting is the earliest non-zero one, the last the latest, and the contributing sessions are those
  of both sides, however the rules are spread over the existing file and the new list.\<close>

theorem Merge_totals:
  "key_total re_FlowCount (+) k (pv_Rules (Merge ex s new caps))
     = opt_join (+) (key_total re_FlowCount (+) k (pv_Rules ex)) (key_total re_FlowCount (+) k new)
   \<and> key_total re_FirstSeen earlier_seen k (pv_Rules (Merge ex s new caps))
     = opt_join earlier_seen (key_total re_FirstSeen earlier_seen k (pv_Rules ex)) (key_total re_FirstSeen earlier_seen k new)
   \<and> key_total re_LastSeen max k (pv_Rules (Merge ex s new caps))
     = opt_join max (key_total re_LastSeen max k (pv_Rules ex)) (key_total re_LastSeen max k new)
   \<and> key_total (\<lambda>r. set (re_ContributingSessions r)) (\<union>) k (pv_Rules (Merge ex s new caps))
     = opt_join (\<union>) (key_total (\<lambda>r. set (re_ContributingSessions r)) (\<union>) k (pv_Rules ex))
         (key_total (\<lambda>r. set (re_ContributingSessions r)) (\<union>) k new)"
  by (intro conjI flow_counts.key_total_Merge first_sightings.key_total_Merge last_sightings.key_total_Merge
      contributors.key_total_Merge)

section \<open>The caps\<close>

lemma capSamples_newest:
  "\<exists>dropped. mset s = mset dropped + mset (capSamples s n) \<and> sorted (map fs_Time (capSamples s n))
     \<and> (\<forall>x \<in> set dropped. \<forall>y \<in> set (capSamples s n). fs_Time x \<le> fs_Time y)
     \<and> (0 < n \<longrightarrow> length (capSamples s n) \<le> nat n)"
proof -
  define d where "d = (if 0 < n \<and> n < int (length s) then length s - nat n else 0)"
  have c: "capSamples s n = drop d (sort_key fs_Time s)" by (simp add: capSamples_def d_def Let_def)
  have so: "sorted (map fs_Time (take d (sort_key fs_Time s)) @ map fs_Time (drop d (sort_key fs_Time s)))"
    by (simp flip: map_append)
  have "mset s = mset (take d (sort_key fs_Time s)) + mset (drop d (sort_key fs_Time s))"
    by (metis append_take_drop_id mset_append mset_sort)
  moreover have "0 < n \<longrightarrow> length (drop d (sort_key fs_Time s)) \<le> nat n" by (simp add: d_def) linarith
  ultimately show ?thesis
    using so unfolding c sorted_append by (intro exI [of _ "take d (sort_key fs_Time s)"]) auto
qed

lemma last_sort_key:
  assumes "s \<in> set xs" and "\<And>x. x \<in> set xs \<Longrightarrow> x \<noteq> s \<Longrightarrow> f x < f s"
  shows "last (sort_key f xs) = s"
proof -
  let ?ys = "sort_key f xs"
  have ne: "?ys \<noteq> []" using assms(1) by (metis empty_iff list.set(1) set_sort)
  then have s: "?ys = butlast ?ys @ [last ?ys]" by simp
  have "sorted (map f (butlast ?ys @ [last ?ys]))" unfolding s [symmetric] by simp
  then have so: "sorted (map f (butlast ?ys) @ [f (last ?ys)])" by (simp only: map_append list.map)
  have top: "f x \<le> f (last ?ys)" if "x \<in> set ?ys" for x
  proof -
    have "x \<in> set (butlast ?ys @ [last ?ys])" unfolding s [symmetric] by (rule that)
    then show ?thesis using so by (auto simp: sorted_append)
  qed
  have "last ?ys \<in> set xs" using last_in_set [OF ne] by simp
  with assms top [of s] show ?thesis by force
qed

lemma set_put_session: "s \<in> set (put_session s xs)" "set (put_session s xs) \<subseteq> insert s (set xs)"
  by (induction s xs rule: put_session.induct) auto

lemma ids_put_session:
  "distinct (map si_ID xs) \<Longrightarrow> x \<in> set (put_session s xs) \<Longrightarrow> x \<noteq> s \<Longrightarrow> x \<in> set xs \<and> si_ID x \<noteq> si_ID s"
  by (induction s xs rule: put_session.induct) (auto split: if_splits simp: rev_image_eqI)

lemma merged_samples:
  "list_all P rules \<Longrightarrow> (\<And>r s. P (r\<lparr>re_Samples := capSamples s c\<rparr>)) \<Longrightarrow>
     (\<And>a b. P (mergeRule a b c)) \<Longrightarrow> fold (merge_new_rule c) new (rules, byKey) = (rules', byKey') \<Longrightarrow> list_all P rules'"
proof (induction new arbitrary: rules byKey)
  case (Cons nr new)
  obtain r1 b1 where s: "merge_new_rule c nr (rules, byKey) = (r1, b1)" by fastforce
  have "list_all P r1"
    using s Cons.prems(1-3)
    by (auto simp: merge_new_rule_def list_all_iff split: option.splits dest: set_update_subset_insert [THEN subsetD])
  with Cons.IH Cons.prems(2-4) s show ?case by simp
qed simp

text \<open>The caps hold and keep what is new: after a merge there are at most \<open>MaxSessions\<close> sessions and the
  session being written is one of them when it is the newest, and every rule is an old one left as it
  was or has at most \<open>MaxSamples\<close> samples, in order of time.\<close>

theorem Merge_caps:
  assumes "0 < mc_MaxSamples caps" and "0 < mc_MaxSessions caps" and "distinct (map si_ID (pv_Sessions ex))"
    and "list_all (\<lambda>x. si_ID x = si_ID s \<or> si_StartedAt x < si_StartedAt s) (pv_Sessions ex)"
  shows "length (pv_Sessions (Merge ex s new caps)) \<le> nat (mc_MaxSessions caps)
    \<and> s \<in> set (pv_Sessions (Merge ex s new caps))
    \<and> (\<forall>r \<in> set (pv_Rules (Merge ex s new caps)). r \<in> set (pv_Rules ex)
         \<or> (length (re_Samples r) \<le> nat (mc_MaxSamples caps) \<and> sorted (map fs_Time (re_Samples r))))"
proof -
  let ?ss = "put_session s (pv_Sessions ex)" and ?n = "mc_MaxSessions caps"
  have ss: "pv_Sessions (Merge ex s new caps) = capSessions ?ss ?n" by (simp add: Merge_def split: prod.split)
  have "s \<in> set (capSessions ?ss ?n)"
  proof (cases "?n < int (length ?ss)")
    case True
    have "last (sort_key si_StartedAt ?ss) = s"
      by (rule last_sort_key [OF set_put_session(1)])
        (use ids_put_session [OF assms(3)] assms(4) in \<open>fastforce simp: list_all_iff\<close>)
    moreover have l: "length ?ss - nat ?n < length (sort_key si_StartedAt ?ss)"
      using assms(2) True by simp
    ultimately have "last (drop (length ?ss - nat ?n) (sort_key si_StartedAt ?ss)) = s" by (simp only: last_drop)
    moreover have "drop (length ?ss - nat ?n) (sort_key si_StartedAt ?ss) \<noteq> []" using l by simp
    ultimately have "s \<in> set (drop (length ?ss - nat ?n) (sort_key si_StartedAt ?ss))" by (metis last_in_set)
    with assms(2) True show ?thesis by (simp add: capSessions_def)
  qed (simp add: capSessions_def set_put_session(1))
  moreover have "length (capSessions ?ss ?n) \<le> nat ?n" using assms(2) by (simp add: capSessions_def) linarith
  moreover have "list_all (\<lambda>r. r \<in> set (pv_Rules ex)
      \<or> (length (re_Samples r) \<le> nat (mc_MaxSamples caps) \<and> sorted (map fs_Time (re_Samples r)))) (pv_Rules (Merge ex s new caps))"
  proof -
    obtain rules byKey where f: "fold (merge_new_rule (mc_MaxSamples caps)) new (pv_Rules ex, index_rules (pv_Rules ex)) = (rules, byKey)"
      by fastforce
    have c: "length (capSamples xs (mc_MaxSamples caps)) \<le> nat (mc_MaxSamples caps) \<and> sorted (map fs_Time (capSamples xs (mc_MaxSamples caps)))" for xs
      using capSamples_newest [of xs "mc_MaxSamples caps"] assms(1) by blast
    have "list_all (\<lambda>r. r \<in> set (pv_Rules ex)
      \<or> (length (re_Samples r) \<le> nat (mc_MaxSamples caps) \<and> sorted (map fs_Time (re_Samples r)))) rules"
      by (rule merged_samples [OF _ _ _ f]) (simp_all add: list_all_iff mergeRule_def c)
    then show ?thesis using f by (simp add: Merge_def list_all_iff)
  qed
  ultimately show ?thesis by (simp add: ss list_all_iff)
qed

definition demo_session :: "string \<Rightarrow> time \<Rightarrow> session_info" where
  "demo_session i t = \<lparr>si_ID = i, si_StartedAt = t, si_EndedAt = 0, si_CPGVersion = [],
     si_Source = \<lparr>sr_Type = ''replay'', sr_File = [], sr_Server = []\<rparr>, si_FlowsIngested = 0, si_FlowsUnhandled = 0\<rparr>"

definition demo_ref :: policy_ref where
  "demo_ref = \<lparr>pf_Name = ''cpg-a'', pf_Namespace = ''ns'', pf_Workload = ''a''\<rparr>"

theorem Merge_caps_witness:
  "demo_session ''new'' 2 \<in> set (pv_Sessions (Merge ((NewSkeleton demo_ref)\<lparr>pv_Sessions := [demo_session ''old'' 1]\<rparr>)
     (demo_session ''new'' 2) [] \<lparr>mc_MaxSamples = 3, mc_MaxSessions = 1\<rparr>))"
  using Merge_caps [of "\<lparr>mc_MaxSamples = 3, mc_MaxSessions = 1\<rparr>" "(NewSkeleton demo_ref)\<lparr>pv_Sessions := [demo_session ''old'' 1]\<rparr>"
      "demo_session ''new'' 2" "[]"]
  by (simp add: demo_session_def NewSkeleton_def)

section \<open>The file\<close>

text \<open>
  Whether the document a write puts on disk reads back as it was.  It does when its strings are valid
  UTF-8; \<open>encoding/json\<close> replaces other bytes.
\<close>

definition faithful_write ::
  "json_codec \<Rightarrow> os_oracle \<Rightarrow> evidence_store \<Rightarrow> policy_ref \<Rightarrow> session_info \<Rightarrow> rule_evidence list \<Rightarrow> files \<Rightarrow> bool" where
  "faithful_write J os w ref s new fs \<longleftrightarrow>
     (case existing_evidence J os ref (evidence_path w ref) fs of
        Inl e \<Rightarrow> True
      | Inr ex \<Rightarrow>
          (case js_marshal J (Merge ex s new (es_caps w)) of
             None \<Rightarrow> True
           | Some d \<Rightarrow> js_unmarshal J d = Some (Merge ex s new (es_caps w))))"

lemma schema_Merge [simp]: "pv_SchemaVersion (Merge ex s new caps) = pv_SchemaVersion ex"
  by (simp add: Merge_def split: prod.split)

lemma existing_schema: "existing_evidence J os ref path fs = Inr ex \<Longrightarrow> pv_SchemaVersion ex = SchemaVersion"
  by (auto simp: existing_evidence_def NewSkeleton_def split: if_splits option.splits)

lemma WriteEvidence_cases:
  assumes "WriteEvidence J os w ref s new fs = (r, sts)"
  obtains (Refused) "sts = [fs]" "r \<noteq> None"
  | (Tried) ex out r0 where "existing_evidence J os ref (evidence_path w ref) fs = Inr ex"
      "js_marshal J (Merge ex s new (es_caps w)) = Some out" "r = map_option SysFailed r0"
      "write_atomic os False (evidence_path w ref) out fs = (r0, sts)"
  using assms
  by (auto simp: WriteEvidence_def Let_def split: option.splits sum.splits if_splits prod.splits)

text \<open>The evidence file is updated atomically and reads back: a successful write of a document that JSON reads
  back as it was leaves a file that the reader
  returns as the merge of what was there with the new rules; during any write each path other than
  the temporary one has its old bytes or is the workload's file with complete new ones; and a failed
  write leaves the workload's file as it was.\<close>

theorem WriteEvidence_reads_back:
  assumes "WriteEvidence J os w ref s new fs = (r, sts)" and "faithful_write J os w ref s new fs"
    and "evidence_path w ref \<noteq> os_tmp os" and "\<not> os_fails os' ReadFile"
  shows "(if r = None
      then (\<exists>ex. existing_evidence J os ref (evidence_path w ref) fs = Inr ex
        \<and> ReadEvidence J os' w (pf_Namespace ref) (pf_Workload ref) (hd sts) = Inr (Merge ex s new (es_caps w)))
      else map_of (hd sts) (evidence_path w ref) = map_of fs (evidence_path w ref))
    \<and> (\<forall>st \<in> set sts. \<forall>q. q \<noteq> os_tmp os \<longrightarrow> map_of st q = map_of fs q
        \<or> (q = evidence_path w ref \<and> (\<exists>p out. js_marshal J p = Some out \<and> map_of st q = Some out)))"
  using assms(1)
proof (cases rule: WriteEvidence_cases)
  case Refused
  then show ?thesis by auto
next
  case (Tried ex out r0)
  let ?path = "evidence_path w ref"
  have states: "map_of st q = map_of fs q \<or> (q = ?path \<and> (\<exists>p out. js_marshal J p = Some out \<and> map_of st q = Some out))"
    if "st \<in> set sts" "q \<noteq> os_tmp os" for st q
    using atomic.others [OF Tried(4) that(1)] atomic.target [OF Tried(4) that(1)] Tried(2) assms(3) that(2) by (cases "q = ?path") auto
  show ?thesis
  proof (cases r0)
    case None
    then have "map_of (hd sts) ?path = Some out" using Tried(4) atomic.success by blast
    then have "ReadEvidence J os' w (pf_Namespace ref) (pf_Workload ref) (hd sts) = Inr (Merge ex s new (es_caps w))"
      using assms(2,4) Tried(1,2) existing_schema [OF Tried(1)] by (simp add: ReadEvidence_def faithful_write_def evidence_path_def Let_def)
    with Tried(1) have "\<exists>ex. existing_evidence J os ref ?path fs = Inr ex
        \<and> ReadEvidence J os' w (pf_Namespace ref) (pf_Workload ref) (hd sts) = Inr (Merge ex s new (es_caps w))"
      by blast
    then show ?thesis using states None Tried(3) by simp
  next
    case (Some e)
    then have "map_of (hd sts) ?path = map_of fs ?path" using Tried(4) atomic.failure [of os False ?path out fs e sts] assms(3) by simp
    then show ?thesis using states Some Tried(3) by simp
  qed
qed

definition demo_json :: json_codec where
  "demo_json = (let p = Merge (NewSkeleton demo_ref) (demo_session ''s'' 1) [] \<lparr>mc_MaxSamples = 3, mc_MaxSessions = 1\<rparr>
     in \<lparr>js_marshal = (\<lambda>q. if q = p then Some ''json'' else None), js_unmarshal = (\<lambda>d. if d = ''json'' then Some p else None)\<rparr>)"

definition demo_store :: evidence_store where
  "demo_store = \<lparr>es_evidenceDir = ''/ev'', es_outputHash = ''h'', es_caps = \<lparr>mc_MaxSamples = 3, mc_MaxSessions = 1\<rparr>\<rparr>"

definition demo_disk :: os_oracle where
  "demo_disk = \<lparr>os_fails = (\<lambda>_. False), os_tmp = ''/ev/h/ns/a.json.tmp-1'', os_partial = []\<rparr>"

lemma demo_faithful: "faithful_write demo_json os w ref s new fs"
  by (simp add: faithful_write_def demo_json_def Let_def split: sum.split)

theorem WriteEvidence_reads_back_witness:
  "\<exists>pe. ReadEvidence demo_json demo_disk demo_store ''ns'' ''a''
      (hd (snd (WriteEvidence demo_json demo_disk demo_store demo_ref (demo_session ''s'' 1) [] []))) = Inr pe"
proof -
  let ?w = "WriteEvidence demo_json demo_disk demo_store demo_ref (demo_session ''s'' 1) [] []"
  have "fst ?w = None" by code_simp
  then have w: "?w = (None, snd ?w)" by (metis prod.collapse)
  have "evidence_path demo_store demo_ref \<noteq> os_tmp demo_disk" by code_simp
  moreover have "\<not> os_fails demo_disk ReadFile" by (simp add: demo_disk_def)
  moreover have "pf_Namespace demo_ref = ''ns''" "pf_Workload demo_ref = ''a''" by (simp_all add: demo_ref_def)
  ultimately show ?thesis using WriteEvidence_reads_back [OF w demo_faithful, of demo_disk] by auto
qed

section \<open>A session\<close>

definition handle_evidence_all ::
  "externals \<Rightarrow> json_codec \<Rightarrow> (os_oracle \<times> policy_event) list \<Rightarrow> evidence_writer \<times> files \<Rightarrow> evidence_writer \<times> files" where
  "handle_evidence_all E J evs st = fold (\<lambda>(os, pe). handle_evidence E J os pe) evs st"

text \<open>No write of a session failed, and what each wrote reads back as it was.\<close>

fun evidence_all_ok :: "externals \<Rightarrow> json_codec \<Rightarrow> (os_oracle \<times> policy_event) list \<Rightarrow> evidence_writer \<times> files \<Rightarrow> bool" where
  "evidence_all_ok E J [] st = True"
| "evidence_all_ok E J ((os, pe) # evs) (ew, fs) =
     ((ev_Attribution pe = [] \<or> fst (WriteEvidence J os (ew_store ew) (event_ref pe) (ew_session ew)
          (map (convert_rule E (ew_session ew)) (ev_Attribution pe)) fs) = None
        \<and> faithful_write J os (ew_store ew) (event_ref pe) (ew_session ew) (map (convert_rule E (ew_session ew)) (ev_Attribution pe)) fs)
      \<and> evidence_all_ok E J evs (handle_evidence E J os pe (ew, fs)))"

text \<open>What the writes of the final update write reads back as it was; they may fail.\<close>

fun final_faithful :: "json_codec \<Rightarrow> evidence_store \<Rightarrow> session_info \<Rightarrow> (os_oracle \<times> policy_ref) list \<Rightarrow> files \<Rightarrow> bool" where
  "final_faithful J w s [] fs = True"
| "final_faithful J w s ((os, ref) # order) fs =
     (faithful_write J os w ref s [] fs \<and> final_faithful J w s order (hd (snd (WriteEvidence J os w ref s [] fs))))"

definition final_session :: "i64 \<Rightarrow> i64 \<Rightarrow> evidence_writer \<Rightarrow> session_info" where
  "final_session fi fu ew = (ew_session ew)\<lparr>si_FlowsIngested := fi, si_FlowsUnhandled := fu\<rparr>"

definition disk_rules :: "json_codec \<Rightarrow> string \<Rightarrow> files \<Rightarrow> rule_evidence list" where
  "disk_rules J path fs =
     (case map_of fs path of
        None \<Rightarrow> []
      | Some d \<Rightarrow> (case js_unmarshal J d of None \<Rightarrow> [] | Some pe \<Rightarrow> pv_Rules pe))"

text \<open>The rules the events contribute to one file.\<close>

definition contributed :: "externals \<Rightarrow> evidence_writer \<Rightarrow> string \<Rightarrow> policy_event list \<Rightarrow> rule_evidence list" where
  "contributed E ew path pes =
     concat (map (\<lambda>pe. if evidence_path (ew_store ew) (event_ref pe) = path
                       then map (convert_rule E (ew_session ew)) (ev_Attribution pe) else []) pes)"

lemma existing_disk_rules: "existing_evidence J os ref path fs = Inr ex \<Longrightarrow> pv_Rules ex = disk_rules J path fs"
  by (auto simp: existing_evidence_def disk_rules_def NewSkeleton_def split: if_splits option.splits)

lemma handle_evidence_config:
  "ew_store (fst (handle_evidence E J os pe (ew, fs))) = ew_store ew"
  "ew_session (fst (handle_evidence E J os pe (ew, fs))) = ew_session ew"
  by (auto simp: handle_evidence_def split: prod.split option.split)

context rule_measure begin

lemma key_total_write:
  assumes "WriteEvidence J os w ref s new fs = (r, sts)" and "faithful_write J os w ref s new fs" and "os_tmp os \<noteq> path"
  shows "key_total m j k (disk_rules J path (hd sts)) =
    (if r = None \<and> evidence_path w ref = path
     then opt_join j (key_total m j k (disk_rules J path fs)) (key_total m j k new)
     else key_total m j k (disk_rules J path fs))"
  using assms(1)
proof (cases rule: WriteEvidence_cases)
  case (Tried ex out r0)
  have h: "hd sts \<in> set sts" using atomic.states [OF Tried(4)] by simp
  show ?thesis
  proof (cases "evidence_path w ref = path")
    case False
    then have "map_of (hd sts) path = map_of fs path" using atomic.others [OF Tried(4) h] assms(3) by simp
    then show ?thesis using False by (simp add: disk_rules_def)
  next
    case True
    show ?thesis
    proof (cases r0)
      case None
      then have "map_of (hd sts) path = Some out" using Tried(4) atomic.success True by blast
      then have "disk_rules J path (hd sts) = pv_Rules (Merge ex s new (es_caps w))"
        using assms(2) Tried(1,2) by (simp add: disk_rules_def faithful_write_def)
      then show ?thesis
        using True None Tried(3) existing_disk_rules [OF Tried(1)] by (simp add: key_total_Merge)
    next
      case (Some e)
      then have "map_of (hd sts) path = map_of fs path"
        using Tried(4) atomic.failure [of os False path out fs e sts] assms(3) True by simp
      then show ?thesis using Some Tried(3) by (simp add: disk_rules_def)
    qed
  qed
qed auto

lemma key_total_run:
  assumes "evidence_all_ok E J evs (ew, fs)" and "list_all (\<lambda>(os, _). os_tmp os \<noteq> path) evs"
  shows "key_total m j k (disk_rules J path (snd (handle_evidence_all E J evs (ew, fs))))
    = opt_join j (key_total m j k (disk_rules J path fs)) (key_total m j k (contributed E ew path (map snd evs)))"
  using assms
proof (induction evs arbitrary: ew fs)
  case Nil
  then show ?case by (simp add: handle_evidence_all_def contributed_def)
next
  case (Cons e evs)
  obtain os pe where e: "e = (os, pe)" by (cases e)
  let ?new = "map (convert_rule E (ew_session ew)) (ev_Attribution pe)"
  obtain ew1 fs1 where st: "handle_evidence E J os pe (ew, fs) = (ew1, fs1)" by fastforce
  have cfg: "contributed E ew1 path pes = contributed E ew path pes" for pes
    using handle_evidence_config [of E J os pe ew fs] by (simp add: contributed_def st cong: if_cong)
  have step: "key_total m j k (disk_rules J path fs1) = opt_join j (key_total m j k (disk_rules J path fs))
      (key_total m j k (contributed E ew path [pe]))"
  proof (cases "ev_Attribution pe = []")
    case True
    with st show ?thesis by (simp add: handle_evidence_def contributed_def)
  next
    case False
    obtain sts where w: "WriteEvidence J os (ew_store ew) (event_ref pe) (ew_session ew) ?new fs = (None, sts)"
      using Cons.prems(1) False by (cases "WriteEvidence J os (ew_store ew) (event_ref pe) (ew_session ew) ?new fs") (simp add: e)
    then have "fs1 = hd sts" using st False by (simp add: handle_evidence_def)
    moreover have "faithful_write J os (ew_store ew) (event_ref pe) (ew_session ew) ?new fs"
      using Cons.prems(1) False by (simp add: e)
    ultimately show ?thesis using key_total_write [OF w, of path k] Cons.prems(2) by (simp add: e contributed_def)
  qed
  have "key_total m j k (disk_rules J path (snd (handle_evidence_all E J evs (ew1, fs1))))
    = opt_join j (key_total m j k (disk_rules J path fs1)) (key_total m j k (contributed E ew1 path (map snd evs)))"
    by (rule Cons.IH) (use Cons.prems st in \<open>simp_all add: e\<close>)
  moreover have "contributed E ew path (map snd (e # evs)) = contributed E ew path [pe] @ contributed E ew path (map snd evs)"
    by (simp add: contributed_def e)
  ultimately show ?case
    using step cfg st by (simp add: handle_evidence_all_def e key_total_append opt_assoc)
qed

lemma key_total_finalize:
  assumes "final_faithful J (ew_store ew) (final_session fi fu ew) order fs" and "list_all (\<lambda>(os, _). os_tmp os \<noteq> path) order"
  shows "key_total m j k (disk_rules J path (snd (finalize_evidence J fi fu order (ew, fs))))
    = key_total m j k (disk_rules J path fs)"
proof -
  let ?f = "\<lambda>s. fold (\<lambda>(os, ref) fs. hd (snd (WriteEvidence J os (ew_store ew) ref s [] fs))) order fs"
  have "final_faithful J (ew_store ew) s order fs \<Longrightarrow> key_total m j k (disk_rules J path (?f s)) = key_total m j k (disk_rules J path fs)" for s
    using assms(2)
  proof (induction order arbitrary: fs)
    case (Cons e order)
    obtain os ref where e: "e = (os, ref)" by (cases e)
    obtain r sts where w: "WriteEvidence J os (ew_store ew) ref s [] fs = (r, sts)" by fastforce
    have "key_total m j k (disk_rules J path (hd sts)) = key_total m j k (disk_rules J path fs)"
      using key_total_write [OF w, of path k] Cons.prems by (simp add: e)
    with Cons.IH [of "hd sts"] Cons.prems show ?case by (simp add: e w)
  qed simp
  from this [OF assms(1)] show ?thesis by (simp add: finalize_evidence_def final_session_def Let_def)
qed

end

text \<open>C29: The evidence of a session is complete: when the writes of its events succeed and every document the session
  writes is one that JSON reads back as it was (its strings are valid UTF-8), then for every workload file and
  rule key the flow count, the first and the last sighting on disk are those on disk before combined with those
  of all attributions of all policy events of that workload, and the final update of the session's
  counters changes none of them, whichever of its writes fail.\<close>

theorem evidence_session_totals:
  assumes "evidence_all_ok E J evs (ew, fs)" and "list_all (\<lambda>(os, _). os_tmp os \<noteq> path) evs"
    and "handle_evidence_all E J evs (ew, fs) = (ew1, fs1)"
    and "final_faithful J (ew_store ew1) (final_session fi fu ew1) order fs1" and "list_all (\<lambda>(os, _). os_tmp os \<noteq> path) order"
    and "finalize_evidence J fi fu order (ew1, fs1) = (ew', fs')"
  shows "key_total re_FlowCount (+) k (disk_rules J path fs')
      = opt_join (+) (key_total re_FlowCount (+) k (disk_rules J path fs))
          (key_total re_FlowCount (+) k (contributed E ew path (map snd evs)))
    \<and> key_total re_FirstSeen earlier_seen k (disk_rules J path fs')
      = opt_join earlier_seen (key_total re_FirstSeen earlier_seen k (disk_rules J path fs))
          (key_total re_FirstSeen earlier_seen k (contributed E ew path (map snd evs)))
    \<and> key_total re_LastSeen max k (disk_rules J path fs')
      = opt_join max (key_total re_LastSeen max k (disk_rules J path fs))
          (key_total re_LastSeen max k (contributed E ew path (map snd evs)))"
proof -
  show ?thesis
    using flow_counts.key_total_run [OF assms(1,2)] first_sightings.key_total_run [OF assms(1,2)]
      last_sightings.key_total_run [OF assms(1,2)] flow_counts.key_total_finalize [OF assms(4,5)]
      first_sightings.key_total_finalize [OF assms(4,5)] last_sightings.key_total_finalize [OF assms(4,5)]
    by (simp add: assms(3,6))
qed

definition demo_attribution :: rule_attribution where
  "demo_attribution = \<lparr>ra_Key = \<lparr>rk_Direction = ''ingress'', rk_Peer = \<lparr>pe_Type = PeerEntity, pe_Labels = [], pe_CIDR = [], pe_Entity = ''world''\<rparr>,
       rk_Port = ''80'', rk_Protocol = ''TCP'', rk_L7 = None\<rparr>, ra_FlowCount = 7, ra_FirstSeen = 1, ra_LastSeen = 4, ra_Samples = []\<rparr>"

definition demo_attributed :: policy_event where
  "demo_attributed = \<lparr>ev_Namespace = ''ns'', ev_Workload = ''a'', ev_Policy = demo_policy, ev_Attribution = [demo_attribution], ev_ReplaceL7HTTP = False\<rparr>"

definition demo_codec_evidence :: json_codec where
  "demo_codec_evidence = (let p = Merge (NewSkeleton (event_ref demo_attributed)) (demo_session ''s'' 1)
       [convert_rule demo_externals (demo_session ''s'' 1) demo_attribution] \<lparr>mc_MaxSamples = 3, mc_MaxSessions = 1\<rparr>
     in \<lparr>js_marshal = (\<lambda>q. if q = p then Some ''json'' else None), js_unmarshal = (\<lambda>d. if d = ''json'' then Some p else None)\<rparr>)"

theorem evidence_session_totals_witness:
  "key_total re_FlowCount (+) ''ingress:entity:world:TCP:80''
     (disk_rules demo_codec_evidence ''/ev/h/ns/a.json''
        (snd (finalize_evidence demo_codec_evidence 7 0 []
          (handle_evidence_all demo_externals demo_codec_evidence [(demo_disk, demo_attributed)]
             (newEvidenceWriter demo_store (demo_session ''s'' 1), []))))) = Some 7"
proof -
  let ?J = demo_codec_evidence and ?ew = "newEvidenceWriter demo_store (demo_session ''s'' 1)" and ?evs = "[(demo_disk, demo_attributed)]"
  have w: "ew_store ?ew = demo_store" "ew_session ?ew = demo_session ''s'' 1" "ev_Attribution demo_attributed = [demo_attribution]"
    "ValidatePolicyRef (pf_Namespace (event_ref demo_attributed)) (pf_Workload (event_ref demo_attributed)) = None"
    by (simp_all add: newEvidenceWriter_def demo_attributed_def event_ref_def ValidatePolicyRef_def validatePathComponent_def)
  have "fst (WriteEvidence ?J demo_disk demo_store (event_ref demo_attributed) (demo_session ''s'' 1)
      [convert_rule demo_externals (demo_session ''s'' 1) demo_attribution] []) = None"
    unfolding WriteEvidence_def w(4) existing_evidence_def
    by (simp add: Let_def demo_disk_def demo_codec_evidence_def demo_store_def write_atomic_def)
  moreover have "faithful_write ?J os w' ref s new fs" for os w' ref s new fs
    by (simp add: faithful_write_def demo_codec_evidence_def Let_def split: sum.split)
  ultimately have ok: "evidence_all_ok demo_externals ?J ?evs (?ew, [])" by (simp add: w)
  have t: "list_all (\<lambda>(os, _). os_tmp os \<noteq> ''/ev/h/ns/a.json'') ?evs" by (simp add: demo_disk_def)
  have e: "evidence_path demo_store (event_ref demo_attributed) = ''/ev/h/ns/a.json''" by code_simp
  have key: "RuleKey_String (ra_Key demo_attribution) = ''ingress:entity:world:TCP:80''"
    by (simp add: demo_attribution_def RuleKey_String_def encodePeer_def)
  have p: "key_total re_FlowCount (+) ''ingress:entity:world:TCP:80''
      (contributed demo_externals ?ew ''/ev/h/ns/a.json'' (map snd ?evs)) = Some 7"
    using e key by (simp add: contributed_def w convert_rule_def) (simp add: demo_attribution_def)
  obtain ew1 fs1 where h: "handle_evidence_all demo_externals ?J ?evs (?ew, []) = (ew1, fs1)" by fastforce
  obtain ew2 fs2 where f: "finalize_evidence ?J 7 0 [] (ew1, fs1) = (ew2, fs2)" by fastforce
  from evidence_session_totals [OF ok t h _ _ f, of "''ingress:entity:world:TCP:80''"] p
  show ?thesis by (simp add: disk_rules_def h f)
qed

end
