(* ===== verification/BuilderSpec.thy ===== *)
theory BuilderSpec
  imports Builder
begin

text \<open>
  What a built policy promises: every routed flow is admitted by a rule for its peer,
  every entry of every rule stems from a flow, unroutable flows are reported with their
  reason, HTTP rules match the requests observed, and layer-7 data is ignored when it is
  switched off.
\<close>

section \<open>Emitted rules\<close>

definition lists_proto :: "port_rule list \<Rightarrow> icmp_rule list \<Rightarrow> flowProto \<Rightarrow> bool" where
  "lists_proto prs is fp \<longleftrightarrow>
     (if fp_icmp fp then fp_entry_icmp fp \<in> icmps_listed is else fp_entry_port fp \<in> ports_listed prs)"

definition ingress_peer_fields :: "ingress_rule \<Rightarrow> rule_peer" where
  "ingress_peer_fields r = (ir_FromEndpoints r, ir_FromEntities r, ir_FromCIDR r)"

definition egress_peer_fields :: "egress_rule \<Rightarrow> rule_peer" where
  "egress_peer_fields r = (er_ToEndpoints r, er_ToEntities r, er_ToCIDR r)"

definition ingress_common :: "rule_peer \<Rightarrow> ingress_rule" where
  "ingress_common pc = (case pc of (sels, ents, cidrs) \<Rightarrow>
     empty_ingress\<lparr>ir_FromEndpoints := sels, ir_FromEntities := ents, ir_FromCIDR := cidrs\<rparr>)"

definition egress_common :: "rule_peer \<Rightarrow> egress_rule" where
  "egress_common pc = (case pc of (sels, ents, cidrs) \<Rightarrow>
     empty_egress\<lparr>er_ToEndpoints := sels, er_ToEntities := ents, er_ToCIDR := cidrs\<rparr>)"

lemma ports_listed_portRulesFor [simp]: "ports_listed (portRulesFor ports h) = set ports"
  by (auto simp: portRulesFor_def ports_listed_def Let_def)

lemma applyL7Collapse_fields [simp]:
  "pl_ports (applyL7Collapse d opts cs pr) = pl_ports pr"
  "pl_icmpFields (applyL7Collapse d opts cs pr) = pl_icmpFields pr"
  "pl_dnsOrder (applyL7Collapse d opts cs pr) = pl_dnsOrder pr"
  by (simp_all add: applyL7Collapse_def split: option.split)

lemma concat_map_append: "concat (map f (xs @ ys)) = concat (map f xs) @ concat (map f ys)"
  by simp

lemma buildIngressRules_emitted:
  assumes "groupFlows E fs ns ingressReasons ''ingress'' opts fl_source flowSourceIP cs0 = (b, cs, log)"
  shows "buildIngressRules E fs ns opts cs0 =
    (concat (map (\<lambda>(pc, pr). ingressRulesFrom (ingress_common pc) (applyL7Collapse ''ingress'' opts cs pr)) (emitted b)),
     bucket_attribution b, cs, log)"
  by (simp add: buildIngressRules_def assms emitted_def ingress_common_def case_prod_beta' comp_def)

lemma buildEgressRules_emitted:
  assumes "groupFlows E fs ns egressReasons ''egress'' opts fl_destination flowDestinationIP cs0 = (b, cs, log)"
  shows "buildEgressRules E fs ns opts cs0 =
    (concat (map (\<lambda>(pc, pr). egressRulesFrom (egress_common pc) (applyL7Collapse ''egress'' opts cs pr)) (emitted b))
     @ concat (map (\<lambda>(pc, pr). fqdn_egress_rule pr) (emitted b)),
     bucket_attribution b, cs, log)"
  by (simp add: buildEgressRules_def assms emitted_def egress_common_def fqdnEgressRulesFrom_def
      case_prod_beta' comp_def)

section \<open>Flows of a direction\<close>

text \<open>The flows a direction handles, and how it reads them.\<close>

definition dir_flows :: "traffic_direction \<Rightarrow> flow list \<Rightarrow> flow list" where
  "dir_flows d flows = filter (\<lambda>f. fl_l4 f \<noteq> None \<and> fl_direction f = d) flows"

abbreviation ingress_route :: "externals \<Rightarrow> flow \<Rightarrow> UnhandledReason + bucket_id" where
  "ingress_route E \<equiv> route E ingressReasons fl_source flowSourceIP"

abbreviation egress_route :: "externals \<Rightarrow> flow \<Rightarrow> UnhandledReason + bucket_id" where
  "egress_route E \<equiv> route E egressReasons fl_destination flowDestinationIP"

abbreviation ingress_flow_peer :: "externals \<Rightarrow> string \<Rightarrow> flow \<Rightarrow> rule_peer" where
  "ingress_flow_peer E ns \<equiv> flow_rule_peer E ns fl_source flowSourceIP"

abbreviation egress_flow_peer :: "externals \<Rightarrow> string \<Rightarrow> flow \<Rightarrow> rule_peer" where
  "egress_flow_peer E ns \<equiv> flow_rule_peer E ns fl_destination flowDestinationIP"

lemma dir_flows_mem [simp]: "f \<in> set (dir_flows d flows) \<longleftrightarrow> f \<in> set flows \<and> fl_l4 f \<noteq> None \<and> fl_direction f = d"
  by (auto simp: dir_flows_def)

lemma BuildPolicy_parts:
  assumes "BuildPolicy E ns w flows opts cs = (p, attrib, cs2, log)"
  shows "\<exists>ing eg at1 at2 cs1 log1 log2 sel.
    buildIngressRules E (dir_flows INGRESS flows) ns opts cs = (ing, at1, cs1, log1) \<and>
    buildEgressRules E (dir_flows EGRESS flows) ns opts cs1 = (eg, at2, cs2, log2) \<and>
    attrib = at1 @ at2 \<and> log = no_l4_log flows @ log1 @ log2 \<and>
    p = ensureKubeDNSCompanion (cnp_stub (PolicyName w) ns
          \<lparr>ru_EndpointSelector = sel, ru_Ingress = ing, ru_Egress = eg,
           ru_DefaultDenyIngress = None, ru_DefaultDenyEgress = None\<rparr>) (ao_DNSSelector opts)"
  using assms by (auto simp: BuildPolicy_def dir_flows_def Let_def split: prod.splits)

lemma ensure_spec:
  "ru_Ingress (spec_of (ensureKubeDNSCompanion (cnp_stub n ns spec) d)) = ru_Ingress spec \<and>
   (\<exists>rest. ru_Egress (spec_of (ensureKubeDNSCompanion (cnp_stub n ns spec) d)) = ru_Egress spec @ rest
     \<and> (rest = [] \<or> (\<exists>names. rest = [companion_rule d names])))"
  by (auto simp: ensureKubeDNSCompanion_def cnp_stub_def spec_of_def Let_def)

text \<open>The ingress and egress rules of the built policy.\<close>

lemma BuildPolicy_rules:
  assumes "BuildPolicy E ns w flows opts cs = (p, attrib, cs2, log)"
  obtains b1 cs1 log1 b2 log2 rest where
    "groupFlows E (dir_flows INGRESS flows) ns ingressReasons ''ingress'' opts fl_source flowSourceIP cs = (b1, cs1, log1)"
    "groupFlows E (dir_flows EGRESS flows) ns egressReasons ''egress'' opts fl_destination flowDestinationIP cs1 = (b2, cs2, log2)"
    "ru_Ingress (spec_of p) = concat (map (\<lambda>(pc, pr). ingressRulesFrom (ingress_common pc)
        (applyL7Collapse ''ingress'' opts cs1 pr)) (emitted b1))"
    "ru_Egress (spec_of p) = concat (map (\<lambda>(pc, pr). egressRulesFrom (egress_common pc)
        (applyL7Collapse ''egress'' opts cs2 pr)) (emitted b2))
      @ concat (map (\<lambda>(pc, pr). fqdn_egress_rule pr) (emitted b2)) @ rest"
    "rest = [] \<or> (\<exists>names. rest = [companion_rule (ao_DNSSelector opts) names])"
    "log = no_l4_log flows @ log1 @ log2" "attrib = bucket_attribution b1 @ bucket_attribution b2"
proof -
  obtain b1 cs1 log1 where g1: "groupFlows E (dir_flows INGRESS flows) ns ingressReasons ''ingress'' opts
      fl_source flowSourceIP cs = (b1, cs1, log1)" by (metis prod_cases3)
  obtain b2 cs2' log2 where g2: "groupFlows E (dir_flows EGRESS flows) ns egressReasons ''egress'' opts
      fl_destination flowDestinationIP cs1 = (b2, cs2', log2)" by (metis prod_cases3)
  from BuildPolicy_parts [OF assms] obtain ing eg at1 at2 cs1' log1' log2' sel where
    i: "buildIngressRules E (dir_flows INGRESS flows) ns opts cs = (ing, at1, cs1', log1')"
    and e: "buildEgressRules E (dir_flows EGRESS flows) ns opts cs1' = (eg, at2, cs2, log2')"
    and r: "attrib = at1 @ at2" "log = no_l4_log flows @ log1' @ log2'"
    and p: "p = ensureKubeDNSCompanion (cnp_stub (PolicyName w) ns
          \<lparr>ru_EndpointSelector = sel, ru_Ingress = ing, ru_Egress = eg,
           ru_DefaultDenyIngress = None, ru_DefaultDenyEgress = None\<rparr>) (ao_DNSSelector opts)"
    by blast
  note I = i [unfolded buildIngressRules_emitted [OF g1] prod.inject]
  then have "cs1' = cs1" by simp
  note Eg = e [unfolded this buildEgressRules_emitted [OF g2] prod.inject]
  from ensure_spec [of "PolicyName w" ns _ "ao_DNSSelector opts"]
  obtain rest where "ru_Ingress (spec_of p) = ing" "ru_Egress (spec_of p) = eg @ rest"
    "rest = [] \<or> (\<exists>names. rest = [companion_rule (ao_DNSSelector opts) names])"
    unfolding p by (metis rule.select_convs(2,3))
  moreover have "cs2' = cs2" using Eg by simp
  ultimately show ?thesis
    using that [OF g1, of b2 log2 rest] g2 I Eg r by clarsimp
qed

section \<open>Completeness and least privilege at layer 4\<close>

text \<open>A rule's peer fields admit an endpoint with an address.\<close>

definition peer_admits :: "externals \<Rightarrow> string \<Rightarrow> rule_peer \<Rightarrow> endpoint \<Rightarrow> string \<Rightarrow> bool" where
  "peer_admits E ns pc ep ip \<longleftrightarrow>
     (case pc of (sels, ents, cidrs) \<Rightarrow>
        list_ex (\<lambda>s. selects E ns s ep) sels
        \<or> (reservedEntity (Some ep) \<noteq> [] \<and> reservedEntity (Some ep) \<in> set ents)
        \<or> (ip \<noteq> [] \<and> ip @ ''/32'' \<in> set cidrs))"

lemma route_peer_admits:
  assumes "route E r peer peerIP f = Inr bid" and "peer f = Some ep"
  shows "peer_admits E ns (flow_rule_peer E ns peer peerIP f) ep (peerIP f)"
  using assms BuildPeerSelector_selects [of E ns ep]
  by (auto simp: route_def flow_rule_peer_def peer_admits_def split: if_splits)

text \<open>A bucket that collected the protocol.\<close>

definition bucket_lists :: "flowProto \<Rightarrow> peerRules \<Rightarrow> bool" where
  "bucket_lists fp pr \<longleftrightarrow>
     (if fp_icmp fp then fp_entry_icmp fp \<in> set (pl_icmpFields pr) else fp_entry_port fp \<in> set (pl_ports pr))"

lemma ingressRulesFrom_lists:
  assumes "bucket_lists fp pr"
  shows "\<exists>r \<in> set (ingressRulesFrom (ingress_common pc) pr).
     ingress_peer_fields r = pc \<and> lists_proto (ir_ToPorts r) (ir_ICMPs r) fp"
proof (cases "fp_icmp fp")
  case True
  with assms have "pl_icmpFields pr \<noteq> []" by (auto simp: bucket_lists_def)
  with True assms show ?thesis
    by (intro bexI [of _ "(ingress_common pc)\<lparr>ir_ICMPs := [pl_icmpFields pr]\<rparr>"])
      (auto simp: ingressRulesFrom_def ingress_common_def ingress_peer_fields_def lists_proto_def bucket_lists_def split: prod.split)
next
  case False
  with assms have "pl_ports pr \<noteq> []" by (auto simp: bucket_lists_def)
  with False assms show ?thesis
    by (intro bexI [of _ "(ingress_common pc)\<lparr>ir_ToPorts := portRulesFor (pl_ports pr) (pl_httpRules pr)\<rparr>"])
      (auto simp: ingressRulesFrom_def ingress_common_def ingress_peer_fields_def lists_proto_def bucket_lists_def split: prod.split)
qed

lemma egressRulesFrom_lists:
  assumes "bucket_lists fp pr"
  shows "\<exists>r \<in> set (egressRulesFrom (egress_common pc) pr).
     egress_peer_fields r = pc \<and> er_ToFQDNs r = [] \<and> lists_proto (er_ToPorts r) (er_ICMPs r) fp"
proof (cases "fp_icmp fp")
  case True
  with assms have "pl_icmpFields pr \<noteq> []" by (auto simp: bucket_lists_def)
  with True assms show ?thesis
    by (intro bexI [of _ "(egress_common pc)\<lparr>er_ICMPs := [pl_icmpFields pr]\<rparr>"])
      (auto simp: egressRulesFrom_def egress_common_def egress_peer_fields_def lists_proto_def bucket_lists_def split: prod.split)
next
  case False
  with assms have "pl_ports pr \<noteq> []" by (auto simp: bucket_lists_def)
  with False assms show ?thesis
    by (intro bexI [of _ "(egress_common pc)\<lparr>er_ToPorts := portRulesFor (pl_ports pr) (pl_httpRules pr)\<rparr>"])
      (auto simp: egressRulesFrom_def egress_common_def egress_peer_fields_def lists_proto_def bucket_lists_def split: prod.split)
qed

text \<open>A rule allows at least one entry, and each of its entries is one of a set of protocols.\<close>

definition only_protos :: "port_rule list \<Rightarrow> icmp_rule list \<Rightarrow> (flowProto \<Rightarrow> bool) \<Rightarrow> bool" where
  "only_protos prs is P \<longleftrightarrow>
     (\<forall>pp \<in> ports_listed prs. \<exists>fp. P fp \<and> \<not> fp_icmp fp \<and> pp = fp_entry_port fp)
     \<and> (\<forall>i \<in> icmps_listed is. \<exists>fp. P fp \<and> fp_icmp fp \<and> i = fp_entry_icmp fp)
     \<and> (ports_listed prs \<noteq> {} \<or> icmps_listed is \<noteq> {})"

lemma ingressRulesFrom_only:
  assumes "r \<in> set (ingressRulesFrom (ingress_common pc) pr)"
    and "set (pl_ports pr) = fp_entry_port ` {fp \<in> S. \<not> fp_icmp fp}"
    and "set (pl_icmpFields pr) = fp_entry_icmp ` {fp \<in> S. fp_icmp fp}"
  shows "ingress_peer_fields r = pc \<and> only_protos (ir_ToPorts r) (ir_ICMPs r) (\<lambda>fp. fp \<in> S)"
  using assms
  by (cases pc)
    (auto simp: ingressRulesFrom_def ingress_common_def ingress_peer_fields_def only_protos_def split: if_splits)

lemma egressRulesFrom_only:
  assumes "r \<in> set (egressRulesFrom (egress_common pc) pr)"
    and "set (pl_ports pr) = fp_entry_port ` {fp \<in> S. \<not> fp_icmp fp}"
    and "set (pl_icmpFields pr) = fp_entry_icmp ` {fp \<in> S. fp_icmp fp}"
  shows "egress_peer_fields r = pc \<and> er_ToFQDNs r = [] \<and> only_protos (er_ToPorts r) (er_ICMPs r) (\<lambda>fp. fp \<in> S)"
  using assms
  by (cases pc)
    (auto simp: egressRulesFrom_def egress_common_def egress_peer_fields_def only_protos_def split: if_splits)

lemma only_protos_mono: "only_protos prs is P \<Longrightarrow> (\<And>fp. P fp \<Longrightarrow> Q fp) \<Longrightarrow> only_protos prs is Q"
  by (fastforce simp: only_protos_def)

text \<open>The L4 content of an emitted bucket, after the collapse.\<close>

lemma emitted_l4:
  assumes "gs = filter (\<lambda>f. route E r peer peerIP f = Inr bid) fs"
    and "pr = applyL7Collapse d opts cs (bucket_of E direction opts peer peerIP gs)"
  shows "set (pl_ports pr) = fp_entry_port ` {fp \<in> l4_protos E direction opts gs. \<not> fp_icmp fp}"
    "set (pl_icmpFields pr) = fp_entry_icmp ` {fp \<in> l4_protos E direction opts gs. fp_icmp fp}"
proof -
  have "\<forall>g \<in> set gs. extractProto g \<noteq> None"
    using route_Inr by (fastforce simp: assms(1))
  from bucket_l4 [OF this] show "set (pl_ports pr) = fp_entry_port ` {fp \<in> l4_protos E direction opts gs. \<not> fp_icmp fp}"
    "set (pl_icmpFields pr) = fp_entry_icmp ` {fp \<in> l4_protos E direction opts gs. fp_icmp fp}"
    by (simp_all add: assms(2))
qed

text \<open>A routed flow that counts for L4 is in an emitted bucket that lists its protocol.\<close>

lemma emitted_lists:
  assumes g: "groupFlows E fs ns r direction opts peer peerIP cs = (b, cs', log)"
    and ns: "one_namespace E peer fs" and f: "f \<in> set fs" "route E r peer peerIP f = Inr bid"
    and fp: "extractProto f = Some fp" "flow_l4 E opts direction f"
  shows "\<exists>pr. (flow_rule_peer E ns peer peerIP f, pr) \<in> set (emitted b) \<and>
    bucket_lists fp (applyL7Collapse d opts cs'' pr)"
proof -
  let ?gs = "filter (\<lambda>f. route E r peer peerIP f = Inr bid) fs"
  have "fp \<in> l4_protos E direction opts ?gs"
    using f fp by (auto simp: l4_protos_def)
  moreover have "set (pl_ports (applyL7Collapse d opts cs'' (bucket_of E direction opts peer peerIP ?gs)))
      = fp_entry_port ` {fp \<in> l4_protos E direction opts ?gs. \<not> fp_icmp fp}"
    "set (pl_icmpFields (applyL7Collapse d opts cs'' (bucket_of E direction opts peer peerIP ?gs)))
      = fp_entry_icmp ` {fp \<in> l4_protos E direction opts ?gs. fp_icmp fp}"
    by (rule emitted_l4 [OF refl refl])+
  ultimately have "bucket_lists fp (applyL7Collapse d opts cs'' (bucket_of E direction opts peer peerIP ?gs))"
    by (simp add: bucket_lists_def del: applyL7Collapse_fields)
  with emitted_complete [OF g ns f] show ?thesis
    by blast
qed

lemma subset_concat_map: "(a, b) \<in> set xs \<Longrightarrow> set (f a b) \<subseteq> set (concat (map (\<lambda>(a, b). f a b) xs))"
  by force

lemma admits_ingress:
  assumes p: "BuildPolicy E ns w flows opts cs = (p, attrib, cs2, log)"
    and ns: "one_namespace E fl_source (dir_flows INGRESS flows)"
    and f: "f \<in> set (dir_flows INGRESS flows)" "ingress_route E f = Inr bid"
  shows "\<exists>r \<in> set (ru_Ingress (spec_of p)). ingress_peer_fields r = ingress_flow_peer E ns f
    \<and> peer_admits E ns (ingress_peer_fields r) (the (fl_source f)) (flowSourceIP f)
    \<and> lists_proto (ir_ToPorts r) (ir_ICMPs r) (the (extractProto f))"
proof -
  obtain ep fp where ep: "fl_source f = Some ep" and fp: "extractProto f = Some fp"
    using route_Inr [OF f(2)] by auto
  have l4: "flow_l4 E opts ''ingress'' f" by (simp add: flow_kind_def)
  from BuildPolicy_rules [OF p] obtain b1 cs1 log1 where
    g: "groupFlows E (dir_flows INGRESS flows) ns ingressReasons ''ingress'' opts fl_source flowSourceIP cs = (b1, cs1, log1)"
    and rules: "ru_Ingress (spec_of p) = concat (map (\<lambda>(pc, pr). ingressRulesFrom (ingress_common pc)
        (applyL7Collapse ''ingress'' opts cs1 pr)) (emitted b1))" by metis
  from emitted_lists [OF g ns f fp l4, of "''ingress''" cs1] obtain pr where
    pr: "(ingress_flow_peer E ns f, pr) \<in> set (emitted b1)"
    and l: "bucket_lists fp (applyL7Collapse ''ingress'' opts cs1 pr)"
    by blast
  have "set (ingressRulesFrom (ingress_common (ingress_flow_peer E ns f)) (applyL7Collapse ''ingress'' opts cs1 pr))
      \<subseteq> set (ru_Ingress (spec_of p))"
    unfolding rules using pr by (rule subset_concat_map)
  with ingressRulesFrom_lists [OF l, of "ingress_flow_peer E ns f"]
  have "\<exists>r \<in> set (ru_Ingress (spec_of p)). ingress_peer_fields r = ingress_flow_peer E ns f
      \<and> lists_proto (ir_ToPorts r) (ir_ICMPs r) fp"
    by blast
  with route_peer_admits [OF f(2) ep, of ns] ep fp show ?thesis by auto
qed

text \<open>Completeness of ingress: for every ingress flow that the builder can attribute to a peer, the
  built policy has an ingress rule that names exactly the flow's peer, admits its endpoint, and
  lists its port or ICMP type, provided peers with equal labels live in one namespace.\<close>

theorem BuildPolicy_admits_ingress:
  assumes p: "BuildPolicy E ns w flows opts cs = (p, attrib, cs2, log)"
    and ns: "one_namespace E fl_source (dir_flows INGRESS flows)"
    and f: "f \<in> set (dir_flows INGRESS flows)" "ingress_route E f = Inr bid"
  shows "\<exists>r \<in> set (ru_Ingress (spec_of p)). ingress_peer_fields r = ingress_flow_peer E ns f
    \<and> peer_admits E ns (ingress_peer_fields r) (the (fl_source f)) (flowSourceIP f)
    \<and> lists_proto (ir_ToPorts r) (ir_ICMPs r) (the (extractProto f))"
  by (rule admits_ingress [OF assms])

lemma recordL7_dns:
  assumes "recordL7 E f fp direction p opts (pr, cs) = (kind, pr', cs')"
  shows "pl_dnsOrder pr' = (if kind = l7DNS then add_new id (the (extractDNSQuery f)) (pl_dnsOrder pr) else pl_dnsOrder pr)"
  using assms extractDNSQuery_nonempty [of f]
  by (auto simp: recordL7_def addDNSName_def Let_def split: if_splits option.splits)

lemma flow_into_dns:
  "pl_dnsOrder (flow_into E direction opts peer peerIP f pr) =
     (if flow_kind E opts direction f = l7DNS then add_new id (the (extractDNSQuery f)) (pl_dnsOrder pr)
      else pl_dnsOrder pr)"
proof -
  let ?fp = "the (extractProto f)" and ?p = "flow_peer E peer peerIP f"
  let ?pr = "if pl_obsPeerKey pr = [] then pr\<lparr>pl_obsPeerKey := encodePeer ?p\<rparr> else pr"
  obtain kind pr1 cs1 where r: "recordL7 E f ?fp direction ?p opts (?pr, None) = (kind, pr1, cs1)"
    by (cases "recordL7 E f ?fp direction ?p opts (?pr, None)") auto
  have "pl_dnsOrder (flow_into E direction opts peer peerIP f pr) = pl_dnsOrder pr1"
    unfolding flow_into_def bucket_flow_def Let_def split_conv r by simp
  then show ?thesis
    using recordL7_dns [OF r] fst_recordL7_kind [OF r] by simp
qed

lemma bucket_dns:
  "set (pl_dnsOrder (bucket_of E direction opts peer peerIP gs)) =
     {q. \<exists>f \<in> set gs. flow_kind E opts direction f = l7DNS \<and> extractDNSQuery f = Some q}"
proof (induction gs rule: rev_induct)
  case Nil
  then show ?case by (simp add: newPeerRules_def)
next
  case (snoc f gs)
  have "flow_kind E opts direction f = l7DNS \<Longrightarrow> extractDNSQuery f \<noteq> None"
    by (auto simp: flow_kind_def split: if_splits)
  with snoc show ?case by (auto simp: flow_into_dns add_new_def)
qed

text \<open>A rule that allows the names through the DNS proxy and to the addresses they resolve to.\<close>

definition allows_fqdn :: "string \<Rightarrow> egress_rule \<Rightarrow> bool" where
  "allows_fqdn q r \<longleftrightarrow> match_name q \<in> set (er_ToFQDNs r) \<and>
     list_ex (\<lambda>pr. pr_Ports pr = dns_ports \<and>
       (case pr_Rules pr of None \<Rightarrow> False | Some l \<Rightarrow> match_name q \<in> set (l7_DNS l))) (er_ToPorts r)"

lemma fqdn_egress_rule_allows: "q \<in> set (pl_dnsOrder pr) \<Longrightarrow> \<exists>r \<in> set (fqdn_egress_rule pr). allows_fqdn q r"
  by (cases "pl_dnsOrder pr = []") (auto simp: fqdn_egress_rule_def allows_fqdn_def Let_def)

lemma BuildPolicy_companion_rule:
  assumes p: "BuildPolicy E ns w flows opts cs = (p, attrib, cs2, log)"
    and d: "wf_dns_selector (ao_DNSSelector opts)"
    and r: "r \<in> set (ru_Egress (spec_of p))" "allows_fqdn q r" "q \<noteq> []"
  shows "hasKubeDNSCompanion (ru_Egress (spec_of p)) (ao_DNSSelector opts)"
proof -
  from BuildPolicy_parts [OF p] obtain n spec where
    e: "p = ensureKubeDNSCompanion (cnp_stub n ns spec) (ao_DNSSelector opts)" by blast
  have spec: "cnp_Spec p = Some (spec_of p)"
    by (simp add: e ensureKubeDNSCompanion_def cnp_stub_def spec_of_def Let_def)
  have "q \<in> set (collectFQDNMatchNames (ru_Egress (spec_of p)))"
    using r by (force simp: set_collectFQDNMatchNames allows_fqdn_def)
  then have "collectFQDNMatchNames (ru_Egress (spec_of p)) \<noteq> []" by auto
  with ensure_companion [OF d spec [unfolded e]] show ?thesis by (simp add: e)
qed

lemma admits_egress:
  assumes p: "BuildPolicy E ns w flows opts cs = (p, attrib, cs2, log)"
    and ns: "one_namespace E fl_destination (dir_flows EGRESS flows)"
    and d: "wf_dns_selector (ao_DNSSelector opts)"
    and f: "f \<in> set (dir_flows EGRESS flows)" "egress_route E f = Inr bid"
  shows "if flow_kind E opts ''egress'' f = l7DNS
    then (\<exists>r \<in> set (ru_Egress (spec_of p)). allows_fqdn (the (extractDNSQuery f)) r)
      \<and> hasKubeDNSCompanion (ru_Egress (spec_of p)) (ao_DNSSelector opts)
    else \<exists>r \<in> set (ru_Egress (spec_of p)). egress_peer_fields r = egress_flow_peer E ns f \<and> er_ToFQDNs r = []
      \<and> peer_admits E ns (egress_peer_fields r) (the (fl_destination f)) (flowDestinationIP f)
      \<and> lists_proto (er_ToPorts r) (er_ICMPs r) (the (extractProto f))"
proof -
  obtain ep fp where ep: "fl_destination f = Some ep" and fp: "extractProto f = Some fp"
    using route_Inr [OF f(2)] by auto
  from BuildPolicy_rules [OF p] obtain cs1 b2 log2 rest where
    g: "groupFlows E (dir_flows EGRESS flows) ns egressReasons ''egress'' opts fl_destination flowDestinationIP cs1 = (b2, cs2, log2)"
    and rules: "ru_Egress (spec_of p) = concat (map (\<lambda>(pc, pr). egressRulesFrom (egress_common pc)
        (applyL7Collapse ''egress'' opts cs2 pr)) (emitted b2))
      @ concat (map (\<lambda>(pc, pr). fqdn_egress_rule pr) (emitted b2)) @ rest" by metis
  show ?thesis
  proof (cases "flow_kind E opts ''egress'' f = l7DNS")
    case True
    then obtain q where q: "extractDNSQuery f = Some q"
      by (auto simp: flow_kind_def split: if_splits)
    let ?pr = "bucket_of E ''egress'' opts fl_destination flowDestinationIP
      (filter (\<lambda>f. egress_route E f = Inr bid) (dir_flows EGRESS flows))"
    have "q \<in> set (pl_dnsOrder ?pr)"
      using True q f unfolding bucket_dns by force
    moreover have "set (fqdn_egress_rule ?pr) \<subseteq> set (ru_Egress (spec_of p))"
      using subset_concat_map [OF emitted_complete [OF g ns f], of "\<lambda>_ pr. fqdn_egress_rule pr"]
      unfolding rules by auto
    ultimately obtain r where "r \<in> set (ru_Egress (spec_of p))" "allows_fqdn q r"
      using fqdn_egress_rule_allows by blast
    with True q BuildPolicy_companion_rule [OF p d] extractDNSQuery_nonempty [OF q] show ?thesis by auto
  next
    case False
    from emitted_lists [OF g ns f fp False, of "''egress''" cs2] obtain pr where
      pr: "(egress_flow_peer E ns f, pr) \<in> set (emitted b2)"
      and l: "bucket_lists fp (applyL7Collapse ''egress'' opts cs2 pr)"
      by blast
    have "set (egressRulesFrom (egress_common (egress_flow_peer E ns f)) (applyL7Collapse ''egress'' opts cs2 pr))
        \<subseteq> set (ru_Egress (spec_of p))"
      using subset_concat_map [OF pr, of "\<lambda>pc pr. egressRulesFrom (egress_common pc) (applyL7Collapse ''egress'' opts cs2 pr)"]
      unfolding rules by auto
    with egressRulesFrom_lists [OF l, of "egress_flow_peer E ns f"]
    have "\<exists>r \<in> set (ru_Egress (spec_of p)). egress_peer_fields r = egress_flow_peer E ns f \<and> er_ToFQDNs r = []
        \<and> lists_proto (er_ToPorts r) (er_ICMPs r) fp"
      by blast
    with False route_peer_admits [OF f(2) ep, of ns] ep fp show ?thesis by auto
  qed
qed

text \<open>Completeness of egress: an egress flow that the builder can attribute to a peer is admitted at
  layer 4 by a rule for exactly its peer; or, when it is a DNS query taken up with layer 7 on, the
  queried name is allowed literally by a toFQDNs rule and the policy lets the pods reach the
  cluster DNS.\<close>

theorem BuildPolicy_admits_egress:
  assumes p: "BuildPolicy E ns w flows opts cs = (p, attrib, cs2, log)"
    and ns: "one_namespace E fl_destination (dir_flows EGRESS flows)"
    and d: "wf_dns_selector (ao_DNSSelector opts)"
    and f: "f \<in> set (dir_flows EGRESS flows)" "egress_route E f = Inr bid"
  shows "if flow_kind E opts ''egress'' f = l7DNS
    then (\<exists>r \<in> set (ru_Egress (spec_of p)). allows_fqdn (the (extractDNSQuery f)) r)
      \<and> hasKubeDNSCompanion (ru_Egress (spec_of p)) (ao_DNSSelector opts)
    else \<exists>r \<in> set (ru_Egress (spec_of p)). egress_peer_fields r = egress_flow_peer E ns f \<and> er_ToFQDNs r = []
      \<and> peer_admits E ns (egress_peer_fields r) (the (fl_destination f)) (flowDestinationIP f)
      \<and> lists_proto (er_ToPorts r) (er_ICMPs r) (the (extractProto f))"
  by (rule admits_egress [OF assms])

section \<open>Least privilege\<close>

text \<open>Each entry of a rule is the protocol of an observed flow whose peer is exactly the rule's.\<close>

definition justified ::
  "externals \<Rightarrow> string \<Rightarrow> (flow \<Rightarrow> endpoint option) \<Rightarrow> (flow \<Rightarrow> string) \<Rightarrow> flow list \<Rightarrow>
     rule_peer \<Rightarrow> port_rule list \<Rightarrow> icmp_rule list \<Rightarrow> bool" where
  "justified E ns peer peerIP flows pc prs is \<longleftrightarrow>
     only_protos prs is (\<lambda>fp. \<exists>f \<in> set flows. extractProto f = Some fp \<and> flow_rule_peer E ns peer peerIP f = pc)"

lemma emitted_justified:
  assumes g: "groupFlows E fs ns r direction opts peer peerIP cs = (b, cs', log)"
    and ns: "one_namespace E peer fs" and e: "(pc, pr) \<in> set (emitted b)"
  shows "\<exists>S. set (pl_ports (applyL7Collapse d opts cs'' pr)) = fp_entry_port ` {fp \<in> S. \<not> fp_icmp fp}
    \<and> set (pl_icmpFields (applyL7Collapse d opts cs'' pr)) = fp_entry_icmp ` {fp \<in> S. fp_icmp fp}
    \<and> (\<forall>fp \<in> S. \<exists>f \<in> set fs. extractProto f = Some fp \<and> flow_rule_peer E ns peer peerIP f = pc)"
proof -
  from emitted_sound [OF g ns e] obtain bid gs where
    gs: "gs = filter (\<lambda>f. route E r peer peerIP f = Inr bid) fs"
    and pr: "pr = bucket_of E direction opts peer peerIP gs"
    and pc: "\<forall>g \<in> set gs. flow_rule_peer E ns peer peerIP g = pc" by blast
  have sub: "set gs \<subseteq> set fs" by (auto simp: gs)
  have "\<forall>fp \<in> l4_protos E direction opts gs. \<exists>f \<in> set fs. extractProto f = Some fp \<and> flow_rule_peer E ns peer peerIP f = pc"
    using pc sub by (fastforce simp: l4_protos_def)
  moreover have "set (pl_ports (applyL7Collapse d opts cs'' pr)) = fp_entry_port ` {fp \<in> l4_protos E direction opts gs. \<not> fp_icmp fp}"
    "set (pl_icmpFields (applyL7Collapse d opts cs'' pr)) = fp_entry_icmp ` {fp \<in> l4_protos E direction opts gs. fp_icmp fp}"
    by (rule emitted_l4 [OF gs], simp add: pr)+
  ultimately show ?thesis by (intro exI conjI)
qed

lemma emitted_dns_names:
  assumes "groupFlows E fs ns r direction opts peer peerIP cs = (b, cs', log)"
    and "one_namespace E peer fs" and "(pc, pr) \<in> set (emitted b)"
  shows "set (pl_dnsOrder pr) \<subseteq> {q. \<exists>f \<in> set fs. extractDNSQuery f = Some q}"
proof -
  from emitted_sound [OF assms] obtain bid gs where
    "gs = filter (\<lambda>f. route E r peer peerIP f = Inr bid) fs"
    and "pr = bucket_of E direction opts peer peerIP gs" by blast
  then show ?thesis by (auto simp: bucket_dns)
qed

lemma concat_map_mem: "x \<in> set (concat (map (\<lambda>(a, b). f a b) xs)) \<Longrightarrow> \<exists>a b. (a, b) \<in> set xs \<and> x \<in> set (f a b)"
  by auto

lemma ingress_rule_justified:
  assumes "groupFlows E fs ns r direction opts fl_source flowSourceIP cs = (b, cs', log)" and "one_namespace E fl_source fs"
    and "(pc, pr) \<in> set (emitted b)" and "rule \<in> set (ingressRulesFrom (ingress_common pc) (applyL7Collapse d opts cs'' pr))"
  shows "justified E ns fl_source flowSourceIP fs (ingress_peer_fields rule) (ir_ToPorts rule) (ir_ICMPs rule)"
proof -
  from emitted_justified [OF assms(1-3), of d cs''] obtain S where
    S: "set (pl_ports (applyL7Collapse d opts cs'' pr)) = fp_entry_port ` {fp \<in> S. \<not> fp_icmp fp}"
      "set (pl_icmpFields (applyL7Collapse d opts cs'' pr)) = fp_entry_icmp ` {fp \<in> S. fp_icmp fp}"
      "\<forall>fp \<in> S. \<exists>f \<in> set fs. extractProto f = Some fp \<and> ingress_flow_peer E ns f = pc" by blast
  from ingressRulesFrom_only [OF assms(4) S(1,2)] S(3) show ?thesis
    unfolding justified_def by (elim conjE only_protos_mono) simp
qed

lemma egress_rule_justified:
  assumes "groupFlows E fs ns r direction opts fl_destination flowDestinationIP cs = (b, cs', log)"
    and "one_namespace E fl_destination fs" and "(pc, pr) \<in> set (emitted b)"
    and "rule \<in> set (egressRulesFrom (egress_common pc) (applyL7Collapse d opts cs'' pr))"
  shows "er_ToFQDNs rule = []
    \<and> justified E ns fl_destination flowDestinationIP fs (egress_peer_fields rule) (er_ToPorts rule) (er_ICMPs rule)"
proof -
  from emitted_justified [OF assms(1-3), of d cs''] obtain S where
    S: "set (pl_ports (applyL7Collapse d opts cs'' pr)) = fp_entry_port ` {fp \<in> S. \<not> fp_icmp fp}"
      "set (pl_icmpFields (applyL7Collapse d opts cs'' pr)) = fp_entry_icmp ` {fp \<in> S. fp_icmp fp}"
      "\<forall>fp \<in> S. \<exists>f \<in> set fs. extractProto f = Some fp \<and> egress_flow_peer E ns f = pc" by blast
  from egressRulesFrom_only [OF assms(4) S(1,2)] S(3) show ?thesis
    unfolding justified_def by (intro conjI) (blast, elim conjE only_protos_mono, simp)
qed

lemma fqdn_rule_observed:
  assumes "set (pl_dnsOrder pr) \<subseteq> {q. \<exists>f \<in> set fs. extractDNSQuery f = Some q}" and "rule \<in> set (fqdn_egress_rule pr)"
  shows "er_ToFQDNs rule \<noteq> [] \<and> egress_peer_fields rule = ([], [], [])
    \<and> (\<forall>s \<in> set (er_ToFQDNs rule). \<exists>f \<in> set fs. \<exists>q. extractDNSQuery f = Some q \<and> s = match_name q)"
proof -
  have r: "er_ToFQDNs rule = map match_name (sort (pl_dnsOrder pr))" "pl_dnsOrder pr \<noteq> []"
    "egress_peer_fields rule = ([], [], [])"
    using assms(2) by (auto simp: fqdn_egress_rule_def egress_peer_fields_def Let_def split: if_splits)
  have "sort (pl_dnsOrder pr) \<noteq> []" using r(2) by (metis length_0_conv length_sort)
  moreover have "\<forall>s \<in> set (er_ToFQDNs rule). \<exists>f \<in> set fs. \<exists>q. extractDNSQuery f = Some q \<and> s = match_name q"
    using assms(1) unfolding r(1) set_map set_sort by blast
  ultimately show ?thesis using r(1,3) by simp
qed

text \<open>C4: Least privilege: every ingress rule of a built policy lists at least one port or ICMP type, and each
  one it lists was used by an observed flow from exactly the peer the rule names; the same holds for
  every egress rule that is neither a toFQDNs rule of observed names nor the DNS companion.  It assumes, for
  either direction, that peers with equal labels are in one namespace and that their labels hold no separator of
  the peer key: the builder groups peers by labels without the namespace, and the rule names the first one's.\<close>

theorem BuildPolicy_least_privilege:
  assumes p: "BuildPolicy E ns w flows opts cs = (p, attrib, cs2, log)"
    and ns: "one_namespace E fl_source (dir_flows INGRESS flows)"
      "one_namespace E fl_destination (dir_flows EGRESS flows)"
  shows "(\<forall>r \<in> set (ru_Ingress (spec_of p)).
      justified E ns fl_source flowSourceIP (dir_flows INGRESS flows) (ingress_peer_fields r) (ir_ToPorts r) (ir_ICMPs r))
    \<and> (\<forall>r \<in> set (ru_Egress (spec_of p)).
      (er_ToFQDNs r = [] \<and>
        justified E ns fl_destination flowDestinationIP (dir_flows EGRESS flows) (egress_peer_fields r) (er_ToPorts r) (er_ICMPs r))
      \<or> (er_ToFQDNs r \<noteq> [] \<and> egress_peer_fields r = ([], [], []) \<and>
        (\<forall>s \<in> set (er_ToFQDNs r). \<exists>f \<in> set (dir_flows EGRESS flows). \<exists>q. extractDNSQuery f = Some q \<and> s = match_name q))
      \<or> (\<exists>names. r = companion_rule (ao_DNSSelector opts) names))"
proof -
  from BuildPolicy_rules [OF p] obtain b1 cs1 log1 b2 log2 rest where
    g1: "groupFlows E (dir_flows INGRESS flows) ns ingressReasons ''ingress'' opts fl_source flowSourceIP cs = (b1, cs1, log1)"
    and g2: "groupFlows E (dir_flows EGRESS flows) ns egressReasons ''egress'' opts fl_destination flowDestinationIP cs1 = (b2, cs2, log2)"
    and r1: "ru_Ingress (spec_of p) = concat (map (\<lambda>(pc, pr). ingressRulesFrom (ingress_common pc)
        (applyL7Collapse ''ingress'' opts cs1 pr)) (emitted b1))"
    and r2: "ru_Egress (spec_of p) = concat (map (\<lambda>(pc, pr). egressRulesFrom (egress_common pc)
        (applyL7Collapse ''egress'' opts cs2 pr)) (emitted b2))
      @ concat (map (\<lambda>(pc, pr). fqdn_egress_rule pr) (emitted b2)) @ rest"
    and rest: "rest = [] \<or> (\<exists>names. rest = [companion_rule (ao_DNSSelector opts) names])" by metis
  have ing: "justified E ns fl_source flowSourceIP (dir_flows INGRESS flows) (ingress_peer_fields r) (ir_ToPorts r) (ir_ICMPs r)"
    if mem: "r \<in> set (ru_Ingress (spec_of p))" for r
    using concat_map_mem [OF mem [unfolded r1]] ingress_rule_justified [OF g1 ns(1)] by blast
  have eg: "(er_ToFQDNs r = [] \<and>
        justified E ns fl_destination flowDestinationIP (dir_flows EGRESS flows) (egress_peer_fields r) (er_ToPorts r) (er_ICMPs r))
      \<or> (er_ToFQDNs r \<noteq> [] \<and> egress_peer_fields r = ([], [], []) \<and>
        (\<forall>s \<in> set (er_ToFQDNs r). \<exists>f \<in> set (dir_flows EGRESS flows). \<exists>q. extractDNSQuery f = Some q \<and> s = match_name q))
      \<or> (\<exists>names. r = companion_rule (ao_DNSSelector opts) names)"
    if mem: "r \<in> set (ru_Egress (spec_of p))" for r
  proof -
    consider (l4) pc pr where "(pc, pr) \<in> set (emitted b2)"
        "r \<in> set (egressRulesFrom (egress_common pc) (applyL7Collapse ''egress'' opts cs2 pr))"
      | (fqdn) pc pr where "(pc, pr) \<in> set (emitted b2)" "r \<in> set (fqdn_egress_rule pr)"
      | (comp) "r \<in> set rest"
      using mem unfolding r2 by auto
    then show ?thesis
    proof cases
      case l4
      from egress_rule_justified [OF g2 ns(2) l4] show ?thesis by (rule disjI1)
    next
      case fqdn
      from fqdn_rule_observed [OF emitted_dns_names [OF g2 ns(2) fqdn(1)] fqdn(2)] show ?thesis by (rule disjI2 [OF disjI1])
    next
      case comp
      with rest show ?thesis by auto
    qed
  qed
  from ing eg show ?thesis by blast
qed

section \<open>HTTP rules\<close>

text \<open>In a quoted path every \<open>^\<close> follows a backslash, so the key of an extracted rule splits uniquely.\<close>

lemma QuoteMeta_caret: "QuoteMeta s = a @ CHR ''^'' # b \<Longrightarrow> a \<noteq> [] \<and> last a = CHR 0x5C"
proof (induction s arbitrary: a)
  case Nil
  then show ?case by simp
next
  case (Cons c s)
  show ?case
  proof (cases "c \<in> set meta_chars")
    case True
    then have eq: "CHR 0x5C # c # QuoteMeta s = a @ CHR ''^'' # b" using Cons.prems by simp
    show ?thesis
    proof (cases a)
      case Nil
      with eq show ?thesis by simp
    next
      case (Cons x a')
      with eq have x: "x = CHR 0x5C" "c # QuoteMeta s = a' @ CHR ''^'' # b" by simp_all
      show ?thesis
      proof (cases a')
        case Nil
        then show ?thesis using \<open>a = x # a'\<close> x by simp
      next
        case (Cons y a'')
        with x have "QuoteMeta s = a'' @ CHR ''^'' # b" by simp
        with Cons.IH show ?thesis using \<open>a = x # a'\<close> \<open>a' = y # a''\<close> by auto
      qed
    qed
  next
    case False
    then have eq: "c # QuoteMeta s = a @ CHR ''^'' # b" "c \<noteq> CHR ''^''"
      using Cons.prems by (auto simp: meta_chars_def)
    then obtain a' where a: "a = c # a'" by (cases a) auto
    with eq have "QuoteMeta s = a' @ CHR ''^'' # b" by simp
    with Cons.IH show ?thesis by (auto simp: a)
  qed
qed

definition anchored_entry :: "http_rule \<Rightarrow> bool" where
  "anchored_entry h \<longleftrightarrow> (\<exists>m s. h = http_entry m (''^'' @ QuoteMeta s @ ''$''))"

lemma httpRuleKey_entry: "httpRuleKey (http_entry m p) = m @ ''|'' @ p @ ''|||''"
  by (simp add: httpRuleKey_def)

lemma anchored_key_le:
  assumes "m1 @ CHR ''|'' # CHR ''^'' # QuoteMeta s1 @ e = m2 @ CHR ''|'' # CHR ''^'' # QuoteMeta s2 @ e"
    and "length m1 \<le> length m2" and "CHR ''^'' \<notin> set e"
  shows "m1 = m2"
proof (rule ccontr)
  assume ne: "m1 \<noteq> m2"
  obtain x where x: "m2 = m1 @ x"
    using assms(1,2) by (auto simp: append_eq_append_conv2 dest: arg_cong [where f = length])
  with ne have "x \<noteq> []" by simp
  with assms(1) x obtain x' where x': "x = CHR ''|'' # x'"
    and eq: "CHR ''^'' # QuoteMeta s1 @ e = x' @ CHR ''|'' # CHR ''^'' # QuoteMeta s2 @ e"
    by (cases x) auto
  obtain x'' where eq2: "QuoteMeta s1 @ e = (x'' @ [CHR ''|'']) @ CHR ''^'' # QuoteMeta s2 @ e"
    using eq by (cases x') auto
  have split: "\<exists>d. A = B @ CHR ''^'' # d" if "CHR ''^'' \<notin> set e" "A @ e = B @ CHR ''^'' # C" for A B C
  proof -
    from that(2) obtain us where "A = B @ us \<and> us @ e = CHR ''^'' # C \<or> A @ us = B \<and> e = us @ CHR ''^'' # C"
      by (auto simp: append_eq_append_conv2)
    with that(1) show ?thesis by (cases us) auto
  qed
  from split [OF assms(3) eq2] obtain d where "QuoteMeta s1 = (x'' @ [CHR ''|'']) @ CHR ''^'' # d" by blast
  from QuoteMeta_caret [OF this] show False by simp
qed

lemma anchored_key_inj: "inj_on httpRuleKey {h. anchored_entry h}"
proof (rule inj_onI)
  fix h1 h2 assume "h1 \<in> {h. anchored_entry h}" "h2 \<in> {h. anchored_entry h}" and k: "httpRuleKey h1 = httpRuleKey h2"
  then obtain m1 s1 m2 s2 where h: "h1 = http_entry m1 (''^'' @ QuoteMeta s1 @ ''$'')"
    "h2 = http_entry m2 (''^'' @ QuoteMeta s2 @ ''$'')"
    by (auto simp: anchored_entry_def)
  have eq: "m1 @ CHR ''|'' # CHR ''^'' # QuoteMeta s1 @ ''$|||'' = m2 @ CHR ''|'' # CHR ''^'' # QuoteMeta s2 @ ''$|||''"
    using k by (simp add: h httpRuleKey_entry)
  then have "m1 = m2"
    using anchored_key_le [OF eq] anchored_key_le [OF eq [symmetric]] by (cases "length m1 \<le> length m2") auto
  with eq show "h1 = h2" by (simp add: h)
qed

lemma anchorPath_quoted: "\<exists>s. anchorPath E u = ''^'' @ QuoteMeta s @ ''$''"
  unfolding anchorPath_def Let_def by blast

lemma extractHTTPRules_anchored: "h \<in> set (extractHTTPRules E f) \<Longrightarrow> anchored_entry h"
  using anchorPath_quoted [of E]
  by (auto simp: extractHTTPRules_def anchored_entry_def Let_def split: option.splits layer7.splits if_splits)

text \<open>What a bucket holds for a port is what was extracted from its flows.\<close>

definition http_seen :: "externals \<Rightarrow> string \<Rightarrow> attribution_options \<Rightarrow> flow list \<Rightarrow> string \<Rightarrow> http_rule set" where
  "http_seen E direction opts gs k =
     {h. \<exists>f \<in> set gs. flow_kind E opts direction f = l7HTTP \<and> h \<in> set (extractHTTPRules E f)
        \<and> proto_key (the (extractProto f)) = k}"

lemma recordL7_http:
  assumes "recordL7 E f fp direction p opts (pr, cs) = (kind, pr', cs')"
  shows "pl_httpRules pr' = (if kind = l7HTTP
    then upsert (proto_key fp) [] (\<lambda>hs. merge_new httpRuleKey hs (extractHTTPRules E f)) (pl_httpRules pr)
    else pl_httpRules pr)"
  using assms by (auto simp: recordL7_def addHTTPRules_def Let_def split: if_splits option.splits)

lemma flow_into_http:
  "pl_httpRules (flow_into E direction opts peer peerIP f pr) =
     (if flow_kind E opts direction f = l7HTTP
      then upsert (proto_key (the (extractProto f))) [] (\<lambda>hs. merge_new httpRuleKey hs (extractHTTPRules E f)) (pl_httpRules pr)
      else pl_httpRules pr)"
proof -
  let ?fp = "the (extractProto f)" and ?p = "flow_peer E peer peerIP f"
  let ?pr = "if pl_obsPeerKey pr = [] then pr\<lparr>pl_obsPeerKey := encodePeer ?p\<rparr> else pr"
  obtain kind pr1 cs1 where r: "recordL7 E f ?fp direction ?p opts (?pr, None) = (kind, pr1, cs1)"
    by (cases "recordL7 E f ?fp direction ?p opts (?pr, None)") auto
  have "pl_httpRules (flow_into E direction opts peer peerIP f pr) = pl_httpRules pr1"
    unfolding flow_into_def bucket_flow_def Let_def split_conv r by simp
  then show ?thesis
    using recordL7_http [OF r] fst_recordL7_kind [OF r] by simp
qed

lemma bucket_http_rules:
  "set (get_or [] (pl_httpRules (bucket_of E direction opts peer peerIP gs)) k) = http_seen E direction opts gs k"
proof (induction gs rule: rev_induct)
  case Nil
  then show ?case by (simp add: newPeerRules_def get_or_def http_seen_def)
next
  case (snoc f gs)
  let ?B = "bucket_of E direction opts peer peerIP gs"
  have an: "\<forall>h \<in> http_seen E direction opts gs k. anchored_entry h"
    by (auto simp: http_seen_def dest: extractHTTPRules_anchored)
  have "inj_on httpRuleKey (set (get_or [] (pl_httpRules ?B) k) \<union> set (extractHTTPRules E f))"
    by (rule inj_on_subset [OF anchored_key_inj]) (use an snoc.IH extractHTTPRules_anchored in auto)
  note union = set_merge_new_inj [OF this]
  have seen: "http_seen E direction opts (gs @ [f]) k = http_seen E direction opts gs k \<union>
      (if flow_kind E opts direction f = l7HTTP \<and> proto_key (the (extractProto f)) = k
       then set (extractHTTPRules E f) else {})"
    by (auto simp: http_seen_def)
  show ?case
    using snoc.IH union unfolding seen by (auto simp: flow_into_http get_or_upsert)
qed

text \<open>A port whose HTTP rules allow a request.\<close>

definition http_allows :: "port_rule list \<Rightarrow> port_protocol \<Rightarrow> string \<Rightarrow> string \<Rightarrow> bool" where
  "http_allows prs pp method path \<longleftrightarrow>
     list_ex (\<lambda>pr. pp \<in> set (pr_Ports pr) \<and>
       (case pr_Rules pr of None \<Rightarrow> False
        | Some l \<Rightarrow> list_ex (\<lambda>h. hr_Method h = method \<and> re_match (hr_Path h) path) (l7_HTTP l))) prs"

lemma portRulesFor_http:
  assumes "pp \<in> set ports" and "h \<in> set (get_or [] http (port_key pp))"
    and "hr_Method h = method" "re_match (hr_Path h) path"
  shows "http_allows (portRulesFor ports http) pp method path"
proof -
  have ne: "get_or [] http (port_key pp) \<noteq> []" using assms(2) by auto
  then have "list_ex (\<lambda>p. get_or [] http (port_key p) \<noteq> []) ports"
    using assms(1) by (auto simp: list_ex_iff)
  then have m: "\<lparr>pr_Ports = [pp], pr_Rules = Some \<lparr>l7_HTTP = get_or [] http (port_key pp), l7_DNS = [], l7_L7Proto = []\<rparr>\<rparr>
      \<in> set (portRulesFor ports http)"
    using ne assms(1) by (force simp: portRulesFor_def Let_def)
  then show ?thesis
    using assms unfolding http_allows_def list_ex_iff by (intro bexI [OF _ m]) auto
qed

section \<open>The collapse state through a build\<close>

definition bucket_get :: "peerBuckets \<Rightarrow> bucket_id \<Rightarrow> peerRules" where
  "bucket_get b bid =
     (case bid of
        BEntity e \<Rightarrow> get_or newPeerRules (pb_entities b) e
      | BCIDR c \<Rightarrow> get_or newPeerRules (pb_cidrs b) c
      | BPeer k \<Rightarrow> snd (get_or (None, newPeerRules) (pb_peers b) k))"

lemma snd_get_or: "snd (get_or (x, d) m k) = snd (get_or (y, d) m k)"
  by (simp add: get_or_def split: option.split)

lemma group_flow_collapse:
  assumes "group_flow E ns r direction opts peer peerIP f (b, cs, log) = (b', cs', log')"
  shows "cs' = (case route E r peer peerIP f of Inl _ \<Rightarrow> cs
    | Inr bid \<Rightarrow> snd (bucket_flow E f (the (extractProto f)) direction (flow_peer E peer peerIP f) opts (bucket_get b bid, cs)))"
proof (cases "peer f = None \<or> extractProto f = None")
  case True
  with assms show ?thesis by (auto simp: group_flow_def route_def split: option.splits)
next
  case False
  then obtain ep fp where ep: "peer f = Some ep" and fp: "extractProto f = Some fp" by auto
  consider (ent) "reservedEntity (Some ep) \<noteq> []"
    | (noip) "reservedEntity (Some ep) = []" "isWorldIdentity (Some ep)" "peerIP f = []"
    | (cidr) "reservedEntity (Some ep) = []" "isWorldIdentity (Some ep)" "peerIP f \<noteq> []"
    | (lab) "reservedEntity (Some ep) = []" "\<not> isWorldIdentity (Some ep)"
    by blast
  then show ?thesis
  proof cases
    case lab
    with assms ep fp show ?thesis
      by (auto simp: group_flow_def route_def flow_peer_def bucket_get_def Let_def case_prod_beta
          snd_get_or [of None newPeerRules _ _ "BuildPeerSelector E (ep_labels ep) (ep_namespace ep) ns"])
  qed (use assms ep fp in \<open>auto simp: group_flow_def route_def flow_peer_def bucket_get_def Let_def case_prod_beta\<close>)
qed

lemma bucket_get_groupFlows:
  assumes "groupFlows E fs ns r direction opts peer peerIP cs = (b, cs', log)"
  shows "bucket_get b bid = bucket_of E direction opts peer peerIP (filter (\<lambda>f. route E r peer peerIP f = Inr bid) fs)"
proof -
  note B = groupFlows_buckets [OF assms]
  show ?thesis
  proof (cases bid)
    case (BEntity e)
    have "map_of (pb_entities b) e = (case filter (\<lambda>f. route E r peer peerIP f = Inr (BEntity e)) fs of
        [] \<Rightarrow> None | y # ys \<Rightarrow> Some (fold (flow_into E direction opts peer peerIP) (y # ys) newPeerRules))"
      using B by (simp only: map_of_bucket_fold bucket_sel_iff)
    then show ?thesis by (simp add: BEntity bucket_get_def get_or_def split: list.split)
  next
    case (BCIDR c)
    have "map_of (pb_cidrs b) c = (case filter (\<lambda>f. route E r peer peerIP f = Inr (BCIDR c)) fs of
        [] \<Rightarrow> None | y # ys \<Rightarrow> Some (fold (flow_into E direction opts peer peerIP) (y # ys) newPeerRules))"
      using B by (simp only: map_of_bucket_fold bucket_sel_iff)
    then show ?thesis by (simp add: BCIDR bucket_get_def get_or_def split: list.split)
  next
    case (BPeer k)
    have "map_of (pb_peers b) k = (case filter (\<lambda>f. route E r peer peerIP f = Inr (BPeer k)) fs of
        [] \<Rightarrow> None | y # ys \<Rightarrow> Some (BuildPeerSelector E (ep_labels (the (peer y))) (ep_namespace (the (peer y))) ns,
           fold (flow_into E direction opts peer peerIP) (y # ys) newPeerRules))"
      using B by (simp only: map_of_bucket_fold bucket_sel_iff fold_peer_pair)
    then show ?thesis by (simp add: BPeer bucket_get_def get_or_def split: list.split)
  qed
qed

lemma encodePeer_not_Nil: "encodePeer p \<noteq> []"
  by (simp add: encodePeer_def)

lemma flow_into_obsPeerKey:
  "pl_obsPeerKey (flow_into E direction opts peer peerIP f pr) =
     (if pl_obsPeerKey pr = [] then encodePeer (flow_peer E peer peerIP f) else pl_obsPeerKey pr)"
proof -
  let ?fp = "the (extractProto f)" and ?p = "flow_peer E peer peerIP f"
  let ?pr = "if pl_obsPeerKey pr = [] then pr\<lparr>pl_obsPeerKey := encodePeer ?p\<rparr> else pr"
  obtain kind pr1 cs1 where r: "recordL7 E f ?fp direction ?p opts (?pr, None) = (kind, pr1, cs1)"
    by (cases "recordL7 E f ?fp direction ?p opts (?pr, None)") auto
  have "pl_obsPeerKey (flow_into E direction opts peer peerIP f pr) = pl_obsPeerKey pr1"
    unfolding flow_into_def bucket_flow_def Let_def split_conv r by simp
  then show ?thesis using recordL7_l4_fields [OF r] by simp
qed

text \<open>The key a group of flows is observed under is fixed by its first flow.\<close>

lemma bucket_obsPeerKey:
  "pl_obsPeerKey (bucket_of E direction opts peer peerIP gs) =
     (if gs = [] then [] else encodePeer (flow_peer E peer peerIP (hd gs)))"
proof (induction gs rule: rev_induct)
  case Nil
  then show ?case by (simp add: newPeerRules_def)
next
  case (snoc f gs)
  then show ?case by (auto simp: flow_into_obsPeerKey encodePeer_not_Nil hd_append)
qed

definition raw_path :: "externals \<Rightarrow> flow \<Rightarrow> string" where
  "raw_path E f = rawPathFromURL E (flow_url f)"

definition http_method :: "externals \<Rightarrow> flow \<Rightarrow> string" where
  "http_method E f = hr_Method (hd (extractHTTPRules E f))"

lemma snd_bucket_flow:
  "snd (bucket_flow E f fp direction p opts (pr, Some c)) =
     Some (if flow_kind E opts direction f = l7HTTP
       then observe (collapseObsKey direction (if pl_obsPeerKey pr = [] then encodePeer p else pl_obsPeerKey pr) (proto_key fp))
              (http_method E f) (raw_path E f) c
       else c)"
  using extractDNSQuery_is_dns [of f]
  by (auto simp: bucket_flow_def recordL7_def flow_kind_def raw_path_def http_method_def Let_def split: option.split)

definition obs_key :: "externals \<Rightarrow> reasons \<Rightarrow> string \<Rightarrow> (flow \<Rightarrow> endpoint option) \<Rightarrow> (flow \<Rightarrow> string) \<Rightarrow>
    flow list \<Rightarrow> bucket_id \<Rightarrow> flow \<Rightarrow> string" where
  "obs_key E r direction peer peerIP fs bid f =
     collapseObsKey direction
       (encodePeer (flow_peer E peer peerIP (hd (filter (\<lambda>f. route E r peer peerIP f = Inr bid) fs))))
       (proto_key (the (extractProto f)))"

text \<open>Grouping observes the path of every HTTP flow under the key of its bucket and port.\<close>

lemma groupFlows_known:
  assumes "wf_collapse c0" and "groupFlows E fs ns r direction opts peer peerIP (Some c0) = (b, cs', log)"
  shows "\<exists>c. cs' = Some c \<and> wf_collapse c \<and> (\<forall>k m. known_paths c0 k m \<subseteq> known_paths c k m)
    \<and> (\<forall>k m. known_paths c k m \<subseteq> known_paths c0 k m
         \<union> {raw_path E f | f. f \<in> set fs \<and> flow_kind E opts direction f = l7HTTP})
    \<and> (\<forall>f \<in> set fs. \<forall>bid. flow_kind E opts direction f = l7HTTP \<longrightarrow> route E r peer peerIP f = Inr bid \<longrightarrow>
         raw_path E f \<in> known_paths c (obs_key E r direction peer peerIP fs bid f) (http_method E f))"
  using assms(2)
proof (induction fs arbitrary: b cs' log rule: rev_induct)
  case Nil
  then show ?case using assms(1) by (auto simp: groupFlows_def)
next
  case (snoc f fs)
  obtain b0 cs0 log0 where g: "groupFlows E fs ns r direction opts peer peerIP (Some c0) = (b0, cs0, log0)"
    by (metis prod_cases3)
  from snoc.IH [OF g] obtain c where c: "cs0 = Some c" "wf_collapse c"
    "\<forall>k m. known_paths c0 k m \<subseteq> known_paths c k m"
    "\<forall>k m. known_paths c k m \<subseteq> known_paths c0 k m
         \<union> {raw_path E f | f. f \<in> set fs \<and> flow_kind E opts direction f = l7HTTP}"
    "\<forall>f \<in> set fs. \<forall>bid. flow_kind E opts direction f = l7HTTP \<longrightarrow> route E r peer peerIP f = Inr bid \<longrightarrow>
         raw_path E f \<in> known_paths c (obs_key E r direction peer peerIP fs bid f) (http_method E f)"
    by blast
  have step: "group_flow E ns r direction opts peer peerIP f (b0, Some c, log0) = (b, cs', log)"
    using snoc.prems g c(1) by (simp add: groupFlows_snoc)
  have keys: "obs_key E r direction peer peerIP (fs @ [f]) bid g = obs_key E r direction peer peerIP fs bid g"
    if "g \<in> set fs" "route E r peer peerIP g = Inr bid" for g bid
    using that by (auto simp: obs_key_def hd_append filter_empty_conv)
  show ?case
  proof (cases "route E r peer peerIP f")
    case (Inl reason)
    with group_flow_collapse [OF step] have "cs' = Some c" by simp
    with c keys Inl show ?thesis by fastforce
  next
    case (Inr bid)
    let ?k = "obs_key E r direction peer peerIP (fs @ [f]) bid f"
    have "(if pl_obsPeerKey (bucket_get b0 bid) = [] then encodePeer (flow_peer E peer peerIP f)
        else pl_obsPeerKey (bucket_get b0 bid))
      = encodePeer (flow_peer E peer peerIP (hd (filter (\<lambda>f. route E r peer peerIP f = Inr bid) (fs @ [f]))))"
      using Inr by (simp add: bucket_get_groupFlows [OF g] bucket_obsPeerKey encodePeer_not_Nil hd_append)
    with group_flow_collapse [OF step] Inr
    have cs': "cs' = Some (if flow_kind E opts direction f = l7HTTP then observe ?k (http_method E f) (raw_path E f) c else c)"
      by (simp add: snd_bucket_flow obs_key_def)
    show ?thesis
    proof (cases "flow_kind E opts direction f = l7HTTP")
      case False
      with cs' c keys show ?thesis by fastforce
    next
      case True
      let ?c = "observe ?k (http_method E f) (raw_path E f) c"
      note kp = known_paths_observe [OF c(2), of ?k "http_method E f" "raw_path E f"]
      have "raw_path E g \<in> known_paths ?c (obs_key E r direction peer peerIP (fs @ [f]) bid' g) (http_method E g)"
        if "g \<in> set (fs @ [f])" "flow_kind E opts direction g = l7HTTP" "route E r peer peerIP g = Inr bid'" for g bid'
      proof (cases "g \<in> set fs")
        case True
        with that c(5) keys [OF True that(3)] show ?thesis by (simp add: kp)
      next
        case False
        with that have "g = f" "bid' = bid" using Inr by auto
        then show ?thesis by (simp add: kp)
      qed
      moreover have "known_paths c0 k m \<subseteq> known_paths ?c k m" for k m using c(3) by (auto simp: kp)
      moreover have "known_paths ?c k m \<subseteq> known_paths c0 k m
         \<union> {raw_path E f' | f'. f' \<in> set (fs @ [f]) \<and> flow_kind E opts direction f' = l7HTTP}" for k m
        using c(4) True by (auto simp: kp) blast+
      ultimately show ?thesis using cs' True wf_observe [OF c(2)] by auto
    qed
  qed
qed

section \<open>Completeness at layer 7\<close>

text \<open>
  The path an observed request is matched by: the decoded path the literal rules quote,
  or the raw path the collapsed rules are computed from.
\<close>

definition request_path :: "externals \<Rightarrow> collapse_state option \<Rightarrow> flow \<Rightarrow> string" where
  "request_path E cs f =
     (if cs = None then (let p = pathFromURL E (flow_url f) in if p = [] then ''/'' else p) else raw_path E f)"

text \<open>Raw paths start with a slash and contain no NUL, in the store and in the flows.\<close>

definition wf_observations :: "externals \<Rightarrow> collapse_state option \<Rightarrow> flow list \<Rightarrow> bool" where
  "wf_observations E cs flows \<longleftrightarrow>
     (case cs of None \<Rightarrow> True
      | Some c \<Rightarrow> wf_collapse c
          \<and> list_all (\<lambda>(k, ps). list_all (\<lambda>(m, paths). list_all wf_path paths) ps) (cs_Retained c @ cs_Collected c)
          \<and> list_all (\<lambda>f. \<not> is_http f \<or> wf_path (raw_path E f)) flows)"

lemma http_kind_is_http: "flow_kind E opts d f = l7HTTP \<Longrightarrow> is_http f"
  by (simp add: flow_kind_def split: if_splits)

lemma wf_known:
  assumes "wf_observations E (Some c) flows" and "p \<in> known_paths c k m"
  shows "wf_path p"
proof -
  have wf: "wf_collapse c" and all: "\<forall>(k, ps) \<in> set (cs_Retained c @ cs_Collected c). \<forall>(m, paths) \<in> set ps. \<forall>p \<in> set paths. wf_path p"
    using assms(1) unfolding wf_observations_def list_all_iff by (simp, fastforce simp: wf_observations_def list_all_iff)
  have st: "wf_path p" if "p \<in> stored st k m" "set st \<subseteq> set (cs_Retained c @ cs_Collected c)" for st
  proof -
    from that(1) obtain ps where ps: "map_of st k = Some ps" "p \<in> set (get_or [] ps m)"
      by (cases "map_of st k") (simp_all add: stored_def get_or_def)
    then obtain paths where "map_of ps m = Some paths" "p \<in> set paths"
      by (cases "map_of ps m") (simp_all add: get_or_def)
    with ps(1) have "(k, ps) \<in> set st" "(m, paths) \<in> set ps" "p \<in> set paths" by (auto dest: map_of_SomeD)
    with all that(2) show ?thesis by blast
  qed
  have "p \<in> stored (cs_Retained c) k m \<or> p \<in> stored (cs_Collected c) k m"
    using assms(2) known_paths_eq [OF wf, of k m] by blast
  with st [of "cs_Retained c"] st [of "cs_Collected c"] show ?thesis by auto
qed

lemma extractHTTP_hd:
  assumes "flow_kind E opts d f = l7HTTP"
  shows "extractHTTPRules E f = [http_entry (http_method E f) (anchorPath E (flow_url f))]"
  using assms
  by (auto simp: flow_kind_def extractHTTPRules_def http_method_def flow_url_def Let_def
      split: if_splits option.splits layer7.splits)

lemma anchorPath_match:
  "re_match (anchorPath E u) q \<longleftrightarrow> q = (let p = pathFromURL E u in if p = [] then ''/'' else p)"
  unfolding anchorPath_def Let_def by (rule re_match_quoted)

lemma groupFlows_no_collapse:
  "groupFlows E fs ns r direction opts peer peerIP None = (b, cs', log) \<Longrightarrow> cs' = None"
proof (induction fs arbitrary: b cs' log rule: rev_induct)
  case Nil
  then show ?case by (simp add: groupFlows_def)
next
  case (snoc f fs)
  obtain b0 cs0 log0 where g: "groupFlows E fs ns r direction opts peer peerIP None = (b0, cs0, log0)"
    by (metis prod_cases3)
  with snoc.IH have "cs0 = None" by blast
  then have step: "group_flow E ns r direction opts peer peerIP f (b0, None, log0) = (b, cs', log)"
    using snoc.prems g by (simp add: groupFlows_snoc)
  have "snd (bucket_flow E f fp d p opts (pr, None)) = None" for fp d p pr
    by (simp add: bucket_flow_def recordL7_def Let_def split: option.split)
  with group_flow_collapse [OF step] show ?case by (simp split: sum.splits)
qed

lemma get_or_map_keys:
  "k \<in> fst ` set m \<Longrightarrow> get_or d (map (\<lambda>(k, _). (k, F k)) m) k = F k"
  by (induction m) (auto simp: get_or_def)

text \<open>The bucket of an HTTP flow ends up with a rule for its request.\<close>

lemma bucket_http_allows:
  assumes g: "groupFlows E fs ns r direction opts peer peerIP cs = (b, cs', log)"
    and obs: "wf_observations E cs fs"
    and f: "f \<in> set fs" "route E r peer peerIP f = Inr bid" "extractProto f = Some fp" "\<not> fp_icmp fp"
    and kind: "flow_kind E opts direction f = l7HTTP"
  shows "let pr = applyL7Collapse direction opts cs' (bucket_of E direction opts peer peerIP
           (filter (\<lambda>f. route E r peer peerIP f = Inr bid) fs))
    in http_allows (portRulesFor (pl_ports pr) (pl_httpRules pr)) (fp_entry_port fp) (http_method E f) (request_path E cs f)"
proof -
  let ?gs = "filter (\<lambda>f. route E r peer peerIP f = Inr bid) fs"
  let ?B = "bucket_of E direction opts peer peerIP ?gs"
  let ?h = "http_entry (http_method E f) (anchorPath E (flow_url f))"
  have "fp \<in> l4_protos E direction opts ?gs"
    using f kind by (auto simp: l4_protos_def)
  then have port: "fp_entry_port fp \<in> set (pl_ports (applyL7Collapse direction opts cs' ?B))"
    using f(4) unfolding emitted_l4(1) [OF refl refl, where direction = direction and d = direction and cs = cs'] by blast
  have mem: "?h \<in> set (get_or [] (pl_httpRules ?B) (proto_key fp))"
    using f kind extractHTTP_hd [OF kind] unfolding bucket_http_rules http_seen_def by force
  have L7: "ao_L7Enabled opts" using kind by (simp add: flow_kind_def split: if_splits)
  show ?thesis
  proof (cases cs)
    case None
    with groupFlows_no_collapse g have "cs' = None" by blast
    with None port mem show ?thesis
      unfolding Let_def
      by (intro portRulesFor_http [where h = ?h])
        (simp_all add: applyL7Collapse_def request_path_def anchorPath_match)
  next
    case (Some c0)
    then have "wf_collapse c0" using obs by (simp add: wf_observations_def)
    from groupFlows_known [OF this g [unfolded Some]] obtain c where c: "cs' = Some c"
      "\<forall>k m. known_paths c k m \<subseteq> known_paths c0 k m \<union> {raw_path E f | f. f \<in> set fs \<and> flow_kind E opts direction f = l7HTTP}"
      "raw_path E f \<in> known_paths c (obs_key E r direction peer peerIP fs bid f) (http_method E f)"
      using f(1,2) kind by blast
    let ?k = "collapseObsKey direction (pl_obsPeerKey ?B) (proto_key fp)"
    have "?gs \<noteq> []" using f by (auto simp: filter_empty_conv)
    then have k: "?k = obs_key E r direction peer peerIP fs bid f"
      by (simp add: obs_key_def bucket_obsPeerKey f(3))
    have "\<forall>m. \<forall>p \<in> known_paths c ?k m. wf_path p"
    proof (intro allI ballI)
      fix m p assume "p \<in> known_paths c ?k m"
      then consider "p \<in> known_paths c0 ?k m" | f' where "p = raw_path E f'" "f' \<in> set fs" "flow_kind E opts direction f' = l7HTTP"
        using c(2) by blast
      then show "wf_path p"
        using wf_known obs Some http_kind_is_http
        by cases (blast, fastforce simp: wf_observations_def list_all_iff)
    qed
    then have wf: "wf_path_set (effective_paths c ?k)" by (rule wf_effective)
    from effective_mem [OF c(3)] obtain paths where
      "(http_method E f, paths) \<in> set (effective_paths c ?k)" "raw_path E f \<in> set paths" unfolding k by blast
    from rules_cover [OF wf this] obtain h where
      h: "h \<in> set (CollapseHTTPPaths (effective_paths c ?k) (ResolveMinFlowsPerL7Rule (ao_MinFlowsPerL7Rule opts)))"
        "hr_Method h = http_method E f" "re_match (hr_Path h) (raw_path E f)" by blast
    have key: "proto_key fp \<in> fst ` set (pl_httpRules ?B)"
    proof (rule ccontr)
      assume "proto_key fp \<notin> fst ` set (pl_httpRules ?B)"
      from get_or_absent [OF this, of "[]"] mem show False by simp
    qed
    have "pl_httpRules (applyL7Collapse direction opts cs' ?B) = map (\<lambda>(portKey, _). (portKey,
        CollapseHTTPPaths (effective_paths c (collapseObsKey direction (pl_obsPeerKey ?B) portKey))
          (ResolveMinFlowsPerL7Rule (ao_MinFlowsPerL7Rule opts)))) (pl_httpRules ?B)"
      by (simp add: applyL7Collapse_def c(1) L7 Let_def)
    from h(1) get_or_map_keys [OF key, of "[]" "\<lambda>portKey. CollapseHTTPPaths (effective_paths c
        (collapseObsKey direction (pl_obsPeerKey ?B) portKey)) (ResolveMinFlowsPerL7Rule (ao_MinFlowsPerL7Rule opts))"] this
    have "h \<in> set (get_or [] (pl_httpRules (applyL7Collapse direction opts cs' ?B)) (port_key (fp_entry_port fp)))"
      by simp
    from portRulesFor_http [OF port this h(2,3)] Some show ?thesis
      by (simp add: Let_def request_path_def)
  qed
qed

lemma ingressRulesFrom_http:
  assumes "http_allows (portRulesFor (pl_ports pr) (pl_httpRules pr)) pp m path" and "pl_ports pr \<noteq> []"
  shows "\<exists>r \<in> set (ingressRulesFrom (ingress_common pc) pr). ingress_peer_fields r = pc \<and> http_allows (ir_ToPorts r) pp m path"
  using assms
  by (intro bexI [of _ "(ingress_common pc)\<lparr>ir_ToPorts := portRulesFor (pl_ports pr) (pl_httpRules pr)\<rparr>"])
    (auto simp: ingressRulesFrom_def ingress_common_def ingress_peer_fields_def split: prod.split)

lemma egressRulesFrom_http:
  assumes "http_allows (portRulesFor (pl_ports pr) (pl_httpRules pr)) pp m path" and "pl_ports pr \<noteq> []"
  shows "\<exists>r \<in> set (egressRulesFrom (egress_common pc) pr). egress_peer_fields r = pc \<and> http_allows (er_ToPorts r) pp m path"
  using assms
  by (intro bexI [of _ "(egress_common pc)\<lparr>er_ToPorts := portRulesFor (pl_ports pr) (pl_httpRules pr)\<rparr>"])
    (auto simp: egressRulesFrom_def egress_common_def egress_peer_fields_def split: prod.split)

lemma http_allows_ports: "http_allows (portRulesFor ports h) pp m path \<Longrightarrow> ports \<noteq> []"
  by (auto simp: http_allows_def portRulesFor_def)



section \<open>Unhandled flows\<close>

text \<open>The flows of a list that cannot be attributed, with their reasons.\<close>

definition unrouted :: "(flow \<Rightarrow> UnhandledReason + bucket_id) \<Rightarrow> flow list \<Rightarrow> track_log" where
  "unrouted rt flows = concat (map (\<lambda>f. case rt f of Inl reason \<Rightarrow> [(f, reason)] | Inr _ \<Rightarrow> []) flows)"

text \<open>No flow is dropped silently: the tracker sees, in order, every flow without a layer-4 part, then
  every ingress and every egress flow that cannot be attributed to a peer, each once and with its
  reason, and no flow that the rules cover.\<close>

theorem BuildPolicy_tracks:
  "snd (snd (snd (BuildPolicy E ns w flows opts cs))) =
     no_l4_log flows @ unrouted (ingress_route E) (dir_flows INGRESS flows)
       @ unrouted (egress_route E) (dir_flows EGRESS flows)"
proof -
  obtain p attrib cs2 log where p: "BuildPolicy E ns w flows opts cs = (p, attrib, cs2, log)"
    by (metis prod_cases4)
  from BuildPolicy_rules [OF p] obtain b1 cs1 log1 b2 log2 where
    g1: "groupFlows E (dir_flows INGRESS flows) ns ingressReasons ''ingress'' opts fl_source flowSourceIP cs = (b1, cs1, log1)"
    and g2: "groupFlows E (dir_flows EGRESS flows) ns egressReasons ''egress'' opts fl_destination flowDestinationIP cs1 = (b2, cs2, log2)"
    and l: "log = no_l4_log flows @ log1 @ log2" by metis
  have "log1 = unrouted (ingress_route E) (dir_flows INGRESS flows)"
    using groupFlows_buckets [OF g1] unfolding unrouted_def by blast
  moreover have "log2 = unrouted (egress_route E) (dir_flows EGRESS flows)"
    using groupFlows_buckets [OF g2] unfolding unrouted_def by blast
  ultimately show ?thesis by (simp add: p l)
qed

section \<open>Concrete flows\<close>

definition demo_endpoint :: "string \<Rightarrow> string list \<Rightarrow> endpoint" where
  "demo_endpoint ns ls = \<lparr>ep_identity = 1000, ep_namespace = ns, ep_labels = ls, ep_pod_name = []\<rparr>"

definition demo_flow :: "traffic_direction \<Rightarrow> endpoint \<Rightarrow> endpoint \<Rightarrow> layer4 \<Rightarrow> layer7 option \<Rightarrow> flow" where
  "demo_flow d src dst l4 l7 =
     \<lparr>fl_time = Some \<lparr>ts_as_time = 5, ts_is_valid = True\<rparr>, fl_verdict = Verdict_DROPPED, fl_drop_reason = DROP_REASON_UNKNOWN,
      fl_direction = d, fl_source = Some src, fl_destination = Some dst,
      fl_ip = Some \<lparr>ip_source = ''10.0.0.1'', ip_destination = ''10.0.0.2''\<rparr>,
      fl_l4 = Some l4, fl_l7 = l7, fl_node_name = []\<rparr>"

abbreviation demo_web :: endpoint where "demo_web \<equiv> demo_endpoint ''prod'' [''k8s:app=web'']"
abbreviation demo_api :: endpoint where "demo_api \<equiv> demo_endpoint ''prod'' [''k8s:app=api'']"

definition flow_in :: flow where
  "flow_in = demo_flow INGRESS demo_web demo_api (L4_TCP 80) (Some (L7_HTTP ''get'' ''http://api/u/1?x=y''))"

definition flow_out :: flow where
  "flow_out = demo_flow EGRESS demo_api demo_web (L4_TCP 8080) (Some (L7_HTTP ''PUT'' ''/items''))"

definition flow_dns :: flow where
  "flow_dns = demo_flow EGRESS demo_api demo_web (L4_UDP 53) (Some (L7_DNS ''api.example.com.''))"

definition demo_flows :: "flow list" where "demo_flows = [flow_in, flow_out, flow_dns]"

definition demo_opts :: attribution_options where
  "demo_opts = \<lparr>ao_MaxSamples = 2, ao_L7Enabled = True, ao_MinFlowsPerL7Rule = 0, ao_DNSSelector = []\<rparr>"

abbreviation demo_build where
  "demo_build cs \<equiv> BuildPolicy demo_externals ''prod'' ''api'' demo_flows demo_opts cs"

lemma split4: "x = (fst x, fst (snd x), fst (snd (snd x)), snd (snd (snd x)))"
  by simp

theorem BuildPolicy_admits_ingress_witness:
  "\<exists>r \<in> set (ru_Ingress (spec_of (fst (demo_build None)))).
     ingress_peer_fields r = ingress_flow_peer demo_externals ''prod'' flow_in
     \<and> peer_admits demo_externals ''prod'' (ingress_peer_fields r) (the (fl_source flow_in)) (flowSourceIP flow_in)
     \<and> lists_proto (ir_ToPorts r) (ir_ICMPs r) (the (extractProto flow_in))"
  by (rule BuildPolicy_admits_ingress [OF split4, where bid = "BPeer ''app=web''"]) code_simp+

theorem BuildPolicy_admits_egress_witness:
  "if flow_kind demo_externals demo_opts ''egress'' flow_dns = l7DNS
    then (\<exists>r \<in> set (ru_Egress (spec_of (fst (demo_build None)))). allows_fqdn (the (extractDNSQuery flow_dns)) r)
      \<and> hasKubeDNSCompanion (ru_Egress (spec_of (fst (demo_build None)))) (ao_DNSSelector demo_opts)
    else \<exists>r \<in> set (ru_Egress (spec_of (fst (demo_build None)))).
      egress_peer_fields r = egress_flow_peer demo_externals ''prod'' flow_dns \<and> er_ToFQDNs r = []
      \<and> peer_admits demo_externals ''prod'' (egress_peer_fields r) (the (fl_destination flow_dns)) (flowDestinationIP flow_dns)
      \<and> lists_proto (er_ToPorts r) (er_ICMPs r) (the (extractProto flow_dns))"
  by (rule BuildPolicy_admits_egress [OF split4, where bid = "BPeer ''app=web''"]) code_simp+

theorem BuildPolicy_least_privilege_witness:
  "list_all (\<lambda>r. justified demo_externals ''prod'' fl_source flowSourceIP (dir_flows INGRESS demo_flows)
       (ingress_peer_fields r) (ir_ToPorts r) (ir_ICMPs r)) (ru_Ingress (spec_of (fst (demo_build None))))"
  unfolding list_all_iff
  by (rule BuildPolicy_least_privilege [OF split4, THEN conjunct1]) code_simp+



section \<open>Attribution\<close>

lemma get_or_Cons: "get_or d ((k', v) # m) k = (if k = k' then v else get_or d m k)"
  by (simp add: get_or_def)

lemma get_or_Nil: "get_or d [] k = d"
  by (simp add: get_or_def)

lemma sum_upsert:
  fixes t :: "'v \<Rightarrow> 'a::ab_group_add"
  shows "sum_list (map (\<lambda>(k, v). t v) (upsert k d f m)) =
    sum_list (map (\<lambda>(k, v). t v) m) + (t (f (get_or d m k)) - (if k \<in> fst ` set m then t (get_or d m k) else 0))"
  by (induction k d f m rule: upsert.induct) (force simp: get_or_Cons get_or_Nil algebra_simps split: if_splits)+

text \<open>How many flows a bucket's attributions account for.\<close>

definition attributed :: "peerRules \<Rightarrow> u64" where
  "attributed pr = sum_list (map (\<lambda>(k, ra). ra_FlowCount ra) (pl_attrib pr))"

lemma attributed_recordAttribution: "0 < n \<Longrightarrow> attributed (recordAttribution key f n pr) = attributed pr + 1"
  using get_or_absent [of "RuleKey_String key" "pl_attrib pr"]
  by (auto simp: attributed_def recordAttribution_def sum_upsert attribute_flow_def Let_def)

lemma attributed_fields [simp]:
  "attributed (addFlow fp pr) = attributed pr"
  "attributed (addHTTPRules k hs pr) = attributed pr"
  "attributed (addDNSName q pr) = attributed pr"
  "attributed (pr\<lparr>pl_obsPeerKey := x\<rparr>) = attributed pr"
  by (simp_all add: attributed_def addFlow_def addHTTPRules_def addDNSName_def Let_def)

lemma recordL7_attributed:
  assumes "recordL7 E f fp direction p opts (pr, cs) = (kind, pr', cs')" and "0 < ao_MaxSamples opts"
  shows "attributed pr' = attributed pr + (if kind = l7None then 0 else 1)"
proof -
  have "extractHTTPRules E f = [] \<or> (\<exists>h. extractHTTPRules E f = [h])"
    using extractHTTPRules_length [of E f] by (cases "extractHTTPRules E f") auto
  with assms show ?thesis
    by (auto simp: recordL7_def Let_def attributed_recordAttribution split: if_splits option.splits)
qed

lemma flow_into_attributed:
  assumes "0 < ao_MaxSamples opts"
  shows "attributed (flow_into E direction opts peer peerIP f pr) = attributed pr + 1"
proof -
  let ?fp = "the (extractProto f)" and ?p = "flow_peer E peer peerIP f"
  let ?pr = "if pl_obsPeerKey pr = [] then pr\<lparr>pl_obsPeerKey := encodePeer ?p\<rparr> else pr"
  obtain kind pr1 cs1 where r: "recordL7 E f ?fp direction ?p opts (?pr, None) = (kind, pr1, cs1)"
    by (cases "recordL7 E f ?fp direction ?p opts (?pr, None)") auto
  have "attributed pr1 = attributed pr + (if kind = l7None then 0 else 1)"
    using recordL7_attributed [OF r assms] by (simp split: if_splits)
  then show ?thesis
    using assms unfolding flow_into_def bucket_flow_def Let_def split_conv r
    by (simp add: attributed_recordAttribution)
qed

lemma sum_bucket_fold:
  fixes t :: "'v \<Rightarrow> u64"
  assumes "\<And>x. t (d x) = 0" and "\<And>x v. t (g x v) = t v + 1"
  shows "sum_list (map (\<lambda>(k, v). t v) (bucket_fold sel d g xs)) = of_nat (length (filter (\<lambda>x. sel x \<noteq> None) xs))"
proof (induction xs rule: rev_induct)
  case Nil
  then show ?case by (simp add: bucket_fold_def)
next
  case (snoc x xs)
  show ?case
  proof (cases "sel x")
    case None
    with snoc show ?thesis by (simp add: bucket_fold_snoc)
  next
    case (Some k)
    have "t (get_or (d x) m k) = 0" if "k \<notin> fst ` set m" for m :: "('b \<times> 'v) list"
      using that assms(1) by (simp add: get_or_absent)
    with Some snoc show ?thesis
      by (auto simp: bucket_fold_snoc sum_upsert assms(2))
  qed
qed

lemma sum_attribution:
  "sum_list (map ra_FlowCount (bucket_attribution b)) =
     sum_list (map (\<lambda>(k, pr). attributed pr) (pb_entities b))
     + sum_list (map (\<lambda>(k, pr). attributed pr) (pb_cidrs b))
     + sum_list (map (\<lambda>(k, v). attributed (snd v)) (pb_peers b))"
proof -
  have 1: "sum_list (map ra_FlowCount (concat (map (\<lambda>(k, pr). map snd (pl_attrib pr)) xs)))
     = sum_list (map (\<lambda>(k, pr). attributed pr) xs)" for xs :: "(string \<times> peerRules) list"
    by (induction xs) (auto simp: attributed_def case_prod_beta' comp_def)
  have 2: "sum_list (map ra_FlowCount (concat (map (\<lambda>(k, sel, pr). map snd (pl_attrib pr)) xs)))
     = sum_list (map (\<lambda>(k, v). attributed (snd v)) xs)" for xs :: "(string \<times> endpoint_selector \<times> peerRules) list"
    by (induction xs) (auto simp: attributed_def case_prod_beta' comp_def)
  show ?thesis by (simp add: bucket_attribution_def 1 2)
qed

lemma attributed_new: "attributed newPeerRules = 0"
  by (simp add: attributed_def newPeerRules_def)

lemma length_filter_route:
  "length (filter (\<lambda>f. bucket_sel (rt f) entity_id \<noteq> None) fs)
   + length (filter (\<lambda>f. bucket_sel (rt f) cidr_id \<noteq> None) fs)
   + length (filter (\<lambda>f. bucket_sel (rt f) peer_id \<noteq> None) fs)
   = length (filter (\<lambda>f. \<not> isl (rt f)) fs)"
proof (induction fs)
  case (Cons f fs)
  show ?case
  proof (cases "rt f")
    case (Inr bid)
    then show ?thesis using Cons by (cases bid) (simp_all add: bucket_sel_def)
  qed (use Cons in \<open>simp add: bucket_sel_def\<close>)
qed simp

lemma groupFlows_attributed:
  assumes g: "groupFlows E fs ns r direction opts peer peerIP cs = (b, cs', log)" and m: "0 < ao_MaxSamples opts"
  shows "sum_list (map ra_FlowCount (bucket_attribution b)) =
     of_nat (length (filter (\<lambda>f. \<not> isl (route E r peer peerIP f)) fs))"
proof -
  note B = groupFlows_buckets [OF g]
  note S = sum_bucket_fold [where t = attributed and g = "flow_into E direction opts peer peerIP",
      OF attributed_new flow_into_attributed [OF m]]
  have P: "sum_list (map (\<lambda>(k, v). attributed (snd v)) (pb_peers b))
     = of_nat (length (filter (\<lambda>f. bucket_sel (route E r peer peerIP f) peer_id \<noteq> None) fs))"
    unfolding B [THEN conjunct2, THEN conjunct2, THEN conjunct1]
    by (rule sum_bucket_fold) (auto simp: attributed_new flow_into_attributed [OF m])
  show ?thesis
    unfolding sum_attribution P B [THEN conjunct1] B [THEN conjunct2, THEN conjunct1] S
      length_filter_route [symmetric] of_nat_add by simp
qed

text \<open>C37: Every attributable flow is counted once: with sampling on, the flow counts of the attributions add
  up (as 64-bit counters) to the number of ingress and egress flows that can be attributed, whatever
  their layer-7 data.\<close>

theorem BuildPolicy_attribution_counts:
  assumes p: "BuildPolicy E ns w flows opts cs = (p, attrib, cs2, log)" and m: "0 < ao_MaxSamples opts"
  shows "sum_list (map ra_FlowCount attrib) =
     of_nat (length (filter (\<lambda>f. \<not> isl (ingress_route E f)) (dir_flows INGRESS flows))
       + length (filter (\<lambda>f. \<not> isl (egress_route E f)) (dir_flows EGRESS flows)))"
proof -
  from BuildPolicy_rules [OF p] obtain b1 cs1 log1 b2 log2 where
    g1: "groupFlows E (dir_flows INGRESS flows) ns ingressReasons ''ingress'' opts fl_source flowSourceIP cs = (b1, cs1, log1)"
    and g2: "groupFlows E (dir_flows EGRESS flows) ns egressReasons ''egress'' opts fl_destination flowDestinationIP cs1 = (b2, cs2, log2)"
    and a: "attrib = bucket_attribution b1 @ bucket_attribution b2" by metis
  show ?thesis
    by (simp add: a groupFlows_attributed [OF g1 m] groupFlows_attributed [OF g2 m])
qed

theorem BuildPolicy_attribution_counts_witness:
  "sum_list (map ra_FlowCount (fst (snd (demo_build None)))) =
     of_nat (length (filter (\<lambda>f. \<not> isl (ingress_route demo_externals f)) (dir_flows INGRESS demo_flows))
       + length (filter (\<lambda>f. \<not> isl (egress_route demo_externals f)) (dir_flows EGRESS demo_flows)))"
  by (rule BuildPolicy_attribution_counts [OF split4]) (simp add: demo_opts_def)

section \<open>Samples\<close>

lemma upsert_pointwise:
  "(\<And>v. v \<in> snd ` set m \<Longrightarrow> P v) \<Longrightarrow> P (f d) \<Longrightarrow> (\<And>v. P v \<Longrightarrow> P (f v)) \<Longrightarrow>
     w \<in> snd ` set (upsert k d f m) \<Longrightarrow> P w"
  by (induction k d f m rule: upsert.induct) (auto split: if_splits)

text \<open>A record that has seen the flows \<open>fs\<close> of one key.\<close>

lemma attribute_flows:
  assumes "0 < n"
  shows "ra_FlowCount (fold (\<lambda>f. attribute_flow f n) fs e) = ra_FlowCount e + of_nat (length fs)"
    and "ra_Samples e = [] \<Longrightarrow>
      ra_Samples (fold (\<lambda>f. attribute_flow f n) fs e) = drop (length fs - nat n) fs"
proof (induction fs rule: rev_induct)
  case Nil
  { case 1 then show ?case by simp }
  { case 2 then show ?case by simp }
next
  case (snoc f fs)
  { case 1 with snoc.IH(1) show ?case by (simp add: attribute_flow_def Let_def) }
  { case 2
    have s: "ra_Samples (attribute_flow f n e') =
        (if int (length (ra_Samples e')) < n then ra_Samples e' @ [f] else tl (ra_Samples e') @ [f])" for e'
      by (simp add: attribute_flow_def Let_def)
    show ?case
    proof (cases "length fs < nat n")
      case True
      then show ?thesis using snoc.IH(2) [OF 2] assms by (auto simp: s)
    next
      case False
      then have "length (drop (length fs - nat n) fs) = nat n" "0 < nat n" using assms by auto
      moreover have "tl (drop (length fs - nat n) fs) = drop (Suc (length fs) - nat n) fs"
        using False \<open>0 < nat n\<close> by (simp add: tl_drop drop_Suc Suc_diff_le)
      ultimately show ?thesis using snoc.IH(2) [OF 2] assms False by (auto simp: s)
    qed }
qed

text \<open>The record of a rule key keeps the newest samples: after any sequence of flows with one key the
  flow count is their number and the samples are exactly the last maxSamples of them, in order.\<close>

theorem recordAttribution_samples:
  assumes "0 < n" and "fs \<noteq> []"
  shows "\<exists>ra. map_of (pl_attrib (fold (\<lambda>f. recordAttribution key f n) fs newPeerRules)) (RuleKey_String key) = Some ra
    \<and> ra_Key ra = key \<and> ra_FlowCount ra = of_nat (length fs) \<and> ra_Samples ra = drop (length fs - nat n) fs"
proof -
  let ?e = "\<lparr>ra_Key = key, ra_FlowCount = 0, ra_FirstSeen = 0, ra_LastSeen = 0, ra_Samples = []\<rparr>"
  have "get_or ?e (pl_attrib (fold (\<lambda>f. recordAttribution key f n) fs newPeerRules)) (RuleKey_String key)
      = fold (\<lambda>f. attribute_flow f n) fs ?e"
    using assms(1)
    by (induction fs rule: rev_induct)
      (simp_all add: recordAttribution_def get_or_upsert, simp add: newPeerRules_def get_or_Nil)
  moreover have "RuleKey_String key \<in> fst ` set (pl_attrib (fold (\<lambda>f. recordAttribution key f n) fs newPeerRules))"
    using assms by (cases fs rule: rev_cases) (simp_all add: recordAttribution_def fst_set_upsert)
  moreover have "ra_Key (fold (\<lambda>f. attribute_flow f n) fs ?e) = key"
    by (induction fs rule: rev_induct) (simp_all add: attribute_flow_def Let_def)
  ultimately show ?thesis
    using attribute_flows [OF assms(1), where fs = fs and e = ?e]
    by (auto simp: get_or_def map_of_eq_None_iff split: option.splits)
qed

theorem recordAttribution_samples_witness:
  "\<exists>ra. map_of (pl_attrib (fold (\<lambda>f. recordAttribution (ruleKeyFor ''egress'' (cidr_peer ''10.0.0.2/32'')
        (the (extractProto flow_out))) f 1) [flow_in, flow_out] newPeerRules))
      (RuleKey_String (ruleKeyFor ''egress'' (cidr_peer ''10.0.0.2/32'') (the (extractProto flow_out)))) = Some ra
    \<and> ra_Key ra = ruleKeyFor ''egress'' (cidr_peer ''10.0.0.2/32'') (the (extractProto flow_out))
    \<and> ra_FlowCount ra = of_nat (length [flow_in, flow_out])
    \<and> ra_Samples ra = drop (length [flow_in, flow_out] - nat 1) [flow_in, flow_out]"
  by (rule recordAttribution_samples) simp_all

section \<open>Layer 7 switched off\<close>

definition strip_l7 :: "flow \<Rightarrow> flow" where
  "strip_l7 f = f\<lparr>fl_l7 := None\<rparr>"

text \<open>A bucket without its attributions, and the part of a flow's effect on it.\<close>

definition bare :: "peerRules \<Rightarrow> peerRules" where
  "bare pr = pr\<lparr>pl_attrib := []\<rparr>"

definition bare_into ::
  "externals \<Rightarrow> (flow \<Rightarrow> endpoint option) \<Rightarrow> (flow \<Rightarrow> string) \<Rightarrow> flow \<Rightarrow> peerRules \<Rightarrow> peerRules" where
  "bare_into E peer peerIP f pr =
     addFlow (the (extractProto f))
       (if pl_obsPeerKey pr = [] then pr\<lparr>pl_obsPeerKey := encodePeer (flow_peer E peer peerIP f)\<rparr> else pr)"

lemma bare_flow_into:
  "\<not> ao_L7Enabled opts \<Longrightarrow> bare (flow_into E direction opts peer peerIP f pr) = bare_into E peer peerIP f (bare pr)"
  by (simp add: flow_into_def bucket_flow_def recordL7_def bare_def bare_into_def recordAttribution_def addFlow_def Let_def)

lemma bucket_fold_map: "bucket_fold sel d g (map s xs) = bucket_fold (sel \<circ> s) (d \<circ> s) (g \<circ> s) xs"
  by (simp add: bucket_fold_def fold_map comp_def)

lemma upsert_hom: "(\<And>v. h (f v) = f' (h v)) \<Longrightarrow> map (\<lambda>(k, v). (k, h v)) (upsert k d f m) = upsert k (h d) f' (map (\<lambda>(k, v). (k, h v)) m)"
  by (induction k d f m rule: upsert.induct) auto

lemma bucket_fold_hom:
  assumes "\<And>x v. h (g x v) = g' x (h v)"
  shows "map (\<lambda>(k, v). (k, h v)) (bucket_fold sel d g xs) = bucket_fold sel (h \<circ> d) g' xs"
proof (induction xs rule: rev_induct)
  case Nil
  then show ?case by (simp add: bucket_fold_def)
next
  case (snoc x xs)
  note hom = upsert_hom [where h = h and f = "g x" and f' = "g' x", OF assms]
  show ?case
    by (cases "sel x") (simp_all only: bucket_fold_snoc option.case hom snoc.IH comp_apply)
qed

text \<open>The emitted buckets without attributions ignore layer 7.\<close>

lemma emitted_strip:
  assumes off: "\<not> ao_L7Enabled opts"
    and peer: "\<And>f. peer (strip_l7 f) = peer f" "\<And>f. peerIP (strip_l7 f) = peerIP f"
    and g: "groupFlows E fs ns r direction opts peer peerIP cs = (b, cs1, log)"
    and g': "groupFlows E (map strip_l7 fs) ns r direction opts peer peerIP cs' = (b', cs1', log')"
  shows "map (\<lambda>(pc, pr). (pc, bare pr)) (emitted b') = map (\<lambda>(pc, pr). (pc, bare pr)) (emitted b)"
proof -
  have proto: "extractProto (strip_l7 f) = extractProto f" for f
    by (simp add: extractProto_def strip_l7_def)
  have route: "route E r peer peerIP (strip_l7 f) = route E r peer peerIP f" for f
    unfolding route_def peer proto ..
  have into: "bare_into E peer peerIP (strip_l7 f) = bare_into E peer peerIP f" for f
    unfolding bare_into_def [abs_def] flow_peer_def peer proto ..
  let ?pair = "\<lambda>(sel, pr). (sel :: endpoint_selector, bare pr)"
  note B = groupFlows_buckets [OF g] and B' = groupFlows_buckets [OF g']
  note hom = bucket_fold_hom [where h = bare and g = "flow_into E direction opts peer peerIP"
      and g' = "bare_into E peer peerIP", OF bare_flow_into [OF off]]
  note homp = bucket_fold_hom [where h = ?pair and g = "\<lambda>f (sel, pr). (sel, flow_into E direction opts peer peerIP f pr)"
      and g' = "\<lambda>f (sel, pr). (sel, bare_into E peer peerIP f pr)"]
  note parts = B [THEN conjunct1] B [THEN conjunct2, THEN conjunct1] B [THEN conjunct2, THEN conjunct2, THEN conjunct1]
    B' [THEN conjunct1] B' [THEN conjunct2, THEN conjunct1] B' [THEN conjunct2, THEN conjunct2, THEN conjunct1]
  have e: "map (\<lambda>(k, pr). (k, bare pr)) (pb_entities b') = map (\<lambda>(k, pr). (k, bare pr)) (pb_entities b)"
    "map (\<lambda>(k, pr). (k, bare pr)) (pb_cidrs b') = map (\<lambda>(k, pr). (k, bare pr)) (pb_cidrs b)"
    unfolding parts hom unfolding bucket_fold_map comp_def route into by (rule refl)+
  have pair: "?pair (case x of (sel, pr) \<Rightarrow> (sel, flow_into E direction opts peer peerIP f pr))
      = (case ?pair x of (sel, pr) \<Rightarrow> (sel, bare_into E peer peerIP f pr))" for f x
    by (simp add: bare_flow_into [OF off] case_prod_beta)
  have p: "map (\<lambda>(k, x). (k, ?pair x)) (pb_peers b') = map (\<lambda>(k, x). (k, ?pair x)) (pb_peers b)"
    unfolding parts homp [OF pair] unfolding bucket_fold_map comp_def route into peer by (rule refl)
  have m: "map (\<lambda>(k, pr). (F k, bare pr)) xs = map (\<lambda>(k, pr). (F k, pr)) (map (\<lambda>(k, pr). (k, bare pr)) xs)"
    for F :: "string \<Rightarrow> rule_peer" and xs
    by (simp add: case_prod_beta' comp_def)
  have mp: "map (\<lambda>(k, sel, pr). (([sel], [], []), bare pr)) xs = map (\<lambda>(k, sel, pr). (([sel], [], []), pr)) (map (\<lambda>(k, x). (k, ?pair x)) xs)"
    for xs :: "(string \<times> endpoint_selector \<times> peerRules) list"
    by (simp add: case_prod_beta' comp_def)
  have split: "map (\<lambda>(pc, pr). (pc, bare pr)) (emitted bb) =
      map (\<lambda>(e, pr). (([], [e], []), bare pr)) (pb_entities bb)
      @ map (\<lambda>(c, pr). (([], [], [c]), bare pr)) (pb_cidrs bb)
      @ map (\<lambda>(k, sel, pr). (([sel], [], []), bare pr)) (pb_peers bb)" for bb
    by (simp add: emitted_def case_prod_beta' comp_def)
  show ?thesis by (simp only: split m mp e p)
qed

lemma rules_bare:
  "concat (map (\<lambda>(pc, pr). ingressRulesFrom (F pc) pr) xs)
     = concat (map (\<lambda>(pc, pr). ingressRulesFrom (F pc) pr) (map (\<lambda>(pc, pr). (pc, bare pr)) xs))"
  "concat (map (\<lambda>(pc, pr). egressRulesFrom (G pc) pr) xs)
     = concat (map (\<lambda>(pc, pr). egressRulesFrom (G pc) pr) (map (\<lambda>(pc, pr). (pc, bare pr)) xs))"
  "concat (map (\<lambda>(pc, pr). fqdn_egress_rule pr) xs)
     = concat (map (\<lambda>(pc, pr). fqdn_egress_rule pr) (map (\<lambda>(pc, pr). (pc, bare pr)) xs))"
  by (induction xs) (auto simp: ingressRulesFrom_def egressRulesFrom_def fqdn_egress_rule_def bare_def)

lemma applyL7Collapse_off: "\<not> ao_L7Enabled opts \<Longrightarrow> applyL7Collapse d opts cs pr = pr"
  by (simp add: applyL7Collapse_def split: option.split)

text \<open>With layer 7 off, layer-7 records have no influence: the policy built from the flows is the one
  built from the same flows without them.\<close>

theorem BuildPolicy_l7_off:
  assumes off: "\<not> ao_L7Enabled opts"
  shows "fst (BuildPolicy E ns w (map strip_l7 flows) opts cs) = fst (BuildPolicy E ns w flows opts cs)"
proof -
  have dir: "dir_flows d (map strip_l7 flows) = map strip_l7 (dir_flows d flows)" for d
    by (simp add: dir_flows_def filter_map comp_def strip_l7_def)
  have sel: "pickSelectorLabels (map strip_l7 flows) = pickSelectorLabels flows"
    by (induction flows) (auto simp: strip_l7_def)
  have flds: "fl_source (strip_l7 f) = fl_source f" "fl_destination (strip_l7 f) = fl_destination f"
    "flowSourceIP (strip_l7 f) = flowSourceIP f" "flowDestinationIP (strip_l7 f) = flowDestinationIP f" for f
    by (simp_all add: strip_l7_def flowSourceIP_def flowDestinationIP_def)
  have ing: "fst (buildIngressRules E (map strip_l7 fs) ns opts c') = fst (buildIngressRules E fs ns opts c)" for fs c c'
  proof -
    obtain b cs1 log where g: "groupFlows E fs ns ingressReasons ''ingress'' opts fl_source flowSourceIP c = (b, cs1, log)"
      by (metis prod_cases3)
    obtain b' cs1' log' where g': "groupFlows E (map strip_l7 fs) ns ingressReasons ''ingress'' opts fl_source flowSourceIP c' = (b', cs1', log')"
      by (metis prod_cases3)
    show ?thesis
      unfolding buildIngressRules_emitted [OF g] buildIngressRules_emitted [OF g'] fst_conv applyL7Collapse_off [OF off]
        rules_bare(1) [where xs = "emitted b"] rules_bare(1) [where xs = "emitted b'"]
      by (subst emitted_strip [OF off flds(1,3) g g']) (rule refl)
  qed
  have eg: "fst (buildEgressRules E (map strip_l7 fs) ns opts c') = fst (buildEgressRules E fs ns opts c)" for fs c c'
  proof -
    obtain b cs1 log where g: "groupFlows E fs ns egressReasons ''egress'' opts fl_destination flowDestinationIP c = (b, cs1, log)"
      by (metis prod_cases3)
    obtain b' cs1' log' where g': "groupFlows E (map strip_l7 fs) ns egressReasons ''egress'' opts fl_destination flowDestinationIP c' = (b', cs1', log')"
      by (metis prod_cases3)
    show ?thesis
      unfolding buildEgressRules_emitted [OF g] buildEgressRules_emitted [OF g'] fst_conv applyL7Collapse_off [OF off]
        rules_bare(2,3) [where xs = "emitted b"] rules_bare(2,3) [where xs = "emitted b'"]
        emitted_strip [OF off flds(2,4) g g'] ..
  qed
  have step: "fst (BuildPolicy E ns w fl opts cs) = ensureKubeDNSCompanion (cnp_stub (PolicyName w) ns
     \<lparr>ru_EndpointSelector = (case pickSelectorLabels fl of None \<Rightarrow> None
          | Some ls \<Rightarrow> if ls = [] then None else BuildEndpointSelector E ls),
      ru_Ingress = fst (buildIngressRules E (dir_flows INGRESS fl) ns opts cs),
      ru_Egress = fst (buildEgressRules E (dir_flows EGRESS fl) ns opts
         (fst (snd (snd (buildIngressRules E (dir_flows INGRESS fl) ns opts cs))))),
      ru_DefaultDenyIngress = None, ru_DefaultDenyEgress = None\<rparr>) (ao_DNSSelector opts)" for fl
    by (simp add: BuildPolicy_def Let_def case_prod_beta dir_flows_def)
  show ?thesis
    unfolding step dir sel ing [of "dir_flows INGRESS flows" cs cs]
      eg [of "dir_flows EGRESS flows" _ "fst (snd (snd (buildIngressRules E (dir_flows INGRESS flows) ns opts cs)))"] ..
qed

theorem BuildPolicy_l7_off_witness:
  "fst (BuildPolicy demo_externals ''prod'' ''api'' (map strip_l7 demo_flows) (demo_opts\<lparr>ao_L7Enabled := False\<rparr>) None)
     = fst (BuildPolicy demo_externals ''prod'' ''api'' demo_flows (demo_opts\<lparr>ao_L7Enabled := False\<rparr>) None)"
  by (rule BuildPolicy_l7_off) simp

section \<open>Peers of two namespaces\<close>

text \<open>
  Endpoint buckets are keyed by the selected labels only.  Two peers with the labels
  \<open>app=web\<close> in namespaces \<open>prod\<close> and \<open>stage\<close> share the bucket of the first, whose
  selector does not admit the second: the flow is counted as covered but stays denied.
\<close>

abbreviation demo_stage :: endpoint where "demo_stage \<equiv> demo_endpoint ''stage'' [''k8s:app=web'']"

definition flow_stage :: flow where
  "flow_stage = demo_flow INGRESS demo_stage demo_api (L4_TCP 443) None"

lemma second_namespace_denied:
  "list_all (\<lambda>r. \<not> peer_admits demo_externals ''prod'' (ingress_peer_fields r) demo_stage ''10.0.0.1'')
     (ru_Ingress (spec_of (fst (BuildPolicy demo_externals ''prod'' ''api'' [flow_in, flow_stage] demo_opts None))))"
  "list_ex (\<lambda>r. lists_proto (ir_ToPorts r) (ir_ICMPs r) (the (extractProto flow_stage)))
     (ru_Ingress (spec_of (fst (BuildPolicy demo_externals ''prod'' ''api'' [flow_in, flow_stage] demo_opts None))))"
  by code_simp+

text \<open>An IPv6 peer gets a \<open>/32\<close> prefix, which covers \<open>2 ^ 96\<close> addresses instead of one.\<close>

lemma ipv6_gets_32:
  "flow_rule_peer E ns (\<lambda>_. Some \<lparr>ep_identity = 2, ep_namespace = [], ep_labels = [], ep_pod_name = []\<rparr>)
     (\<lambda>_. ''2001:db8::1'') f = ([], [], [''2001:db8::1/32''])"
  by (simp add: flow_rule_peer_def isWorldIdentity_def ReservedWorldIdentity_def reservedEntity_def)

end
