(* ===== verification/AggregatorSpec.thy ===== *)
theory AggregatorSpec
  imports Aggregator BuilderSpec
begin

text \<open>
  What the aggregator guarantees: each received flow has one fate, fixed by the
  configuration; the counters count the fates, and the flows bound for a policy are handed
  to the builder once each, in order, under their own key.
\<close>

section \<open>The fate of a flow\<close>

datatype fate = IgnoredReason string | IgnoredProtocol string | Suppressed DropClass | NoiseDropped
  | Unattributed UnhandledReason | Bucketed agg_key

definition flow_key :: "externals \<Rightarrow> flow \<Rightarrow> UnhandledReason + agg_key" where
  "flow_key E f =
     (case policyTargetEndpoint f of
        None \<Rightarrow> Inl (if fl_direction f \<in> {INGRESS, EGRESS} then ReasonNilEndpoint else ReasonUnknownDir)
      | Some ep \<Rightarrow>
          if ep_namespace ep = []
          then Inl (if isActionableReserved (ep_labels ep) then ReasonReservedID else ReasonEmptyNamespace)
          else Inr \<lparr>ak_Namespace = ep_namespace ep, ak_Workload = WorkloadName E (ep_labels ep)\<rparr>)"

definition drop_class :: "flow \<Rightarrow> DropClass" where
  "drop_class f = (case class_of_reason (fl_drop_reason f) of Some c \<Rightarrow> c | None \<Rightarrow> DropClassUnknown)"

definition fate :: "externals \<Rightarrow> string list \<Rightarrow> string list \<Rightarrow> bool \<Rightarrow> flow \<Rightarrow> fate" where
  "fate E reasons protos includeAudit f =
     (case ignored_reason reasons f of
        Some n \<Rightarrow> IgnoredReason n
      | None \<Rightarrow>
          (case ignored_protocol protos f of
             Some n \<Rightarrow> IgnoredProtocol n
           | None \<Rightarrow>
               if gated includeAudit f \<and> drop_class f \<in> {DropClassInfra, DropClassTransient}
               then Suppressed (drop_class f)
               else if gated includeAudit f \<and> drop_class f = DropClassNoise then NoiseDropped
               else case flow_key E f of Inl r \<Rightarrow> Unattributed r | Inr k \<Rightarrow> Bucketed k))"

abbreviation agg_fate :: "externals \<Rightarrow> aggregator \<Rightarrow> flow \<Rightarrow> fate" where
  "agg_fate E a \<equiv> fate E (ag_ignoreDropReasons a) (ag_ignoreProtocols a) (ag_includeAudit a)"

fun is_suppressed :: "fate \<Rightarrow> bool" where
  "is_suppressed (Suppressed _) = True"
| "is_suppressed _ = False"

fun is_bucketed :: "fate \<Rightarrow> bool" where
  "is_bucketed (Bucketed _) = True"
| "is_bucketed _ = False"

section \<open>One received flow\<close>

text \<open>What no step of the loop changes.\<close>

definition agg_config :: "aggregator \<Rightarrow> string list \<times> string list \<times> bool \<times> attribution_options" where
  "agg_config a = (ag_ignoreDropReasons a, ag_ignoreProtocols a, ag_includeAudit a, agg_options a)"

text \<open>The counters of an aggregator, as functions of the thing counted.\<close>

definition tallies ::
  "aggregator \<Rightarrow> u64 \<times> (string \<Rightarrow> u64) \<times> (string \<Rightarrow> u64) \<times> (drop_reason \<Rightarrow> u64)" where
  "tallies a = (ag_flowsSeen a, get_or 0 (ag_ignoredByDropReason a), get_or 0 (ag_ignoredByProtocol a),
     get_or 0 (ag_infraDrops a))"

lemma keyFromFlow_fst: "fst (keyFromFlow E f a) = (case flow_key E f of Inl _ \<Rightarrow> None | Inr k \<Rightarrow> Some k)"
  by (simp add: keyFromFlow_def flow_key_def Let_def split: option.split)

lemma keyFromFlow_frame:
  "agg_config (snd (keyFromFlow E f a)) = agg_config a"
  "tallies (snd (keyFromFlow E f a)) = tallies a"
  "ag_l7Collapse (snd (keyFromFlow E f a)) = ag_l7Collapse a"
  "ag_seenWorkloads (snd (keyFromFlow E f a)) = ag_seenWorkloads a"
  by (simp_all add: keyFromFlow_def Let_def agg_config_def agg_options_def tallies_def split: option.split)

lemma keyFromFlow_tracks:
  "reason_count (ag_tracker (snd (keyFromFlow E f a))) r =
     reason_count (ag_tracker a) r + (if flow_key E f = Inl r then 1 else 0)"
  by (simp add: keyFromFlow_def flow_key_def Let_def unhandled.count_track split: option.split)

lemma observe_flow_frame:
  "agg_config (observe_flow f a) = agg_config a"
  "tallies (observe_flow f a) = tallies a"
  "ag_l7Collapse (observe_flow f a) = ag_l7Collapse a"
  "ag_tracker (observe_flow f a) = ag_tracker a"
  by (simp_all add: observe_flow_def agg_config_def agg_options_def tallies_def)

lemma Classify_fst_drop_class: "fst (Classify (fl_drop_reason f) w) = drop_class f"
  by (simp add: Classify_class drop_class_def)

definition fate_delta :: "fate \<Rightarrow> flow \<Rightarrow> u64 \<times> (string \<Rightarrow> u64) \<times> (string \<Rightarrow> u64) \<times> (drop_reason \<Rightarrow> u64)" where
  "fate_delta ft f =
     ((if is_suppressed ft \<or> is_bucketed ft then 1 else 0),
      (\<lambda>n. if ft = IgnoredReason n then 1 else 0), (\<lambda>n. if ft = IgnoredProtocol n then 1 else 0),
      (\<lambda>r. if is_suppressed ft \<and> fl_drop_reason f = r then 1 else 0))"

type_synonym tally = "u64 \<times> (string \<Rightarrow> u64) \<times> (string \<Rightarrow> u64) \<times> (drop_reason \<Rightarrow> u64)"

fun add_tallies :: "tally \<Rightarrow> tally \<Rightarrow> tally" where
  "add_tallies (a, b, c, d) (a', b', c', d') =
     (a + a', (\<lambda>n. b n + b' n), (\<lambda>n. c n + c' n), (\<lambda>r. d r + d' r))"

text \<open>The bucket map after a flow with the given fate.\<close>

definition bucket_fate :: "fate \<Rightarrow> flow \<Rightarrow> agg_buckets \<Rightarrow> agg_buckets" where
  "bucket_fate ft f bs = (case ft of Bucketed k \<Rightarrow> upsert k [] (\<lambda>fs. fs @ [f]) bs | _ \<Rightarrow> bs)"

text \<open>One step: configuration and collapse state stay, the rest follows the fate.\<close>

definition received :: "externals \<Rightarrow> bool \<Rightarrow> health_send \<Rightarrow> flow \<Rightarrow> aggregator \<times> agg_buckets
    \<Rightarrow> drop_event list \<times> bool \<times> aggregator \<times> agg_buckets \<Rightarrow> bool" where
  "received E healthOn send f s r \<longleftrightarrow>
     (case s of (a, bs) \<Rightarrow> case r of (evs, stop, a', bs') \<Rightarrow>
        agg_config a' = agg_config a \<and> ag_l7Collapse a' = ag_l7Collapse a
        \<and> tallies a' = add_tallies (tallies a) (fate_delta (agg_fate E a f) f)
        \<and> (\<forall>u. reason_count (ag_tracker a') u =
             reason_count (ag_tracker a) u + (if agg_fate E a f = Unattributed u then 1 else 0))
        \<and> bs' = bucket_fate (agg_fate E a f) f bs
        \<and> evs = (if is_suppressed (agg_fate E a f) \<and> healthOn \<and> send = SendOK
                 then [buildDropEvent E f (drop_class f)] else [])
        \<and> (stop \<longleftrightarrow> is_suppressed (agg_fate E a f) \<and> healthOn \<and> send = SendCancelled))"

lemma tallies_upd:
  "tallies (a\<lparr>ag_warn := w\<rparr>) = tallies a"
  "tallies (a\<lparr>ag_flowsSeen := n, ag_seenWorkloads := ws\<rparr>) = (n, snd (tallies a))"
  "agg_config (a\<lparr>ag_warn := w\<rparr>) = agg_config a"
  "agg_config (a\<lparr>ag_flowsSeen := n, ag_seenWorkloads := ws\<rparr>) = agg_config a"
  by (simp_all add: tallies_def agg_config_def agg_options_def)

lemma fst_tallies: "ag_flowsSeen a = fst (tallies a)"
  by (simp add: tallies_def)

lemma add_tallies_zero: "add_tallies t (0, (\<lambda>_. 0), (\<lambda>_. 0), (\<lambda>_. 0)) = t"
  by (cases t) simp

lemma bucket_or_skip_received:
  assumes "bucket_or_skip E f (a, bs) = (a', bs')"
    and "ft = (case flow_key E f of Inl r \<Rightarrow> Unattributed r | Inr k \<Rightarrow> Bucketed k)"
  shows "agg_config a' = agg_config a \<and> ag_l7Collapse a' = ag_l7Collapse a
    \<and> tallies a' = add_tallies (tallies a) (fate_delta ft f)
    \<and> (\<forall>u. reason_count (ag_tracker a') u = reason_count (ag_tracker a) u + (if ft = Unattributed u then 1 else 0))
    \<and> bs' = bucket_fate ft f bs"
proof -
  obtain k a1 where k: "keyFromFlow E f a = (k, a1)" by (cases "keyFromFlow E f a")
  have a1: "a1 = snd (keyFromFlow E f a)" and kf: "k = (case flow_key E f of Inl _ \<Rightarrow> None | Inr k \<Rightarrow> Some k)"
    using k keyFromFlow_fst [of E f a] by simp_all
  note fr = keyFromFlow_frame [of E f a, folded a1] keyFromFlow_tracks [of E f a, folded a1]
  obtain t1 t2 t3 t4 where t: "tallies a = (t1, t2, t3, t4)" by (cases "tallies a")
  show ?thesis
  proof (cases "flow_key E f")
    case (Inl r)
    then show ?thesis
      using assms k kf fr t by (simp add: bucket_or_skip_def fate_delta_def bucket_fate_def)
  next
    case (Inr key)
    then show ?thesis
      using assms k kf fr t by (auto simp: bucket_or_skip_def fate_delta_def bucket_fate_def tallies_upd fst_tallies)
  qed
qed

lemma suppress_received:
  assumes "suppress E h send f c a = (evs, stop, a')"
  shows "agg_config a' = agg_config a \<and> ag_l7Collapse a' = ag_l7Collapse a \<and> ag_tracker a' = ag_tracker a
    \<and> tallies a' = add_tallies (tallies a) (fate_delta (Suppressed c) f)
    \<and> evs = (if h \<and> send = SendOK then [buildDropEvent E f c] else [])
    \<and> (stop \<longleftrightarrow> h \<and> send = SendCancelled)"
proof -
  have g: "get_or 0 (upsert r 0 (\<lambda>c. c + 1) m) = (\<lambda>r'. get_or 0 m r' + (if r = r' then 1 else 0))"
    for r and m :: "(drop_reason \<times> u64) list"
    by (auto simp: get_or_upsert)
  have t: "tallies (a\<lparr>ag_flowsSeen := n, ag_infraDrops := m\<rparr>)
      = (n, fst (snd (tallies a)), fst (snd (snd (tallies a))), get_or 0 m)"
    "tallies (a\<lparr>ag_flowsSeen := n, ag_infraDrops := m, ag_healthChDrops := d\<rparr>)
      = (n, fst (snd (tallies a)), fst (snd (snd (tallies a))), get_or 0 m)" for n m d
    by (simp_all add: tallies_def)
  show ?thesis
    using assms
    by (cases send; cases h)
      (auto simp: suppress_def Let_def t g agg_config_def agg_options_def fate_delta_def tallies_def)
qed

lemma ignored_received:
  "tallies (a\<lparr>ag_ignoredByDropReason := upsert n 0 (\<lambda>c. c + 1) (ag_ignoredByDropReason a)\<rparr>)
     = add_tallies (tallies a) (fate_delta (IgnoredReason n) f)"
  "tallies (a\<lparr>ag_ignoredByProtocol := upsert n 0 (\<lambda>c. c + 1) (ag_ignoredByProtocol a)\<rparr>)
     = add_tallies (tallies a) (fate_delta (IgnoredProtocol n) f)"
  by (simp_all add: tallies_def fate_delta_def get_or_upsert fun_eq_iff)

lemma agg_config_eq:
  "agg_config a' = agg_config a \<longleftrightarrow>
     ag_ignoreDropReasons a' = ag_ignoreDropReasons a \<and> ag_ignoreProtocols a' = ag_ignoreProtocols a
     \<and> ag_includeAudit a' = ag_includeAudit a \<and> agg_options a' = agg_options a"
  by (simp add: agg_config_def)

lemma receive_received:
  assumes "receive E h send f (a0, bs) = (evs, stop, a', bs')"
  shows "received E h send f (a0, bs) (evs, stop, a', bs')"
proof -
  let ?a = "observe_flow f a0"
  note ob = observe_flow_frame [of f a0]
  have cfg: "ag_ignoreDropReasons ?a = ag_ignoreDropReasons a0" "ag_ignoreProtocols ?a = ag_ignoreProtocols a0"
    "ag_includeAudit ?a = ag_includeAudit a0"
    using ob(1) by (simp_all add: agg_config_eq)
  consider (R) n where "ignored_reason (ag_ignoreDropReasons a0) f = Some n"
    | (P) n where "ignored_reason (ag_ignoreDropReasons a0) f = None" "ignored_protocol (ag_ignoreProtocols a0) f = Some n"
    | (G) "ignored_reason (ag_ignoreDropReasons a0) f = None" "ignored_protocol (ag_ignoreProtocols a0) f = None"
        "gated (ag_includeAudit a0) f"
    | (U) "ignored_reason (ag_ignoreDropReasons a0) f = None" "ignored_protocol (ag_ignoreProtocols a0) f = None"
        "\<not> gated (ag_includeAudit a0) f"
    by (cases "ignored_reason (ag_ignoreDropReasons a0) f"; cases "ignored_protocol (ag_ignoreProtocols a0) f") auto
  then show ?thesis
  proof cases
    case R
    then have ft: "agg_fate E a0 f = IgnoredReason n" by (simp add: fate_def)
    have "a' = ?a\<lparr>ag_ignoredByDropReason := upsert n 0 (\<lambda>c. c + 1) (ag_ignoredByDropReason ?a)\<rparr>"
      "bs' = bs" "evs = []" "\<not> stop"
      using assms R by (auto simp: receive_def Let_def cfg)
    then show ?thesis
      using ob by (simp add: received_def ft ignored_received [where f = f] bucket_fate_def agg_config_def agg_options_def)
  next
    case P
    then have ft: "agg_fate E a0 f = IgnoredProtocol n" by (simp add: fate_def)
    have "a' = ?a\<lparr>ag_ignoredByProtocol := upsert n 0 (\<lambda>c. c + 1) (ag_ignoredByProtocol ?a)\<rparr>"
      "bs' = bs" "evs = []" "\<not> stop"
      using assms P by (auto simp: receive_def Let_def cfg)
    then show ?thesis
      using ob by (simp add: received_def ft ignored_received [where f = f] bucket_fate_def agg_config_def agg_options_def)
  next
    case U
    then have ft: "agg_fate E a0 f = (case flow_key E f of Inl r \<Rightarrow> Unattributed r | Inr k \<Rightarrow> Bucketed k)"
      by (simp add: fate_def)
    have b: "bucket_or_skip E f (?a, bs) = (a', bs')" "evs = []" "\<not> stop"
      using assms U by (auto simp: receive_def Let_def cfg)
    have "\<not> is_suppressed (agg_fate E a0 f)" by (simp add: ft split: sum.split)
    then show ?thesis
      using bucket_or_skip_received [OF b(1) ft] b(2,3) ob by (simp add: received_def)
  next
    case G
    obtain ws w where c: "Classify (fl_drop_reason f) (ag_warn ?a) = (drop_class f, ws, w)"
      using Classify_fst_drop_class [of f "ag_warn ?a"] by (cases "Classify (fl_drop_reason f) (ag_warn ?a)") auto
    let ?a1 = "?a\<lparr>ag_warn := w\<rparr>"
    have a1: "tallies ?a1 = tallies a0" "agg_config ?a1 = agg_config a0" "ag_l7Collapse ?a1 = ag_l7Collapse a0"
      "ag_tracker ?a1 = ag_tracker a0"
      using ob by (simp_all add: tallies_upd)
    consider (S) "drop_class f \<in> {DropClassInfra, DropClassTransient}" | (N) "drop_class f = DropClassNoise"
      | (O) "drop_class f \<notin> {DropClassInfra, DropClassTransient}" "drop_class f \<noteq> DropClassNoise" by blast
    then show ?thesis
    proof cases
      case S
      then have ft: "agg_fate E a0 f = Suppressed (drop_class f)" using G by (simp add: fate_def)
      have "suppress E h send f (drop_class f) ?a1 = (evs, stop, a')" "bs' = bs"
        using assms G S by (auto simp: receive_def Let_def cfg c split: prod.splits)
      then show ?thesis
        using suppress_received [of E h send f "drop_class f" ?a1 evs stop a'] a1
        by (simp add: received_def ft bucket_fate_def)
    next
      case N
      then have ft: "agg_fate E a0 f = NoiseDropped" using G by (simp add: fate_def)
      have "a' = ?a1" "bs' = bs" "evs = []" "\<not> stop"
        using assms G N by (auto simp: receive_def Let_def cfg c)
      then show ?thesis
        using a1 by (simp add: received_def ft bucket_fate_def fate_delta_def add_tallies_zero)
    next
      case O
      then have ft: "agg_fate E a0 f = (case flow_key E f of Inl r \<Rightarrow> Unattributed r | Inr k \<Rightarrow> Bucketed k)"
        using G by (simp add: fate_def)
      have b: "bucket_or_skip E f (?a1, bs) = (a', bs')" "evs = []" "\<not> stop"
        using assms G O by (auto simp: receive_def Let_def cfg c)
      have "\<not> is_suppressed (agg_fate E a0 f)" by (simp add: ft split: sum.split)
      then show ?thesis
        using bucket_or_skip_received [OF b(1) ft] b(2,3) a1 by (simp add: received_def)
    qed
  qed
qed

section \<open>A flush\<close>

text \<open>An event carries the policy of its bucket, under the bucket's key.\<close>

definition built_by :: "externals \<Rightarrow> attribution_options \<Rightarrow> agg_key \<times> flow list \<Rightarrow> policy_event \<Rightarrow> bool" where
  "built_by E opts b ev \<longleftrightarrow>
     ev_Namespace ev = ak_Namespace (fst b) \<and> ev_Workload ev = ak_Workload (fst b)
     \<and> (\<exists>cs cs' log. BuildPolicy E (ak_Namespace (fst b)) (ak_Workload (fst b)) (snd b) opts cs
           = (ev_Policy ev, ev_Attribution ev, cs', log))"

lemma emit_bucket_spec:
  assumes "emit_bucket E b a = (ev, a')"
  shows "agg_config a' = agg_config a \<and> tallies a' = tallies a \<and> built_by E (agg_options a) b ev"
proof -
  obtain key flows where b: "b = (key, flows)" by (cases b)
  obtain cnp attrib cs lg where p: "BuildPolicy E (ak_Namespace key) (ak_Workload key) flows (agg_options a) (ag_l7Collapse a)
      = (cnp, attrib, cs, lg)" by (metis prod_cases4)
  have ev: "ev_Namespace ev = ak_Namespace key" "ev_Workload ev = ak_Workload key" "ev_Policy ev = cnp"
    "ev_Attribution ev = attrib"
    and a': "a' = a\<lparr>ag_l7Collapse := cs, ag_tracker := fold (\<lambda>(f, r). track_state E f r) lg (ag_tracker a)\<rparr>"
    using assms by (auto simp: emit_bucket_def b p)
  have "built_by E (agg_options a) b ev"
    unfolding built_by_def using p ev by (simp add: b) blast
  then show ?thesis
    by (simp add: a' agg_config_def agg_options_def tallies_def)
qed

lemma emit_buckets_spec:
  assumes "emit_buckets E bs a = (evs, a')"
  shows "agg_config a' = agg_config a \<and> tallies a' = tallies a \<and> list_all2 (built_by E (agg_options a)) bs evs"
  using assms
proof (induction bs arbitrary: a evs)
  case Nil
  then show ?case by simp
next
  case (Cons b bs)
  obtain ev a1 where e: "emit_bucket E b a = (ev, a1)" by (cases "emit_bucket E b a")
  obtain evs' where es: "emit_buckets E bs a1 = (evs', a')" "evs = ev # evs'"
    using Cons.prems by (auto simp: e split: prod.splits)
  have "agg_options a1 = agg_options a"
    using emit_bucket_spec [OF e] by (simp add: agg_config_eq)
  then show ?case
    using Cons.IH [OF es(1)] emit_bucket_spec [OF e] es(2) by simp
qed

lemma flush_spec:
  assumes "flush E order a = (evs, a')"
  shows "agg_config a' = agg_config a \<and> tallies a' = tallies a \<and> list_all2 (built_by E (agg_options a)) order evs"
proof -
  obtain a1 where a1: "emit_buckets E order a = (evs, a1)"
    and a': "a' = a1\<lparr>ag_l7Collapse := map_option Absorb (ag_l7Collapse a1), ag_tracker := snd (Flush (ag_tracker a1))\<rparr>"
    using assms by (auto simp: flush_def split: prod.splits)
  have "agg_config a' = agg_config a1" "tallies a' = tallies a1"
    by (simp_all add: a' agg_config_def agg_options_def tallies_def)
  with emit_buckets_spec [OF a1] show ?thesis by simp
qed

section \<open>Runs\<close>

fun label_flow :: "run_label \<Rightarrow> flow list" where
  "label_flow (Received f) = [f]"
| "label_flow (Flushed _) = []"
| "label_flow (Aborted f _) = [f]"

fun label_batch :: "run_label \<Rightarrow> agg_buckets list" where
  "label_batch (Received _) = []"
| "label_batch (Flushed b) = [b]"
| "label_batch (Aborted _ b) = [b]"

definition flows_of :: "run_label list \<Rightarrow> flow list" where
  "flows_of ls = concat (map label_flow ls)"

definition batches_of :: "run_label list \<Rightarrow> agg_buckets list" where
  "batches_of ls = concat (map label_batch ls)"

lemma flows_of_simps [simp]: "flows_of [] = []" "flows_of (ls @ [l]) = flows_of ls @ label_flow l"
  by (simp_all add: flows_of_def)

lemma batches_of_simps [simp]: "batches_of [] = []" "batches_of (ls @ [l]) = batches_of ls @ label_batch l"
  by (simp_all add: batches_of_def)

definition tally_all :: "externals \<Rightarrow> aggregator \<Rightarrow> flow list \<Rightarrow> tally" where
  "tally_all E a fs = fold (\<lambda>f t. add_tallies t (fate_delta (agg_fate E a f) f)) fs (tallies a)"

lemma tally_all_snoc: "tally_all E a (fs @ [f]) = add_tallies (tally_all E a fs) (fate_delta (agg_fate E a f) f)"
  by (simp add: tally_all_def)

abbreviation bound_for :: "externals \<Rightarrow> aggregator \<Rightarrow> agg_key \<Rightarrow> flow list \<Rightarrow> flow list" where
  "bound_for E a k \<equiv> filter (\<lambda>f. agg_fate E a f = Bucketed k)"

text \<open>The invariant: what the loop has done is a function of the flows received and the batches flushed.\<close>

definition run_inv :: "externals \<Rightarrow> aggregator \<Rightarrow> run_label list \<Rightarrow> run_state \<Rightarrow> bool" where
  "run_inv E a0 ls s \<longleftrightarrow>
     agg_config (rn_agg s) = agg_config a0
     \<and> tallies (rn_agg s) = tally_all E a0 (flows_of ls)
     \<and> distinct (map fst (rn_buckets s))
     \<and> (\<forall>k. bound_for E a0 k (flows_of ls)
          = concat (map (\<lambda>b. get_or [] b k) (batches_of ls)) @ get_or [] (rn_buckets s) k)
     \<and> list_all2 (built_by E (agg_options a0)) (concat (batches_of ls)) (rn_out s)
     \<and> (rn_done s \<longrightarrow> rn_buckets s = [])"

lemma order_lookup:
  assumes "mset order = mset bs" and "distinct (map fst bs)"
  shows "get_or [] order k = get_or [] bs k"
proof -
  have "distinct (map fst order)"
    using assms mset_eq_imp_distinct_iff [of "map fst order" "map fst bs"] by simp
  then have "map_of order = map_of bs"
    using assms mset_eq_setD [OF assms(1)] by (simp add: map_of_inject_set)
  then show ?thesis by (simp add: get_or_def)
qed

lemma run_inv_start: "run_inv E a [] (run_start a)"
  by (simp add: run_inv_def run_start_def tally_all_def get_or_def)

lemma agg_fate_config: "agg_config a' = agg_config a \<Longrightarrow> agg_fate E a' f = agg_fate E a f"
  by (simp add: agg_config_def)

lemma run_inv_receive:
  assumes iv: "run_inv E a0 ls s" and nd: "\<not> rn_done s"
    and r: "receive E h send f (rn_agg s, rn_buckets s) = (evs, stop, a, bs)"
  shows "run_inv E a0 (ls @ [Received f]) (s\<lparr>rn_agg := a, rn_buckets := bs, rn_health := hs\<rparr>)"
proof -
  have cfg: "agg_config (rn_agg s) = agg_config a0" using iv by (simp add: run_inv_def)
  note ft = agg_fate_config [OF cfg, of E f]
  note rc = receive_received [OF r, unfolded received_def, simplified, unfolded ft]
  have d: "distinct (map fst (bucket_fate (agg_fate E a0 f) f (rn_buckets s)))"
    using iv by (simp add: run_inv_def bucket_fate_def distinct_upsert split: fate.split)
  have g: "get_or [] (bucket_fate (agg_fate E a0 f) f (rn_buckets s)) k
      = get_or [] (rn_buckets s) k @ (if agg_fate E a0 f = Bucketed k then [f] else [])" for k
    by (auto simp: bucket_fate_def get_or_upsert split: fate.split)
  show ?thesis
    using iv rc d g nd cfg by (simp add: run_inv_def tally_all_snoc)
qed

lemma run_inv_flush:
  assumes iv: "run_inv E a0 ls s" and o: "mset order = mset (rn_buckets s)"
  shows "run_inv E a0 (ls @ [Flushed order]) (flush_run E order stop s)"
proof -
  obtain evs a where fl: "flush E order (rn_agg s) = (evs, a)" by (cases "flush E order (rn_agg s)")
  have cfg: "agg_config (rn_agg s) = agg_config a0" and d: "distinct (map fst (rn_buckets s))"
    using iv by (simp_all add: run_inv_def)
  have "agg_options (rn_agg s) = agg_options a0" using cfg by (simp add: agg_config_eq)
  then show ?thesis
    using iv flush_spec [OF fl] order_lookup [OF o d] cfg
    by (simp add: run_inv_def flush_run_def fl get_or_def list_all2_appendI)
qed

lemma run_inv_step:
  assumes "run_step E h s l s'" and "run_inv E a0 ls s"
  shows "run_inv E a0 (ls @ [l]) s'"
  using assms
proof (induction rule: run_step.induct)
  case (Receive s send f evs a bs)
  then show ?case by (intro run_inv_receive)
next
  case (Abort s send f evs a bs order)
  have "run_inv E a0 (ls @ [Received f]) (s\<lparr>rn_agg := a, rn_buckets := bs, rn_health := rn_health s\<rparr>)"
    by (rule run_inv_receive) (fact Abort)+
  from run_inv_flush [OF this, of order True] Abort show ?case
    by (simp add: run_inv_def flows_of_def batches_of_def)
next
  case (Tick s order)
  then show ?case by (intro run_inv_flush)
next
  case (Closed s order)
  then show ?case by (intro run_inv_flush)
qed

lemma run_inv_run: "agg_run E h (run_start a) ls s \<Longrightarrow> run_inv E a ls s"
  by (induction "run_start a" ls s rule: agg_run.induct) (simp_all add: run_inv_start run_inv_step)

section \<open>Properties of a run\<close>

abbreviation count_fates :: "externals \<Rightarrow> aggregator \<Rightarrow> (flow \<Rightarrow> fate \<Rightarrow> bool) \<Rightarrow> flow list \<Rightarrow> u64" where
  "count_fates E a P fs \<equiv> of_nat (length (filter (\<lambda>f. P f (agg_fate E a f)) fs))"

lemma tally_all_counts:
  "tally_all E a fs =
     (ag_flowsSeen a + count_fates E a (\<lambda>_ ft. is_suppressed ft \<or> is_bucketed ft) fs,
      (\<lambda>n. get_or 0 (ag_ignoredByDropReason a) n + count_fates E a (\<lambda>_ ft. ft = IgnoredReason n) fs),
      (\<lambda>n. get_or 0 (ag_ignoredByProtocol a) n + count_fates E a (\<lambda>_ ft. ft = IgnoredProtocol n) fs),
      (\<lambda>r. get_or 0 (ag_infraDrops a) r + count_fates E a (\<lambda>f ft. is_suppressed ft \<and> fl_drop_reason f = r) fs))"
proof (induction fs rule: rev_induct)
  case Nil
  then show ?case by (simp add: tally_all_def tallies_def)
next
  case (snoc f fs)
  then show ?case by (auto simp: tally_all_snoc fate_delta_def fun_eq_iff)
qed

lemma bound_in_batch:
  assumes iv: "run_inv E a ls s" and fin: "rn_done s"
    and f: "f \<in> set (flows_of ls)" "agg_fate E a f = Bucketed k"
  shows "\<exists>flows ev. f \<in> set flows \<and> set flows \<subseteq> set (bound_for E a k (flows_of ls)) \<and> ev \<in> set (rn_out s)
    \<and> built_by E (agg_options a) (k, flows) ev"
proof -
  have b: "bound_for E a k (flows_of ls) = concat (map (\<lambda>b. get_or [] b k) (batches_of ls))"
    using iv fin by (simp add: run_inv_def get_or_def)
  have "f \<in> set (bound_for E a k (flows_of ls))" using f by simp
  then obtain bt where bt: "bt \<in> set (batches_of ls)" "f \<in> set (get_or [] bt k)"
    unfolding b by auto
  have sub: "set (get_or [] bt k) \<subseteq> set (bound_for E a k (flows_of ls))"
    unfolding b using bt(1) by auto
  have "(k, get_or [] bt k) \<in> set bt"
    using bt(2) map_of_SomeD [of bt k] by (auto simp: get_or_def split: option.splits)
  then have "(k, get_or [] bt k) \<in> set (concat (batches_of ls))" using bt(1) by auto
  then obtain i where i: "i < length (concat (batches_of ls))" "concat (batches_of ls) ! i = (k, get_or [] bt k)"
    unfolding in_set_conv_nth by blast
  have all: "list_all2 (built_by E (agg_options a)) (concat (batches_of ls)) (rn_out s)"
    using iv by (simp add: run_inv_def)
  obtain ev where "ev \<in> set (rn_out s)" "built_by E (agg_options a) (k, get_or [] bt k) ev"
    using that [of "rn_out s ! i"] list_all2_nthD [OF all i(1)] i list_all2_lengthD [OF all] by simp
  with bt(2) sub show ?thesis by blast
qed

text \<open>C27: The run's accounting is exact: each received flow has one fate, fixed by the filters and the
  classification, and the counters for flows seen, flows ignored by drop reason, flows ignored by
  protocol and suppressed drops have grown by the numbers of flows of these fates, in every run.\<close>

theorem run_accounts:
  assumes "agg_run E h (run_start a) ls s"
  shows "ag_flowsSeen (rn_agg s) = ag_flowsSeen a + count_fates E a (\<lambda>_ ft. is_suppressed ft \<or> is_bucketed ft) (flows_of ls)
    \<and> get_or 0 (ag_ignoredByDropReason (rn_agg s)) n
        = get_or 0 (ag_ignoredByDropReason a) n + count_fates E a (\<lambda>_ ft. ft = IgnoredReason n) (flows_of ls)
    \<and> get_or 0 (ag_ignoredByProtocol (rn_agg s)) p
        = get_or 0 (ag_ignoredByProtocol a) p + count_fates E a (\<lambda>_ ft. ft = IgnoredProtocol p) (flows_of ls)
    \<and> get_or 0 (ag_infraDrops (rn_agg s)) r
        = get_or 0 (ag_infraDrops a) r + count_fates E a (\<lambda>f ft. is_suppressed ft \<and> fl_drop_reason f = r) (flows_of ls)"
proof -
  have "tallies (rn_agg s) = tally_all E a (flows_of ls)"
    using run_inv_run [OF assms] by (simp add: run_inv_def)
  then show ?thesis
    by (simp add: tallies_def tally_all_counts)
qed

text \<open>C36: Exactly once and in order: when the loop has ended, the batches handed to the policy builder
  contain, key by key, exactly the received flows bound for that key, each once and in the order of
  arrival, and each bucket of each batch became one policy event, in the order of the batches.\<close>

theorem run_batches:
  assumes "agg_run E h (run_start a) ls s" and "rn_done s"
  shows "bound_for E a k (flows_of ls) = concat (map (\<lambda>b. get_or [] b k) (batches_of ls))
    \<and> list_all2 (built_by E (agg_options a)) (concat (batches_of ls)) (rn_out s)"
  using run_inv_run [OF assms(1)] assms(2) by (simp add: run_inv_def get_or_def)

section \<open>Lost events\<close>

fun lost_count :: "lost_event \<Rightarrow> u64" where
  "lost_count (LostEvents n) = n"
| "lost_count _ = 0"

abbreviation lost_sum :: "lost_event list \<Rightarrow> u64" where
  "lost_sum es \<equiv> sum_list (map lost_count es)"

lemma lost_step_stored: "lo_stored s \<noteq> None \<Longrightarrow> fold lost_step es s = s"
  by (induction es) (auto simp: lost_step_def)

lemma lost_fold:
  assumes "lo_stored s = None" and "LostEnd \<notin> set es"
  shows "lo_stored (fold lost_step es s) = None \<and> lo_total (fold lost_step es s) = lo_total s + lost_sum es
    \<and> sum_list (map fst (lo_warnings (fold lost_step es s))) + lo_period (fold lost_step es s)
        = sum_list (map fst (lo_warnings s)) + lo_period s + lost_sum es"
  using assms
proof (induction es arbitrary: s)
  case Nil
  then show ?case by simp
next
  case (Cons e es)
  let ?s = "lost_step e s"
  have "lo_stored ?s = None" "lo_total ?s = lo_total s + lost_count e"
    "sum_list (map fst (lo_warnings ?s)) + lo_period ?s
       = sum_list (map fst (lo_warnings s)) + lo_period s + lost_count e"
    using Cons.prems by (auto simp: lost_step_def split: lost_event.split)
  with Cons.IH [of ?s] Cons.prems show ?case by (simp add: algebra_simps)
qed

text \<open>The monitor of lost events loses none: the stored total is the sum (as a 64-bit counter) of the
  counts received before the first end event, and the periodic warnings account for all of them but
  the ones of the unfinished period.\<close>

theorem monitorLostEvents_total:
  "let s = monitorLostEvents (es @ LostEnd # es'); before = takeWhile (\<lambda>e. e \<noteq> LostEnd) es
   in lo_stored s = Some (lost_sum before) \<and> lo_total s = lost_sum before
      \<and> sum_list (map fst (lo_warnings s)) + lo_period s = lost_sum before"
proof -
  let ?b = "takeWhile (\<lambda>e. e \<noteq> LostEnd) es"
  have nb: "LostEnd \<notin> set ?b" using set_takeWhileD by fastforce
  obtain rest where spl: "es @ LostEnd # es' = ?b @ LostEnd # rest"
  proof (cases "LostEnd \<in> set es")
    case True
    then obtain ys where "es = ?b @ LostEnd # ys"
      by (metis (mono_tags, lifting) dropWhile_eq_Cons_conv dropWhile_eq_Nil_conv list.exhaust takeWhile_dropWhile_id)
    then have "es @ LostEnd # es' = ?b @ LostEnd # (ys @ LostEnd # es')" by (metis append.assoc append_Cons)
    then show ?thesis using that by blast
  next
    case False
    then have b: "?b = es" by (auto simp: takeWhile_eq_all_conv)
    have "es @ LostEnd # es' = ?b @ LostEnd # es'" unfolding b ..
    then show ?thesis by (rule that)
  qed
  let ?s = "fold lost_step ?b lost_start"
  have s: "lo_stored ?s = None" "lo_total ?s = lost_sum ?b"
    "sum_list (map fst (lo_warnings ?s)) + lo_period ?s = lost_sum ?b"
    using lost_fold [of lost_start ?b, OF _ nb] by (simp_all add: lost_start_def)
  have "monitorLostEvents (es @ LostEnd # es') = fold lost_step rest (lost_step LostEnd ?s)"
    by (simp add: monitorLostEvents_def spl)
  also have "\<dots> = ?s\<lparr>lo_stored := Some (lo_total ?s)\<rparr>"
    using lost_step_stored [of "lost_step LostEnd ?s" rest] s(1) by (simp add: lost_step_def)
  finally show ?thesis using s by (simp add: Let_def)
qed

section \<open>A concrete run\<close>

definition receive_run :: "externals \<Rightarrow> bool \<Rightarrow> health_send \<Rightarrow> flow \<Rightarrow> run_state \<Rightarrow> run_state" where
  "receive_run E h send f s =
     (case receive E h send f (rn_agg s, rn_buckets s) of
        (evs, _, a, bs) \<Rightarrow> s\<lparr>rn_agg := a, rn_buckets := bs, rn_health := rn_health s @ evs\<rparr>)"

lemma receive_run_step:
  assumes "\<not> rn_done s" and "\<not> fst (snd (receive E h send f (rn_agg s, rn_buckets s)))"
  shows "run_step E h s (Received f) (receive_run E h send f s)"
proof -
  obtain evs stop a bs where r: "receive E h send f (rn_agg s, rn_buckets s) = (evs, stop, a, bs)"
    by (metis prod_cases4)
  with assms show ?thesis
    by (simp add: receive_run_def run_step.Receive)
qed

definition demo_agg :: aggregator where
  "demo_agg = SetMaxSamples 2 (SetL7Enabled True (SetIgnoreProtocols [''ICMPv4'']
     (NewAggregator NewUnhandledTracker True \<lparr>ws_logger = False, ws_warned = []\<rparr>)))"

definition demo_infra :: flow where
  "demo_infra = flow_in\<lparr>fl_drop_reason := DropReason ''CT_MAP_INSERTION_FAILED''\<rparr>"

definition demo_ping :: flow where
  "demo_ping = demo_flow INGRESS demo_web demo_api (L4_ICMPv4 8) None"

definition demo_received :: run_state where
  "demo_received = receive_run demo_externals True SendOK demo_ping
     (receive_run demo_externals True SendFull demo_infra
       (receive_run demo_externals True SendOK flow_in (run_start demo_agg)))"

definition demo_key :: agg_key where
  "demo_key = \<lparr>ak_Namespace = ''prod'', ak_Workload = ''api''\<rparr>"

definition demo_labels :: "run_label list" where
  "demo_labels = [Received flow_in, Received demo_infra, Received demo_ping, Flushed [(demo_key, [flow_in])]]"

abbreviation demo_ended :: run_state where
  "demo_ended \<equiv> flush_run demo_externals [(demo_key, [flow_in])] True demo_received"

lemma rn_done_receive_run: "rn_done (receive_run E h send f s) = rn_done s"
  by (simp add: receive_run_def split: prod.split)

lemma demo_received_facts:
  "rn_buckets demo_received = [(demo_key, [flow_in])]" "\<not> rn_done demo_received"
  by code_simp (simp add: demo_received_def rn_done_receive_run run_start_def)

lemma demo_run: "agg_run demo_externals True (run_start demo_agg) demo_labels demo_ended"
proof -
  let ?s0 = "run_start demo_agg"
  let ?s1 = "receive_run demo_externals True SendOK flow_in ?s0"
  let ?s2 = "receive_run demo_externals True SendFull demo_infra ?s1"
  have d: "\<not> rn_done ?s0" by (simp add: run_start_def)
  have go: "\<not> fst (snd (receive demo_externals True SendOK flow_in (rn_agg ?s0, rn_buckets ?s0)))
    \<and> \<not> fst (snd (receive demo_externals True SendFull demo_infra (rn_agg ?s1, rn_buckets ?s1)))
    \<and> \<not> fst (snd (receive demo_externals True SendOK demo_ping (rn_agg ?s2, rn_buckets ?s2)))"
    by code_simp
  then have go: "\<not> rn_done ?s0" "\<not> fst (snd (receive demo_externals True SendOK flow_in (rn_agg ?s0, rn_buckets ?s0)))"
    "\<not> rn_done ?s1" "\<not> fst (snd (receive demo_externals True SendFull demo_infra (rn_agg ?s1, rn_buckets ?s1)))"
    "\<not> rn_done ?s2" "\<not> fst (snd (receive demo_externals True SendOK demo_ping (rn_agg ?s2, rn_buckets ?s2)))"
    using d unfolding rn_done_receive_run by blast+
  have "agg_run demo_externals True ?s0 ([] @ [Received flow_in]) ?s1"
    by (rule agg_run.Snoc [OF agg_run.Refl receive_run_step [OF go(1,2)]])
  then have "agg_run demo_externals True ?s0 (([] @ [Received flow_in]) @ [Received demo_infra]) ?s2"
    by (rule agg_run.Snoc [OF _ receive_run_step [OF go(3,4)]])
  then have "agg_run demo_externals True ?s0
      ((([] @ [Received flow_in]) @ [Received demo_infra]) @ [Received demo_ping]) demo_received"
    unfolding demo_received_def by (rule agg_run.Snoc [OF _ receive_run_step [OF go(5,6)]])
  from agg_run.Snoc [OF this run_step.Closed [OF demo_received_facts(2), of "[(demo_key, [flow_in])]"]]
  show ?thesis
    by (simp add: demo_received_facts demo_labels_def)
qed

lemma demo_fates:
  "agg_fate demo_externals demo_agg flow_in = Bucketed demo_key"
  "agg_fate demo_externals demo_agg demo_infra = Suppressed DropClassInfra"
  "agg_fate demo_externals demo_agg demo_ping = IgnoredProtocol ''icmpv4''"
proof -
  have "map (agg_fate demo_externals demo_agg) [flow_in, demo_infra, demo_ping]
      = [Bucketed demo_key, Suppressed DropClassInfra, IgnoredProtocol ''icmpv4'']"
    by code_simp
  then show "agg_fate demo_externals demo_agg flow_in = Bucketed demo_key"
    "agg_fate demo_externals demo_agg demo_infra = Suppressed DropClassInfra"
    "agg_fate demo_externals demo_agg demo_ping = IgnoredProtocol ''icmpv4''" by simp_all
qed

theorem run_accounts_witness:
  "ag_flowsSeen (rn_agg demo_ended) = 2
   \<and> get_or 0 (ag_ignoredByDropReason (rn_agg demo_ended)) ''POLICY_DENIED'' = 0
   \<and> get_or 0 (ag_ignoredByProtocol (rn_agg demo_ended)) ''icmpv4'' = 1
   \<and> get_or 0 (ag_infraDrops (rn_agg demo_ended)) (DropReason ''CT_MAP_INSERTION_FAILED'') = 1"
proof -
  have a: "ag_flowsSeen demo_agg = 0" "ag_ignoredByDropReason demo_agg = []" "ag_ignoredByProtocol demo_agg = []"
    "ag_infraDrops demo_agg = []"
    by (simp_all add: demo_agg_def SetMaxSamples_def SetL7Enabled_def SetIgnoreProtocols_def NewAggregator_def Let_def split: if_split)
  show ?thesis
    using run_accounts [OF demo_run, of "''POLICY_DENIED''" "''icmpv4''" "DropReason ''CT_MAP_INSERTION_FAILED''"]
    by (simp add: demo_labels_def flows_of_def demo_fates a get_or_def) (simp add: demo_infra_def)
qed

theorem run_batches_witness:
  "bound_for demo_externals demo_agg demo_key (flows_of demo_labels)
     = concat (map (\<lambda>b. get_or [] b demo_key) (batches_of demo_labels))
   \<and> list_all2 (built_by demo_externals (agg_options demo_agg)) [(demo_key, [flow_in])] (rn_out demo_ended)"
proof -
  have "rn_done demo_ended" by (simp add: flush_run_def split: prod.split)
  from run_batches [OF demo_run this, of demo_key] show ?thesis
    by (simp add: demo_labels_def batches_of_def)
qed

section \<open>Observed paths are shared between workloads\<close>

definition demo_db :: endpoint where
  "demo_db = demo_endpoint ''prod'' [''k8s:app=db'']"

definition get_flow :: "endpoint \<Rightarrow> string \<Rightarrow> flow" where
  "get_flow dst path = demo_flow INGRESS demo_web dst (L4_TCP 80) (Some (L7_HTTP ''GET'' path))"

definition lists_path :: "string \<Rightarrow> cnp \<Rightarrow> bool" where
  "lists_path pattern p \<longleftrightarrow>
     list_ex (\<lambda>r. list_ex (\<lambda>pr. case pr_Rules pr of None \<Rightarrow> False | Some l \<Rightarrow>
         list_ex (\<lambda>h. hr_Path h = pattern) (l7_HTTP l)) (ir_ToPorts r)) (ru_Ingress (spec_of p))"

abbreviation db_key :: agg_key where
  "db_key \<equiv> \<lparr>ak_Namespace = ''prod'', ak_Workload = ''db''\<rparr>"

definition two_workloads :: agg_buckets where
  "two_workloads =
     [(demo_key, [get_flow demo_api ''/a'']),
      (db_key, [get_flow demo_db ''/q/r''])]"

lemma emit_bucket_policy:
  "ev_Policy (fst (emit_bucket E (k, fs) a)) =
     fst (BuildPolicy E (ak_Namespace k) (ak_Workload k) fs (agg_options a) (ag_l7Collapse a))"
  "ev_Workload (fst (emit_bucket E (k, fs) a)) = ak_Workload k"
  "ag_l7Collapse (snd (emit_bucket E (k, fs) a)) =
     fst (snd (snd (BuildPolicy E (ak_Namespace k) (ak_Workload k) fs (agg_options a) (ag_l7Collapse a))))"
  "agg_options (snd (emit_bucket E (k, fs) a)) = agg_options a"
  by (simp_all add: emit_bucket_def agg_options_def case_prod_beta)

lemma fst_flush_two:
  "fst (flush E [b1, b2] a) = [fst (emit_bucket E b1 a), fst (emit_bucket E b2 (snd (emit_bucket E b1 a)))]"
  by (simp add: flush_def case_prod_beta)

abbreviation share_opts :: attribution_options where
  "share_opts \<equiv> \<lparr>ao_MaxSamples = 2, ao_L7Enabled = True, ao_MinFlowsPerL7Rule = 0, ao_DNSSelector = []\<rparr>"

abbreviation api_store :: collapse_state where
  "api_store \<equiv> \<lparr>cs_Retained = [], cs_Collected = [(''ingress|ep:app=web|80/TCP'', [(''GET'', [''/a''])])]\<rparr>"

lemma share_config:
  "agg_options demo_agg = share_opts" "agg_options (SetCollapseL7Paths True demo_agg) = share_opts"
  "ag_l7Collapse demo_agg = None" "ag_l7Collapse (SetCollapseL7Paths True demo_agg) = Some NewL7CollapseState"
  by code_simp+

definition paths_and_store :: "string \<Rightarrow> flow \<Rightarrow> collapse_state option \<Rightarrow> bool \<times> collapse_state option" where
  "paths_and_store workload f st =
     (case BuildPolicy demo_externals ''prod'' workload [f] share_opts st of (p, _, st', _) \<Rightarrow> (lists_path ''^/a$'' p, st'))"

lemma paths_and_store_eq:
  "lists_path ''^/a$'' (fst (BuildPolicy demo_externals ''prod'' workload [f] share_opts st)) = fst (paths_and_store workload f st)"
  "fst (snd (snd (BuildPolicy demo_externals ''prod'' workload [f] share_opts st))) = snd (paths_and_store workload f st)"
  by (simp_all add: paths_and_store_def split: prod.split)

lemma share_policies:
  "paths_and_store ''api'' (get_flow demo_api ''/a'') (Some NewL7CollapseState) = (True, Some api_store)"
  "paths_and_store ''api'' (get_flow demo_api ''/a'') None = (True, None)"
  "fst (paths_and_store ''db'' (get_flow demo_db ''/q/r'') (Some api_store))"
  "\<not> fst (paths_and_store ''db'' (get_flow demo_db ''/q/r'') None)"
  by code_simp+

text \<open>With path collapse on, the observation store is keyed by direction, peer and port but not by the
  workload: in one flush, a path the client requested from one workload is allowed by the policy of
  another workload that has the same client on the same port, though nobody requested it there;
  with collapse off it is not.\<close>

theorem flush_shares_paths:
  "map (\<lambda>ev. (ev_Workload ev, lists_path ''^/a$'' (ev_Policy ev)))
     (fst (flush demo_externals two_workloads (SetCollapseL7Paths True demo_agg))) = [(''api'', True), (''db'', True)]
   \<and> map (\<lambda>ev. (ev_Workload ev, lists_path ''^/a$'' (ev_Policy ev)))
     (fst (flush demo_externals two_workloads demo_agg)) = [(''api'', True), (''db'', False)]"
  by (simp add: two_workloads_def demo_key_def fst_flush_two emit_bucket_policy share_config paths_and_store_eq share_policies)

end
