(* ===== verification/Emission.thy ===== *)
theory Emission
  imports AggregatorSpec
begin

text \<open>
  The aggregator and the policy builder together: a flow received by the loop and bound for
  a workload is covered by a policy the loop emits for that workload.
\<close>

section \<open>From a received flow to an emitted policy\<close>

lemma one_namespace_subset:
  assumes "one_namespace E peer fs" and "set gs \<subseteq> set fs"
  shows "one_namespace E peer gs"
  unfolding one_namespace_def list_all_iff
proof
  fix f assume f: "f \<in> set gs"
  show "case peer f of None \<Rightarrow> True | Some a \<Rightarrow> plain_labels E a \<and>
      (\<forall>g \<in> set gs. case peer g of None \<Rightarrow> True
        | Some b \<Rightarrow> SelectLabels E (ep_labels a) \<noteq> SelectLabels E (ep_labels b) \<or> ep_namespace a = ep_namespace b)"
  proof (cases "peer f")
    case (Some a)
    have "f \<in> set fs" using f assms(2) by blast
    with assms(1) Some have "plain_labels E a" and all: "\<forall>g \<in> set fs. case peer g of None \<Rightarrow> True
        | Some b \<Rightarrow> SelectLabels E (ep_labels a) \<noteq> SelectLabels E (ep_labels b) \<or> ep_namespace a = ep_namespace b"
      unfolding one_namespace_def list_all_iff by fastforce+
    with assms(2) Some show ?thesis by auto
  qed simp
qed

lemma dir_flows_subset: "set gs \<subseteq> set fs \<Longrightarrow> set (dir_flows d gs) \<subseteq> set (dir_flows d fs)"
  by auto

lemma route_dir_flow:
  assumes "route E r peer peerIP f = Inr bid" and "fl_direction f = d" and "f \<in> set fs"
  shows "f \<in> set (dir_flows d fs)"
  using assms route_Inr [OF assms(1)] by (cases "fl_l4 f") (auto simp: extractProto_def)

lemma run_event_ingress:
  assumes run: "agg_run E h (run_start a) ls s" and fin: "rn_done s"
    and f: "f \<in> set (flows_of ls)" "agg_fate E a f = Bucketed k"
    and dir: "fl_direction f = INGRESS" "ingress_route E f = Inr bid"
    and ns: "one_namespace E fl_source (dir_flows INGRESS (bound_for E a k (flows_of ls)))"
  shows "\<exists>ev \<in> set (rn_out s). ev_Namespace ev = ak_Namespace k \<and> ev_Workload ev = ak_Workload k
    \<and> (\<exists>r \<in> set (ru_Ingress (spec_of (ev_Policy ev))).
         ingress_peer_fields r = ingress_flow_peer E (ak_Namespace k) f
         \<and> peer_admits E (ak_Namespace k) (ingress_peer_fields r) (the (fl_source f)) (flowSourceIP f)
         \<and> lists_proto (ir_ToPorts r) (ir_ICMPs r) (the (extractProto f)))"
proof -
  from bound_in_batch [OF run_inv_run [OF run] fin f] obtain flows ev where
    b: "f \<in> set flows" "set flows \<subseteq> set (bound_for E a k (flows_of ls))" "ev \<in> set (rn_out s)"
    and ev: "built_by E (agg_options a) (k, flows) ev" by blast
  from ev obtain cs cs' lg where bp: "BuildPolicy E (ak_Namespace k) (ak_Workload k) flows (agg_options a) cs
      = (ev_Policy ev, ev_Attribution ev, cs', lg)"
    by (auto simp: built_by_def)
  have "one_namespace E fl_source (dir_flows INGRESS flows)"
    using one_namespace_subset [OF ns dir_flows_subset [OF b(2)]] .
  from admits_ingress [OF bp this route_dir_flow [OF dir(2,1) b(1)] dir(2)] b(3) ev show ?thesis
    by (auto simp: built_by_def)
qed

lemma run_event_egress:
  assumes run: "agg_run E h (run_start a) ls s" and fin: "rn_done s"
    and f: "f \<in> set (flows_of ls)" "agg_fate E a f = Bucketed k"
    and dir: "fl_direction f = EGRESS" "egress_route E f = Inr bid"
    and ns: "one_namespace E fl_destination (dir_flows EGRESS (bound_for E a k (flows_of ls)))"
    and d: "wf_dns_selector (ag_dnsSelector a)"
  shows "\<exists>ev \<in> set (rn_out s). ev_Namespace ev = ak_Namespace k \<and> ev_Workload ev = ak_Workload k
    \<and> (if flow_kind E (agg_options a) ''egress'' f = l7DNS
       then (\<exists>r \<in> set (ru_Egress (spec_of (ev_Policy ev))). allows_fqdn (the (extractDNSQuery f)) r)
         \<and> hasKubeDNSCompanion (ru_Egress (spec_of (ev_Policy ev))) (ag_dnsSelector a)
       else \<exists>r \<in> set (ru_Egress (spec_of (ev_Policy ev))).
         egress_peer_fields r = egress_flow_peer E (ak_Namespace k) f \<and> er_ToFQDNs r = []
         \<and> peer_admits E (ak_Namespace k) (egress_peer_fields r) (the (fl_destination f)) (flowDestinationIP f)
         \<and> lists_proto (er_ToPorts r) (er_ICMPs r) (the (extractProto f)))"
proof -
  from bound_in_batch [OF run_inv_run [OF run] fin f] obtain flows ev where
    b: "f \<in> set flows" "set flows \<subseteq> set (bound_for E a k (flows_of ls))" "ev \<in> set (rn_out s)"
    and ev: "built_by E (agg_options a) (k, flows) ev" by blast
  from ev obtain cs cs' lg where bp: "BuildPolicy E (ak_Namespace k) (ak_Workload k) flows (agg_options a) cs
      = (ev_Policy ev, ev_Attribution ev, cs', lg)"
    by (auto simp: built_by_def)
  have "one_namespace E fl_destination (dir_flows EGRESS flows)"
    using one_namespace_subset [OF ns dir_flows_subset [OF b(2)]] .
  moreover have "wf_dns_selector (ao_DNSSelector (agg_options a))"
    using d by (simp add: agg_options_def)
  ultimately have main: "if flow_kind E (agg_options a) ''egress'' f = l7DNS
       then (\<exists>r \<in> set (ru_Egress (spec_of (ev_Policy ev))). allows_fqdn (the (extractDNSQuery f)) r)
         \<and> hasKubeDNSCompanion (ru_Egress (spec_of (ev_Policy ev))) (ao_DNSSelector (agg_options a))
       else \<exists>r \<in> set (ru_Egress (spec_of (ev_Policy ev))).
         egress_peer_fields r = egress_flow_peer E (ak_Namespace k) f \<and> er_ToFQDNs r = []
         \<and> peer_admits E (ak_Namespace k) (egress_peer_fields r) (the (fl_destination f)) (flowDestinationIP f)
         \<and> lists_proto (er_ToPorts r) (er_ICMPs r) (the (extractProto f))"
    using admits_egress [OF bp _ _ route_dir_flow [OF dir(2,1) b(1)] dir(2)] by blast
  have q: "ao_DNSSelector (agg_options a) = ag_dnsSelector a" by (simp add: agg_options_def)
  have "ev_Namespace ev = ak_Namespace k" "ev_Workload ev = ak_Workload k"
    using ev by (simp_all add: built_by_def)
  with main [unfolded q] b(3) show ?thesis by (intro bexI [of _ ev] conjI)
qed

definition demo_sent :: run_state where
  "demo_sent = receive_run demo_externals False SendOK flow_out (run_start demo_agg)"

lemma demo_sent_run:
  "agg_run demo_externals False (run_start demo_agg) [Received flow_out, Flushed [(demo_key, [flow_out])]]
     (flush_run demo_externals [(demo_key, [flow_out])] True demo_sent)"
proof -
  have go: "\<not> rn_done (run_start demo_agg)"
    "\<not> fst (snd (receive demo_externals False SendOK flow_out (rn_agg (run_start demo_agg), rn_buckets (run_start demo_agg))))"
    "\<not> rn_done demo_sent" "rn_buckets demo_sent = [(demo_key, [flow_out])]"
    by code_simp+
  have "agg_run demo_externals False (run_start demo_agg) ([] @ [Received flow_out]) demo_sent"
    unfolding demo_sent_def by (rule agg_run.Snoc [OF agg_run.Refl receive_run_step [OF go(1,2)]])
  from agg_run.Snoc [OF this run_step.Closed [OF go(3), of "[(demo_key, [flow_out])]"]] show ?thesis
    by (simp add: go(4))
qed

text \<open>C2: End to end, ingress: in every run of the aggregator that has ended, each received ingress flow
  that is bound for a workload and can be attributed to a peer is covered by a policy event of that
  workload: an ingress rule names its peer, admits its source and lists its port or ICMP type,
  provided peers of the workload with equal labels live in one namespace.\<close>

theorem run_admits_ingress:
  assumes "agg_run E h (run_start a) ls s" and "rn_done s"
    and "f \<in> set (flows_of ls)" and "agg_fate E a f = Bucketed k"
    and "fl_direction f = INGRESS" and "ingress_route E f = Inr bid"
    and "one_namespace E fl_source (dir_flows INGRESS (bound_for E a k (flows_of ls)))"
  shows "\<exists>ev \<in> set (rn_out s). ev_Namespace ev = ak_Namespace k \<and> ev_Workload ev = ak_Workload k
    \<and> (\<exists>r \<in> set (ru_Ingress (spec_of (ev_Policy ev))).
         ingress_peer_fields r = ingress_flow_peer E (ak_Namespace k) f
         \<and> peer_admits E (ak_Namespace k) (ingress_peer_fields r) (the (fl_source f)) (flowSourceIP f)
         \<and> lists_proto (ir_ToPorts r) (ir_ICMPs r) (the (extractProto f)))"
  by (rule run_event_ingress [OF assms])

lemma demo_in_facts:
  "fl_direction flow_in = INGRESS"
  "ingress_route demo_externals flow_in = Inr (BPeer ''app=web'')"
  "one_namespace demo_externals fl_source
     (dir_flows INGRESS (bound_for demo_externals demo_agg demo_key (flows_of demo_labels)))"
proof -
  have b: "bound_for demo_externals demo_agg demo_key (flows_of demo_labels) = [flow_in]"
    by (simp add: demo_labels_def flows_of_def demo_fates)
  show "fl_direction flow_in = INGRESS" "ingress_route demo_externals flow_in = Inr (BPeer ''app=web'')"
    "one_namespace demo_externals fl_source
      (dir_flows INGRESS (bound_for demo_externals demo_agg demo_key (flows_of demo_labels)))"
    unfolding b by code_simp+
qed

theorem run_admits_ingress_witness:
  "\<exists>ev \<in> set (rn_out demo_ended). ev_Namespace ev = ''prod'' \<and> ev_Workload ev = ''api''
    \<and> (\<exists>r \<in> set (ru_Ingress (spec_of (ev_Policy ev))).
         ingress_peer_fields r = ingress_flow_peer demo_externals ''prod'' flow_in
         \<and> peer_admits demo_externals ''prod'' (ingress_peer_fields r) (the (fl_source flow_in)) (flowSourceIP flow_in)
         \<and> lists_proto (ir_ToPorts r) (ir_ICMPs r) (the (extractProto flow_in)))"
proof -
  have fin: "rn_done demo_ended" by (simp add: flush_run_def split: prod.split)
  have f: "flow_in \<in> set (flows_of demo_labels)" by (simp add: flows_of_def demo_labels_def)
  from run_admits_ingress [OF demo_run fin f demo_fates(1) demo_in_facts] show ?thesis by (simp add: demo_key_def)
qed

text \<open>C3: End to end, egress: in every run that has ended, each received egress flow that is bound for a
  workload and can be attributed to a peer is covered by a policy event of that workload: at layer
  4 by a rule for its peer, or, for a DNS query taken up with layer 7 on, by a toFQDNs rule for the
  queried name together with access to the cluster DNS.  It assumes that among the workload's egress flows
  peers with equal labels are in one namespace and their labels hold no separator of the peer key (the builder
  groups peers by labels alone), and that the DNS selector is a sorted map of keys without source prefix that
  names no namespace but that of the cluster DNS.\<close>

theorem run_admits_egress:
  assumes "agg_run E h (run_start a) ls s" and "rn_done s"
    and "f \<in> set (flows_of ls)" and "agg_fate E a f = Bucketed k"
    and "fl_direction f = EGRESS" and "egress_route E f = Inr bid"
    and "one_namespace E fl_destination (dir_flows EGRESS (bound_for E a k (flows_of ls)))"
    and "wf_dns_selector (ag_dnsSelector a)"
  shows "\<exists>ev \<in> set (rn_out s). ev_Namespace ev = ak_Namespace k \<and> ev_Workload ev = ak_Workload k
    \<and> (if flow_kind E (agg_options a) ''egress'' f = l7DNS
       then (\<exists>r \<in> set (ru_Egress (spec_of (ev_Policy ev))). allows_fqdn (the (extractDNSQuery f)) r)
         \<and> hasKubeDNSCompanion (ru_Egress (spec_of (ev_Policy ev))) (ag_dnsSelector a)
       else \<exists>r \<in> set (ru_Egress (spec_of (ev_Policy ev))).
         egress_peer_fields r = egress_flow_peer E (ak_Namespace k) f \<and> er_ToFQDNs r = []
         \<and> peer_admits E (ak_Namespace k) (egress_peer_fields r) (the (fl_destination f)) (flowDestinationIP f)
         \<and> lists_proto (er_ToPorts r) (er_ICMPs r) (the (extractProto f)))"
  by (rule run_event_egress [OF assms])

theorem run_admits_egress_witness:
  "\<exists>ev \<in> set (rn_out (flush_run demo_externals [(demo_key, [flow_out])] True demo_sent)).
     ev_Namespace ev = ''prod'' \<and> ev_Workload ev = ''api''
    \<and> (\<exists>r \<in> set (ru_Egress (spec_of (ev_Policy ev))).
         egress_peer_fields r = egress_flow_peer demo_externals ''prod'' flow_out \<and> er_ToFQDNs r = []
         \<and> lists_proto (er_ToPorts r) (er_ICMPs r) (the (extractProto flow_out)))"
proof -
  let ?ls = "[Received flow_out, Flushed [(demo_key, [flow_out])]]"
  have fin: "rn_done (flush_run demo_externals [(demo_key, [flow_out])] True demo_sent)"
    by (simp add: flush_run_def split: prod.split)
  have f: "flow_out \<in> set (flows_of ?ls)" by (simp add: flows_of_def)
  have c: "agg_fate demo_externals demo_agg flow_out = Bucketed demo_key" "fl_direction flow_out = EGRESS"
    "egress_route demo_externals flow_out = Inr (BPeer ''app=web'')"
    "one_namespace demo_externals fl_destination
       (dir_flows EGRESS (bound_for demo_externals demo_agg demo_key (flows_of ?ls)))"
    "wf_dns_selector (ag_dnsSelector demo_agg)"
    by code_simp+
  have k: "flow_kind demo_externals (agg_options demo_agg) ''egress'' flow_out \<noteq> l7DNS" by code_simp
  from run_admits_egress [OF demo_sent_run fin f c, unfolded if_not_P [OF k]] show ?thesis
    by (auto simp: demo_key_def)
qed

end
