(* ===== verification/RunHealth.thy ===== *)
theory RunHealth
  imports AggregatorSpec "HOL-Library.Sublist"
begin

text \<open>
  The aggregator's suppressed flows: how the counter of the session, the drop events sent to the
  health stage and the events that could not be sent fit together.
\<close>

section \<open>One step\<close>

lemma sum_upsert_inc:
  "sum_list (map snd (upsert k 0 (\<lambda>c. c + 1) m)) = sum_list (map snd m) + (1 :: u64)"
  by (induction m) auto

text \<open>What the counters are after a flow that is or is not suppressed.\<close>

definition infra_step :: "bool \<Rightarrow> flow \<Rightarrow> aggregator \<Rightarrow> drop_event list \<times> bool \<times> aggregator \<Rightarrow> bool" where
  "infra_step hit f a r \<longleftrightarrow>
     (case r of (evs, stop, a') \<Rightarrow>
        InfraDropTotal a' = InfraDropTotal a + of_bool hit
        \<and> of_nat (length evs) + ag_healthChDrops a' + of_bool stop = ag_healthChDrops a + of_bool hit)"

lemma infra_frame:
  "InfraDropTotal (observe_flow f a) = InfraDropTotal a" "ag_healthChDrops (observe_flow f a) = ag_healthChDrops a"
  "InfraDropTotal (fst (bucket_or_skip E f (a, bs))) = InfraDropTotal a"
  "ag_healthChDrops (fst (bucket_or_skip E f (a, bs))) = ag_healthChDrops a"
  by (simp_all add: observe_flow_def InfraDropTotal_def bucket_or_skip_def keyFromFlow_def Let_def split: option.split)

lemma suppress_infra:
  assumes "suppress E True send f c a = (evs, stop, a')"
  shows "infra_step True f a (evs, stop, a')"
  using assms
  by (cases send) (auto simp: suppress_def Let_def infra_step_def InfraDropTotal_def sum_upsert_inc)

lemma receive_infra:
  assumes "receive E True send f (a0, bs) = (evs, stop, a', bs')"
  shows "infra_step (is_suppressed (agg_fate E a0 f)) f a0 (evs, stop, a')"
proof -
  let ?a = "observe_flow f a0"
  have cfg: "ag_ignoreDropReasons ?a = ag_ignoreDropReasons a0" "ag_ignoreProtocols ?a = ag_ignoreProtocols a0"
    "ag_includeAudit ?a = ag_includeAudit a0"
    using observe_flow_frame(1) [of f a0] by (simp_all add: agg_config_eq)
  obtain ws w where c: "Classify (fl_drop_reason f) (ag_warn ?a) = (drop_class f, ws, w)"
    using Classify_fst_drop_class [of f "ag_warn ?a"] by (cases "Classify (fl_drop_reason f) (ag_warn ?a)") auto
  have other: "infra_step False f a0 ([], False, fst (bucket_or_skip E f (?a\<lparr>ag_warn := v\<rparr>, bs)))"
    "infra_step False f a0 ([], False, fst (bucket_or_skip E f (?a, bs)))" for v
    using infra_frame(1,2) [of f a0] infra_frame(3,4) [of E f "?a\<lparr>ag_warn := v\<rparr>" bs] infra_frame(3,4) [of E f ?a bs]
    by (simp_all add: infra_step_def) (simp_all add: InfraDropTotal_def)
  have nosup: "\<not> is_suppressed (case flow_key E f of Inl r \<Rightarrow> Unattributed r | Inr k \<Rightarrow> Bucketed k)"
    by (simp split: sum.split)
  show ?thesis
  proof (cases "ignored_reason (ag_ignoreDropReasons a0) f")
    case (Some n)
    then show ?thesis using assms infra_frame(1,2) [of f a0]
      by (auto simp: receive_def Let_def cfg fate_def infra_step_def InfraDropTotal_def)
  next
    case r: None
    show ?thesis
    proof (cases "ignored_protocol (ag_ignoreProtocols a0) f")
      case (Some n)
      then show ?thesis using assms r infra_frame(1,2) [of f a0]
        by (auto simp: receive_def Let_def cfg fate_def infra_step_def InfraDropTotal_def)
    next
      case p: None
      show ?thesis
      proof (cases "gated (ag_includeAudit a0) f \<and> drop_class f \<in> {DropClassInfra, DropClassTransient}")
        case True
        then have s: "suppress E True send f (drop_class f) (?a\<lparr>ag_warn := w\<rparr>) = (evs, stop, a')"
          using assms r p by (auto simp: receive_def Let_def cfg c split: prod.splits)
        from suppress_infra [OF s] infra_frame(1,2) [of f a0] True r p show ?thesis
          by (simp add: infra_step_def fate_def) (simp add: InfraDropTotal_def)
      next
        case False
        then have ns: "\<not> is_suppressed (agg_fate E a0 f)" using r p nosup by (simp add: fate_def)
        have "evs = [] \<and> \<not> stop \<and> infra_step False f a0 ([], False, a')"
        proof (cases "gated (ag_includeAudit a0) f \<and> drop_class f = DropClassNoise")
          case True
          then have "evs = []" "\<not> stop" "a' = ?a\<lparr>ag_warn := w\<rparr>"
            using assms r p False by (auto simp: receive_def Let_def cfg c)
          then show ?thesis using infra_frame(1,2) [of f a0] by (simp add: infra_step_def) (simp add: InfraDropTotal_def)
        next
          case noise: False
          then have "evs = []" "\<not> stop"
            "a' = fst (bucket_or_skip E f (?a\<lparr>ag_warn := w\<rparr>, bs)) \<or> a' = fst (bucket_or_skip E f (?a, bs))"
            using assms r p False by (auto simp: receive_def Let_def cfg c split: if_splits)
          then show ?thesis using other by auto
        qed
        with ns show ?thesis by simp
      qed
    qed
  qed
qed

lemma flush_infra:
  "InfraDropTotal (snd (flush E order a)) = InfraDropTotal a" "ag_healthChDrops (snd (flush E order a)) = ag_healthChDrops a"
proof -
  have b: "ag_infraDrops (snd (emit_bucket E b a)) = ag_infraDrops a \<and> ag_healthChDrops (snd (emit_bucket E b a)) = ag_healthChDrops a" for b a
    by (simp add: emit_bucket_def split: prod.split)
  have "ag_infraDrops (snd (emit_buckets E order a)) = ag_infraDrops a \<and> ag_healthChDrops (snd (emit_buckets E order a)) = ag_healthChDrops a"
  proof (induction order arbitrary: a)
    case (Cons x order)
    from Cons [of "snd (emit_bucket E x a)"] b [of x a] show ?case by (auto split: prod.split)
  qed simp
  then show "InfraDropTotal (snd (flush E order a)) = InfraDropTotal a" "ag_healthChDrops (snd (flush E order a)) = ag_healthChDrops a"
    by (auto simp: flush_def InfraDropTotal_def split: prod.split)
qed

section \<open>A run\<close>

definition is_abort :: "run_label \<Rightarrow> bool" where
  "is_abort l = (case l of Aborted _ _ \<Rightarrow> True | _ \<Rightarrow> False)"

abbreviation suppressed_flows :: "externals \<Rightarrow> aggregator \<Rightarrow> run_label list \<Rightarrow> flow list" where
  "suppressed_flows E a ls \<equiv> filter (\<lambda>f. is_suppressed (agg_fate E a f)) (flows_of ls)"

definition health_inv :: "externals \<Rightarrow> aggregator \<Rightarrow> run_label list \<Rightarrow> run_state \<Rightarrow> bool" where
  "health_inv E a ls s \<longleftrightarrow>
     InfraDropTotal (rn_agg s) = InfraDropTotal a + of_nat (length (suppressed_flows E a ls))
     \<and> of_nat (length (rn_health s)) + ag_healthChDrops (rn_agg s) + of_nat (length (filter is_abort ls))
         = ag_healthChDrops a + of_nat (length (suppressed_flows E a ls))
     \<and> subseq (rn_health s) (map (\<lambda>f. buildDropEvent E f (drop_class f)) (suppressed_flows E a ls))"

lemma health_inv_receive:
  assumes iv: "health_inv E a0 ls s" and cfg: "agg_config (rn_agg s) = agg_config a0"
    and r: "receive E True send f (rn_agg s, rn_buckets s) = (evs, stop, a, bs)"
  shows "health_inv E a0 (ls @ [if stop then Aborted f order else Received f]) (s\<lparr>rn_agg := a, rn_buckets := bs', rn_health := rn_health s @ evs\<rparr>)"
proof -
  note ft = agg_fate_config [OF cfg, of E f]
  note rc = receive_received [OF r, unfolded received_def, simplified, unfolded ft]
  note st = receive_infra [OF r, unfolded infra_step_def ft, simplified]
  have evs: "subseq evs (if is_suppressed (agg_fate E a0 f) then [buildDropEvent E f (drop_class f)] else [])"
    using rc by auto
  let ?l = "if stop then Aborted f order else Received f"
  have l: "suppressed_flows E a0 (ls @ [?l])
      = suppressed_flows E a0 ls @ (if is_suppressed (agg_fate E a0 f) then [f] else [])"
    by (simp add: flows_of_def)
  have "length (filter is_abort (ls @ [?l])) = length (filter is_abort ls) + of_bool stop"
    by (simp add: is_abort_def)
  then have "of_nat (length (rn_health s @ evs)) + ag_healthChDrops a + of_nat (length (filter is_abort (ls @ [?l])))
      = (of_nat (length (rn_health s)) + ag_healthChDrops (rn_agg s) + of_nat (length (filter is_abort ls)) :: u64)
        + of_bool (is_suppressed (agg_fate E a0 f))"
    using st by (simp add: algebra_simps)
  moreover have "subseq (rn_health s @ evs) (map (\<lambda>f. buildDropEvent E f (drop_class f)) (suppressed_flows E a0 (ls @ [?l])))"
    using iv list_emb_append_mono [OF _ evs] unfolding l by (auto simp: health_inv_def split: if_splits)
  ultimately show ?thesis
    using iv st unfolding health_inv_def by (simp add: l)
qed

lemma health_inv_flush:
  "health_inv E a0 ls s \<Longrightarrow> health_inv E a0 (ls @ [Flushed order]) (flush_run E order stop s)"
  "health_inv E a0 (ls @ [Aborted f order]) s \<Longrightarrow> health_inv E a0 (ls @ [Aborted f order]) (flush_run E order stop s)"
proof -
  obtain evs a where "flush E order (rn_agg s) = (evs, a)" by fastforce
  then show "health_inv E a0 ls s \<Longrightarrow> health_inv E a0 (ls @ [Flushed order]) (flush_run E order stop s)"
    "health_inv E a0 (ls @ [Aborted f order]) s \<Longrightarrow> health_inv E a0 (ls @ [Aborted f order]) (flush_run E order stop s)"
    using flush_infra [of E order "rn_agg s"]
    by (simp_all add: health_inv_def flush_run_def is_abort_def flows_of_def)
qed

lemma health_inv_run:
  "agg_run E True (run_start a) ls s \<Longrightarrow> ag_healthChDrops a = c \<Longrightarrow> health_inv E a ls s"
proof (induction "run_start a" ls s rule: agg_run.induct)
  case Refl
  then show ?case by (simp add: health_inv_def run_start_def flows_of_def)
next
  case (Snoc ls s' l s'')
  have iv: "health_inv E a ls s'" using Snoc by simp
  have cfg: "agg_config (rn_agg s') = agg_config a" using run_inv_run [OF Snoc(1)] by (simp add: run_inv_def)
  from Snoc(3) show ?case
  proof cases
    case (Receive send f evs b bs)
    then show ?thesis using health_inv_receive [OF iv cfg Receive(4)] by simp
  next
    case (Abort send f evs b bs order)
    have "evs = []" using receive_received [OF Abort(4)] by (auto simp: received_def)
    then show ?thesis
      using Abort health_inv_flush(2) [of E a ls f order] health_inv_receive [OF iv cfg Abort(4), of order bs] by simp
  next
    case (Tick order)
    then show ?thesis using health_inv_flush(1) [OF iv] by simp
  next
    case (Closed order)
    then show ?thesis using health_inv_flush(1) [OF iv] by simp
  qed
qed

text \<open>C28: Every suppressed flow is accounted for in the health path: in every run of a new aggregator with health
  reporting on, the session's infra-drop total is the number of suppressed flows; it is also the number
  of drop events sent plus the sends counted as dropped plus one for a send that was interrupted by
  cancellation; and the events sent are, in order, events of suppressed flows.\<close>

theorem run_health_accounts:
  assumes "agg_run E True (run_start a) ls s" and "ag_infraDrops a = []" and "ag_healthChDrops a = 0"
  shows "InfraDropTotal (rn_agg s) = of_nat (length (suppressed_flows E a ls))
    \<and> InfraDropTotal (rn_agg s)
        = of_nat (length (rn_health s)) + ag_healthChDrops (rn_agg s) + of_nat (length (filter is_abort ls))
    \<and> subseq (rn_health s) (map (\<lambda>f. buildDropEvent E f (drop_class f)) (suppressed_flows E a ls))"
  using health_inv_run [OF assms(1) refl] assms(2,3) by (simp add: health_inv_def InfraDropTotal_def)

theorem run_health_accounts_witness:
  "InfraDropTotal (rn_agg demo_ended) = of_nat (length (rn_health demo_ended)) + ag_healthChDrops (rn_agg demo_ended)"
proof -
  have a: "ag_infraDrops demo_agg = []" "ag_healthChDrops demo_agg = 0" by code_simp+
  have "filter is_abort demo_labels = []" by (simp add: demo_labels_def is_abort_def)
  then show ?thesis using conjunct1 [OF conjunct2 [OF run_health_accounts [OF demo_run a]]] by simp
qed

end
