(* ===== verification/Pipeline.thy ===== *)
theory Pipeline
  imports Health OnDisk Evidence Emission RunHealth
begin

text \<open>
  \<open>pkg/hubble/pipeline.go\<close>: how a run is configured from its flags, how its stages feed each
  other, and what is reported when they have ended.  The stages run one after the other here,
  on the events in the order of their channels; their files are in different directories.
  The stages of a run that has ended are its inputs: the state of the aggregator's loop, the
  lost-event monitor, the error of the flow stream.
\<close>

section \<open>Configuration\<close>

text \<open>
  The interface value \<open>NewNamespaces\<close>: nil; a non-nil value that holds a nil \<open>*NamespaceWatcher\<close>, on
  which the method's first access to its mutex panics; or a source with its namespaces.
\<close>

datatype namespaces_source = NilSource | NilWatcher | Source "string list"

record pipeline_config =
  pc_Server :: string
  pc_TLSEnabled :: bool
  pc_Timeout :: int
  pc_Namespaces :: "string list"
  pc_AllNamespaces :: bool
  pc_OutputDir :: string
  pc_FlushInterval :: int
  pc_ClusterPolicies :: "cnp_map option"
  pc_DryRun :: bool
  pc_DryRunDiff :: bool
  pc_DryRunColor :: bool
  pc_EvidenceEnabled :: bool
  pc_EvidenceDir :: string
  pc_OutputHash :: string
  pc_EvidenceCaps :: merge_caps
  pc_SessionID :: string
  pc_SessionSource :: source_info
  pc_CPGVersion :: string
  pc_L7Enabled :: bool
  pc_IncludeAudit :: bool
  pc_CollapseL7Paths :: bool
  pc_MinFlowsPerL7Rule :: int
  pc_DNSSelector :: label_map
  pc_IgnoreProtocols :: "string list"
  pc_IgnoreDropReasons :: "string list"
  pc_FailOnInfraDrops :: bool
  pc_NewNamespaces :: namespaces_source

record exit_code_error =
  ec_Code :: int
  ec_Msg :: string

definition shouldExitForInfraDrops :: "bool \<Rightarrow> u64 \<Rightarrow> bool" where
  "shouldExitForInfraDrops failOnInfraDrops infraDropTotal \<longleftrightarrow> failOnInfraDrops \<and> 0 < infraDropTotal"

definition configured_aggregator :: "pipeline_config \<Rightarrow> warn_state \<Rightarrow> aggregator" where
  "configured_aggregator cfg warn =
     (let agg = SetIgnoreDropReasons (pc_IgnoreDropReasons cfg)
                (SetIgnoreProtocols (pc_IgnoreProtocols cfg)
                (SetDNSSelector (pc_DNSSelector cfg)
                (SetMinFlowsPerL7Rule (pc_MinFlowsPerL7Rule cfg)
                (SetCollapseL7Paths (pc_CollapseL7Paths cfg)
                (SetIncludeAudit (pc_IncludeAudit cfg)
                (SetL7Enabled (pc_L7Enabled cfg)
                (NewAggregator NewUnhandledTracker True warn)))))))
      in if pc_EvidenceEnabled cfg then SetMaxSamples (mc_MaxSamples (pc_EvidenceCaps cfg)) agg else agg)"

definition configured_health_writer :: "pipeline_config \<Rightarrow> time \<Rightarrow> health_writer option" where
  "configured_health_writer cfg start =
     (if pc_EvidenceEnabled cfg \<and> \<not> pc_DryRun cfg
      then Some (newHealthWriter (pc_EvidenceDir cfg) (pc_OutputHash cfg) start) else None)"

definition configured_evidence_writer :: "pipeline_config \<Rightarrow> time \<Rightarrow> evidence_writer option" where
  "configured_evidence_writer cfg start =
     (if pc_EvidenceEnabled cfg \<and> \<not> pc_DryRun cfg
      then Some (newEvidenceWriter
             \<lparr>es_evidenceDir = pc_EvidenceDir cfg, es_outputHash = pc_OutputHash cfg, es_caps = pc_EvidenceCaps cfg\<rparr>
             \<lparr>si_ID = pc_SessionID cfg, si_StartedAt = start, si_EndedAt = 0, si_CPGVersion = pc_CPGVersion cfg,
              si_Source = pc_SessionSource cfg, si_FlowsIngested = 0, si_FlowsUnhandled = 0\<rparr>)
      else None)"

definition configured_policy_writer :: "pipeline_config \<Rightarrow> time \<Rightarrow> policy_writer" where
  "configured_policy_writer cfg start =
     (newPolicyWriter (pc_OutputDir cfg) (pc_ClusterPolicies cfg) (new_stats start (pc_OutputDir cfg)))
       \<lparr>pw_dryRun := pc_DryRun cfg, pw_dryRunDiff := pc_DryRunDiff cfg, pw_dryRunColor := pc_DryRunColor cfg\<rparr>"

section \<open>The writing stages\<close>

text \<open>
  What the pipeline calls, and what the operating system does: once per policy event for the
  policy file and for the evidence file, once per workload in the final update, once for the
  health report, each with the state of the system it meets.
\<close>

record pipeline_env =
  en_writer :: writer_env
  en_json :: json_codec
  en_report :: report_codec
  en_policy_os :: "os_oracle list"
  en_evidence_os :: "os_oracle list"
  en_final_os :: "(os_oracle \<times> policy_ref) list"
  en_health_os :: os_oracle
  en_start :: time
  en_end :: time

text \<open>Stages 2, 2b and 2c: the policy writer, the evidence writer, the health writer.\<close>

definition policy_stage :: "pipeline_env \<Rightarrow> pipeline_config \<Rightarrow> policy_event list \<Rightarrow> files \<Rightarrow> policy_writer \<times> files" where
  "policy_stage N cfg evs fs =
     handle_all (en_writer N) (zip (en_policy_os N) evs) (configured_policy_writer cfg (en_start N), fs)"

definition evidence_stage ::
  "pipeline_env \<Rightarrow> pipeline_config \<Rightarrow> policy_event list \<Rightarrow> files \<Rightarrow> evidence_writer option \<times> files" where
  "evidence_stage N cfg evs fs =
     (case configured_evidence_writer cfg (en_start N) of
        None \<Rightarrow> (None, fs)
      | Some ew \<Rightarrow>
          (case handle_evidence_all (we_externals (en_writer N)) (en_json N) (zip (en_evidence_os N) evs) (ew, fs) of
             (ew1, fs1) \<Rightarrow> (Some ew1, fs1)))"

definition health_stage :: "pipeline_env \<Rightarrow> pipeline_config \<Rightarrow> drop_event list \<Rightarrow> health_writer option" where
  "health_stage N cfg evs = map_option (accumulate_all evs) (configured_health_writer cfg (en_start N))"

section \<open>After the stages\<close>

definition final_stats :: "aggregator \<Rightarrow> u64 \<Rightarrow> session_stats \<Rightarrow> session_stats" where
  "final_stats agg lost stats =
     stats\<lparr>ss_FlowsSeen := ag_flowsSeen agg, ss_LostEvents := lost, ss_L7HTTPCount := ag_l7HTTPCount agg,
           ss_L7DNSCount := ag_l7DNSCount agg, ss_AuditVerdictCount := ag_auditVerdictCount agg,
           ss_IgnoredByProtocol := ag_ignoredByProtocol agg, ss_InfraDropTotal := InfraDropTotal agg,
           ss_InfraDropsByReason := ag_infraDrops agg\<rparr>"

text \<open>The two warnings, each once per run.\<close>

definition empty_l7_warning :: "pipeline_config \<Rightarrow> aggregator \<Rightarrow> bool" where
  "empty_l7_warning cfg agg \<longleftrightarrow>
     pc_L7Enabled cfg \<and> 0 < ag_flowsSeen agg \<and> ag_l7HTTPCount agg + ag_l7DNSCount agg = 0"

definition empty_audit_warning :: "pipeline_config \<Rightarrow> aggregator \<Rightarrow> bool" where
  "empty_audit_warning cfg agg \<longleftrightarrow>
     pc_IncludeAudit cfg \<and> 0 < ag_flowsSeen agg \<and> ag_auditVerdictCount agg = 0"

text \<open>The snapshots of the summary; without a health writer they are made from the counters.\<close>

definition summary_snapshots :: "health_drop_entry list \<Rightarrow> health_writer option \<Rightarrow> warn_state \<Rightarrow> session_stats \<Rightarrow> health_drop_entry list" where
  "summary_snapshots order hw warn stats =
     (case hw of
        Some w \<Rightarrow> fst (Snapshot order hw)
      | None \<Rightarrow>
          if 0 < ss_InfraDropTotal stats
          then map (\<lambda>(reason, count). \<lparr>he_reason = reason, he_class = fst (Classify reason warn), he_count = count,
                      he_byNode = [], he_byWorkload = []\<rparr>) (ss_InfraDropsByReason stats)
          else [])"

definition summary_path_state :: "pipeline_config \<Rightarrow> SummaryPathState" where
  "summary_path_state cfg =
     (if \<not> pc_EvidenceEnabled cfg then SummaryPathEvidenceOff
      else if pc_DryRun cfg then SummaryPathDryRun else SummaryPathWritten)"

text \<open>\<open>None\<close> is the panic.\<close>

definition namespace_report :: "pipeline_config \<Rightarrow> aggregator \<Rightarrow> string option" where
  "namespace_report cfg agg =
     (case pc_NewNamespaces cfg of
        Source namespaces \<Rightarrow> Some (PrintNewNamespacesSummary namespaces NewNamespacesFromWatch)
      | NilWatcher \<Rightarrow> None
      | NilSource \<Rightarrow>
          Some (PrintNewNamespacesSummary
            (computeNewNamespaces (case ag_firstSeenByNamespace agg of None \<Rightarrow> [] | Some m \<Rightarrow> m)) NewNamespacesFromReplay))"

text \<open>
  How a run fails: the source could not be opened, the stream broke, the exit code is asked for; or one
  of the two panics, \<open>time.NewTicker\<close> on an interval that is not positive and the method of a nil watcher.
\<close>

datatype pipeline_error = SourceFailed string | StreamFailed string | ExitCode exit_code_error | TickerPanic | NilDereference

definition pipeline_result :: "pipeline_config \<Rightarrow> string option \<Rightarrow> session_stats \<Rightarrow> pipeline_error option" where
  "pipeline_result cfg err stats =
     (case err of
        Some e \<Rightarrow> Some (StreamFailed e)
      | None \<Rightarrow>
          if shouldExitForInfraDrops (pc_FailOnInfraDrops cfg) (ss_InfraDropTotal stats)
          then Some (ExitCode \<lparr>ec_Code = 1, ec_Msg = ''--fail-on-infra-drops: ''
                  @ format_uint (unat (ss_InfraDropTotal stats)) @ '' infra drop(s) observed''\<rparr>)
          else None)"

text \<open>\<open>po_diff\<close> is what the dry run printed, \<open>po_stdout\<close> the end-of-run report.\<close>

record pipeline_outcome =
  po_stats :: session_stats
  po_l7Warning :: bool
  po_auditWarning :: bool
  po_diff :: string
  po_stdout :: string
  po_files :: files
  po_result :: "pipeline_error option"

text \<open>The final update of the evidence and the health report.\<close>

definition close_evidence :: "pipeline_env \<Rightarrow> session_stats \<Rightarrow> evidence_writer option \<Rightarrow> files \<Rightarrow> files" where
  "close_evidence N stats ew fs =
     (case ew of
        None \<Rightarrow> fs
      | Some w \<Rightarrow>
          snd (finalize_evidence (en_json N) (ss_FlowsSeen stats) (ss_LostEvents stats) (en_final_os N)
                 (w\<lparr>ew_session := (ew_session w)\<lparr>si_EndedAt := en_end N\<rparr>\<rparr>, fs)))"

text \<open>The run from the stages to its end, the source being open and the aggregator's ticker made.\<close>

definition run_stages ::
  "pipeline_env \<Rightarrow> pipeline_config \<Rightarrow> run_state \<Rightarrow> u64 \<Rightarrow> string option \<Rightarrow> health_drop_entry list \<Rightarrow> files \<Rightarrow> pipeline_outcome" where
  "run_stages N cfg run lost err order fs =
     (let agg = (rn_agg run)\<lparr>ag_tracker := snd (Flush (ag_tracker (rn_agg run)))\<rparr>;
          (pw, fs1) = policy_stage N cfg (rn_out run) fs;
          (ew, fs2) = evidence_stage N cfg (rn_out run) fs1;
          hw = health_stage N cfg (rn_health run);
          stats = final_stats agg lost (pw_stats pw);
          fs3 = close_evidence N stats ew fs2;
          fs4 = hd (snd (finalize_health (en_report N) (en_health_os N) (en_end N) stats order hw fs3));
          healthPath = Join [pc_EvidenceDir cfg, pc_OutputHash cfg, ''cluster-health.json'']
      in \<lparr>po_stats = stats, po_l7Warning = empty_l7_warning cfg agg, po_auditWarning = empty_audit_warning cfg agg,
          po_diff = pw_diffOut pw,
          po_stdout = PrintClusterHealthSummary (summary_snapshots order hw (ag_warn agg) stats) healthPath (summary_path_state cfg)
            @ (case namespace_report cfg agg of None \<Rightarrow> [] | Some out \<Rightarrow> out),
          po_files = fs4,
          po_result = (if namespace_report cfg agg = None then Some NilDereference else pipeline_result cfg err stats)\<rparr>)"

text \<open>\<open>time.NewTicker\<close> of the aggregator's loop panics, \<open>None\<close>, on an interval that is not positive.\<close>

definition NewTicker :: "int \<Rightarrow> int option" where
  "NewTicker d = (if d \<le> 0 then None else Some d)"

text \<open>A run that ends before its first event.\<close>

definition not_run :: "pipeline_env \<Rightarrow> pipeline_config \<Rightarrow> pipeline_error \<Rightarrow> files \<Rightarrow> pipeline_outcome" where
  "not_run N cfg e fs =
     \<lparr>po_stats = new_stats (en_start N) (pc_OutputDir cfg), po_l7Warning = False, po_auditWarning = False, po_diff = [],
      po_stdout = [], po_files = fs, po_result = Some e\<rparr>"

text \<open>\<open>openErr\<close> is the error of \<open>StreamDroppedFlows\<close>.\<close>

definition RunPipelineWithSource ::
  "pipeline_env \<Rightarrow> pipeline_config \<Rightarrow> string option \<Rightarrow> run_state \<Rightarrow> u64 \<Rightarrow> string option \<Rightarrow> health_drop_entry list \<Rightarrow> files
     \<Rightarrow> pipeline_outcome" where
  "RunPipelineWithSource N cfg openErr run lost err order fs =
     (case openErr of
        Some e \<Rightarrow> not_run N cfg (SourceFailed e) fs
      | None \<Rightarrow>
          if NewTicker (pc_FlushInterval cfg) = None then not_run N cfg TickerPanic fs
          else run_stages N cfg run lost err order fs)"

section \<open>The fields of the outcome\<close>

lemma po_stats_run: "po_stats (run_stages N cfg run lost err order fs)
    = final_stats (rn_agg run) lost (pw_stats (fst (policy_stage N cfg (rn_out run) fs)))"
  by (simp add: run_stages_def Let_def case_prod_beta final_stats_def InfraDropTotal_def)

lemma po_result_run: "po_result (run_stages N cfg run lost err order fs)
    = (if pc_NewNamespaces cfg = NilWatcher then Some NilDereference
       else pipeline_result cfg err (po_stats (run_stages N cfg run lost err order fs)))"
  by (simp add: run_stages_def Let_def case_prod_beta namespace_report_def split: namespaces_source.split)

lemma po_files_run: "po_files (run_stages N cfg run lost err order fs)
    = hd (snd (finalize_health (en_report N) (en_health_os N) (en_end N)
        (po_stats (run_stages N cfg run lost err order fs)) order (health_stage N cfg (rn_health run))
        (close_evidence N (po_stats (run_stages N cfg run lost err order fs))
          (fst (evidence_stage N cfg (rn_out run) (snd (policy_stage N cfg (rn_out run) fs))))
          (snd (evidence_stage N cfg (rn_out run) (snd (policy_stage N cfg (rn_out run) fs)))))))"
  by (simp add: run_stages_def Let_def case_prod_beta)

lemma run_stages_result: "po_result (run_stages N cfg run lost err order fs) = Some NilDereference \<longleftrightarrow> pc_NewNamespaces cfg = NilWatcher"
  "po_result (run_stages N cfg run lost err order fs) \<noteq> Some TickerPanic" "po_result (run_stages N cfg run lost err order fs) \<noteq> Some (SourceFailed e)"
  by (auto simp: po_result_run pipeline_result_def split: option.splits)

lemma pipeline_panics:
  "po_result (RunPipelineWithSource N cfg openErr run lost err order fs) = Some TickerPanic \<longleftrightarrow> openErr = None \<and> pc_FlushInterval cfg \<le> 0"
  "po_result (RunPipelineWithSource N cfg openErr run lost err order fs) = Some NilDereference
     \<longleftrightarrow> openErr = None \<and> 0 < pc_FlushInterval cfg \<and> pc_NewNamespaces cfg = NilWatcher"
  by (auto simp: RunPipelineWithSource_def NewTicker_def not_run_def run_stages_result(2) run_stages_result(1) split: option.splits)

lemma pipeline_runs: "0 < pc_FlushInterval cfg \<Longrightarrow> RunPipelineWithSource N cfg None run lost err order fs = run_stages N cfg run lost err order fs"
  by (simp add: RunPipelineWithSource_def NewTicker_def)

section \<open>Dry runs\<close>

lemma dry_run_files: "pw_dryRun w \<Longrightarrow> snd (handle_all W evs (w, fs)) = fs"
proof (induction evs arbitrary: w)
  case (Cons e evs)
  obtain os pe where e: "e = (os, pe)" by (cases e)
  have "snd (handle W os pe (w, fs)) = fs \<and> pw_dryRun (fst (handle W os pe (w, fs)))"
    using Cons.prems by (cases rule: handle_cases [of W os pe w fs]) (simp_all add: bumpSkip_def Let_def)
  with Cons.IH [of "fst (handle W os pe (w, fs))"] show ?case by (simp add: e) (metis prod.collapse)
qed simp

text \<open>A dry run changes nothing on disk: whatever events, drops and errors the run has, no stage of it writes a
  policy, an evidence file or the health report.\<close>

theorem dry_run_touches_nothing:
  assumes "pc_DryRun cfg"
  shows "po_files (RunPipelineWithSource N cfg openErr run lost err order fs) = fs"
proof -
  have p: "snd (policy_stage N cfg evs fs) = fs" for evs
    using assms by (simp add: policy_stage_def dry_run_files configured_policy_writer_def)
  have e: "evidence_stage N cfg evs fs = (None, fs)" and h: "health_stage N cfg ds = None" for evs ds
    using assms by (simp_all add: evidence_stage_def health_stage_def configured_evidence_writer_def configured_health_writer_def)
  have "po_files (run_stages N cfg run lost err order fs) = fs"
    by (simp add: po_files_run p e h close_evidence_def finalize_health_def)
  then show ?thesis by (simp add: RunPipelineWithSource_def not_run_def split: option.split)
qed

section \<open>The exit code and the report\<close>

lemma pipeline_result_total:
  "ss_InfraDropTotal st = n \<Longrightarrow> pipeline_result cfg None st =
    (if pc_FailOnInfraDrops cfg \<and> 0 < n
     then Some (ExitCode \<lparr>ec_Code = 1, ec_Msg = ''--fail-on-infra-drops: ''
            @ format_uint (unat n) @ '' infra drop(s) observed''\<rparr>) else None)"
  by (simp add: pipeline_result_def shouldExitForInfraDrops_def)

lemma configured_counts:
  "ag_infraDrops (configured_aggregator cfg w) = []" "ag_healthChDrops (configured_aggregator cfg w) = 0"
  by (simp_all add: configured_aggregator_def Let_def SetIgnoreDropReasons_def SetIgnoreProtocols_def SetDNSSelector_def
      SetMinFlowsPerL7Rule_def SetCollapseL7Paths_def SetIncludeAudit_def SetL7Enabled_def SetMaxSamples_def NewAggregator_def)

text \<open>The exit code tells whether infrastructure drops were seen: a run without a stream error fails, with code 1
  and the number of suppressed flows in its message, exactly when the flag is set and some received flow
  was classified as an infrastructure or transient drop, for any run of fewer than \<open>2 ^ 64\<close> flows whose
  source opens, whose flush interval is positive and whose namespace source is not a nil watcher.\<close>

theorem pipeline_exit_code:
  assumes "agg_run E True (run_start (configured_aggregator cfg w)) ls s" and "length (flows_of ls) < 2 ^ 64"
    and "pc_NewNamespaces cfg \<noteq> NilWatcher" and "0 < pc_FlushInterval cfg"
  shows "po_result (RunPipelineWithSource N cfg None s lost None order fs) =
    (if pc_FailOnInfraDrops cfg \<and> suppressed_flows E (configured_aggregator cfg w) ls \<noteq> []
     then Some (ExitCode \<lparr>ec_Code = 1, ec_Msg = ''--fail-on-infra-drops: ''
            @ format_uint (length (suppressed_flows E (configured_aggregator cfg w) ls)) @ '' infra drop(s) observed''\<rparr>)
     else None)"
proof -
  define n where "n = length (suppressed_flows E (configured_aggregator cfg w) ls)"
  have t: "InfraDropTotal (rn_agg s) = of_nat n"
    using health_inv_run [OF assms(1) refl] configured_counts [of cfg w]
    by (simp add: health_inv_def InfraDropTotal_def n_def)
  have "n < 2 ^ 64" unfolding n_def by (rule le_less_trans [OF length_filter_le assms(2)])
  then have u: "unat (of_nat n :: u64) = n" by (intro of_nat_inverse [OF refl]) simp
  have z: "0 < (of_nat n :: u64) \<longleftrightarrow> n \<noteq> 0" by (simp only: word_less_nat_alt u unat_0) simp
  have "ss_InfraDropTotal (po_stats (run_stages N cfg s lost None order fs)) = of_nat n"
    by (simp add: po_stats_run final_stats_def t)
  from pipeline_result_total [OF this, of cfg] show ?thesis
    by (simp add: pipeline_runs [OF assms(4)] po_result_run [of N cfg s lost None] u z assms(3)) (simp add: n_def)
qed

lemma cachedSnapshot_accumulate_all [simp]: "hw_cachedSnapshot (accumulate_all es v) = hw_cachedSnapshot v"
  by (induction es arbitrary: v) (simp_all add: accumulate_def)

text \<open>The report is printed whenever there is something to report: with the health writer on, the cluster-health
  block is empty exactly when no drop event reached the writer, and with it off (evidence disabled or a
  dry run), exactly when no infrastructure drop was counted.\<close>

theorem pipeline_reports_drops:
  assumes "hw = health_stage N cfg (rn_health run)" and "stats = final_stats (rn_agg run) lost st"
    and "mset order = mset (case hw of None \<Rightarrow> [] | Some w \<Rightarrow> map snd (hw_drops w))"
  shows "PrintClusterHealthSummary (summary_snapshots order hw warn stats) path (summary_path_state cfg) = []
    \<longleftrightarrow> (if pc_EvidenceEnabled cfg \<and> \<not> pc_DryRun cfg then rn_health run = [] else InfraDropTotal (rn_agg run) = 0)"
proof -
  have p: "PrintClusterHealthSummary xs path state = [] \<longleftrightarrow> xs = []" for xs state
    by (simp add: PrintClusterHealthSummary_def Let_def)
  show ?thesis
  proof (cases "pc_EvidenceEnabled cfg \<and> \<not> pc_DryRun cfg")
    case True
    define w where "w = accumulate_all (rn_health run) (newHealthWriter (pc_EvidenceDir cfg) (pc_OutputHash cfg) (en_start N))"
    have hw: "hw = Some w" using True assms(1) by (simp add: health_stage_def configured_health_writer_def w_def)
    have "summary_snapshots order hw warn stats = order"
      by (simp add: summary_snapshots_def hw Snapshot_def newHealthWriter_def w_def)
    moreover have "length order = length (hw_drops w)"
      using assms(3) by (simp add: hw) (metis length_map mset_map size_mset)
    moreover have "hw_drops w = [] \<longleftrightarrow> rn_health run = []"
      unfolding w_def using drops_accumulated [of "rn_health run" "pc_EvidenceDir cfg" "pc_OutputHash cfg" "en_start N"]
      by (metis image_is_empty set_empty)
    ultimately show ?thesis using True by (auto simp: p)
  next
    case False
    then have "hw = None" using assms(1) by (auto simp: health_stage_def configured_health_writer_def)
    moreover have "ag_infraDrops (rn_agg run) = [] \<Longrightarrow> InfraDropTotal (rn_agg run) = 0" by (simp add: InfraDropTotal_def)
    ultimately show ?thesis
      using False assms(2) by (auto simp: p summary_snapshots_def final_stats_def word_gt_0)
  qed
qed

section \<open>Witnesses\<close>

definition demo_config :: pipeline_config where
  "demo_config = \<lparr>pc_Server = ''relay:80'', pc_TLSEnabled = False, pc_Timeout = 10, pc_Namespaces = [''prod''],
     pc_AllNamespaces = False, pc_OutputDir = ''/out'', pc_FlushInterval = 5, pc_ClusterPolicies = None,
     pc_DryRun = True, pc_DryRunDiff = True, pc_DryRunColor = False, pc_EvidenceEnabled = True, pc_EvidenceDir = ''/ev'',
     pc_OutputHash = ''h'', pc_EvidenceCaps = \<lparr>mc_MaxSamples = 2, mc_MaxSessions = 1\<rparr>, pc_SessionID = ''s'',
     pc_SessionSource = \<lparr>sr_Type = ''live'', sr_File = [], sr_Server = ''relay:80''\<rparr>, pc_CPGVersion = ''v'', pc_L7Enabled = True, pc_IncludeAudit = False,
     pc_CollapseL7Paths = False, pc_MinFlowsPerL7Rule = 0, pc_DNSSelector = [], pc_IgnoreProtocols = [''ICMPv4''],
     pc_IgnoreDropReasons = [], pc_FailOnInfraDrops = True, pc_NewNamespaces = NilSource\<rparr>"

definition demo_pipeline_env :: pipeline_env where
  "demo_pipeline_env = \<lparr>en_writer = disk_env, en_json = demo_json, en_report = demo_report_codec,
     en_policy_os = [demo_os], en_evidence_os = [demo_os], en_final_os = [], en_health_os = demo_health_os,
     en_start = 1, en_end = 9\<rparr>"

lemma demo_configured: "configured_aggregator demo_config \<lparr>ws_logger = False, ws_warned = []\<rparr> = demo_agg"
  by code_simp

lemma demo_suppressed: "suppressed_flows demo_externals demo_agg demo_labels = [demo_infra]"
  by code_simp

theorem dry_run_touches_nothing_witness:
  "po_files (RunPipelineWithSource demo_pipeline_env demo_config None demo_ended 0 None [] [(''/out/a.yaml'', ''x'')]) = [(''/out/a.yaml'', ''x'')]"
  by (rule dry_run_touches_nothing) (simp add: demo_config_def)

theorem pipeline_exit_code_witness:
  "po_result (RunPipelineWithSource demo_pipeline_env demo_config None demo_ended 0 None [] []) =
     Some (ExitCode \<lparr>ec_Code = 1, ec_Msg = ''--fail-on-infra-drops: 1 infra drop(s) observed''\<rparr>)"
proof -
  have f: "format_uint (Suc 0) = ''1''" "pc_FailOnInfraDrops demo_config" by code_simp+
  have "length (flows_of demo_labels) = 3" by code_simp
  then have "length (flows_of demo_labels) < 2 ^ 64" by simp
  moreover have "pc_NewNamespaces demo_config \<noteq> NilWatcher" "0 < pc_FlushInterval demo_config" by (simp_all add: demo_config_def)
  ultimately show ?thesis
    using pipeline_exit_code [OF demo_run [folded demo_configured]] by (simp add: demo_configured demo_suppressed f)
qed

theorem pipeline_reports_drops_witness:
  "PrintClusterHealthSummary (summary_snapshots [] None \<lparr>ws_logger = False, ws_warned = []\<rparr>
     (final_stats demo_agg 0 (new_stats 0 []))) ''/ev'' (summary_path_state demo_config) = []"
proof -
  have h: "health_stage demo_pipeline_env demo_config (rn_health (run_start demo_agg)) = None"
    by (simp add: health_stage_def configured_health_writer_def demo_config_def)
  have t: "InfraDropTotal (rn_agg (run_start demo_agg)) = 0" "rn_agg (run_start demo_agg) = demo_agg" by code_simp+
  show ?thesis
    using pipeline_reports_drops [OF h [symmetric] refl, where order = "[]" and lost = 0 and st = "new_stats 0 []" and path = "''/ev''"
        and warn = "\<lparr>ws_logger = False, ws_warned = []\<rparr>"] t
    by (simp add: demo_config_def)
qed

section \<open>From a flow to the file\<close>

text \<open>The entry of a rule that stands for a flow's protocol, and a peer as policies are compared by it.\<close>

definition proto_entry :: "flowProto \<Rightarrow> entry" where
  "proto_entry fp = (if fp_icmp fp then EIcmp (icmpFieldKey (fp_entry_icmp fp)) else EPort (proto_key fp))"

definition peer_id_of :: "externals \<Rightarrow> rule_peer \<Rightarrow> peer_id" where
  "peer_id_of E p = (case p of (endpoints, entities, cidrs) \<Rightarrow> (map (selector_id E) endpoints, entities, cidrs))"

lemma lists_proto_entry: "lists_proto prs is fp \<Longrightarrow> proto_entry fp \<in> port_entries prs \<union> icmp_entries is"
  by (fastforce simp: lists_proto_def proto_entry_def port_entries_def icmp_entries_def rule_entries_def
      ports_listed_def icmps_listed_def simp flip: port_key_entry split: if_splits)

lemma listed_ingress_grant:
  assumes "r \<in> set (ru_Ingress ru)" and "lists_proto (ir_ToPorts r) (ir_ICMPs r) fp"
  shows "(peer_id_of E (ingress_peer_fields r), proto_entry fp) \<in> ingress_grants E ru"
  using assms(1) lists_proto_entry [OF assms(2)]
  by (auto simp: ingress_grants_def peer_id_of_def ingress_peer_fields_def ingress_peer_def)

text \<open>C1: From the flow to the file: each received ingress flow of an ended run that is bound for a workload and can
  be attributed to a peer is allowed by the policy file of that workload when the policy stage has handled the
  run's events: the file can be read back, and the policy in it grants the flow's protocol to the flow's peer.
  This is for runs that write (no dry run, every write succeeds), without cluster comparison and whose events
  replace no HTTP rules (so not with path collapsing), and assumes that peers of one label set are in one
  namespace with no separator of the peer key in their labels, that no name in the run's policies or in policies
  already on disk has a line break, that a temporary file is nobody's policy file, that YAML, comments aside,
  reads back with the same grants, and that rules of equal bytes grant the same.\<close>

theorem capture_to_disk:
  assumes "agg_run (we_externals (en_writer N)) h (run_start (configured_aggregator cfg w)) ls s" and "rn_done s"
    and "f \<in> set (flows_of ls)" and "agg_fate (we_externals (en_writer N)) (configured_aggregator cfg w) f = Bucketed k"
    and "fl_direction f = INGRESS" and "ingress_route (we_externals (en_writer N)) f = Inr bid"
    and "one_namespace (we_externals (en_writer N)) fl_source
           (dir_flows INGRESS (bound_for (we_externals (en_writer N)) (configured_aggregator cfg w) k (flows_of ls)))"
    and "\<not> pc_DryRun cfg" and "pc_ClusterPolicies cfg = None"
    and "length (en_policy_os N) = length (rn_out s)"
    and "list_all (\<lambda>x. x \<noteq> WriteFailed)
           (outcomes (en_writer N) (zip (en_policy_os N) (rn_out s)) (configured_policy_writer cfg (en_start N), fs))"
    and "lossless (we_externals (en_writer N)) (we_yaml (en_writer N))"
    and "faithful_marshal (we_externals (en_writer N)) (we_marshal_rule (en_writer N))"
    and "tidy (we_yaml (en_writer N)) fs" and "plain_events (pc_OutputDir cfg) (zip (en_policy_os N) (rn_out s))"
  shows "\<exists>data q. map_of (snd (policy_stage N cfg (rn_out s) fs)) (policy_path (pc_OutputDir cfg) (ak_Namespace k) (ak_Workload k)) = Some data
    \<and> ya_unmarshal (we_yaml (en_writer N)) data = Some q
    \<and> (peer_id_of (we_externals (en_writer N)) (ingress_flow_peer (we_externals (en_writer N)) (ak_Namespace k) f),
        proto_entry (the (extractProto f))) \<in> ingress_grants (we_externals (en_writer N)) (spec_of q)"
proof -
  let ?E = "we_externals (en_writer N)" and ?evs = "zip (en_policy_os N) (rn_out s)"
  obtain ev r where ev: "ev \<in> set (rn_out s)" "ev_Namespace ev = ak_Namespace k" "ev_Workload ev = ak_Workload k"
    and r: "r \<in> set (ru_Ingress (spec_of (ev_Policy ev)))" "ingress_peer_fields r = ingress_flow_peer ?E (ak_Namespace k) f"
      "lists_proto (ir_ToPorts r) (ir_ICMPs r) (the (extractProto f))"
    using run_event_ingress [OF assms(1-7)] by blast
  obtain os where os: "(os, ev) \<in> set ?evs"
    using ev(1) assms(10) by (metis in_set_impl_in_set_zip2)
  have "writer_inv (en_writer N) (pc_OutputDir cfg) {} (configured_policy_writer cfg (en_start N), fs)"
    using assms(8,9,14) by (simp add: writer_inv_def configured_policy_writer_def newPolicyWriter_def)
  from run_on_disk [OF this assms(11-13,15) os]
  have "on_disk ?E (we_yaml (en_writer N)) (event_path (pc_OutputDir cfg) ev) (ev_Policy ev)
      (snd (policy_stage N cfg (rn_out s) fs))"
    by (simp add: policy_stage_def)
  then show ?thesis
    using listed_ingress_grant [OF r(1,3), of ?E] r(2) ev(2,3) by (auto simp: on_disk_def grants_within_def)
qed

definition capture_event :: policy_event where
  "capture_event = hd (rn_out demo_ended)"

definition capture_codec :: yaml_codec where
  "capture_codec = \<lparr>ya_marshal = (\<lambda>p. if p = ev_Policy capture_event then Some ''doc'' else None),
     ya_unmarshal = (\<lambda>d. if stripComments d = ''doc'' then Some (ev_Policy capture_event) else None)\<rparr>"

definition capture_env :: pipeline_env where
  "capture_env = demo_pipeline_env\<lparr>en_writer := \<lparr>we_externals = demo_externals, we_yaml = capture_codec,
     we_marshal_rule = (\<lambda>r. None), we_differ = (\<lambda>_ _ a b. Some (a @ b))\<rparr>\<rparr>"

theorem capture_to_disk_witness:
  "\<exists>data q. map_of (snd (policy_stage capture_env (demo_config\<lparr>pc_DryRun := False\<rparr>) (rn_out demo_ended) [])) ''/out/prod/api.yaml'' = Some data
    \<and> ya_unmarshal capture_codec data = Some q
    \<and> (peer_id_of demo_externals (ingress_flow_peer demo_externals ''prod'' flow_in), EPort ''80/TCP'') \<in> ingress_grants demo_externals (spec_of q)"
proof -
  let ?cfg = "demo_config\<lparr>pc_DryRun := False\<rparr>"
  have fin: "rn_done demo_ended" by (simp add: flush_run_def split: prod.split)
  have f: "flow_in \<in> set (flows_of demo_labels)" by (simp add: flows_of_def demo_labels_def)
  have cf: "configured_aggregator ?cfg \<lparr>ws_logger = False, ws_warned = []\<rparr> = demo_agg" by code_simp
  have N: "we_externals (en_writer capture_env) = demo_externals" "we_yaml (en_writer capture_env) = capture_codec"
    "en_policy_os capture_env = [demo_os]" "faithful_marshal demo_externals (we_marshal_rule (en_writer capture_env))"
    by (simp_all add: capture_env_def demo_pipeline_env_def faithful_marshal_def)
  have e: "map (\<lambda>ev. (ev_Namespace ev, ev_Workload ev, ev_ReplaceL7HTTP ev, one_line_rules (spec_of (ev_Policy ev)))) (rn_out demo_ended)
      = [(''prod'', ''api'', False, True)]"
    by code_simp
  then have ev: "ev_Namespace capture_event = ''prod''" "ev_Workload capture_event = ''api''" "\<not> ev_ReplaceL7HTTP capture_event"
    "one_line_rules (spec_of (ev_Policy capture_event))" and out: "rn_out demo_ended = [capture_event]"
    by (auto simp: capture_event_def map_eq_Cons_conv)
  have p: "event_path ''/out'' capture_event \<noteq> os_tmp demo_os" unfolding ev(1,2) by code_simp
  have ref: "ValidatePolicyRef ''prod'' ''api'' = None" by code_simp
  have o: "outcomes (en_writer capture_env) [(demo_os, capture_event)] (configured_policy_writer ?cfg (en_start capture_env), []) = [Written]"
    by (simp add: outcome_of_def skipForClusterMatch_def skipForCrossFlushMatch_def Write_def ev ref demo_os_def readExistingPolicy_def
        write_policy_file_def write_atomic_def N(1,2) capture_codec_def configured_policy_writer_def newPolicyWriter_def demo_config_def Let_def)
  have d: "stripComments ''doc'' = ''doc''" "proto_entry (the (extractProto flow_in)) = EPort ''80/TCP''"
    "policy_path ''/out'' ''prod'' ''api'' = ''/out/prod/api.yaml''" by code_simp+
  have L: "lossless demo_externals capture_codec" using d(1) by (simp add: lossless_def capture_codec_def)
  have plain: "plain_events ''/out'' [(demo_os, capture_event)]" using ev p by (simp add: plain_events_def)
  show ?thesis
    using capture_to_disk [where N = capture_env and cfg = ?cfg and w = "\<lparr>ws_logger = False, ws_warned = []\<rparr>" and fs = "[]",
        unfolded cf N(1,2), OF demo_run fin f demo_fates(1) demo_in_facts] out o N L plain d
    by (simp add: demo_config_def demo_key_def tidy_def)
qed

end
