(* ===== verification/SessionSetup.thy ===== *)
theory SessionSetup
  imports Session Pipeline
begin

text \<open>
  What a session start does before its pipeline runs: the set-up of \<open>pkg/session/manager.go\<close> (relay
  address, cluster policies, version, DNS selector), the paths of \<open>pkg/session/paths.go\<close> and
  \<open>pkg/evidence/paths.go\<close>, and the pipeline configuration of \<open>pkg/session/pipeline_config.go\<close>.
  The hash function, the clock and the Kubernetes calls are parameters.
\<close>

section \<open>Paths\<close>

text \<open>\<open>sha\<close> is the hexadecimal SHA-256 digest; \<open>cwd\<close> the working directory, if it can be told.\<close>

record path_env =
  pe_sha :: "string \<Rightarrow> string"
  pe_cwd :: "string option"

text \<open>\<open>filepath.Abs\<close>.\<close>

definition Abs :: "path_env \<Rightarrow> string \<Rightarrow> string option" where
  "Abs V p =
     (if p \<noteq> [] \<and> hd p = CHR ''/'' then Some (Clean p)
      else map_option (\<lambda>wd. Join [wd, p]) (pe_cwd V))"

definition HashOutputDir :: "path_env \<Rightarrow> string \<Rightarrow> string" where
  "HashOutputDir V outputDir =
     (let absdir = (case Abs V outputDir of None \<Rightarrow> outputDir | Some a \<Rightarrow> a)
      in take 12 (pe_sha V (Clean absdir)))"

text \<open>\<open>xdg\<close> and \<open>home\<close> are the values of \<open>XDG_CACHE_HOME\<close> and of \<open>os.UserHomeDir\<close>.\<close>

definition DefaultEvidenceDir :: "string \<Rightarrow> string option \<Rightarrow> string option" where
  "DefaultEvidenceDir xdg home =
     (if xdg \<noteq> [] then Some (Join [xdg, ''cpg'', ''evidence''])
      else map_option (\<lambda>h. Join [h, ''.cache'', ''cpg'', ''evidence'']) home)"

record SessionPaths =
  sq_OutputDir :: string
  sq_EvidenceDir :: string
  sq_OutputHash :: string
  sq_ClusterHealthPath :: string

definition DeriveSessionPaths :: "path_env \<Rightarrow> string \<Rightarrow> SessionPaths" where
  "DeriveSessionPaths V tmpDir =
     (let outputDir = Join [tmpDir, ''policies'']; evidenceDir = Join [tmpDir, ''evidence''];
          outputHash = HashOutputDir V outputDir
      in \<lparr>sq_OutputDir = outputDir, sq_EvidenceDir = evidenceDir, sq_OutputHash = outputHash,
          sq_ClusterHealthPath = Join [evidenceDir, outputHash, ''cluster-health.json'']\<rparr>)"

section \<open>The arguments and the set-up\<close>

record StartArgs =
  ar_Namespaces :: "string list"
  ar_AllNamespaces :: bool
  ar_L7 :: bool
  ar_IncludeAudit :: bool
  ar_CollapseL7Paths :: bool
  ar_MinFlowsPerL7Rule :: int
  ar_IgnoreDropReasons :: "string list"
  ar_IgnoreProtocols :: "string list"
  ar_Server :: string
  ar_TLS :: bool
  ar_Timeout :: int
  ar_ClusterDedup :: bool
  ar_FlushInterval :: int

definition dedupNamespaces :: "StartArgs \<Rightarrow> string list" where
  "dedupNamespaces args = (if ar_AllNamespaces args \<or> ar_Namespaces args = [] then [[]] else ar_Namespaces args)"

text \<open>The answers of the cluster; a port-forward is its local address.\<close>

datatype forward_result = ForwardedTo string | ForwardTimedOut | ForwardFailed

record 'v setup_env =
  se_kubeconfig :: bool
  se_forward :: forward_result
  se_list_policies :: "string \<Rightarrow> cnp list option"
  se_versions :: "'v version_api"
  se_relay :: relay_api
  se_client :: bool
  se_pods :: "pod list api_result"
  se_pods_canceled :: bool
  se_services :: "service list api_result"

definition detectVersion :: "'v setup_env \<Rightarrow> bool \<Rightarrow> string \<Rightarrow> bool \<Rightarrow> int \<Rightarrow> CompatInfo" where
  "detectVersion S kubeConfig server tlsEnabled timeout =
     (if \<not> kubeConfig then fst (DetectCiliumVersionViaGetNodes (se_versions S) (se_relay S) server tlsEnabled timeout)
      else if \<not> se_client S then undetermined
      else fst (DetectCiliumVersion (se_versions S) (se_pods_canceled S) (Some (se_pods S))))"

datatype setup_error = NoKubeconfig | ForwardAuthTimeout | ForwardError | DedupNoKubeconfig | DedupLoad

record resolved =
  rs_server :: string
  rs_clusterPolicies :: "cnp_map option"
  rs_compat :: CompatInfo
  rs_dnsSelector :: label_map

text \<open>
  The result with what became of the port-forward: none was opened, it is open and its clean-up is
  handed back, or it was closed.
\<close>

datatype forward_state = NotForwarded | ForwardOpen | ForwardClosed

definition close_forward :: "forward_state \<Rightarrow> forward_state" where
  "close_forward f = (if f = ForwardOpen then ForwardClosed else f)"

definition setup_forward :: "'v setup_env \<Rightarrow> StartArgs \<Rightarrow> setup_error + (string \<times> bool \<times> forward_state)" where
  "setup_forward S args =
     (if ar_Server args \<noteq> [] then Inr (ar_Server args, False, NotForwarded)
      else if \<not> se_kubeconfig S then Inl NoKubeconfig
      else case se_forward S of
             ForwardTimedOut \<Rightarrow> Inl ForwardAuthTimeout
           | ForwardFailed \<Rightarrow> Inl ForwardError
           | ForwardedTo localAddr \<Rightarrow> Inr (localAddr, True, ForwardOpen))"

definition setup_dedup :: "'v setup_env \<Rightarrow> StartArgs \<Rightarrow> bool \<Rightarrow> setup_error + (cnp_map option \<times> bool)" where
  "setup_dedup S args kubeConfig =
     (if \<not> ar_ClusterDedup args then Inr (None, kubeConfig)
      else if \<not> kubeConfig \<and> \<not> se_kubeconfig S then Inl DedupNoKubeconfig
      else case LoadClusterPoliciesForNamespaces (se_list_policies S) (dedupNamespaces args) of
             None \<Rightarrow> Inl DedupLoad
           | Some clusterPolicies \<Rightarrow> Inr (Some clusterPolicies, True))"

definition resolveSetup :: "'v setup_env \<Rightarrow> StartArgs \<Rightarrow> (setup_error + resolved) \<times> forward_state" where
  "resolveSetup S args =
     (case setup_forward S args of
        Inl e \<Rightarrow> (Inl e, NotForwarded)
      | Inr (server, kubeConfig, forward) \<Rightarrow>
          (case setup_dedup S args kubeConfig of
             Inl e \<Rightarrow> (Inl e, close_forward forward)
           | Inr (clusterPolicies, kubeConfig') \<Rightarrow>
               (Inr \<lparr>rs_server = server, rs_clusterPolicies = clusterPolicies,
                  rs_compat = detectVersion S kubeConfig' server (ar_TLS args) (ar_Timeout args),
                  rs_dnsSelector = (if ar_L7 args \<and> kubeConfig' \<and> se_client S
                    then fst (DetectDNSSelector (se_services S)) else [])\<rparr>,
                forward)))"

section \<open>The pipeline configuration\<close>

definition defaultDuration :: "int \<Rightarrow> int \<Rightarrow> int" where
  "defaultDuration d fallback = (if d \<le> 0 then fallback else d)"

text \<open>\<open>sessionID\<close> is the time stamp and the random suffix of the evidence session.\<close>

definition buildPipelineConfig ::
  "path_env \<Rightarrow> StartArgs \<Rightarrow> string \<Rightarrow> string \<Rightarrow> string \<Rightarrow> string \<Rightarrow> cnp_map option \<Rightarrow> pipeline_config" where
  "buildPipelineConfig V args tmpDir server cpgVersion sessionID clusterPolicies =
     (let paths = DeriveSessionPaths V tmpDir
      in \<lparr>pc_Server = server, pc_TLSEnabled = ar_TLS args, pc_Timeout = defaultDuration (ar_Timeout args) (10 * second),
          pc_Namespaces = ar_Namespaces args, pc_AllNamespaces = ar_AllNamespaces args, pc_OutputDir = sq_OutputDir paths,
          pc_FlushInterval = defaultDuration (ar_FlushInterval args) (5 * second), pc_ClusterPolicies = clusterPolicies,
          pc_DryRun = False, pc_DryRunDiff = False, pc_DryRunColor = False, pc_EvidenceEnabled = True,
          pc_EvidenceDir = sq_EvidenceDir paths, pc_OutputHash = sq_OutputHash paths,
          pc_EvidenceCaps = \<lparr>mc_MaxSamples = 10, mc_MaxSessions = 10\<rparr>, pc_SessionID = sessionID,
          pc_SessionSource = \<lparr>sr_Type = ''live'', sr_File = [], sr_Server = server\<rparr>, pc_CPGVersion = cpgVersion,
          pc_L7Enabled = ar_L7 args, pc_IncludeAudit = ar_IncludeAudit args, pc_CollapseL7Paths = ar_CollapseL7Paths args,
          pc_MinFlowsPerL7Rule = ResolveMinFlowsPerL7Rule (ar_MinFlowsPerL7Rule args), pc_DNSSelector = [],
          pc_IgnoreProtocols = ar_IgnoreProtocols args, pc_IgnoreDropReasons = ar_IgnoreDropReasons args,
          pc_FailOnInfraDrops = False, pc_NewNamespaces = NilSource\<rparr>)"

text \<open>The configuration of a started session: \<open>Start\<close> adds the DNS selector of the set-up.\<close>

definition session_config :: "path_env \<Rightarrow> StartArgs \<Rightarrow> string \<Rightarrow> string \<Rightarrow> string \<Rightarrow> resolved \<Rightarrow> pipeline_config" where
  "session_config V args tmpDir cpgVersion sessionID r =
     (buildPipelineConfig V args tmpDir (rs_server r) cpgVersion sessionID (rs_clusterPolicies r))\<lparr>pc_DNSSelector := rs_dnsSelector r\<rparr>"

section \<open>Properties\<close>

text \<open>What a client leaves out cannot make a session unbounded or empty: whatever the arguments, zero and negative
  durations and limits included, a session's pipeline has a positive flush interval and connection
  timeout, an active confidence gate, writes files and evidence, never ends with the infra-drop exit
  code and has a namespace source that cannot panic.\<close>

theorem session_config_safe:
  "let cfg = session_config V args tmpDir cpgVersion sessionID r
   in 0 < pc_FlushInterval cfg \<and> 0 < pc_Timeout cfg \<and> 0 < pc_MinFlowsPerL7Rule cfg \<and> \<not> pc_DryRun cfg
      \<and> pc_EvidenceEnabled cfg \<and> pipeline_result cfg None stats = None \<and> namespace_report cfg agg \<noteq> None"
  by (simp add: session_config_def buildPipelineConfig_def Let_def defaultDuration_def second_def
      ResolveMinFlowsPerL7Rule_def DefaultMinFlowsPerL7Rule_def pipeline_result_def shouldExitForInfraDrops_def namespace_report_def)

text \<open>Writer and readers agree on where a session's files are: the health report of the session's pipeline, in
  every run of it, is written to the path \<open>Stop\<close> returns and the query tools read, the one
  \<open>DeriveSessionPaths\<close> computes from the session's directory.\<close>

theorem session_health_path:
  "map_option health_path (health_stage N (session_config V args tmpDir cpgVersion sessionID r) drops)
     = Some (sq_ClusterHealthPath (DeriveSessionPaths V tmpDir))"
proof -
  have "hw_evidenceDir (accumulate_all es w) = hw_evidenceDir w \<and> hw_outputHash (accumulate_all es w) = hw_outputHash w" for es w
    by (induction es arbitrary: w) (simp_all add: accumulate_def)
  then show ?thesis
    by (simp add: health_stage_def configured_health_writer_def session_config_def buildPipelineConfig_def Let_def
        health_path_def newHealthWriter_def DeriveSessionPaths_def)
qed

text \<open>A failed set-up leaves no port-forward open, and a successful one hands back an open forward exactly when
  no server was given; in particular an explicit server without deduplication needs no kubeconfig at all.\<close>

theorem resolveSetup_forward:
  "case resolveSetup S args of
     (Inl e, f) \<Rightarrow> f = NotForwarded \<or> f = ForwardClosed
   | (Inr r, f) \<Rightarrow> f = (if ar_Server args = [] then ForwardOpen else NotForwarded)
       \<and> (rs_clusterPolicies r = None \<longleftrightarrow> \<not> ar_ClusterDedup args)"
  by (auto simp: resolveSetup_def setup_forward_def setup_dedup_def close_forward_def
      split: sum.split prod.split forward_result.split option.split)

end
