(* ===== verification/AuditWindow.thy ===== *)
theory AuditWindow
  imports Cluster "HOL-Library.Countable"
begin

text \<open>
  \<open>pkg/auditwindow/manager.go\<close> and \<open>cmd/cpg/audit_window.go\<close>: the window in which the endpoints of
  a namespace are in policy-audit mode, and the sweep that reverts what the window changed.  The
  agents are the map from a node and the number an endpoint has there to its audit mode.  A call of
  \<open>cilium-dbg\<close> that sets the mode is carried out, is refused, or is carried out with its answer lost
  on the way; only the first is not an error for the caller.
\<close>

section \<open>Data\<close>

type_synonym agents = "string \<times> int \<Rightarrow> bool"

datatype set_outcome = SetDone | SetRefused | SetLost

definition setFn :: "set_outcome \<Rightarrow> string \<Rightarrow> int \<Rightarrow> bool \<Rightarrow> agents \<Rightarrow> agents \<times> bool" where
  "setFn out nodeIP eid enable g =
     (if out = SetRefused then g else g((nodeIP, eid) := enable), out \<noteq> SetDone)"

text \<open>An endpoint as the API server lists it; without networking status it has no node.\<close>

record cilium_endpoint =
  ce_UID :: string
  ce_NodeIP :: "string option"
  ce_ID :: int

record endpointRecord =
  er_uid :: string
  er_nodeIP :: string
  er_currentID :: int

text \<open>\<open>rr_EndpointResults\<close> maps a UID to whether its revert failed.\<close>

record RevertResult =
  rr_EndpointResults :: "(string \<times> bool) list"
  rr_TimedOut :: bool
  rr_PossiblyStuck :: "string list"

record window =
  aw_ns :: string
  aw_ours :: "(string \<times> endpointRecord) list"
  aw_closeResult :: "RevertResult option"
  aw_agents :: agents

definition new_window :: "agents \<Rightarrow> window" where
  "new_window g = \<lparr>aw_ns = [], aw_ours = [], aw_closeResult = None, aw_agents = g\<rparr>"

section \<open>Opening\<close>

text \<open>What the agent of an endpoint answers to the read and to the set call, should they be made.\<close>

record flip_answers =
  fa_read_fails :: bool
  fa_set :: set_outcome

definition flipIfNeeded :: "flip_answers \<Rightarrow> cilium_endpoint \<Rightarrow> window \<Rightarrow> window" where
  "flipIfNeeded A ep w =
     (let uid = ce_UID ep
      in if uid \<in> fst ` set (aw_ours w) then w
         else case ce_NodeIP ep of
                None \<Rightarrow> w
              | Some nodeIP \<Rightarrow>
                  if fa_read_fails A then w
                  else if aw_agents w (nodeIP, ce_ID ep) then w
                  else case setFn (fa_set A) nodeIP (ce_ID ep) True (aw_agents w) of
                         (g, failed) \<Rightarrow>
                           if failed then w\<lparr>aw_agents := g\<rparr>
                           else w\<lparr>aw_agents := g,
                                  aw_ours := aw_ours w @ [(uid, \<lparr>er_uid = uid, er_nodeIP = nodeIP, er_currentID = ce_ID ep\<rparr>)]\<rparr>)"

definition flip_all :: "(flip_answers \<times> cilium_endpoint) list \<Rightarrow> window \<Rightarrow> window" where
  "flip_all eps w = fold (\<lambda>(A, ep). flipIfNeeded A ep) eps w"

datatype open_error = DaemonAuditActive | ListFailed string

text \<open>\<open>precondition\<close> is the result of \<open>CheckDaemonAuditMode\<close>, \<open>listed\<close> that of the listing.\<close>

definition Open ::
  "unit + bool \<Rightarrow> (flip_answers \<times> cilium_endpoint) list option \<Rightarrow> string \<Rightarrow> window \<Rightarrow> open_error option \<times> window" where
  "Open precondition listed ns w =
     (if precondition = Inr True then (Some DaemonAuditActive, w)
      else let w1 = w\<lparr>aw_ns := ns\<rparr>
           in case listed of
                None \<Rightarrow> (Some (ListFailed ns), w1)
              | Some endpoints \<Rightarrow> (None, flip_all endpoints w1))"

text \<open>An event of the watch: its endpoint, or something else; other types than ADDED and MODIFIED are ignored.\<close>

datatype endpoint_event = EndpointAdded flip_answers cilium_endpoint | EndpointModified flip_answers cilium_endpoint | EndpointOther

fun consumeWatch :: "endpoint_event list \<Rightarrow> window \<Rightarrow> window" where
  "consumeWatch [] w = w"
| "consumeWatch (EndpointAdded A ep # evs) w = consumeWatch evs (flipIfNeeded A ep w)"
| "consumeWatch (EndpointModified A ep # evs) w = consumeWatch evs (flipIfNeeded A ep w)"
| "consumeWatch (EndpointOther # evs) w = consumeWatch evs w"

section \<open>Reverting\<close>

definition defaultResolveCurrentID :: "cilium_endpoint list option \<Rightarrow> string \<Rightarrow> int option" where
  "defaultResolveCurrentID listed uid =
     (case listed of
        None \<Rightarrow> None
      | Some endpoints \<Rightarrow> map_option ce_ID (find (\<lambda>ep. ce_UID ep = uid) endpoints))"

text \<open>What the sweep meets: the listing each endpoint's goroutine gets, and the outcome of its call.\<close>

record sweep_answers =
  sw_listed :: "string \<Rightarrow> cilium_endpoint list option"
  sw_set :: "string \<Rightarrow> set_outcome"

definition revert_id :: "sweep_answers \<Rightarrow> endpointRecord \<Rightarrow> int" where
  "revert_id S rec =
     (case defaultResolveCurrentID (sw_listed S (er_uid rec)) (er_uid rec) of None \<Rightarrow> er_currentID rec | Some freshID \<Rightarrow> freshID)"

definition revert_one :: "sweep_answers \<Rightarrow> endpointRecord \<Rightarrow> agents \<times> (string \<times> bool) list \<Rightarrow> agents \<times> (string \<times> bool) list" where
  "revert_one S rec st =
     (case st of (g, results) \<Rightarrow>
        case setFn (sw_set S (er_uid rec)) (er_nodeIP rec) (revert_id S rec) False g of
          (g', failed) \<Rightarrow> (g', aput (er_uid rec) failed results))"

text \<open>The goroutines of the sweep, in the order in which they happen to run.\<close>

definition sweep :: "sweep_answers \<Rightarrow> endpointRecord list \<Rightarrow> agents \<Rightarrow> agents \<times> (string \<times> bool) list" where
  "sweep S recs g = fold (revert_one S) recs (g, [])"

definition Close :: "sweep_answers \<Rightarrow> window \<Rightarrow> RevertResult \<times> window" where
  "Close S w =
     (case aw_closeResult w of
        Some r \<Rightarrow> (r, w)
      | None \<Rightarrow>
          (case sweep S (map snd (aw_ours w)) (aw_agents w) of
             (g, results) \<Rightarrow>
               let r = \<lparr>rr_EndpointResults = results, rr_TimedOut = False, rr_PossiblyStuck = []\<rparr>
               in (r, w\<lparr>aw_agents := g, aw_closeResult := Some r\<rparr>)))"

definition shutdown_deadline :: "int \<Rightarrow> window \<Rightarrow> int" where
  "shutdown_deadline removeWait w =
     (let n = int (length (aw_ours w)) in removeWait * (if n < 1 then 1 else n))"

text \<open>\<open>finished\<close> is whether the sweep was done by the deadline; if not it goes on in the background; a call that the end of the process prevents is one that is refused.\<close>

definition Shutdown :: "sweep_answers \<Rightarrow> bool \<Rightarrow> window \<Rightarrow> RevertResult \<times> window" where
  "Shutdown S finished w =
     (case Close S w of
        (r, w') \<Rightarrow>
          (if finished then r
           else \<lparr>rr_EndpointResults = [], rr_TimedOut = True, rr_PossiblyStuck = map fst (aw_ours w)\<rparr>, w'))"

section \<open>The command\<close>

definition auditWindowDefaultTTL :: int where "auditWindowDefaultTTL = 30 * 60 * second"

definition window_ttl :: "int \<Rightarrow> int" where
  "window_ttl ttl = (if ttl \<le> 0 then auditWindowDefaultTTL else ttl)"

datatype command_error = OpenFailed open_error | RevertTimedOut nat

text \<open>
  After the checks of the flags: open, wait for the end, shut down; the deferred \<open>Shutdown\<close> runs on
  every way out.  \<open>events\<close> are what the watcher saw before it was drained.
\<close>

definition runAuditWindow ::
  "unit + bool \<Rightarrow> (flip_answers \<times> cilium_endpoint) list option \<Rightarrow> endpoint_event list \<Rightarrow> sweep_answers \<Rightarrow> bool \<Rightarrow> string \<Rightarrow> window
     \<Rightarrow> command_error option \<times> window" where
  "runAuditWindow precondition listed events S finished ns w =
     (case Open precondition listed ns w of
        (Some e, w1) \<Rightarrow> (Some (OpenFailed e), snd (Shutdown S finished w1))
      | (None, w1) \<Rightarrow>
          (case Shutdown S finished (consumeWatch events w1) of
             (r, w2) \<Rightarrow>
               (if rr_TimedOut r then Some (RevertTimedOut (length (rr_PossiblyStuck r))) else None,
                snd (Shutdown S finished w2))))"

section \<open>What the window owns\<close>

text \<open>
  No drift: an endpoint keeps its node and number while the window is open, and two endpoints are
  at different places.
\<close>

definition settled :: "(string \<Rightarrow> string \<times> int) \<Rightarrow> cilium_endpoint \<Rightarrow> bool" where
  "settled place ep \<longleftrightarrow> (case ce_NodeIP ep of None \<Rightarrow> True | Some nodeIP \<Rightarrow> place (ce_UID ep) = (nodeIP, ce_ID ep))"

fun event_flip :: "endpoint_event \<Rightarrow> (flip_answers \<times> cilium_endpoint) list" where
  "event_flip (EndpointAdded A ep) = [(A, ep)]"
| "event_flip (EndpointModified A ep) = [(A, ep)]"
| "event_flip EndpointOther = []"

lemma consumeWatch_flips: "consumeWatch evs w = flip_all (concat (map event_flip evs)) w"
  by (induction evs w rule: consumeWatch.induct) (simp_all add: flip_all_def)

lemma flip_all_append: "flip_all (xs @ ys) w = flip_all ys (flip_all xs w)"
  by (simp add: flip_all_def)

definition owns_inv :: "(string \<Rightarrow> string \<times> int) \<Rightarrow> agents \<Rightarrow> window \<Rightarrow> bool" where
  "owns_inv place g0 w \<longleftrightarrow>
     distinct (map fst (aw_ours w))
     \<and> (\<forall>(uid, rec) \<in> set (aw_ours w). er_uid rec = uid \<and> place uid = (er_nodeIP rec, er_currentID rec) \<and> \<not> g0 (place uid)
          \<and> aw_agents w (place uid))
     \<and> (\<forall>x. g0 x \<longrightarrow> aw_agents w x)"

definition untouched :: "(string \<Rightarrow> string \<times> int) \<Rightarrow> agents \<Rightarrow> window \<Rightarrow> bool" where
  "untouched place g0 w \<longleftrightarrow> (\<forall>x. x \<notin> place ` fst ` set (aw_ours w) \<longrightarrow> aw_agents w x = g0 x)"

lemma flip_owns:
  assumes "inj place" and "settled place ep" and "owns_inv place g0 w"
  shows "owns_inv place g0 (flipIfNeeded A ep w)"
    and "fa_set A \<noteq> SetLost \<Longrightarrow> untouched place g0 w \<Longrightarrow> untouched place g0 (flipIfNeeded A ep w)"
  using assms
  by (cases "fa_set A"; auto simp: flipIfNeeded_def Let_def setFn_def settled_def owns_inv_def untouched_def inj_eq split: option.splits)+

lemma flip_all_owns:
  assumes "inj place" and "list_all (\<lambda>(A, ep). settled place ep) eps" and "owns_inv place g0 w"
  shows "owns_inv place g0 (flip_all eps w)
    \<and> (list_all (\<lambda>(A, ep). fa_set A \<noteq> SetLost) eps \<and> untouched place g0 w \<longrightarrow> untouched place g0 (flip_all eps w))"
  using assms(2,3)
proof (induction eps arbitrary: w)
  case (Cons e eps)
  obtain A ep where e: "e = (A, ep)" by (cases e)
  have "settled place ep" using Cons.prems(1) by (simp add: e)
  note f = flip_owns [OF assms(1) this Cons.prems(2), of A]
  from Cons.IH [OF _ f(1)] Cons.prems(1) f(2) show ?case by (auto simp: e flip_all_def)
qed (simp add: flip_all_def)

section \<open>The sweep\<close>

text \<open>The place a record is reverted at.\<close>

definition revert_place :: "sweep_answers \<Rightarrow> endpointRecord \<Rightarrow> string \<times> int" where
  "revert_place S rec = (er_nodeIP rec, revert_id S rec)"

lemma revert_one_eq:
  "revert_one S rec (g, results) =
     ((if sw_set S (er_uid rec) = SetRefused then g else g(revert_place S rec := False)),
      aput (er_uid rec) (sw_set S (er_uid rec) \<noteq> SetDone) results)"
  by (simp add: revert_one_def setFn_def revert_place_def)

lemma sweep_fold:
  "fst (fold (revert_one S) recs (g, results)) =
     (\<lambda>x. if \<exists>rec \<in> set recs. sw_set S (er_uid rec) \<noteq> SetRefused \<and> revert_place S rec = x then False else g x)
   \<and> fst ` set (snd (fold (revert_one S) recs (g, results))) = er_uid ` set recs \<union> fst ` set results
   \<and> map_of (snd (fold (revert_one S) recs (g, results)))
       = (\<lambda>uid. if uid \<in> er_uid ` set recs then Some (sw_set S uid \<noteq> SetDone) else map_of results uid)"
proof (induction recs arbitrary: g results)
  case (Cons rec recs)
  show ?case
    unfolding fold.simps comp_apply revert_one_eq using Cons.IH
    by (auto simp: fun_eq_iff fst_set_upsert map_of_upsert)
qed auto

lemma sweep_eq:
  "fst (sweep S recs g) = (\<lambda>x. if \<exists>rec \<in> set recs. sw_set S (er_uid rec) \<noteq> SetRefused \<and> revert_place S rec = x then False else g x)"
  "fst ` set (snd (sweep S recs g)) = er_uid ` set recs"
  "map_of (snd (sweep S recs g)) uid = (if uid \<in> er_uid ` set recs then Some (sw_set S uid \<noteq> SetDone) else None)"
  using sweep_fold [of S recs g "[]"] by (simp_all add: sweep_def)

text \<open>The order of the sweep does not matter: the goroutines that revert the endpoints run concurrently, and in
  whatever order their calls happen the agents end in the same modes and every endpoint has the same
  result.\<close>

theorem sweep_order:
  assumes "set recs' = set recs"
  shows "fst (sweep S recs' g) = fst (sweep S recs g) \<and> map_of (snd (sweep S recs' g)) = map_of (snd (sweep S recs g))"
  by (simp add: sweep_eq assms fun_eq_iff)

definition demo_record :: "string \<Rightarrow> int \<Rightarrow> endpointRecord" where
  "demo_record uid n = \<lparr>er_uid = uid, er_nodeIP = ''10.0.0.1'', er_currentID = n\<rparr>"

definition demo_sweep :: sweep_answers where
  "demo_sweep = \<lparr>sw_listed = (\<lambda>_. None), sw_set = (\<lambda>uid. if uid = ''b'' then SetRefused else SetDone)\<rparr>"

theorem sweep_order_witness:
  "map_of (snd (sweep demo_sweep [demo_record ''b'' 2, demo_record ''a'' 1] (\<lambda>_. True)))
     = map_of (snd (sweep demo_sweep [demo_record ''a'' 1, demo_record ''b'' 2] (\<lambda>_. True)))"
  using sweep_order [of "[demo_record ''b'' 2, demo_record ''a'' 1]" "[demo_record ''a'' 1, demo_record ''b'' 2]" demo_sweep "\<lambda>_. True"]
  by (simp add: insert_commute)

lemma Close_agents:
  "aw_closeResult w = None \<Longrightarrow> aw_agents (snd (Close S w)) = fst (sweep S (map snd (aw_ours w)) (aw_agents w))"
  "\<exists>r. aw_closeResult (snd (Close S w)) = Some r"
  by (auto simp: Close_def Let_def split: prod.splits option.splits)

lemma Shutdown_state: "snd (Shutdown S finished w) = snd (Close S w)"
  by (simp add: Shutdown_def split: prod.splits)

lemma Close_again: "Close S (snd (Close S' w)) = (fst (Close S' w), snd (Close S' w))"
  by (auto simp: Close_def Let_def split: prod.splits option.splits)

lemma flipIfNeeded_closeResult: "aw_closeResult (flipIfNeeded A ep w) = aw_closeResult w"
  by (simp add: flipIfNeeded_def Let_def split: option.splits prod.splits)

lemma flip_all_closeResult: "aw_closeResult (flip_all eps w) = aw_closeResult w"
  by (induction eps arbitrary: w) (auto simp: flip_all_def flipIfNeeded_closeResult)

lemma runAuditWindow_agents:
  assumes "aw_closeResult w = None"
  shows "aw_agents (snd (runAuditWindow pre (Some eps) events S finished ns w)) =
    (if pre = Inr True then fst (sweep S (map snd (aw_ours w)) (aw_agents w))
     else let w' = flip_all (concat (map event_flip events)) (flip_all eps (w\<lparr>aw_ns := ns\<rparr>))
          in fst (sweep S (map snd (aw_ours w')) (aw_agents w')))"
proof (cases "pre = Inr True")
  case True
  then show ?thesis by (simp add: runAuditWindow_def Open_def Shutdown_state Close_agents(1) assms)
next
  case False
  have c: "aw_closeResult (flip_all (concat (map event_flip events)) (flip_all eps (w\<lparr>aw_ns := ns\<rparr>))) = None"
    by (simp add: flip_all_closeResult assms)
  obtain r w2 where s: "Shutdown S finished (consumeWatch events (flip_all eps (w\<lparr>aw_ns := ns\<rparr>))) = (r, w2)"
    by (metis surj_pair)
  have w2: "w2 = snd (Close S (consumeWatch events (flip_all eps (w\<lparr>aw_ns := ns\<rparr>))))" using s by (metis Shutdown_state snd_conv)
  show ?thesis using False s
    by (simp add: runAuditWindow_def Open_def Let_def Shutdown_state w2 Close_again Close_agents(1) [OF c] consumeWatch_flips)
qed

lemma revert_place_settled:
  assumes "owns_inv place g w" and "rec \<in> set (map snd (aw_ours w))"
    and "\<And>uid eps ep. sw_listed S uid = Some eps \<Longrightarrow> ep \<in> set eps \<Longrightarrow> ce_ID ep = snd (place (ce_UID ep))"
  shows "revert_place S rec = place (er_uid rec)" and "\<not> g (place (er_uid rec))"
proof -
  have p: "place (er_uid rec) = (er_nodeIP rec, er_currentID rec)" using assms(1,2) by (force simp: owns_inv_def)
  have "revert_id S rec = er_currentID rec"
    using assms(3) [of "er_uid rec"] p
    by (auto simp: revert_id_def defaultResolveCurrentID_def find_Some_iff split: option.splits)
  with p show "revert_place S rec = place (er_uid rec)" by (simp add: revert_place_def)
  show "\<not> g (place (er_uid rec))" using assms(1,2) by (force simp: owns_inv_def)
qed

lemma new_window_empty: "aw_closeResult (new_window g) = None" "aw_ours (new_window g) = []" "aw_agents (new_window g) = g"
  by (simp_all add: new_window_def)

text \<open>
  The moments of a window: the modes of the agents after each prefix of its flips, those of the opening
  and then those of the watch, and after each prefix of its sweep, whose calls happen in the order that
  \<open>arrange\<close> gives them.
\<close>

definition window_flips ::
  "unit + bool \<Rightarrow> (flip_answers \<times> cilium_endpoint) list \<Rightarrow> endpoint_event list \<Rightarrow> (flip_answers \<times> cilium_endpoint) list" where
  "window_flips pre eps events = (if pre = Inr True then [] else eps @ concat (map event_flip events))"

definition window_moments ::
  "unit + bool \<Rightarrow> (flip_answers \<times> cilium_endpoint) list \<Rightarrow> endpoint_event list \<Rightarrow> sweep_answers
     \<Rightarrow> (endpointRecord list \<Rightarrow> endpointRecord list) \<Rightarrow> window \<Rightarrow> agents list" where
  "window_moments pre eps events S arrange w =
     (let flips = window_flips pre eps events; w' = flip_all flips w; recs = arrange (map snd (aw_ours w'))
      in map (\<lambda>n. aw_agents (flip_all (take n flips) w)) [0..<Suc (length flips)]
         @ map (\<lambda>n. fst (sweep S (take n recs) (aw_agents w'))) [0..<Suc (length recs)])"

lemma flip_all_ns: "aw_agents (flip_all eps (w\<lparr>aw_ns := ns\<rparr>)) = aw_agents (flip_all eps w) \<and> aw_ours (flip_all eps (w\<lparr>aw_ns := ns\<rparr>)) = aw_ours (flip_all eps w)"
proof -
  have f: "flipIfNeeded A ep (v\<lparr>aw_ns := ns\<rparr>) = (flipIfNeeded A ep v)\<lparr>aw_ns := ns\<rparr>" for A ep v
    by (simp add: flipIfNeeded_def Let_def split: option.split prod.split)
  have "flip_all eps (v\<lparr>aw_ns := ns\<rparr>) = (flip_all eps v)\<lparr>aw_ns := ns\<rparr>" for v
    by (induction eps arbitrary: v) (auto simp: flip_all_def f)
  then show ?thesis by simp
qed

lemma last_moment:
  assumes "aw_closeResult w = None" and "\<And>rs. set (arrange rs) = set rs"
  shows "last (window_moments pre eps events S arrange w) = aw_agents (snd (runAuditWindow pre (Some eps) events S finished ns w))"
proof -
  let ?w = "flip_all (window_flips pre eps events) w"
  have "last (window_moments pre eps events S arrange w) = fst (sweep S (arrange (map snd (aw_ours ?w))) (aw_agents ?w))"
    by (simp add: window_moments_def Let_def)
  also have "\<dots> = fst (sweep S (map snd (aw_ours ?w)) (aw_agents ?w))" using assms(2) by (simp add: sweep_eq)
  also have "\<dots> = aw_agents (snd (runAuditWindow pre (Some eps) events S finished ns w))"
    by (cases "pre = Inr True")
      (simp_all add: runAuditWindow_agents [OF assms(1)] window_flips_def flip_all_ns Let_def flip_all_def [of "[]"] flip: flip_all_append)
  finally show ?thesis .
qed

lemma sweep_keeps:
  assumes "owns_inv place g w" and "set recs \<subseteq> set (map snd (aw_ours w))" and "g x"
    and "\<And>uid eps ep. sw_listed S uid = Some eps \<Longrightarrow> ep \<in> set eps \<Longrightarrow> ce_ID ep = snd (place (ce_UID ep))"
  shows "fst (sweep S recs (aw_agents w)) x"
proof -
  have "revert_place S rec \<noteq> x" if "rec \<in> set recs" for rec
    using revert_place_settled [where S = S and rec = rec, OF assms(1)] that assms(2-4) by (metis subsetD)
  moreover have "aw_agents w x" using assms(1,3) unfolding owns_inv_def by blast
  ultimately show ?thesis by (auto simp: sweep_eq)
qed

text \<open>C26: A window only undoes what it did: an endpoint that was in audit mode before the window is in audit mode at
  every moment of it, after each flip of the opening and of the watch and after each revert of the sweep,
  in whatever order the sweep's calls happen, and after it, the last of these moments being the state the
  command leaves; whatever the agents answer, calls whose answers are lost and reverts that fail included, as
  long as endpoints keep their places and the watcher is drained before the sweep.\<close>

theorem audit_window_preserves:
  assumes "inj place" and "list_all (\<lambda>(A, ep). settled place ep) eps"
    and "list_all (\<lambda>e. list_all (\<lambda>(A, ep). settled place ep) (event_flip e)) events"
    and "\<And>uid eps ep. sw_listed S uid = Some eps \<Longrightarrow> ep \<in> set eps \<Longrightarrow> ce_ID ep = snd (place (ce_UID ep))"
    and "\<And>rs. set (arrange rs) = set rs" and "g x"
  shows "(\<forall>h \<in> set (window_moments pre eps events S arrange (new_window g)). h x)
    \<and> last (window_moments pre eps events S arrange (new_window g))
        = aw_agents (snd (runAuditWindow pre (Some eps) events S finished ns (new_window g)))"
proof
  let ?f = "window_flips pre eps events"
  have o0: "owns_inv place g (new_window g)" by (simp add: owns_inv_def new_window_def)
  have fl: "list_all (\<lambda>(A, ep). settled place ep) ?f" using assms(2,3) by (auto simp: window_flips_def list_all_iff)
  have ow: "owns_inv place g (flip_all (take n ?f) (new_window g))" for n
  proof -
    have "list_all (\<lambda>(A, ep). settled place ep) (take n ?f)" using fl by (meson list_all_iff in_set_takeD)
    with flip_all_owns [OF assms(1) _ o0] show ?thesis by blast
  qed
  have open_x: "aw_agents (flip_all (take n ?f) (new_window g)) x" for n
    using ow [of n] assms(6) unfolding owns_inv_def by blast
  have "fst (sweep S (take n (arrange (map snd (aw_ours (flip_all ?f (new_window g)))))) (aw_agents (flip_all ?f (new_window g)))) x" for n
    using ow [of "length ?f"] assms(5) [of "map snd (aw_ours (flip_all ?f (new_window g)))"] assms(4,6)
    by (intro sweep_keeps [where place = place and g = g]) (auto dest: in_set_takeD)
  with open_x show "\<forall>h \<in> set (window_moments pre eps events S arrange (new_window g)). h x"
    unfolding window_moments_def Let_def by (auto simp del: upt_Suc)
  show "last (window_moments pre eps events S arrange (new_window g))
        = aw_agents (snd (runAuditWindow pre (Some eps) events S finished ns (new_window g)))"
    by (rule last_moment [OF new_window_empty(1) assms(5)])
qed

definition demo_endpoint :: "string \<Rightarrow> int \<Rightarrow> cilium_endpoint" where
  "demo_endpoint uid n = \<lparr>ce_UID = uid, ce_NodeIP = Some ''10.0.0.1'', ce_ID = n\<rparr>"

definition demo_answers :: "set_outcome \<Rightarrow> flip_answers" where
  "demo_answers out = \<lparr>fa_read_fails = False, fa_set = out\<rparr>"

text \<open>Places for the endpoints of the examples.\<close>

definition wit_place :: "string \<Rightarrow> string \<times> int" where
  "wit_place uid = (''10.0.0.1'', if uid = ''a'' then 1 else if uid = ''b'' then 2 else 3 + int (to_nat uid))"

lemma inj_wit_place: "inj wit_place"
  by (auto simp: inj_def wit_place_def split: if_splits)

theorem audit_window_preserves_witness:
  "list_all (\<lambda>h. h (''10.0.0.1'', 2))
     (window_moments (Inr False) [(demo_answers SetDone, demo_endpoint ''a'' 1), (demo_answers SetLost, demo_endpoint ''b'' 2)]
       [] demo_sweep rev (new_window (\<lambda>x. x = (''10.0.0.1'', 2))))"
  unfolding list_all_iff
  by (rule conjunct1 [OF audit_window_preserves [OF inj_wit_place]])
     (simp_all add: settled_def demo_endpoint_def wit_place_def demo_sweep_def)

section \<open>What the window leaves behind\<close>

lemma flip_all_untouched:
  assumes "inj place" and "list_all (\<lambda>(A, ep). settled place ep \<and> fa_set A \<noteq> SetLost) eps"
    and "owns_inv place g0 w" and "untouched place g0 w"
  shows "owns_inv place g0 (flip_all eps w)" and "untouched place g0 (flip_all eps w)"
proof -
  have "list_all (\<lambda>(A, ep). settled place ep) eps" "list_all (\<lambda>(A, ep). fa_set A \<noteq> SetLost) eps"
    using assms(2) by (auto simp: list_all_iff)
  with flip_all_owns [OF assms(1) _ assms(3)] assms(4)
  show "owns_inv place g0 (flip_all eps w)" and "untouched place g0 (flip_all eps w)" by blast+
qed

text \<open>C25: A window that goes well leaves no trace: when endpoints keep their places, no answer of a set call is lost
  and every revert is carried out, then after the window every agent is in the mode it was in before,
  whatever endpoints came up while it was open, whichever reads or flips failed, and whether or not the sweep
  ended before the deadline of the command.\<close>

theorem audit_window_restores:
  assumes "inj place" and "list_all (\<lambda>(A, ep). settled place ep \<and> fa_set A \<noteq> SetLost) eps"
    and "list_all (\<lambda>e. list_all (\<lambda>(A, ep). settled place ep \<and> fa_set A \<noteq> SetLost) (event_flip e)) events"
    and "\<And>uid eps ep. sw_listed S uid = Some eps \<Longrightarrow> ep \<in> set eps \<Longrightarrow> ce_ID ep = snd (place (ce_UID ep))"
    and "\<And>uid. sw_set S uid = SetDone"
  shows "aw_agents (snd (runAuditWindow pre (Some eps) events S finished ns (new_window g))) = g"
proof -
  let ?start = "(new_window g)\<lparr>aw_ns := ns\<rparr>"
  let ?w = "flip_all (concat (map event_flip events)) (flip_all eps ?start)"
  have o0: "owns_inv place g ?start" "untouched place g ?start" by (simp_all add: owns_inv_def untouched_def new_window_def)
  have evs: "list_all (\<lambda>(A, ep). settled place ep \<and> fa_set A \<noteq> SetLost) (concat (map event_flip events))"
    using assms(3) by (auto simp: list_all_iff)
  note o1 = flip_all_untouched [OF assms(1,2) o0]
  note ow = flip_all_untouched [OF assms(1) evs o1]
  have places: "revert_place S rec = place (er_uid rec)" "\<not> g (place (er_uid rec))"
    if "rec \<in> set (map snd (aw_ours ?w))" for rec
    using revert_place_settled [where S = S, OF ow(1) that] assms(4) by blast+
  have swept: "fst (sweep S (map snd (aw_ours ?w)) (aw_agents ?w)) x = g x" for x
  proof (cases "\<exists>rec \<in> set (map snd (aw_ours ?w)). revert_place S rec = x")
    case True
    then obtain rec where r: "rec \<in> set (map snd (aw_ours ?w))" "revert_place S rec = x" ..
    then have "\<not> g x" using places(1) [OF r(1)] places(2) [OF r(1)] by simp
    with True show ?thesis by (simp only: sweep_eq assms(5)) simp
  next
    case False
    have "x \<notin> place ` fst ` set (aw_ours ?w)"
    proof
      assume "x \<in> place ` fst ` set (aw_ours ?w)"
      then obtain uid rec where m: "(uid, rec) \<in> set (aw_ours ?w)" "x = place uid" by auto
      then have "er_uid rec = uid" using ow(1) unfolding owns_inv_def by blast
      moreover have "rec \<in> set (map snd (aw_ours ?w))" using m(1) by force
      ultimately show False using False m(2) places(1) by metis
    qed
    then have "aw_agents ?w x = g x" using ow(2) unfolding untouched_def by blast
    with False show ?thesis by (simp only: sweep_eq) auto
  qed
  from swept have "fst (sweep S (map snd (aw_ours ?w)) (aw_agents ?w)) = g" by (rule ext)
  then show ?thesis by (simp add: runAuditWindow_agents [OF new_window_empty(1)] Let_def new_window_empty sweep_def)
qed

theorem audit_window_restores_witness:
  "aw_agents (snd (runAuditWindow (Inr False)
     (Some [(demo_answers SetDone, demo_endpoint ''a'' 1), (demo_answers SetRefused, demo_endpoint ''b'' 2)])
     [EndpointAdded (demo_answers SetDone) (demo_endpoint ''b'' 2)]
     \<lparr>sw_listed = (\<lambda>_. None), sw_set = (\<lambda>_. SetDone)\<rparr> False ''shop'' (new_window (\<lambda>_. False)))) = (\<lambda>_. False)"
  by (rule audit_window_restores [OF inj_wit_place])
     (simp_all add: settled_def demo_endpoint_def wit_place_def demo_answers_def)

text \<open>The report of a window is complete and stable: a sweep that ends in time names exactly the endpoints the window
  flipped, each with whether its revert failed; one that does not names them all as possibly still in
  audit mode; and a further call of \<open>Close\<close> or \<open>Shutdown\<close> reverts nothing again and returns the
  first report.\<close>

theorem Shutdown_reports:
  assumes "aw_closeResult w = None" and "\<forall>(uid, rec) \<in> set (aw_ours w). er_uid rec = uid"
  shows "(\<forall>uid. map_of (rr_EndpointResults (fst (Shutdown S True w))) uid =
           (if uid \<in> fst ` set (aw_ours w) then Some (sw_set S uid \<noteq> SetDone) else None))
    \<and> rr_PossiblyStuck (fst (Shutdown S False w)) = map fst (aw_ours w)
    \<and> rr_TimedOut (fst (Shutdown S finished w)) = (\<not> finished)
    \<and> Shutdown S' True (snd (Shutdown S finished w)) = (fst (Close S w), snd (Shutdown S finished w))"
proof -
  obtain g results where sw: "sweep S (map snd (aw_ours w)) (aw_agents w) = (g, results)" by (metis surj_pair)
  have "er_uid ` set (map snd (aw_ours w)) = fst ` set (aw_ours w)"
    using assms(2) by (force simp: image_image intro!: image_cong)
  then have "map_of (rr_EndpointResults (fst (Shutdown S True w))) uid =
      (if uid \<in> fst ` set (aw_ours w) then Some (sw_set S uid \<noteq> SetDone) else None)" for uid
    using sweep_eq(3) [of S "map snd (aw_ours w)" "aw_agents w" uid]
    by (simp add: Shutdown_def Close_def assms(1) Let_def sw)
  moreover have "rr_PossiblyStuck (fst (Shutdown S False w)) = map fst (aw_ours w)"
    "rr_TimedOut (fst (Shutdown S finished w)) = (\<not> finished)"
    by (simp_all add: Shutdown_def Close_def assms(1) Let_def split: prod.splits)
  moreover have "Shutdown S' True (snd (Shutdown S finished w)) = (fst (Close S w), snd (Shutdown S finished w))"
    unfolding Shutdown_state by (simp add: Shutdown_def Close_again)
  ultimately show ?thesis by blast
qed

definition demo_window :: window where
  "demo_window = snd (Open (Inr False) (Some [(demo_answers SetDone, demo_endpoint ''a'' 1), (demo_answers SetDone, demo_endpoint ''b'' 2)])
     ''shop'' (new_window (\<lambda>_. False)))"

theorem Shutdown_reports_witness:
  "map_of (rr_EndpointResults (fst (Shutdown demo_sweep True demo_window))) ''b'' = Some True"
proof -
  have "aw_closeResult demo_window = None" "\<forall>(uid, rec) \<in> set (aw_ours demo_window). er_uid rec = uid"
    "''b'' \<in> fst ` set (aw_ours demo_window)"
    by (simp_all add: demo_window_def Open_def flip_all_def flipIfNeeded_def new_window_def setFn_def demo_answers_def demo_endpoint_def Let_def)
  with Shutdown_reports [of demo_window demo_sweep True demo_sweep] show ?thesis by (simp add: demo_sweep_def)
qed

text \<open>
  Why the lost answers are excluded: an endpoint whose set call took effect without an answer is not
  recorded, and stays in audit mode when the window is closed.
\<close>

lemma lost_answer_leaks:
  "aw_agents (snd (runAuditWindow (Inr False) (Some [(demo_answers SetLost, demo_endpoint ''a'' 1)]) []
     \<lparr>sw_listed = (\<lambda>_. None), sw_set = (\<lambda>_. SetDone)\<rparr> True ''shop'' (new_window (\<lambda>_. False)))) (''10.0.0.1'', 1)"
  by (simp add: runAuditWindow_agents new_window_def flip_all_def flipIfNeeded_def setFn_def demo_answers_def demo_endpoint_def
      sweep_def Let_def)

end
