(* ===== verification/Flags.thy ===== *)
theory Flags
  imports Dropclass Aggregator "HOL-Library.Product_Lexorder"
begin

text \<open>
  \<open>cmd/cpg/commonflags.go\<close>: the flags \<open>generate\<close> and \<open>replay\<close> share and their validation, with the edit
  distance behind the suggestions for a misspelt drop reason.
\<close>

section \<open>Runes\<close>

text \<open>
  The conversion \<open>[]rune(s)\<close>: the code points of a UTF-8 string; each byte that is not part of a
  well-formed sequence is the replacement character.
\<close>

definition RuneError :: nat where "RuneError = 0xFFFD"

definition in_range :: "nat \<Rightarrow> nat \<Rightarrow> nat \<Rightarrow> bool" where
  "in_range lo hi b \<longleftrightarrow> lo \<le> b \<and> b \<le> hi"

definition continuation :: "nat \<Rightarrow> bool" where
  "continuation = in_range 0x80 0xBF"

text \<open>The range of the second byte, which excludes overlong forms, surrogates and values above U+10FFFF.\<close>

definition second_byte :: "nat \<Rightarrow> nat \<Rightarrow> bool" where
  "second_byte b0 =
     (if b0 = 0xE0 then in_range 0xA0 0xBF else if b0 = 0xED then in_range 0x80 0x9F
      else if b0 = 0xF0 then in_range 0x90 0xBF else if b0 = 0xF4 then in_range 0x80 0x8F else continuation)"

definition decode_rune :: "nat \<Rightarrow> nat list \<Rightarrow> nat \<times> nat" where
  "decode_rune b0 bs =
     (if b0 < 0x80 then (b0, 1)
      else case bs of
        b1 # bs1 \<Rightarrow>
          (if in_range 0xC2 0xDF b0 \<and> continuation b1 then ((b0 - 0xC0) * 64 + (b1 - 0x80), 2)
           else case bs1 of
             b2 # bs2 \<Rightarrow>
               (if in_range 0xE0 0xEF b0 \<and> second_byte b0 b1 \<and> continuation b2
                then ((b0 - 0xE0) * 4096 + (b1 - 0x80) * 64 + (b2 - 0x80), 3)
                else case bs2 of
                  b3 # _ \<Rightarrow>
                    (if in_range 0xF0 0xF4 b0 \<and> second_byte b0 b1 \<and> continuation b2 \<and> continuation b3
                     then ((b0 - 0xF0) * 262144 + (b1 - 0x80) * 4096 + (b2 - 0x80) * 64 + (b3 - 0x80), 4)
                     else (RuneError, 1))
                | [] \<Rightarrow> (RuneError, 1))
           | [] \<Rightarrow> (RuneError, 1))
      | [] \<Rightarrow> (RuneError, 1))"

function runes_of :: "nat list \<Rightarrow> nat list" where
  "runes_of [] = []"
| "runes_of (b # bs) = (case decode_rune b bs of (r, n) \<Rightarrow> r # runes_of (drop (n - 1) bs))"
  by pat_completeness auto
termination by (relation "measure length") auto

definition runes :: "string \<Rightarrow> nat list" where
  "runes s = runes_of (map of_char s)"

section \<open>Edit distance\<close>

text \<open>One pass of the inner loop: \<open>cur\<close> still holds the row before the previous one.\<close>

definition lev_cell :: "nat list \<Rightarrow> nat \<Rightarrow> nat list \<Rightarrow> nat \<Rightarrow> nat list \<Rightarrow> nat list" where
  "lev_cell br a prev j cur =
     (let cost = (if a = br ! (j - 1) then 0 else 1)
      in cur[j := min (prev ! j + 1) (min (cur ! (j - 1) + 1) (prev ! (j - 1) + cost))])"

definition lev_row :: "nat list \<Rightarrow> nat list \<Rightarrow> nat \<Rightarrow> nat list \<times> nat list \<Rightarrow> nat list \<times> nat list" where
  "lev_row ar br i rows =
     (case rows of (prev, cur) \<Rightarrow>
        (fold (lev_cell br (ar ! (i - 1)) prev) [1..<length br + 1] (cur[0 := i]), prev))"

definition levenshtein :: "string \<Rightarrow> string \<Rightarrow> nat" where
  "levenshtein a b =
     (let ar = runes a; br = runes b; la = length ar; lb = length br
      in if la = 0 then lb
         else if lb = 0 then la
         else fst (fold (lev_row ar br) [1..<la + 1] ([0..<lb + 1], replicate (lb + 1) 0)) ! lb)"

definition suggestClosest :: "string \<Rightarrow> string list \<Rightarrow> nat \<Rightarrow> string list" where
  "suggestClosest input candidates n =
     (let threshold = min 10 (length input div 2 + 2);
          scores = map (\<lambda>c. (levenshtein input c, c)) (filter (\<lambda>c. levenshtein input c \<le> threshold) candidates)
      in map snd (take n (sort scores)))"

section \<open>Validation\<close>

text \<open>
  \<open>strings.ToLower\<close> and \<open>strings.ToUpper\<close>; what they make of a string with a byte above 0x7F comes from
  the tables of package \<open>unicode\<close>.
\<close>

record unicode_case =
  uc_lower :: "string \<Rightarrow> string"
  uc_upper :: "string \<Rightarrow> string"

definition is_ascii :: "string \<Rightarrow> bool" where
  "is_ascii s \<longleftrightarrow> list_all (\<lambda>c. (of_char c :: nat) < 0x80) s"

definition ToLower :: "unicode_case \<Rightarrow> string \<Rightarrow> string" where
  "ToLower U s = (if is_ascii s then to_lower s else uc_lower U s)"

definition ToUpper :: "unicode_case \<Rightarrow> string \<Rightarrow> string" where
  "ToUpper U s = (if is_ascii s then to_upper s else uc_upper U s)"

datatype flag_error =
    UnknownProtocol string
  | UnknownReason string "string list"
  | MinFlowsTooSmall int
  | NamespacesExclusive

primrec validateIgnoreProtocols :: "unicode_case \<Rightarrow> string list \<Rightarrow> flag_error + string list" where
  "validateIgnoreProtocols U [] = Inr []"
| "validateIgnoreProtocols U (raw # rest) =
     (let v = ToLower U raw
      in if v \<notin> set ValidIgnoreProtocols then Inl (UnknownProtocol raw)
         else case validateIgnoreProtocols U rest of Inl e \<Rightarrow> Inl e | Inr out \<Rightarrow> Inr (v # out))"

text \<open>
  \<open>names\<close> are the names of the generated enumeration of drop reasons.  The result comes with the
  redundancy warnings and with the warnings of the classifier.
\<close>

record reason_log =
  rl_redundant :: "(string \<times> DropClass) list"
  rl_unclassified :: "drop_reason list"
  rl_warn :: warn_state

definition redundancy_warning :: "string list \<Rightarrow> bool \<Rightarrow> string \<Rightarrow> reason_log \<Rightarrow> reason_log" where
  "redundancy_warning names withLogger v l =
     (if v \<notin> set names then l
      else case Classify (DropReason v) (rl_warn l) of
             (cls, ws, st) \<Rightarrow>
               l\<lparr>rl_warn := st, rl_unclassified := rl_unclassified l @ ws,
                 rl_redundant := rl_redundant l @
                   (if (cls = DropClassInfra \<or> cls = DropClassTransient) \<and> withLogger then [(v, cls)] else [])\<rparr>)"

primrec validateIgnoreDropReasons ::
  "unicode_case \<Rightarrow> string list \<Rightarrow> bool \<Rightarrow> string list \<Rightarrow> reason_log \<Rightarrow> (flag_error + string list) \<times> reason_log" where
  "validateIgnoreDropReasons U names withLogger [] l = (Inr [], l)"
| "validateIgnoreDropReasons U names withLogger (raw # rest) l =
     (let v = ToUpper U raw
      in if v \<notin> set (ValidReasonNames names)
         then (Inl (UnknownReason raw (suggestClosest v (ValidReasonNames names) 5)), l)
         else case validateIgnoreDropReasons U names withLogger rest (redundancy_warning names withLogger v l) of
                (Inl e, l') \<Rightarrow> (Inl e, l')
              | (Inr out, l') \<Rightarrow> (Inr (v # out), l'))"

record common_flags =
  cf_namespaces :: "string list"
  cf_allNamespaces :: bool
  cf_outputDir :: string
  cf_flushInterval :: int
  cf_clusterDedup :: bool
  cf_dryRun :: bool
  cf_dryRunNoDiff :: bool
  cf_noEvidence :: bool
  cf_evidenceDir :: string
  cf_evidenceSamples :: int
  cf_evidenceSessions :: int
  cf_l7 :: bool
  cf_includeAudit :: bool
  cf_l7CollapsePaths :: bool
  cf_minFlowsPerL7Rule :: int
  cf_ignoreProtocols :: "string list"
  cf_ignoreDropReasons :: "string list"
  cf_failOnInfraDrops :: bool

definition validateCommonFlags :: "unicode_case \<Rightarrow> string list \<Rightarrow> bool \<Rightarrow> common_flags \<Rightarrow> reason_log \<Rightarrow> flag_error option \<times> reason_log" where
  "validateCommonFlags U names withLogger f l =
     (case validateIgnoreProtocols U (cf_ignoreProtocols f) of
        Inl e \<Rightarrow> (Some e, l)
      | Inr _ \<Rightarrow>
          (case validateIgnoreDropReasons U names withLogger (cf_ignoreDropReasons f) l of
             (Inl e, l') \<Rightarrow> (Some e, l')
           | (Inr _, l') \<Rightarrow>
               (if cf_minFlowsPerL7Rule f < 1 then Some (MinFlowsTooSmall (cf_minFlowsPerL7Rule f)) else None, l')))"

section \<open>The distance is the least number of edits\<close>

text \<open>One edit puts in, takes out or replaces one element.\<close>

inductive one_edit :: "'a list \<Rightarrow> 'a list \<Rightarrow> bool" where
  put_in: "one_edit (xs @ ys) (xs @ a # ys)"
| take_out: "one_edit (xs @ a # ys) (xs @ ys)"
| replace: "one_edit (xs @ a # ys) (xs @ b # ys)"

text \<open>The recursive distance, the reference definition of the two-row computation.\<close>

fun edit_distance :: "'a list \<Rightarrow> 'a list \<Rightarrow> nat" where
  "edit_distance [] ys = length ys"
| "edit_distance xs [] = length xs"
| "edit_distance (x # xs) (y # ys) =
     min (edit_distance xs (y # ys) + 1) (min (edit_distance (x # xs) ys + 1)
       (edit_distance xs ys + (if x = y then 0 else 1)))"

lemma edit_distance_Nil2 [simp]: "edit_distance xs [] = length xs"
  by (cases xs) auto

lemma edit_distance_same [simp]: "edit_distance xs xs = 0"
  by (induction xs) auto

lemma edit_distance_drop: "edit_distance (x # xs) ys \<le> edit_distance xs ys + 1"
  by (cases ys) auto

lemma edit_distance_add: "edit_distance xs ys \<le> edit_distance (x # xs) ys + 1"
proof (induction ys)
  case (Cons y ys)
  have "edit_distance xs (y # ys) \<le> edit_distance xs ys + 1"
  proof (induction xs arbitrary: ys)
    case (Cons a as)
    then show ?case by simp
  qed simp
  with Cons show ?case by auto
qed simp

lemma edit_distance_head: "edit_distance (a # xs) ys \<le> edit_distance (b # xs) ys + 1"
proof (induction ys)
  case (Cons y ys)
  have "edit_distance xs ys \<le> edit_distance xs ys" ..
  with Cons show ?case by auto
qed simp

text \<open>An edit further on changes the distance by at most one, too.\<close>

lemma edit_distance_Cons_le:
  assumes "\<And>ys. edit_distance xs ys \<le> edit_distance xs' ys + 1"
  shows "edit_distance (a # xs) ys \<le> edit_distance (a # xs') ys + 1"
proof (induction ys)
  case Nil
  then show ?case using assms [of "[]"] by simp
next
  case (Cons y ys)
  then show ?case using assms [of ys] assms [of "y # ys"] by auto
qed

lemma edit_distance_append_le:
  assumes "\<And>ys. edit_distance xs ys \<le> edit_distance xs' ys + 1"
  shows "edit_distance (us @ xs) ys \<le> edit_distance (us @ xs') ys + 1"
proof (induction us arbitrary: ys)
  case (Cons u us)
  then show ?case by (simp only: append_Cons) (rule edit_distance_Cons_le)
qed (use assms in simp)

lemma edit_distance_edit: "one_edit xs xs' \<Longrightarrow> edit_distance xs ys \<le> edit_distance xs' ys + 1"
proof (induction rule: one_edit.induct)
  case (put_in xs zs a)
  show ?case by (rule edit_distance_append_le) (rule edit_distance_add)
next
  case (take_out xs a zs)
  show ?case by (rule edit_distance_append_le) (rule edit_distance_drop)
next
  case (replace xs a zs b)
  show ?case by (rule edit_distance_append_le) (rule edit_distance_head)
qed

lemma edits_at_least: "(one_edit ^^ n) xs ys \<Longrightarrow> edit_distance xs ys \<le> n"
proof (induction n arbitrary: xs)
  case (Suc n)
  then obtain xs' where s: "one_edit xs xs'" "(one_edit ^^ n) xs' ys" by (blast elim: relpowp_Suc_E2)
  with Suc.IH [OF s(2)] edit_distance_edit [OF s(1), of ys] show ?case by simp
qed simp

lemma edits_Cons: "(one_edit ^^ n) xs ys \<Longrightarrow> (one_edit ^^ n) (a # xs) (a # ys)"
proof (induction n arbitrary: xs)
  case (Suc n)
  then obtain xs' where s: "one_edit xs xs'" "(one_edit ^^ n) xs' ys" by (blast elim: relpowp_Suc_E2)
  have "one_edit (a # xs) (a # xs')" using s(1)
    by cases (use one_edit.intros [of "a # _"] in \<open>auto intro: one_edit.intros [of "a # _", simplified]\<close>)
  with Suc.IH [OF s(2)] show ?case by (meson relpowp_Suc_I2)
qed simp

lemma first_edits:
  "one_edit xs (a # xs)" "one_edit (a # xs) xs" "one_edit (a # xs) (b # xs)"
  using one_edit.intros [of "[]"] by auto

lemma edits_all: "(one_edit ^^ edit_distance xs ys) xs ys"
proof (induction xs ys rule: edit_distance.induct)
  case (1 ys)
  show ?case
  proof (induction ys)
    case (Cons y ys)
    from Cons have "(one_edit ^^ length ys) [] ys" by simp
    from relpowp_Suc_I [OF this first_edits(1)] show ?case by simp
  qed simp
next
  case (2 x xs)
  have "(one_edit ^^ length zs) zs []" for zs
  proof (induction zs)
    case (Cons z zs)
    from relpowp_Suc_I2 [OF first_edits(2) Cons] show ?case by simp
  qed simp
  from this [of "x # xs"] show ?case by (simp only: edit_distance_Nil2)
next
  case (3 x xs y ys)
  have a: "(one_edit ^^ (edit_distance xs (y # ys) + 1)) (x # xs) (y # ys)"
    using relpowp_Suc_I2 [OF first_edits(2) "3.IH"(1)] by simp
  have b: "(one_edit ^^ (edit_distance (x # xs) ys + 1)) (x # xs) (y # ys)"
    using relpowp_Suc_I [OF "3.IH"(2) first_edits(1)] by simp
  have c: "(one_edit ^^ (edit_distance xs ys + (if x = y then 0 else 1))) (x # xs) (y # ys)"
  proof (cases "x = y")
    case True
    then show ?thesis using edits_Cons [OF "3.IH"(3), of y] by simp
  next
    case False
    then show ?thesis using relpowp_Suc_I2 [OF first_edits(3) edits_Cons [OF "3.IH"(3)]] by simp
  qed
  from a b c show ?case by (simp add: min_def)
qed

lemma edit_distance_rev: "edit_distance (rev xs) (rev ys) = edit_distance xs ys"
proof -
  have r: "one_edit (rev us) (rev vs)" if "one_edit us vs" for us vs :: "'a list"
    using that by cases (auto intro: one_edit.intros)
  have rn: "(one_edit ^^ n) (rev us) (rev vs)" if "(one_edit ^^ n) us vs" for n and us vs :: "'a list"
    using that
  proof (induction n arbitrary: us)
    case (Suc n)
    then obtain us' where s: "one_edit us us'" "(one_edit ^^ n) us' vs" by (blast elim: relpowp_Suc_E2)
    from relpowp_Suc_I2 [OF r [OF s(1)] Suc.IH [OF s(2)]] show ?case .
  qed simp
  have "edit_distance (rev us) (rev vs) \<le> edit_distance us vs" for us vs :: "'a list"
    by (rule edits_at_least [OF rn [OF edits_all]])
  from this [of xs ys] this [of "rev xs" "rev ys"] show ?thesis by simp
qed

section \<open>The two rows compute the distance\<close>

text \<open>The distance of two prefixes, and its recurrence at their ends.\<close>

abbreviation prefix_distance :: "'a list \<Rightarrow> 'a list \<Rightarrow> nat \<Rightarrow> nat \<Rightarrow> nat" where
  "prefix_distance ar br i j \<equiv> edit_distance (rev (take i ar)) (rev (take j br))"

lemma prefix_distance_step:
  assumes "0 < i" "i \<le> length ar" "0 < j" "j \<le> length br"
  shows "prefix_distance ar br i j =
    min (prefix_distance ar br (i - 1) j + 1) (min (prefix_distance ar br i (j - 1) + 1)
      (prefix_distance ar br (i - 1) (j - 1) + (if ar ! (i - 1) = br ! (j - 1) then 0 else 1)))"
proof -
  have "rev (take i ar) = ar ! (i - 1) # rev (take (i - 1) ar)" "rev (take j br) = br ! (j - 1) # rev (take (j - 1) br)"
    using assms take_Suc_conv_app_nth [of "i - 1" ar] take_Suc_conv_app_nth [of "j - 1" br] by simp_all
  then show ?thesis by simp
qed

lemma lev_cells:
  assumes "length prev = length br + 1" "length cur = length br + 1"
    and "\<And>j. j \<le> length br \<Longrightarrow> prev ! j = prefix_distance ar br (i - 1) j" and "0 < i" "i \<le> length ar"
    and "k \<le> length br"
  shows "length (fold (lev_cell br (ar ! (i - 1)) prev) [1..<k + 1] (cur[0 := i])) = length br + 1
    \<and> (\<forall>j \<le> k. fold (lev_cell br (ar ! (i - 1)) prev) [1..<k + 1] (cur[0 := i]) ! j = prefix_distance ar br i j)"
  using assms(6)
proof (induction k)
  case 0
  then show ?case using assms by simp
next
  case (Suc k)
  define row where "row = fold (lev_cell br (ar ! (i - 1)) prev) [1..<k + 1] (cur[0 := i])"
  have ih: "length row = length br + 1" "\<And>j. j \<le> k \<Longrightarrow> row ! j = prefix_distance ar br i j"
    using Suc by (auto simp: row_def)
  have f: "fold (lev_cell br (ar ! (i - 1)) prev) [1..<Suc k + 1] (cur[0 := i]) = lev_cell br (ar ! (i - 1)) prev (Suc k) row"
    by (simp add: row_def)
  have "prefix_distance ar br i (Suc k) = min (prev ! Suc k + 1) (min (row ! k + 1)
      (prev ! k + (if ar ! (i - 1) = br ! k then 0 else 1)))"
    using prefix_distance_step [of i ar "Suc k" br] assms(3) [of k] assms(3) [of "Suc k"] ih(2) [of k] assms(4,5) Suc.prems
    by simp
  then have c: "lev_cell br (ar ! (i - 1)) prev (Suc k) row = row[Suc k := prefix_distance ar br i (Suc k)]"
    by (simp add: lev_cell_def Let_def)
  show ?case
    unfolding f c using ih Suc.prems by (auto simp: nth_list_update le_Suc_eq simp del: take_Suc)
qed

lemma lev_rows:
  assumes "k \<le> length ar"
  shows "case fold (lev_row ar br) [1..<k + 1] ([0..<length br + 1], replicate (length br + 1) 0) of (prev, cur) \<Rightarrow>
    length prev = length br + 1 \<and> length cur = length br + 1 \<and> (\<forall>j \<le> length br. prev ! j = prefix_distance ar br k j)"
  using assms
proof (induction k)
  case 0
  then show ?case by (simp del: upt_Suc)
next
  case (Suc k)
  obtain prev cur where r: "fold (lev_row ar br) [1..<k + 1] ([0..<length br + 1], replicate (length br + 1) 0) = (prev, cur)"
    by (metis surj_pair)
  have ih: "length prev = length br + 1" "length cur = length br + 1" "\<And>j. j \<le> length br \<Longrightarrow> prev ! j = prefix_distance ar br (Suc k - 1) j"
    using Suc r by (auto simp del: upt_Suc)
  let ?new = "fold (lev_cell br (ar ! (Suc k - 1)) prev) [1..<length br + 1] (cur[0 := Suc k])"
  have f: "fold (lev_row ar br) [1..<Suc k + 1] ([0..<length br + 1], replicate (length br + 1) 0) = (?new, prev)"
    using r by (simp add: lev_row_def)
  have "length ?new = length br + 1 \<and> (\<forall>j \<le> length br. ?new ! j = prefix_distance ar br (Suc k) j)"
    by (rule lev_cells [OF ih]) (use Suc.prems in simp_all)
  then show ?case unfolding f using ih(1) by simp
qed

lemma levenshtein_edit_distance: "levenshtein a b = edit_distance (runes a) (runes b)"
proof -
  let ?ar = "runes a" and ?br = "runes b"
  show ?thesis
  proof (cases "?ar = [] \<or> ?br = []")
    case True
    then show ?thesis by (auto simp: levenshtein_def Let_def)
  next
    case False
    then have "levenshtein a b = fst (fold (lev_row ?ar ?br) [1..<length ?ar + 1] ([0..<length ?br + 1], replicate (length ?br + 1) 0)) ! length ?br"
      by (simp add: levenshtein_def Let_def del: upt_Suc)
    also have "\<dots> = edit_distance ?ar ?br"
      using lev_rows [of "length ?ar" ?ar ?br] by (auto simp: edit_distance_rev simp del: upt_Suc split: prod.splits)
    finally show ?thesis .
  qed
qed

text \<open>C24: The two-row computation of the edit distance is right: \<open>levenshtein a b\<close> edits of one code point each turn
  \<open>a\<close> into \<open>b\<close>, and no smaller number does.\<close>

theorem levenshtein_least:
  "(one_edit ^^ levenshtein a b) (runes a) (runes b) \<and> \<not> (\<exists>n < levenshtein a b. (one_edit ^^ n) (runes a) (runes b))"
  unfolding levenshtein_edit_distance using edits_all [of "runes a" "runes b"] edits_at_least [of _ "runes a" "runes b"]
  by (auto simp: not_le [symmetric])

section \<open>Suggestions\<close>

text \<open>
  Suggestions are candidates within the threshold, at most \<open>n\<close> of them, nearest first, and a
  candidate within the threshold that is left out is no nearer than any that is suggested.
\<close>

lemma suggestClosest_nearest:
  assumes "s \<in> set (suggestClosest input candidates n)"
  shows "s \<in> set candidates" and "levenshtein input s \<le> min 10 (length input div 2 + 2)"
    and "c \<in> set candidates \<Longrightarrow> levenshtein input c \<le> min 10 (length input div 2 + 2) \<Longrightarrow>
      c \<notin> set (suggestClosest input candidates n) \<Longrightarrow> levenshtein input s \<le> levenshtein input c"
proof -
  define scores where "scores = sort (map (\<lambda>c. (levenshtein input c, c))
      (filter (\<lambda>c. levenshtein input c \<le> min 10 (length input div 2 + 2)) candidates))"
  have sug: "suggestClosest input candidates n = map snd (take n scores)"
    by (simp add: suggestClosest_def scores_def Let_def)
  have mem: "(d, c) \<in> set scores \<longleftrightarrow> d = levenshtein input c \<and> c \<in> set candidates \<and> d \<le> min 10 (length input div 2 + 2)" for d c
    by (auto simp: scores_def)
  obtain d where d: "(d, s) \<in> set (take n scores)" using assms by (auto simp: sug)
  then have ds: "(d, s) \<in> set scores" by (meson in_set_takeD)
  then show "s \<in> set candidates" and "levenshtein input s \<le> min 10 (length input div 2 + 2)" by (simp_all add: mem)
  assume c: "c \<in> set candidates" "levenshtein input c \<le> min 10 (length input div 2 + 2)"
    "c \<notin> set (suggestClosest input candidates n)"
  then have "(levenshtein input c, c) \<in> set scores" by (simp add: mem)
  moreover have "(levenshtein input c, c) \<notin> set (take n scores)" using c(3) by (force simp: sug)
  ultimately have "(levenshtein input c, c) \<in> set (drop n scores)"
    by (metis Un_iff append_take_drop_id set_append)
  moreover have "sorted (take n scores @ drop n scores)" by (simp add: scores_def)
  ultimately have "(d, s) \<le> (levenshtein input c, c)" using d unfolding sorted_append by blast
  then show "levenshtein input s \<le> levenshtein input c" using ds by (auto simp: less_eq_prod_def mem)
qed

section \<open>Validated values\<close>

lemma validIgnoreProtocols_lower:
  assumes "v \<in> set ValidIgnoreProtocols" shows "ToLower U v = v"
proof -
  have "v \<in> set validIgnoreProtocols" using assms by (simp add: ValidIgnoreProtocols_def)
  then show ?thesis
    by (auto simp: validIgnoreProtocols_def ToLower_def is_ascii_def to_lower_def lower_char_def)
qed

lemma validateIgnoreProtocols_valid: "validateIgnoreProtocols U raws = Inr out \<Longrightarrow> set out \<subseteq> set ValidIgnoreProtocols"
  by (induction raws arbitrary: out) (auto simp: Let_def split: if_splits sum.splits)

text \<open>The flags are validated twice, before the command and in it: the second pass changes nothing.\<close>

lemma validateIgnoreProtocols_again:
  "set out \<subseteq> set ValidIgnoreProtocols \<Longrightarrow> validateIgnoreProtocols U out = Inr out"
  by (induction out) (simp_all add: validIgnoreProtocols_lower Let_def)

lemma validateIgnoreDropReasons_valid:
  "fst (validateIgnoreDropReasons U names b raws l) = Inr out \<Longrightarrow> set out \<subseteq> set names \<and> out = map (ToUpper U) raws"
proof (induction raws arbitrary: l out)
  case (Cons raw rest)
  obtain r l' where r: "validateIgnoreDropReasons U names b rest (redundancy_warning names b (ToUpper U raw) l) = (r, l')"
    by (metis surj_pair)
  from Cons.IH [of "redundancy_warning names b (ToUpper U raw) l"] Cons.prems show ?case
    by (auto simp: Let_def ValidReasonNames_def r image_subset_iff split: if_splits sum.splits)
qed simp

lemma validateIgnoreDropReasons_result:
  "fst (validateIgnoreDropReasons U names b raws l) = fst (validateIgnoreDropReasons U names b' raws l')"
proof (induction raws arbitrary: l l')
  case (Cons raw rest)
  show ?case
    using Cons [of "redundancy_warning names b (ToUpper U raw) l" "redundancy_warning names b' (ToUpper U raw) l'"]
    by (auto simp: Let_def split: prod.splits sum.splits)
qed simp

text \<open>What the flags are turned into: when the shared flags pass their check before the command, the command's
  own pass accepts them too, whatever was logged in between; the protocols it filters by are among the
  valid ones and pass once more unchanged, the drop reasons are the upper-cased arguments and names of
  the enumeration, and the confidence gate is at least one.\<close>

theorem validated_flags:
  assumes "fst (validateCommonFlags U names withLogger f l) = None"
  shows "\<exists>protocols reasons. validateIgnoreProtocols U (cf_ignoreProtocols f) = Inr protocols
    \<and> fst (validateIgnoreDropReasons U names False (cf_ignoreDropReasons f) l') = Inr reasons
    \<and> set protocols \<subseteq> set ValidIgnoreProtocols \<and> validateIgnoreProtocols U protocols = Inr protocols
    \<and> reasons = map (ToUpper U) (cf_ignoreDropReasons f) \<and> set reasons \<subseteq> set names \<and> 1 \<le> cf_minFlowsPerL7Rule f"
proof -
  obtain protocols where p: "validateIgnoreProtocols U (cf_ignoreProtocols f) = Inr protocols"
    using assms by (cases "validateIgnoreProtocols U (cf_ignoreProtocols f)") (auto simp: validateCommonFlags_def)
  obtain reasons where r: "fst (validateIgnoreDropReasons U names withLogger (cf_ignoreDropReasons f) l) = Inr reasons"
    and m: "1 \<le> cf_minFlowsPerL7Rule f"
    using assms p by (auto simp: validateCommonFlags_def split: prod.splits sum.splits if_splits)
  have "fst (validateIgnoreDropReasons U names False (cf_ignoreDropReasons f) l') = Inr reasons"
    using r validateIgnoreDropReasons_result by metis
  moreover note validateIgnoreDropReasons_valid [OF r] validateIgnoreProtocols_valid [OF p]
  ultimately show ?thesis using p m validateIgnoreProtocols_again by blast
qed

definition demo_flags :: common_flags where
  "demo_flags = \<lparr>cf_namespaces = [''prod''], cf_allNamespaces = False, cf_outputDir = ''/out'', cf_flushInterval = 0,
     cf_clusterDedup = False, cf_dryRun = False, cf_dryRunNoDiff = False, cf_noEvidence = False, cf_evidenceDir = ''/ev'',
     cf_evidenceSamples = 10, cf_evidenceSessions = 10, cf_l7 = False, cf_includeAudit = False, cf_l7CollapsePaths = False,
     cf_minFlowsPerL7Rule = 5, cf_ignoreProtocols = [''TCP''], cf_ignoreDropReasons = [''policy_denied''],
     cf_failOnInfraDrops = False\<rparr>"

definition demo_case :: unicode_case where
  "demo_case = \<lparr>uc_lower = (\<lambda>s. s), uc_upper = (\<lambda>s. s)\<rparr>"

definition demo_reason_log :: reason_log where
  "demo_reason_log = \<lparr>rl_redundant = [], rl_unclassified = [], rl_warn = \<lparr>ws_logger = False, ws_warned = []\<rparr>\<rparr>"

lemma demo_flags_valid: "fst (validateCommonFlags demo_case [''POLICY_DENIED''] True demo_flags demo_reason_log) = None"
  by code_simp

theorem validated_flags_witness:
  "\<exists>protocols. validateIgnoreProtocols demo_case (cf_ignoreProtocols demo_flags) = Inr protocols
     \<and> set protocols \<subseteq> set ValidIgnoreProtocols"
  using validated_flags [OF demo_flags_valid] by blast

end
