(* ===== verification/Cidr.thy ===== *)
theory Cidr
  imports Prelude "HOL-Library.Word"
begin

text \<open>
  The part of package \<open>net\<close> that \<open>cpg explain\<close> and the query tools use: \<open>ParseCIDR\<close>, \<open>IPNet.Contains\<close> and
  \<open>IPMask.Size\<close>.  An \<open>IP\<close> is a list of 4 or 16 bytes.  Then the block of addresses a network stands for, and
  the test that one block lies in another.
\<close>

section \<open>Addresses, masks and networks\<close>

unbundle bit_operations_syntax

type_synonym ip = "8 word list"

record ip_net =
  in_IP :: ip
  in_Mask :: "8 word list"

definition v4InV6Prefix :: "8 word list" where
  "v4InV6Prefix = replicate 10 0 @ [0xFF, 0xFF]"

definition To4 :: "ip \<Rightarrow> ip option" where
  "To4 a = (if length a = 4 then Some a
            else if length a = 16 \<and> take 12 a = v4InV6Prefix then Some (drop 12 a) else None)"

definition To4_or :: "ip \<Rightarrow> ip" where
  "To4_or a = (case To4 a of None \<Rightarrow> a | Some b \<Rightarrow> b)"

text \<open>\<open>net.CIDRMask\<close> for \<open>l\<close> bytes; \<open>n\<close> is at most \<open>8 * l\<close>.\<close>

fun CIDRMask :: "nat \<Rightarrow> nat \<Rightarrow> 8 word list" where
  "CIDRMask 0 n = []"
| "CIDRMask (Suc l) n = (if 8 \<le> n then 0xFF # CIDRMask l (n - 8) else NOT (drop_bit n 0xFF) # CIDRMask l 0)"

definition addr_bits :: "8 word list \<Rightarrow> bool list" where
  "addr_bits a = concat (map (\<lambda>b. map (bit b) (rev [0..<8])) a)"

text \<open>The length of the prefix of ones, 0 for a mask that is not of that form.\<close>

definition mask_ones :: "8 word list \<Rightarrow> nat" where
  "mask_ones m = (let bs = addr_bits m; n = length (takeWhile id bs) in if True \<in> set (drop n bs) then 0 else n)"

definition apply_mask :: "ip \<Rightarrow> 8 word list \<Rightarrow> ip" where
  "apply_mask a m = map2 (\<lambda>x y. x AND y) a m"

text \<open>\<open>IP.Mask\<close> on the 16 bytes of a parsed address.\<close>

definition Mask :: "ip \<Rightarrow> 8 word list \<Rightarrow> ip" where
  "Mask a m = (let b = (if length m = 4 \<and> length a = 16 \<and> take 12 a = v4InV6Prefix then drop 12 a else a)
               in if length b = length m then apply_mask b m else [])"

definition Contains :: "ip_net \<Rightarrow> ip \<Rightarrow> bool" where
  "Contains net a =
     (let nn = To4_or (in_IP net);
          m = (if length nn = 4 \<and> length (in_Mask net) = 16 then drop 12 (in_Mask net) else in_Mask net);
          b = To4_or a
      in length nn = length m \<and> length b = length nn \<and> apply_mask b m = apply_mask nn m)"

section \<open>Parsing\<close>

definition is_hex :: "char \<Rightarrow> bool" where
  "is_hex c \<longleftrightarrow> is_digit c \<or> (CHR ''a'' \<le> c \<and> c \<le> CHR ''f'') \<or> (CHR ''A'' \<le> c \<and> c \<le> CHR ''F'')"

definition hex_digit :: "char \<Rightarrow> int" where
  "hex_digit c = (if is_digit c then of_char c - 48 else of_char (lower_char c) - 87)"

definition hex_val :: "string \<Rightarrow> int" where
  "hex_val s = foldl (\<lambda>a c. 16 * a + hex_digit c) 0 s"

text \<open>\<open>parseIPv4Fields\<close>: the value and the number of digits of the current field, and the fields so far.\<close>

fun v4_fields :: "string \<Rightarrow> nat \<Rightarrow> nat \<Rightarrow> ip \<Rightarrow> ip option" where
  "v4_fields [] val digLen fs = (if length fs < 3 then None else Some (fs @ [of_nat val]))"
| "v4_fields (c # s) val digLen fs =
     (if is_digit c then
        (if digLen = 1 \<and> val = 0 \<or> 255 < val * 10 + digit_val c then None
         else v4_fields s (val * 10 + digit_val c) (Suc digLen) fs)
      else if c = CHR ''.'' then
        (if digLen = 0 \<or> s = [] \<or> length fs = 3 then None else v4_fields s 0 0 (fs @ [of_nat val]))
      else None)"

text \<open>
  The groups of \<open>parseIPv6\<close>: what is left of the string, the bytes and the place of the ellipsis.  The
  first argument is the number of groups there is room for.
\<close>

fun v6_groups :: "nat \<Rightarrow> string \<Rightarrow> ip \<Rightarrow> nat option \<Rightarrow> (string \<times> ip \<times> nat option) option" where
  "v6_groups 0 s ip ell = Some (s, ip, ell)"
| "v6_groups (Suc n) s ip ell =
     (let h = takeWhile is_hex s; r = dropWhile is_hex s;
          ip' = ip @ [of_int (hex_val h div 256), of_int (hex_val h)]
      in if h = [] \<or> 4 < length h then None
         else case r of
                [] \<Rightarrow> Some ([], ip', ell)
              | c # t \<Rightarrow>
                  if c = CHR ''.'' then
                    (if ell = None \<and> length ip \<noteq> 12 \<or> 16 < length ip + 4 then None
                     else map_option (\<lambda>b. ([], ip @ b, ell)) (v4_fields s 0 0 []))
                  else if c \<noteq> CHR '':'' \<or> t = [] then None
                  else if hd t = CHR '':'' then
                    (if ell \<noteq> None then None
                     else if tl t = [] then Some ([], ip', Some (length ip'))
                     else v6_groups n (tl t) ip' (Some (length ip')))
                  else v6_groups n t ip' ell)"

definition v6_expand :: "string \<times> ip \<times> nat option \<Rightarrow> ip option" where
  "v6_expand st =
     (case st of (s, ip, ell) \<Rightarrow>
        if s \<noteq> [] then None
        else case ell of
               None \<Rightarrow> if length ip = 16 then Some ip else None
             | Some e \<Rightarrow> if length ip < 16 then Some (take e ip @ replicate (16 - length ip) 0 @ drop e ip) else None)"

definition parse_v6 :: "string \<Rightarrow> ip option" where
  "parse_v6 s =
     (if CHR ''%'' \<in> set s then None
      else if has_prefix s ''::'' then
        (if length s = 2 then Some (replicate 16 0)
         else Option.bind (v6_groups 8 (drop 2 s) [] (Some 0)) v6_expand)
      else Option.bind (v6_groups 8 s [] None) v6_expand)"

text \<open>An address without a zone: its 16 bytes and the number of bytes of its own family.\<close>

definition parse_addr :: "string \<Rightarrow> (ip \<times> nat) option" where
  "parse_addr s =
     (case dropWhile (\<lambda>c. c \<notin> {CHR ''.'', CHR '':'', CHR ''%''}) s of
        [] \<Rightarrow> None
      | c # _ \<Rightarrow>
          if c = CHR ''.'' then map_option (\<lambda>b. (v4InV6Prefix @ b, 4)) (v4_fields s 0 0 [])
          else if c = CHR '':'' then map_option (\<lambda>a. (a, 16)) (parse_v6 s)
          else None)"

definition ParseCIDR :: "string \<Rightarrow> (ip \<times> ip_net) option" where
  "ParseCIDR s =
     (if CHR ''/'' \<notin> set s then None
      else case parse_addr (cut_before (CHR ''/'') s) of
             None \<Rightarrow> None
           | Some (a, iplen) \<Rightarrow>
               (let bits = drop (Suc (length (cut_before (CHR ''/'') s))) s; n = digits_val bits; m = CIDRMask iplen n
                in if bits = [] \<or> \<not> list_all is_digit bits \<or> 8 * iplen < n then None
                   else Some (a, \<lparr>in_IP = Mask a m, in_Mask = m\<rparr>)))"

lemma ParseCIDR_examples:
  "map_option (\<lambda>(a, n). (in_IP n, mask_ones (in_Mask n))) (ParseCIDR ''10.1.2.3/20'') = Some ([10, 1, 0, 0], 20)
   \<and> map_option (\<lambda>(a, n). (in_IP n, mask_ones (in_Mask n))) (ParseCIDR ''2001:db8::1:ff00/33'')
      = Some ([32, 1, 13, 184, 0, 0, 0, 0, 0, 0, 0, 0, 0, 0, 0, 0], 33)
   \<and> map_option fst (ParseCIDR ''::ffff:1.2.3.4/120'') = Some (v4InV6Prefix @ [1, 2, 3, 4])
   \<and> ParseCIDR ''10.01.2.3/20'' = None \<and> ParseCIDR ''10.1.2/20'' = None \<and> ParseCIDR ''10.1.2.3/33'' = None
   \<and> ParseCIDR ''::1::/3'' = None"
  by code_simp

section \<open>The block of a network\<close>

definition byte_bits :: "8 word \<Rightarrow> bool list" where
  "byte_bits b = map (bit b) (rev [0..<8])"

lemma length_byte_bits [simp]: "length (byte_bits b) = 8"
  by (simp add: byte_bits_def)

lemma addr_bits_simps [simp]: "addr_bits [] = []" "addr_bits (b # a) = byte_bits b @ addr_bits a"
  by (simp_all add: addr_bits_def byte_bits_def)

lemma length_addr_bits [simp]: "length (addr_bits a) = 8 * length a"
  by (induction a) simp_all

lemma length_CIDRMask [simp]: "length (CIDRMask l n) = l"
  by (induction l n rule: CIDRMask.induct) simp_all

lemma byte_bits_eq: "byte_bits a = byte_bits b \<longleftrightarrow> a = b"
proof
  assume "byte_bits a = byte_bits b"
  then have "\<forall>i < 8. bit a i = bit b i" by (simp add: byte_bits_def map_eq_conv)
  then show "a = b" by (intro bit_word_eqI) simp
qed simp

lemma full_byte: "(255 :: 8 word) = - 1"
  by code_simp

lemma zero_byte: "NOT (drop_bit 0 (255 :: 8 word)) = 0"
  by code_simp

lemma take_byte_bits:
  assumes "n < 8"
  shows "take n (byte_bits a) = take n (byte_bits b) \<longleftrightarrow> a AND NOT (drop_bit n 0xFF) = b AND NOT (drop_bit n 0xFF)"
proof -
  have m: "bit (x AND NOT (drop_bit n 0xFF)) k \<longleftrightarrow> bit x k \<and> 8 \<le> n + k" if "k < 8" for k and x :: "8 word"
    using that by (simp add: full_byte bit_and_iff bit_not_iff bit_drop_bit_eq bit_mask_iff) arith
  have "take n (byte_bits a) = take n (byte_bits b) \<longleftrightarrow> (\<forall>i < n. bit a (7 - i) = bit b (7 - i))"
    using assms by (simp add: byte_bits_def list_eq_iff_nth_eq rev_nth)
  also have "\<dots> \<longleftrightarrow> (\<forall>k < 8. 8 \<le> n + k \<longrightarrow> bit a k = bit b k)"
  proof (rule iffI; intro allI impI)
    fix k :: nat assume l: "\<forall>i < n. bit a (7 - i) = bit b (7 - i)" "k < 8" "8 \<le> n + k"
    then show "bit a k = bit b k" using spec [OF l(1), of "7 - k"] assms by simp
  next
    fix i assume r: "\<forall>k < 8. 8 \<le> n + k \<longrightarrow> bit a k = bit b k" "i < n"
    then show "bit a (7 - i) = bit b (7 - i)" using spec [OF r(1), of "7 - i"] assms by simp
  qed
  also have "\<dots> \<longleftrightarrow> a AND NOT (drop_bit n 0xFF) = b AND NOT (drop_bit n 0xFF)"
  proof
    assume "\<forall>k < 8. 8 \<le> n + k \<longrightarrow> bit a k = bit b k"
    then show "a AND NOT (drop_bit n 0xFF) = b AND NOT (drop_bit n 0xFF)"
      using m by (intro bit_word_eqI) auto
  next
    assume e: "a AND NOT (drop_bit n 0xFF) = b AND NOT (drop_bit n 0xFF)"
    show "\<forall>k < 8. 8 \<le> n + k \<longrightarrow> bit a k = bit b k" using m [where x = a] m [where x = b] e by auto
  qed
  finally show ?thesis .
qed

lemma apply_mask_Suc_0: "apply_mask (c # cs) (CIDRMask (Suc l) 0) = 0 # apply_mask cs (CIDRMask l 0)"
proof -
  have "(8 \<le> (0 :: nat)) = False" by simp
  then have "CIDRMask (Suc l) 0 = 0 # CIDRMask l 0" by (simp only: CIDRMask.simps if_False zero_byte)
  then show ?thesis by (simp only: apply_mask_def zip_Cons_Cons list.map case_prod_conv and_zero_eq)
qed

lemma apply_mask_0: "length a = l \<Longrightarrow> length b = l \<Longrightarrow> apply_mask a (CIDRMask l 0) = apply_mask b (CIDRMask l 0)"
proof (induction l arbitrary: a b)
  case (Suc l)
  obtain x a' y b' where ab: "a = x # a'" "b = y # b'" "length a' = l" "length b' = l"
    using Suc.prems by (cases a; cases b) simp_all
  show ?case using Suc.IH [OF ab(3,4)] by (simp only: ab(1,2) apply_mask_Suc_0)
qed (simp add: apply_mask_def)

lemma apply_mask_eq:
  "length a = l \<Longrightarrow> length b = l \<Longrightarrow> n \<le> 8 * l \<Longrightarrow>
   apply_mask a (CIDRMask l n) = apply_mask b (CIDRMask l n) \<longleftrightarrow> take n (addr_bits a) = take n (addr_bits b)"
proof (induction l n arbitrary: a b rule: CIDRMask.induct)
  case (2 l n)
  obtain x a' y b' where ab: "a = x # a'" "b = y # b'" "length a' = l" "length b' = l"
    using 2(3,4) by (cases a; cases b) simp_all
  show ?case
  proof (cases "8 \<le> n")
    case True
    have full: "z AND 0xFF = z" for z :: "8 word" by (simp add: full_byte)
    have "take n (addr_bits a) = take n (addr_bits b) \<longleftrightarrow>
        byte_bits x = byte_bits y \<and> take (n - 8) (addr_bits a') = take (n - 8) (addr_bits b')"
      using True by (simp add: ab(1,2))
    then show ?thesis
      using 2(1) [OF True ab(3,4)] 2(5) True by (simp add: ab(1,2) apply_mask_def full byte_bits_eq)
  next
    case False
    then show ?thesis
      using apply_mask_0 [of a' l b'] take_byte_bits [of n x y] ab(3,4) by (simp add: ab(1,2) apply_mask_def)
  qed
qed simp

lemma mask_byte_bits:
  assumes "n < 8"
  shows "byte_bits (NOT (drop_bit n 0xFF)) = replicate n True @ replicate (8 - n) False"
proof -
  have all: "list_all (\<lambda>n. byte_bits (NOT (drop_bit n 0xFF)) = replicate n True @ replicate (8 - n) False) [0..<8]"
    by code_simp
  then show ?thesis using assms by (simp add: list_all_iff)
qed

lemma addr_bits_CIDRMask: "n \<le> 8 * l \<Longrightarrow> addr_bits (CIDRMask l n) = replicate n True @ replicate (8 * l - n) False"
proof (induction l n rule: CIDRMask.induct)
  case (2 l n)
  show ?case
  proof (cases "8 \<le> n")
    case True
    have "byte_bits 0xFF = replicate 8 True" by code_simp
    moreover have "replicate 8 True @ replicate (n - 8) True = replicate n True" using True by (simp add: replicate_add [symmetric])
    ultimately show ?thesis using 2 True by (simp add: append_assoc [symmetric] del: append_assoc)
  next
    case False
    have "replicate (8 - n) False @ replicate (8 * l) False = replicate (8 * Suc l - n) False"
      using False by (simp add: replicate_add [symmetric])
    then show ?thesis using 2(2) False mask_byte_bits [of n] by simp
  qed
qed simp

lemma mask_ones_CIDRMask: "n \<le> 8 * l \<Longrightarrow> mask_ones (CIDRMask l n) = n"
proof -
  have "takeWhile id (replicate n True @ replicate k False) = replicate n True" for k
    by (induction n) (cases k, simp_all)
  then show "n \<le> 8 * l \<Longrightarrow> mask_ones (CIDRMask l n) = n"
    by (simp add: mask_ones_def addr_bits_CIDRMask)
qed

lemma addr_bits_surj: "length bs = 8 * l \<Longrightarrow> \<exists>a. length a = l \<and> addr_bits a = bs"
proof (induction l arbitrary: bs)
  case (Suc l)
  let ?b = "horner_sum of_bool 2 (rev (take 8 bs)) :: 8 word"
  obtain a where a: "length a = l" "addr_bits a = drop 8 bs" using Suc.IH [of "drop 8 bs"] Suc.prems by auto
  have "byte_bits ?b = take 8 bs"
    using Suc.prems by (intro nth_equalityI)
      (auto simp: byte_bits_def rev_nth bit_horner_sum_bit_word_iff)
  then have "length (?b # a) = Suc l" "addr_bits (?b # a) = bs" using a by simp_all
  then show ?case by blast
qed simp

text \<open>The addresses that share the network's prefix, as \<open>ones\<close> bits.\<close>

definition block :: "nat \<Rightarrow> ip \<Rightarrow> ip set" where
  "block ones a = {b. length b = length a \<and> take ones (addr_bits b) = take ones (addr_bits a)}"

lemma block_self [simp]: "a \<in> block ones a"
  by (simp add: block_def)

lemma block_subset:
  assumes "length a = length b" and "m \<le> 8 * length a" and "n \<le> 8 * length a"
  shows "block m a \<subseteq> block n b \<longleftrightarrow> n \<le> m \<and> a \<in> block n b"
proof (intro iffI conjI)
  assume sub: "block m a \<subseteq> block n b"
  then show "a \<in> block n b" by auto
  show "n \<le> m"
  proof (rule ccontr)
    assume "\<not> n \<le> m"
    then have lt: "m < n" by simp
    let ?v = "addr_bits a"
    obtain c where c: "length c = length a" "addr_bits c = ?v[m := \<not> ?v ! m]"
      using addr_bits_surj [of "?v[m := \<not> ?v ! m]" "length a"] by auto
    then have "c \<in> block m a" by (simp add: block_def take_update_cancel)
    with sub have "c \<in> block n b" "a \<in> block n b" by auto
    then have "take n (addr_bits c) = take n ?v" by (simp add: block_def)
    then have "take n (addr_bits c) ! m = take n ?v ! m" by simp
    then show False using lt assms(3) by (simp add: c(2))
  qed
next
  assume "n \<le> m \<and> a \<in> block n b"
  moreover have "take n xs = take n (take m xs)" if "n \<le> m" for xs :: "bool list" using that by (simp add: min_absorb1)
  ultimately show "block m a \<subseteq> block n b" unfolding block_def by (smt (verit, best) mem_Collect_eq subsetI)
qed

definition net_block :: "ip_net \<Rightarrow> ip set" where
  "net_block net = block (mask_ones (in_Mask net)) (in_IP net)"

section \<open>What a parsed network holds\<close>

lemma v4_fields_length: "v4_fields s val d fs = Some a \<Longrightarrow> length fs \<le> 3 \<Longrightarrow> length a = 4"
  by (induction s val d fs rule: v4_fields.induct) (auto split: if_splits)

lemma v6_expand_length: "v6_expand st = Some a \<Longrightarrow> length a = 16"
  by (auto simp: v6_expand_def split: prod.splits option.splits if_splits)

lemma parse_v6_length: "parse_v6 s = Some a \<Longrightarrow> length a = 16"
  by (auto simp: parse_v6_def bind_eq_Some_conv v6_expand_length split: if_splits)

lemma length_v4InV6Prefix [simp]: "length v4InV6Prefix = 12"
  by (simp add: v4InV6Prefix_def)

lemma parse_addr_length:
  assumes "parse_addr s = Some (a, l)"
  shows "length a = 16 \<and> (l = 4 \<and> take 12 a = v4InV6Prefix \<or> l = 16)"
  using assms by (auto simp: parse_addr_def v4_fields_length parse_v6_length split: list.splits if_splits)

text \<open>The bytes of an address in a family of \<open>l\<close> bytes.\<close>

definition family :: "nat \<Rightarrow> ip \<Rightarrow> ip" where
  "family l a = (if l = 4 then drop 12 a else a)"

lemma length_apply_mask [simp]: "length (apply_mask a m) = min (length a) (length m)"
  by (simp add: apply_mask_def)

lemma apply_mask_twice: "length a = length m \<Longrightarrow> apply_mask (apply_mask a m) m = apply_mask a m"
  by (simp add: apply_mask_def list_eq_iff_nth_eq and.assoc)

lemma ParseCIDR_parts:
  assumes "ParseCIDR s = Some (a, net)"
  obtains l n where "l = 4 \<and> take 12 a = v4InV6Prefix \<or> l = 16" "length a = 16" "n \<le> 8 * l"
    "net = \<lparr>in_IP = apply_mask (family l a) (CIDRMask l n), in_Mask = CIDRMask l n\<rparr>"
proof -
  from assms obtain l where p: "parse_addr (cut_before (CHR ''/'') s) = Some (a, l)"
    by (auto simp: ParseCIDR_def Let_def split: if_splits option.splits)
  then have l: "length a = 16" "l = 4 \<and> take 12 a = v4InV6Prefix \<or> l = 16" using parse_addr_length by blast+
  from assms p obtain n where n: "n \<le> 8 * l" "net = \<lparr>in_IP = Mask a (CIDRMask l n), in_Mask = CIDRMask l n\<rparr>"
    by (auto simp: ParseCIDR_def Let_def not_less split: if_splits)
  have "Mask a (CIDRMask l n) = apply_mask (family l a) (CIDRMask l n)" using l by (auto simp: Mask_def family_def)
  with that l n show ?thesis by blast
qed

theorem Contains_block:
  assumes F: "ParseCIDR f = Some (fip, F)" and R: "ParseCIDR r = Some (rip, R)"
    and same: "length (in_Mask F) = length (in_Mask R)"
    and v6: "length (in_Mask R) = 16 \<Longrightarrow> To4 rip = None \<and> To4 (in_IP F) = None"
  shows "Contains F rip \<and> mask_ones (in_Mask F) \<le> mask_ones (in_Mask R) \<longleftrightarrow> net_block R \<subseteq> net_block F"
proof -
  from R obtain l n where l: "l = 4 \<and> take 12 rip = v4InV6Prefix \<or> l = 16" "length rip = 16" "n \<le> 8 * l"
      "R = \<lparr>in_IP = apply_mask (family l rip) (CIDRMask l n), in_Mask = CIDRMask l n\<rparr>" by (rule ParseCIDR_parts)
  from F obtain k m where "k = 4 \<and> take 12 fip = v4InV6Prefix \<or> k = 16" "length fip = 16" "m \<le> 8 * k"
      "F = \<lparr>in_IP = apply_mask (family k fip) (CIDRMask k m), in_Mask = CIDRMask k m\<rparr>" by (rule ParseCIDR_parts)
  moreover from this same l have "k = l" by simp
  ultimately have k: "length fip = 16" "m \<le> 8 * l" "in_Mask F = CIDRMask l m"
      "in_IP F = apply_mask (family l fip) (CIDRMask l m)" by simp_all
  let ?a = "family l rip"
  have len: "length ?a = l" "length (family l fip) = l" "length (in_IP F) = l" using l k by (auto simp: family_def)
  have To4: "To4_or rip = ?a" "To4_or (in_IP F) = in_IP F"
    using l v6 len by (auto simp: To4_or_def To4_def family_def)
  have "Contains F rip \<longleftrightarrow> apply_mask ?a (CIDRMask l m) = apply_mask (in_IP F) (CIDRMask l m)"
    using l(1) len by (auto simp: Contains_def Let_def To4 k(3))
  also have "\<dots> \<longleftrightarrow> ?a \<in> block m (in_IP F)" using apply_mask_eq [of ?a l "in_IP F" m] len k(2) by (simp add: block_def)
  finally have c: "Contains F rip \<longleftrightarrow> ?a \<in> block m (in_IP F)" .
  have "apply_mask (in_IP R) (CIDRMask l n) = apply_mask ?a (CIDRMask l n)" using len by (simp add: l(4) apply_mask_twice)
  then have "take n (addr_bits (in_IP R)) = take n (addr_bits ?a)"
    using apply_mask_eq [of "in_IP R" l ?a n] len l(3,4) by simp
  then have "block n (in_IP R) = block n ?a" using len l(4) by (simp add: block_def)
  then show ?thesis
    using block_subset [of ?a "in_IP F" n m] len l(3,4) k(2,3) c
    by (auto simp: net_block_def mask_ones_CIDRMask)
qed

end
