(* ===== verification/Explain.thy ===== *)
theory Explain
  imports SessionSetup Evidence Flags Cidr
begin

text \<open>
  \<open>pkg/explain/filter.go\<close>, \<open>cmd/cpg/explain_target.go\<close> and \<open>cmd/cpg/explain.go\<close>: the filter over the rules of an
  evidence file and \<open>cpg explain\<close> up to the rendering.  What \<open>sigs.k8s.io/yaml\<close> reads as the name and
  namespace of a policy file is a parameter.
\<close>

section \<open>The filter\<close>

record peer_label =
  pl_Key :: string
  pl_Value :: string
  pl_Set :: bool

record Filter =
  ft_Direction :: string
  ft_Port :: string
  ft_PeerLabel :: peer_label
  ft_PeerCIDR :: "ip_net option"
  ft_Since :: int
  ft_Now :: time
  ft_HTTPMethod :: string
  ft_HTTPPath :: string
  ft_DNSPattern :: string

text \<open>The conditions of \<open>Match\<close>, one for each block of the function.\<close>

definition label_matches :: "peer_label \<Rightarrow> peer_ref \<Rightarrow> bool" where
  "label_matches l p \<longleftrightarrow> (pl_Set l \<longrightarrow> pr_Type p = ''endpoint'' \<and> map_of (pr_Labels p) (pl_Key l) = Some (pl_Value l))"

definition cidr_matches :: "ip_net option \<Rightarrow> peer_ref \<Rightarrow> bool" where
  "cidr_matches c p =
     (case c of
        None \<Rightarrow> True
      | Some net \<Rightarrow>
          pr_Type p = ''cidr'' \<and>
          (case ParseCIDR (pr_CIDR p) of
             None \<Rightarrow> False
           | Some (ruleIP, ruleNet) \<Rightarrow>
               Contains net ruleIP \<and> \<not> mask_ones (in_Mask ruleNet) < mask_ones (in_Mask net)))"

definition l7_matches :: "Filter \<Rightarrow> l7_ref option \<Rightarrow> bool" where
  "l7_matches f l7 =
     (if ft_HTTPMethod f \<noteq> [] \<or> ft_HTTPPath f \<noteq> [] \<or> ft_DNSPattern f \<noteq> [] then
        (case l7 of
           None \<Rightarrow> False
         | Some l \<Rightarrow>
             (ft_HTTPMethod f \<noteq> [] \<longrightarrow> lf_Protocol l = ''http'' \<and> lf_HTTPMethod l = ft_HTTPMethod f) \<and>
             (ft_HTTPPath f \<noteq> [] \<longrightarrow> lf_Protocol l = ''http'' \<and> lf_HTTPPath l = ft_HTTPPath f) \<and>
             (ft_DNSPattern f \<noteq> [] \<longrightarrow> lf_Protocol l = ''dns'' \<and> lf_DNSMatchName l = ft_DNSPattern f))
      else True)"

definition Match :: "Filter \<Rightarrow> rule_evidence \<Rightarrow> bool" where
  "Match f r =
     (if ft_Direction f \<noteq> [] \<and> re_Direction r \<noteq> ft_Direction f then False
      else if ft_Port f \<noteq> [] \<and> re_Port r \<noteq> ft_Port f then False
      else if \<not> label_matches (ft_PeerLabel f) (re_Peer r) then False
      else if \<not> cidr_matches (ft_PeerCIDR f) (re_Peer r) then False
      else if ft_Since f > 0 \<and> re_LastSeen r \<noteq> 0 \<and> re_LastSeen r < ft_Now f - ft_Since f then False
      else l7_matches f (re_L7 r))"

definition ParsePeerLabel :: "string \<Rightarrow> (string \<times> string) option" where
  "ParsePeerLabel s =
     (if s = [] then None
      else if CHR ''='' \<notin> set s then None
      else Some (cut_before (CHR ''='') s, drop (Suc (length (cut_before (CHR ''='') s))) s))"

section \<open>The target\<close>

record explainTarget =
  xt_Namespace :: string
  xt_Workload :: string

datatype explain_error =
    InvalidTarget string
  | TargetReadFailed string
  | TargetParseFailed string
  | MissingMetadata string
  | NotGenerated string string
  | NoEvidenceDir
  | NoEvidenceAt string
  | EvidenceError evidence_error
  | DirectionsExclusive
  | BadPeer
  | BadPeerCIDR string
  | UnknownFormat string

text \<open>\<open>meta\<close> gives \<open>metadata.name\<close> and \<open>metadata.namespace\<close> of a document, empty where they are missing.\<close>

definition resolveFromYAML :: "(string \<Rightarrow> (string \<times> string) option) \<Rightarrow> os_oracle \<Rightarrow> files \<Rightarrow> string \<Rightarrow> explain_error + explainTarget" where
  "resolveFromYAML meta os fs path =
     (if os_fails os ReadFile then Inl (TargetReadFailed path)
      else case map_of fs path of
             None \<Rightarrow> Inl (TargetReadFailed path)
           | Some data \<Rightarrow>
               (case meta data of
                  None \<Rightarrow> Inl (TargetParseFailed path)
                | Some (name, namespace) \<Rightarrow>
                    if name = [] \<or> namespace = [] then Inl (MissingMetadata path)
                    else if \<not> has_prefix name ''cpg-'' then Inl (NotGenerated path name)
                    else Inr \<lparr>xt_Namespace = namespace, xt_Workload = trim_prefix name ''cpg-''\<rparr>))"

definition resolveExplainTarget :: "(string \<Rightarrow> (string \<times> string) option) \<Rightarrow> os_oracle \<Rightarrow> files \<Rightarrow> string \<Rightarrow> explain_error + explainTarget" where
  "resolveExplainTarget meta os fs arg =
     (if has_suffix arg ''.yaml'' \<or> has_suffix arg ''.yml'' then resolveFromYAML meta os fs arg
      else let ns = cut_before (CHR ''/'') arg; wl = drop (Suc (length ns)) arg
           in if CHR ''/'' \<notin> set arg \<or> ns = [] \<or> wl = [] then Inl (InvalidTarget arg)
              else Inr \<lparr>xt_Namespace = ns, xt_Workload = wl\<rparr>)"

section \<open>The command\<close>

record explain_flags =
  xf_outputDir :: string
  xf_evidenceDir :: string
  xf_ingress :: bool
  xf_egress :: bool
  xf_port :: string
  xf_peer :: string
  xf_peerCIDR :: string
  xf_httpMethod :: string
  xf_httpPath :: string
  xf_dnsPattern :: string
  xf_since :: int
  xf_json :: bool
  xf_format :: string

definition no_label :: peer_label where
  "no_label = \<lparr>pl_Key = [], pl_Value = [], pl_Set = False\<rparr>"

text \<open>The blocks \<open>buildFilter\<close> and \<open>buildEvidenceFilter\<close> share.\<close>

definition peer_label_of :: "string \<Rightarrow> peer_label option" where
  "peer_label_of peer =
     (if peer = [] then Some no_label
      else map_option (\<lambda>(k, v). \<lparr>pl_Key = k, pl_Value = v, pl_Set = True\<rparr>) (ParsePeerLabel peer))"

definition peer_cidr_of :: "string \<Rightarrow> ip_net option option" where
  "peer_cidr_of s = (if s = [] then Some None else map_option (\<lambda>(_, net). Some net) (ParseCIDR s))"

definition normal_method :: "unicode_case \<Rightarrow> string \<Rightarrow> string" where
  "normal_method U method = ToUpper U (trim_space method)"

definition normal_pattern :: "string \<Rightarrow> string" where
  "normal_pattern dns = trim_suffix (trim_space dns) ''.''"

definition buildFilter :: "unicode_case \<Rightarrow> time \<Rightarrow> explain_flags \<Rightarrow> explain_error + Filter" where
  "buildFilter U now x =
     (if xf_ingress x \<and> xf_egress x then Inl DirectionsExclusive
      else case peer_label_of (xf_peer x) of
             None \<Rightarrow> Inl BadPeer
           | Some l \<Rightarrow>
               (case peer_cidr_of (xf_peerCIDR x) of
                  None \<Rightarrow> Inl (BadPeerCIDR (xf_peerCIDR x))
                | Some c \<Rightarrow>
                    Inr \<lparr>ft_Direction = (if xf_egress x then ''egress'' else if xf_ingress x then ''ingress'' else []),
                         ft_Port = xf_port x, ft_PeerLabel = l, ft_PeerCIDR = c, ft_Since = xf_since x, ft_Now = now,
                         ft_HTTPMethod = normal_method U (xf_httpMethod x), ft_HTTPPath = xf_httpPath x,
                         ft_DNSPattern = normal_pattern (xf_dnsPattern x)\<rparr>))"

datatype render_format = JSON | YAML | Text

definition render_format_of :: "explain_flags \<Rightarrow> explain_error + render_format" where
  "render_format_of x =
     (let format = (if xf_json x then ''json'' else xf_format x)
      in if format = ''json'' then Inr JSON else if format = ''yaml'' then Inr YAML else if format = ''text'' then Inr Text
         else Inl (UnknownFormat format))"

text \<open>The result is what is handed to the renderer.  \<open>xdg\<close> and \<open>home\<close> as in \<open>DefaultEvidenceDir\<close>.\<close>

definition runExplain ::
  "unicode_case \<Rightarrow> path_env \<Rightarrow> json_codec \<Rightarrow> (string \<Rightarrow> (string \<times> string) option) \<Rightarrow> os_oracle \<Rightarrow> string \<Rightarrow> string option \<Rightarrow> time
     \<Rightarrow> files \<Rightarrow> string \<Rightarrow> explain_flags \<Rightarrow> explain_error + render_format \<times> policy_evidence \<times> rule_evidence list" where
  "runExplain U V J meta os xdg home now fs arg x =
     (case resolveExplainTarget meta os fs arg of
        Inl e \<Rightarrow> Inl e
      | Inr target \<Rightarrow>
          (case if xf_evidenceDir x \<noteq> [] then Some (xf_evidenceDir x) else DefaultEvidenceDir xdg home of
             None \<Rightarrow> Inl NoEvidenceDir
           | Some evDir \<Rightarrow>
               (let hash = HashOutputDir V (xf_outputDir x);
                    reader = \<lparr>es_evidenceDir = evDir, es_outputHash = hash, es_caps = \<lparr>mc_MaxSamples = 0, mc_MaxSessions = 0\<rparr>\<rparr>
                in case ReadEvidence J os reader (xt_Namespace target) (xt_Workload target) fs of
                     Inl NotExist \<Rightarrow> Inl (NoEvidenceAt (ResolvePolicyPath evDir hash (xt_Namespace target) (xt_Workload target)))
                   | Inl e \<Rightarrow> Inl (EvidenceError e)
                   | Inr pe \<Rightarrow>
                       (case buildFilter U now x of
                          Inl e \<Rightarrow> Inl e
                        | Inr flt \<Rightarrow>
                            (case render_format_of x of
                               Inl e \<Rightarrow> Inl e
                             | Inr fmt \<Rightarrow> Inr (fmt, pe, filter (Match flt) (pv_Rules pe)))))))"

section \<open>The filter by CIDR\<close>

lemma Match_without_cidr:
  "Match f r \<longleftrightarrow> Match (f\<lparr>ft_PeerCIDR := None\<rparr>) r \<and> cidr_matches (ft_PeerCIDR f) (re_Peer r)"
proof -
  have "cidr_matches None (re_Peer r)" "l7_matches (f\<lparr>ft_PeerCIDR := None\<rparr>) = l7_matches f"
    by (auto simp: cidr_matches_def l7_matches_def fun_eq_iff split: option.split)
  then show ?thesis by (auto simp: Match_def)
qed

text \<open>C16: The CIDR of a filter selects by containment.  Between networks of one family, a filter with a peer
  CIDR matches a rule exactly when the rule passes the other conditions of the filter, its peer is a
  CIDR, and every address of the rule's network is an address of the filter's; comparing one address
  and two prefix lengths, as the code does, decides the inclusion.  IPv4-mapped IPv6 addresses are
  left out.\<close>

theorem filter_by_cidr:
  assumes "ft_PeerCIDR f = Some F" and "ParseCIDR text = Some (fip, F)"
    and "ParseCIDR (pr_CIDR (re_Peer r)) = Some (rip, R)"
    and "length (in_Mask F) = length (in_Mask R)"
    and "length (in_Mask R) = 16 \<Longrightarrow> To4 rip = None \<and> To4 (in_IP F) = None"
  shows "Match f r \<longleftrightarrow>
    Match (f\<lparr>ft_PeerCIDR := None\<rparr>) r \<and> pr_Type (re_Peer r) = ''cidr'' \<and> net_block R \<subseteq> net_block F"
  using Contains_block [OF assms(2-5)] assms(1,3)
  by (auto simp: Match_without_cidr [of f] cidr_matches_def not_less)

definition demo_filter :: "string \<Rightarrow> Filter" where
  "demo_filter cidr =
     \<lparr>ft_Direction = ''egress'', ft_Port = [], ft_PeerLabel = no_label, ft_PeerCIDR = the (peer_cidr_of cidr), ft_Since = 0,
      ft_Now = 0, ft_HTTPMethod = [], ft_HTTPPath = [], ft_DNSPattern = []\<rparr>"

definition demo_cidr_rule :: "string \<Rightarrow> rule_evidence" where
  "demo_cidr_rule cidr =
     \<lparr>re_Key = [], re_Direction = ''egress'', re_Peer = \<lparr>pr_Type = ''cidr'', pr_Labels = [], pr_CIDR = cidr, pr_Entity = []\<rparr>,
      re_Port = ''443'', re_Protocol = ''TCP'', re_L7 = None, re_FlowCount = 1, re_FirstSeen = 0, re_LastSeen = 0,
      re_ContributingSessions = [], re_Samples = []\<rparr>"

definition demo_net :: "string \<Rightarrow> ip \<times> ip_net" where
  "demo_net cidr = the (ParseCIDR cidr)"

theorem filter_by_cidr_witness:
  "net_block (snd (demo_net ''10.1.2.0/24'')) \<subseteq> net_block (snd (demo_net ''10.0.0.0/8''))
   \<and> \<not> net_block (snd (demo_net ''10.1.2.0/24'')) \<subseteq> net_block (snd (demo_net ''10.1.2.0/25''))"
proof -
  let ?r = "demo_cidr_rule ''10.1.2.0/24''"
  let ?ok = "\<lambda>t. (case demo_net t of (a, F) \<Rightarrow> ft_PeerCIDR (demo_filter t) = Some F \<and> ParseCIDR t = Some (a, F) \<and> length (in_Mask F) = 4)"
  have "?ok ''10.0.0.0/8'' \<and> ?ok ''10.1.2.0/25'' \<and> ?ok ''10.1.2.0/24''
    \<and> Match (demo_filter ''10.0.0.0/8'') ?r \<and> \<not> Match (demo_filter ''10.1.2.0/25'') ?r
    \<and> Match (demo_filter ''10.1.2.0/25''\<lparr>ft_PeerCIDR := None\<rparr>) ?r"
    by code_simp
  moreover have "pr_CIDR (re_Peer ?r) = ''10.1.2.0/24''" "pr_Type (re_Peer ?r) = ''cidr''" by (simp_all add: demo_cidr_rule_def)
  ultimately show ?thesis
    using filter_by_cidr [of "demo_filter ''10.0.0.0/8''" "snd (demo_net ''10.0.0.0/8'')" "''10.0.0.0/8''"
        "fst (demo_net ''10.0.0.0/8'')" ?r "fst (demo_net ''10.1.2.0/24'')" "snd (demo_net ''10.1.2.0/24'')"]
      filter_by_cidr [of "demo_filter ''10.1.2.0/25''" "snd (demo_net ''10.1.2.0/25'')" "''10.1.2.0/25''"
        "fst (demo_net ''10.1.2.0/25'')" ?r "fst (demo_net ''10.1.2.0/24'')" "snd (demo_net ''10.1.2.0/24'')"]
    by (simp add: case_prod_beta)
qed

section \<open>What the command shows\<close>

lemma resolve_pair:
  assumes "CHR ''/'' \<notin> set ns" and "ns \<noteq> []" and "wl \<noteq> []"
    and "\<not> has_suffix (ns @ CHR ''/'' # wl) ''.yaml''" and "\<not> has_suffix (ns @ CHR ''/'' # wl) ''.yml''"
  shows "resolveExplainTarget meta os fs (ns @ CHR ''/'' # wl) = Inr \<lparr>xt_Namespace = ns, xt_Workload = wl\<rparr>"
  using assms by (simp add: resolveExplainTarget_def cut_before_def takeWhile_sep Let_def)

lemma ReadEvidence_place:
  "es_evidenceDir w = es_evidenceDir w' \<Longrightarrow> es_outputHash w = es_outputHash w' \<Longrightarrow>
   ReadEvidence J os w ns wl fs = ReadEvidence J os w' ns wl fs"
  by (simp add: ReadEvidence_def)

text \<open>C15: What the pipeline wrote is what \<open>cpg explain\<close> shows.  After a write of evidence that succeeded, of a document
  that JSON reads back as it was (its strings are valid UTF-8), with the same evidence directory and the same
  output directory, the command with the target \<open>NAMESPACE/WORKLOAD\<close>, when that does not end in
  \<open>.yaml\<close> or \<open>.yml\<close> (it would be taken for the name of a policy file) and its flags are valid, hands to its
  renderer the merge of the earlier evidence with the new rules and, of its rules, exactly those the filter of its
  flags matches, in their order.\<close>

theorem explain_shows_written:
  assumes "WriteEvidence J os w ref s new fs = (None, sts)" and "faithful_write J os w ref s new fs"
    and "evidence_path w ref \<noteq> os_tmp os" and "\<not> os_fails os' ReadFile"
    and "es_evidenceDir w = xf_evidenceDir x" and "xf_evidenceDir x \<noteq> []"
    and "es_outputHash w = HashOutputDir V (xf_outputDir x)"
    and "arg = pf_Namespace ref @ CHR ''/'' # pf_Workload ref"
    and "\<not> has_suffix arg ''.yaml''" and "\<not> has_suffix arg ''.yml''"
    and "buildFilter U now x = Inr flt" and "render_format_of x = Inr fmt"
  shows "\<exists>ex. existing_evidence J os ref (evidence_path w ref) fs = Inr ex \<and>
    (let pe = Merge ex s new (es_caps w)
     in runExplain U V J meta os' xdg home now (hd sts) arg x = Inr (fmt, pe, filter (Match flt) (pv_Rules pe)))"
proof -
  have "ValidatePolicyRef (pf_Namespace ref) (pf_Workload ref) = None"
    using assms(1) by (simp add: WriteEvidence_def split: option.splits)
  then have ref: "CHR ''/'' \<notin> set (pf_Namespace ref)" "pf_Namespace ref \<noteq> []" "pf_Workload ref \<noteq> []"
    by (auto simp: ValidatePolicyRef_def validatePathComponent_def split: if_splits)
  have target: "resolveExplainTarget meta os' (hd sts) arg = Inr \<lparr>xt_Namespace = pf_Namespace ref, xt_Workload = pf_Workload ref\<rparr>"
    using resolve_pair [OF ref] assms(9,10) unfolding assms(8) by blast
  from WriteEvidence_reads_back [OF assms(1-4)] obtain ex where
    ex: "existing_evidence J os ref (evidence_path w ref) fs = Inr ex"
      "ReadEvidence J os' w (pf_Namespace ref) (pf_Workload ref) (hd sts) = Inr (Merge ex s new (es_caps w))" by auto
  let ?reader = "\<lparr>es_evidenceDir = xf_evidenceDir x, es_outputHash = HashOutputDir V (xf_outputDir x), es_caps = \<lparr>mc_MaxSamples = 0, mc_MaxSessions = 0\<rparr>\<rparr>"
  have "ReadEvidence J os' ?reader (pf_Namespace ref) (pf_Workload ref) (hd sts) = Inr (Merge ex s new (es_caps w))"
    using ex(2) assms(5,7) ReadEvidence_place [of ?reader w] by simp
  then show ?thesis using ex(1) assms(6,11,12) by (simp add: runExplain_def target Let_def)
qed

definition demo_explain :: explain_flags where
  "demo_explain =
     \<lparr>xf_outputDir = ''/out'', xf_evidenceDir = ''/ev'', xf_ingress = False, xf_egress = True, xf_port = ''443'', xf_peer = [],
      xf_peerCIDR = [], xf_httpMethod = [], xf_httpPath = [], xf_dnsPattern = [], xf_since = 0, xf_json = True, xf_format = ''text''\<rparr>"

definition demo_paths :: path_env where
  "demo_paths = \<lparr>pe_sha = (\<lambda>_. ''h''), pe_cwd = None\<rparr>"

theorem explain_shows_written_witness:
  "\<exists>pe rules. runExplain demo_case demo_paths demo_json (\<lambda>_. None) demo_disk [] None 0
      (hd (snd (WriteEvidence demo_json demo_disk demo_store demo_ref (demo_session ''s'' 1) [] []))) ''ns/a'' demo_explain
    = Inr (JSON, pe, rules)"
proof -
  let ?w = "WriteEvidence demo_json demo_disk demo_store demo_ref (demo_session ''s'' 1) [] []"
  have "fst ?w = None" by code_simp
  then have w: "?w = (None, snd ?w)" by (simp add: prod_eq_iff)
  have "evidence_path demo_store demo_ref \<noteq> os_tmp demo_disk \<and> \<not> has_suffix ''ns/a'' ''.yaml'' \<and> \<not> has_suffix ''ns/a'' ''.yml''
    \<and> (\<exists>flt. buildFilter demo_case 0 demo_explain = Inr flt) \<and> render_format_of demo_explain = Inr JSON"
  proof (intro conjI)
    show "\<exists>flt. buildFilter demo_case 0 demo_explain = Inr flt"
      by (simp add: buildFilter_def demo_explain_def peer_label_of_def peer_cidr_of_def)
  qed code_simp+
  then obtain flt where p: "evidence_path demo_store demo_ref \<noteq> os_tmp demo_disk" "\<not> has_suffix ''ns/a'' ''.yaml''"
      "\<not> has_suffix ''ns/a'' ''.yml''" "buildFilter demo_case 0 demo_explain = Inr flt" "render_format_of demo_explain = Inr JSON"
    by blast
  have d: "\<not> os_fails demo_disk ReadFile" "es_evidenceDir demo_store = xf_evidenceDir demo_explain" "xf_evidenceDir demo_explain \<noteq> []"
      "es_outputHash demo_store = HashOutputDir demo_paths (xf_outputDir demo_explain)"
      "''ns/a'' = pf_Namespace demo_ref @ CHR ''/'' # pf_Workload demo_ref"
    by (simp_all add: demo_disk_def demo_store_def demo_explain_def demo_paths_def HashOutputDir_def demo_ref_def)
  show ?thesis
    using explain_shows_written [OF w demo_faithful p(1) d p(2-5), of "\<lambda>_. None" "[]" None] by (auto simp: Let_def)
qed

end
