(* ===== verification/Pagination.thy ===== *)
theory Pagination
  imports Prelude "HOL-Library.Product_Lexorder"
begin

text \<open>
  \<open>cmd/cpg/mcp_query_pagination.go\<close>: the opaque cursors and the pages of the query tools.  The JSON form
  of a boundary key is a parameter; \<open>base64.RawURLEncoding\<close> is written out.
\<close>

section \<open>Page sizes and boundary keys\<close>

definition defaultFlowLimit :: int where "defaultFlowLimit = 50"
definition maxFlowLimit :: int where "maxFlowLimit = 200"
definition defaultEvidenceLimit :: int where "defaultEvidenceLimit = 20"
definition maxEvidenceLimit :: int where "maxEvidenceLimit = 100"

record boundary_key =
  bk_Namespace :: string
  bk_Workload :: string
  bk_Index :: int

definition compareBoundaryKey :: "boundary_key \<Rightarrow> boundary_key \<Rightarrow> int" where
  "compareBoundaryKey a b =
     (if bk_Namespace a \<noteq> bk_Namespace b then (if bk_Namespace a < bk_Namespace b then -1 else 1)
      else if bk_Workload a \<noteq> bk_Workload b then (if bk_Workload a < bk_Workload b then -1 else 1)
      else if bk_Index a < bk_Index b then -1
      else if bk_Index a > bk_Index b then 1
      else 0)"

section \<open>Base64 without padding\<close>

definition url_alphabet :: string where
  "url_alphabet = ''ABCDEFGHIJKLMNOPQRSTUVWXYZabcdefghijklmnopqrstuvwxyz0123456789-_''"

definition sextet :: "nat \<Rightarrow> char" where
  "sextet n = url_alphabet ! n"

fun position :: "char \<Rightarrow> string \<Rightarrow> nat option" where
  "position c [] = None"
| "position c (x # xs) = (if c = x then Some 0 else map_option Suc (position c xs))"

fun encode_bytes :: "nat list \<Rightarrow> nat list" where
  "encode_bytes (a # b # c # bs) =
     a div 4 # (a mod 4 * 16 + b div 16) # (b mod 16 * 4 + c div 64) # c mod 64 # encode_bytes bs"
| "encode_bytes [a, b] = [a div 4, a mod 4 * 16 + b div 16, b mod 16 * 4]"
| "encode_bytes [a] = [a div 4, a mod 4 * 16]"
| "encode_bytes [] = []"

text \<open>The bits left over in the last character are not looked at; a single last character is an error.\<close>

fun decode_sextets :: "nat list \<Rightarrow> nat list option" where
  "decode_sextets (p # q # r # s # ns) =
     map_option (\<lambda>bs. (p * 4 + q div 16) # (q mod 16 * 16 + r div 4) # (r mod 4 * 64 + s) # bs) (decode_sextets ns)"
| "decode_sextets [p, q, r] = Some [p * 4 + q div 16, q mod 16 * 16 + r div 4]"
| "decode_sextets [p, q] = Some [p * 4 + q div 16]"
| "decode_sextets [p] = None"
| "decode_sextets [] = Some []"

definition EncodeToString :: "string \<Rightarrow> string" where
  "EncodeToString s = map sextet (encode_bytes (map of_char s))"

text \<open>Line breaks are skipped.\<close>

definition DecodeString :: "string \<Rightarrow> string option" where
  "DecodeString s =
     (let ps = map (\<lambda>c. position c url_alphabet) (filter (\<lambda>c. c \<noteq> CHR 0x0A \<and> c \<noteq> CHR 0x0D) s)
      in if None \<in> set ps then None else map_option (map char_of) (decode_sextets (map the ps)))"

section \<open>Cursors and pages\<close>

record key_codec =
  kc_marshal :: "boundary_key \<Rightarrow> string"
  kc_unmarshal :: "string \<Rightarrow> boundary_key option"

definition encodeCursor :: "key_codec \<Rightarrow> boundary_key \<Rightarrow> string" where
  "encodeCursor K key = EncodeToString (kc_marshal K key)"

definition decodeCursor :: "key_codec \<Rightarrow> string \<Rightarrow> boundary_key option" where
  "decodeCursor K token = (case DecodeString token of None \<Rightarrow> None | Some data \<Rightarrow> kc_unmarshal K data)"

definition clampLimit :: "int \<Rightarrow> int \<Rightarrow> int \<Rightarrow> int" where
  "clampLimit limit defaultLimit maxLimit =
     (if limit \<le> 0 then defaultLimit else if limit > maxLimit then maxLimit else limit)"

text \<open>The index of the first item after the boundary, the number of items when there is none.\<close>

fun first_after :: "('a \<Rightarrow> boundary_key) \<Rightarrow> boundary_key \<Rightarrow> 'a list \<Rightarrow> nat" where
  "first_after keyOf after [] = 0"
| "first_after keyOf after (it # items) =
     (if compareBoundaryKey (keyOf it) after > 0 then 0 else Suc (first_after keyOf after items))"

definition page_start :: "('a \<Rightarrow> boundary_key) \<Rightarrow> boundary_key option \<Rightarrow> 'a list \<Rightarrow> nat" where
  "page_start keyOf after items = (case after of None \<Rightarrow> 0 | Some key \<Rightarrow> first_after keyOf key items)"

definition paginate ::
  "key_codec \<Rightarrow> 'a list \<Rightarrow> ('a \<Rightarrow> boundary_key) \<Rightarrow> boundary_key option \<Rightarrow> int \<Rightarrow> int \<Rightarrow> int \<Rightarrow> 'a list \<times> string \<times> bool \<times> nat" where
  "paginate K items keyOf after limit defaultLimit maxLimit =
     (let limit' = nat (clampLimit limit defaultLimit maxLimit);
          start = page_start keyOf after items;
          end = min (start + limit') (length items);
          page = take (end - start) (drop start items);
          hasMore = (end < length items);
          nextCursor = (if hasMore then encodeCursor K (keyOf (items ! (end - 1))) else [])
      in (page, nextCursor, hasMore, length items))"

text \<open>
  A client that follows the cursors.  Each call sees its own list of items; \<open>None\<close> when the calls run
  out before the last page or a cursor is refused.
\<close>

fun browse ::
  "key_codec \<Rightarrow> ('a \<Rightarrow> boundary_key) \<Rightarrow> int \<Rightarrow> int \<Rightarrow> int \<Rightarrow> boundary_key option \<Rightarrow> 'a list list \<Rightarrow> 'a list list option" where
  "browse K keyOf limit d m after [] = None"
| "browse K keyOf limit d m after (items # later) =
     (case paginate K items keyOf after limit d m of
        (page, nextCursor, hasMore, _) \<Rightarrow>
          if \<not> hasMore then Some [page]
          else case decodeCursor K nextCursor of
                 None \<Rightarrow> None
               | Some key \<Rightarrow> map_option (\<lambda>pages. page # pages) (browse K keyOf limit d m (Some key) later))"

section \<open>Base64 round trip\<close>

lemma position_sextet: "n < 64 \<Longrightarrow> position (sextet n) url_alphabet = Some n"
proof -
  have all: "list_all (\<lambda>n. position (sextet n) url_alphabet = Some n) [0..<64]" by code_simp
  assume "n < 64"
  then show ?thesis using all by (simp add: list_all_iff)
qed

lemma sextet_no_break: "n < 64 \<Longrightarrow> sextet n \<noteq> CHR 0x0A \<and> sextet n \<noteq> CHR 0x0D"
proof -
  have "position (CHR 0x0A) url_alphabet = None" "position (CHR 0x0D) url_alphabet = None" by code_simp+
  moreover assume "n < 64"
  ultimately show ?thesis using position_sextet [of n] by auto
qed

lemma encode_bytes_sextets: "list_all (\<lambda>b. b < 256) bs \<Longrightarrow> list_all (\<lambda>n. n < 64) (encode_bytes bs)"
  by (induction bs rule: encode_bytes.induct) (auto simp: less_mult_imp_div_less)

lemma decode_encode_bytes: "list_all (\<lambda>b. b < 256) bs \<Longrightarrow> decode_sextets (encode_bytes bs) = Some bs"
proof (induction bs rule: encode_bytes.induct)
  case (1 a b c bs)
  have "b div 16 < 16" "c div 64 < 4" using "1.prems" by auto
  then show ?case using 1 by simp
next
  case (2 a b)
  then have "b div 16 < 16" by auto
  then show ?case by simp
qed simp_all

theorem base64_round_trip: "DecodeString (EncodeToString s) = Some s"
proof -
  let ?ns = "encode_bytes (map of_char s)"
  have b: "list_all (\<lambda>b. b < 256) (map of_char s :: nat list)" by (auto simp: list_all_iff)
  note ns = encode_bytes_sextets [OF b]
  have keep: "filter (\<lambda>c. c \<noteq> CHR 0x0A \<and> c \<noteq> CHR 0x0D) (EncodeToString s) = EncodeToString s"
    using ns sextet_no_break by (auto simp: EncodeToString_def list_all_iff filter_id_conv)
  have pos: "map (\<lambda>c. position c url_alphabet) (EncodeToString s) = map Some ?ns"
    using ns position_sextet by (auto simp: EncodeToString_def list_all_iff)
  show ?thesis
    unfolding DecodeString_def keep pos using decode_encode_bytes [OF b] by (auto simp: Let_def comp_def)
qed

text \<open>A cursor comes back as the key it was made of: base64 loses no byte, and the JSON form of the key is
  read back by assumption.\<close>

theorem cursor_round_trip:
  assumes "kc_unmarshal K (kc_marshal K key) = Some key"
  shows "decodeCursor K (encodeCursor K key) = Some key"
  by (simp add: decodeCursor_def encodeCursor_def base64_round_trip assms)

section \<open>Pages\<close>

definition key_order :: "boundary_key \<Rightarrow> string \<times> string \<times> int" where
  "key_order k = (bk_Namespace k, bk_Workload k, bk_Index k)"

lemma compareBoundaryKey_order: "compareBoundaryKey a b > 0 \<longleftrightarrow> key_order b < key_order a"
  by (auto simp: compareBoundaryKey_def key_order_def less_prod_def)

lemma key_order_inject: "key_order a = key_order b \<longleftrightarrow> a = b"
  by (auto simp: key_order_def)

text \<open>What a call still has to show.\<close>

definition beyond :: "boundary_key option \<Rightarrow> boundary_key \<Rightarrow> bool" where
  "beyond after k \<longleftrightarrow> (case after of None \<Rightarrow> True | Some a \<Rightarrow> key_order a < key_order k)"

abbreviation in_order :: "('a \<Rightarrow> boundary_key) \<Rightarrow> 'a list \<Rightarrow> bool" where
  "in_order keyOf items \<equiv> sorted_wrt (<) (map (key_order \<circ> keyOf) items)"

lemma drop_first_after:
  "in_order keyOf items \<Longrightarrow> drop (first_after keyOf key items) items = filter (\<lambda>it. beyond (Some key) (keyOf it)) items"
proof (induction items)
  case (Cons it items)
  show ?case
  proof (cases "key_order key < key_order (keyOf it)")
    case True
    then have "\<forall>x \<in> set (it # items). beyond (Some key) (keyOf x)"
      using Cons.prems order_less_trans [OF True] by (simp add: beyond_def)
    then have "filter (\<lambda>it. beyond (Some key) (keyOf it)) (it # items) = it # items" by (simp only: filter_id_conv)
    then show ?thesis using True by (simp add: compareBoundaryKey_order)
  next
    case False
    then show ?thesis using Cons by (simp add: compareBoundaryKey_order beyond_def)
  qed
qed simp

lemma drop_page_start:
  "in_order keyOf items \<Longrightarrow> drop (page_start keyOf after items) items = filter (\<lambda>it. beyond after (keyOf it)) items"
  by (cases after) (simp_all add: page_start_def drop_first_after beyond_def)

lemma paginate_beyond:
  fixes after :: "boundary_key option"
  assumes "in_order keyOf items" and "0 < nat (clampLimit limit d m)"
  defines "F \<equiv> filter (\<lambda>it. beyond after (keyOf it)) items" and "L \<equiv> nat (clampLimit limit d m)"
  shows "paginate K items keyOf after limit d m =
    (take L F, if L < length F then encodeCursor K (keyOf (F ! (L - 1))) else [], L < length F, length items)"
proof -
  let ?s = "page_start keyOf after items"
  have F: "drop ?s items = F" using drop_page_start [OF assms(1)] by (simp add: F_def)
  then have len: "length F = length items - ?s" by (metis length_drop)
  have more: "min (?s + L) (length items) < length items \<longleftrightarrow> L < length F" using len by auto
  have page: "take (min (?s + L) (length items) - ?s) (drop ?s items) = take L F"
    unfolding F using len by (auto simp: min_def)
  have last: "items ! (min (?s + L) (length items) - 1) = F ! (L - 1)" if "L < length F"
  proof -
    have "?s \<le> length items" using that len by simp
    then have "F ! (L - 1) = items ! (?s + (L - 1))" by (simp add: F [symmetric])
    with that len assms(2) show ?thesis by (simp add: L_def min_def)
  qed
  show ?thesis using more last unfolding paginate_def Let_def L_def [symmetric] page by simp
qed

section \<open>Following the cursors\<close>

definition reads_back :: "key_codec \<Rightarrow> boundary_key set \<Rightarrow> bool" where
  "reads_back K ks \<longleftrightarrow> (\<forall>k \<in> ks. kc_unmarshal K (kc_marshal K k) = Some k)"

lemma browse_step:
  fixes after :: "boundary_key option"
  assumes "in_order keyOf items" and "0 < nat (clampLimit limit d m)" and "reads_back K (keyOf ` set items)"
  defines "F \<equiv> filter (\<lambda>it. beyond after (keyOf it)) items" and "L \<equiv> nat (clampLimit limit d m)"
  shows "browse K keyOf limit d m after (items # later) =
    (if L < length F then map_option (\<lambda>pages. take L F # pages) (browse K keyOf limit d m (Some (keyOf (F ! (L - 1)))) later)
     else Some [F])"
proof (cases "L < length F")
  case True
  then have "F ! (L - 1) \<in> set F" using assms(2) by (intro nth_mem) simp
  then have "keyOf (F ! (L - 1)) \<in> keyOf ` set items" by (auto simp: F_def)
  then have "decodeCursor K (encodeCursor K (keyOf (F ! (L - 1)))) = Some (keyOf (F ! (L - 1)))"
    using assms(3) unfolding reads_back_def decodeCursor_def encodeCursor_def base64_round_trip option.case by blast
  with True show ?thesis
    by (simp add: paginate_beyond [OF assms(1,2)] F_def [symmetric] L_def [symmetric])
next
  case False
  then show ?thesis by (simp add: paginate_beyond [OF assms(1,2)] F_def [symmetric] L_def [symmetric])
qed

text \<open>After the first \<open>L\<close> items of an ordered list come those beyond the last of them.\<close>

lemma beyond_last:
  assumes "in_order keyOf F" and "0 < L" and "L < length F"
  shows "filter (\<lambda>it. beyond (Some (keyOf (F ! (L - 1)))) (keyOf it)) F = drop L F"
    and "\<forall>it \<in> set (take L F). \<not> beyond (Some (keyOf (F ! (L - 1)))) (keyOf it)"
proof -
  have split: "F = take (L - 1) F @ F ! (L - 1) # drop L F"
    using assms(2,3) id_take_nth_drop [of "L - 1" F] by simp
  have ord: "in_order keyOf (take (L - 1) F @ F ! (L - 1) # drop L F)" using assms(1) split by metis
  have take: "take L F = take (L - 1) F @ [F ! (L - 1)]" using assms(2,3) take_Suc_conv_app_nth [of "L - 1" F] by simp
  show b: "\<forall>it \<in> set (take L F). \<not> beyond (Some (keyOf (F ! (L - 1)))) (keyOf it)"
    using ord by (auto simp: take beyond_def sorted_wrt_append dest: order_less_asym)
  have a: "\<forall>it \<in> set (drop L F). beyond (Some (keyOf (F ! (L - 1)))) (keyOf it)"
    using ord by (auto simp: beyond_def sorted_wrt_append)
  have "filter (\<lambda>it. beyond (Some (keyOf (F ! (L - 1)))) (keyOf it)) (take L F @ drop L F) = drop L F"
    unfolding filter_append using a b by (simp add: filter_empty_conv filter_id_conv)
  then show "filter (\<lambda>it. beyond (Some (keyOf (F ! (L - 1)))) (keyOf it)) F = drop L F" by simp
qed

lemma in_order_filter: "in_order keyOf items \<Longrightarrow> in_order keyOf (filter P items)"
  by (simp add: sorted_wrt_map sorted_wrt_filter)

lemma beyond_trans: "beyond after k \<Longrightarrow> beyond (Some k) k' \<Longrightarrow> beyond after k'"
  by (auto simp: beyond_def split: option.splits intro: order_less_trans)

lemma browse_constant:
  assumes "in_order keyOf items" and "0 < nat (clampLimit limit d m)" and "reads_back K (keyOf ` set items)"
    and "length (filter (\<lambda>it. beyond after (keyOf it)) items) \<le> calls * nat (clampLimit limit d m)" and "0 < calls"
  shows "\<exists>pages. browse K keyOf limit d m after (replicate calls items) = Some pages
    \<and> concat pages = filter (\<lambda>it. beyond after (keyOf it)) items
    \<and> list_all (\<lambda>p. length p \<le> nat (clampLimit limit d m)) pages"
  using assms(4,5)
proof (induction calls arbitrary: after)
  case (Suc calls)
  let ?L = "nat (clampLimit limit d m)"
  let ?F = "filter (\<lambda>it. beyond after (keyOf it)) items"
  note step = browse_step [OF assms(1-3), of after "replicate calls items"]
  show ?case
  proof (cases "?L < length ?F")
    case False
    then show ?thesis using step by (intro exI [of _ "[?F]"]) simp
  next
    case True
    let ?key = "keyOf (?F ! (?L - 1))"
    have "?F ! (?L - 1) \<in> set ?F" using True assms(2) by (intro nth_mem) simp
    then have k: "beyond after ?key" by simp
    have "filter (\<lambda>it. beyond (Some ?key) (keyOf it)) items = filter (\<lambda>it. beyond (Some ?key) (keyOf it)) ?F"
      unfolding filter_filter by (rule filter_cong [OF refl]) (use beyond_trans [OF k] in blast)
    also have "\<dots> = drop ?L ?F" by (rule beyond_last(1) [OF in_order_filter [OF assms(1)] assms(2) True])
    finally have rest: "filter (\<lambda>it. beyond (Some ?key) (keyOf it)) items = drop ?L ?F" .
    have "length (drop ?L ?F) \<le> calls * ?L" "0 < calls"
      using Suc.prems(1) True by (simp_all add: gr0_conv_Suc) (cases calls, simp_all)
    from Suc.IH [of "Some ?key", unfolded rest, OF this] obtain pages where
      p: "browse K keyOf limit d m (Some ?key) (replicate calls items) = Some pages" "concat pages = drop ?L ?F"
        "list_all (\<lambda>p. length p \<le> ?L) pages" by blast
    then show ?thesis using step True by (intro exI [of _ "take ?L ?F # pages"]) simp
  qed
qed simp

text \<open>Following the cursors ends and shows everything: over an unchanging list of items in the order of their
  keys, a client that passes each cursor to the next call reaches the last page within as many calls as
  the items fill pages, and the pages in order are the items, each once, no page longer than the
  clamped limit.\<close>

theorem browse_all:
  assumes "sorted_wrt (<) (map (key_order \<circ> keyOf) items)" and "0 < clampLimit limit d m"
    and "reads_back K (keyOf ` set items)"
    and "int (length items) \<le> int calls * clampLimit limit d m" and "0 < calls"
  shows "\<exists>pages. browse K keyOf limit d m None (replicate calls items) = Some pages \<and> concat pages = items
    \<and> list_all (\<lambda>p. int (length p) \<le> clampLimit limit d m) pages"
proof -
  have "length (filter (\<lambda>it. beyond None (keyOf it)) items) \<le> calls * nat (clampLimit limit d m)"
    using assms(2,4) by (simp add: beyond_def) (metis int_nat_eq of_nat_le_iff of_nat_mult order_less_imp_le)
  from browse_constant [OF assms(1) _ assms(3) this assms(5)] assms(2) show ?thesis
    by (simp add: beyond_def le_nat_iff)
qed

text \<open>A client that pages through a capture still being written sees each policy or sample once: however the lists
  change between the calls, as long as each is in the order of its keys, no key comes twice, and a key
  that is in the list of every call is shown, if the client reaches the last page.\<close>

theorem browse_changing:
  assumes "browse K keyOf limit d m after snapshots = Some pages"
    and "\<forall>items \<in> set snapshots. sorted_wrt (<) (map (key_order \<circ> keyOf) items) \<and> reads_back K (keyOf ` set items)"
    and "0 < clampLimit limit d m"
  shows "sorted_wrt (<) (map (key_order \<circ> keyOf) (concat pages))
    \<and> (\<forall>it \<in> set (concat pages). beyond after (keyOf it))
    \<and> (\<forall>k. beyond after k \<and> (\<forall>items \<in> set snapshots. k \<in> keyOf ` set items) \<longrightarrow> k \<in> keyOf ` set (concat pages))"
  using assms(1,2)
proof (induction snapshots arbitrary: after pages)
  case (Cons items later)
  let ?L = "nat (clampLimit limit d m)"
  let ?F = "filter (\<lambda>it. beyond after (keyOf it)) items"
  have o: "in_order keyOf items" "reads_back K (keyOf ` set items)" and L: "0 < ?L"
    using bspec [OF Cons.prems(2) list.set_intros(1)] assms(3) by (blast, blast, simp)
  note oF = in_order_filter [OF o(1), of "\<lambda>it. beyond after (keyOf it)"]
  show ?case
  proof (cases "?L < length ?F")
    case False
    then have "pages = [?F]" using browse_step [OF o(1) L o(2)] Cons.prems(1) by simp
    then show ?thesis using oF by (auto simp: comp_def)
  next
    case True
    let ?key = "keyOf (?F ! (?L - 1))"
    obtain ps where ps: "browse K keyOf limit d m (Some ?key) later = Some ps" "pages = take ?L ?F # ps"
      using browse_step [OF o(1) L o(2)] Cons.prems(1) True by auto
    have ih: "in_order keyOf (concat ps)" "\<forall>it \<in> set (concat ps). beyond (Some ?key) (keyOf it)"
      "\<And>k. beyond (Some ?key) k \<Longrightarrow> \<forall>items \<in> set later. k \<in> keyOf ` set items \<Longrightarrow> k \<in> keyOf ` set (concat ps)"
      using Cons.IH [OF ps(1) ballI [OF bspec [OF Cons.prems(2) list.set_intros(2)]]] by blast+
    have "?F ! (?L - 1) \<in> set ?F" using True L by (intro nth_mem) simp
    then have k: "beyond after ?key" by simp
    have upto: "\<forall>it \<in> set (take ?L ?F). \<not> beyond (Some ?key) (keyOf it)" by (rule beyond_last(2) [OF oF L True])
    have "in_order keyOf (concat pages)"
      unfolding ps(2) concat.simps map_append sorted_wrt_append
    proof (intro conjI ballI)
      show "in_order keyOf (take ?L ?F)" using oF by (simp add: take_map [symmetric] sorted_wrt_take)
      show "in_order keyOf (concat ps)" by (rule ih(1))
      fix x y assume "x \<in> set (map (key_order \<circ> keyOf) (take ?L ?F))" "y \<in> set (map (key_order \<circ> keyOf) (concat ps))"
      then obtain it it' where i: "it \<in> set (take ?L ?F)" "x = key_order (keyOf it)"
        "it' \<in> set (concat ps)" "y = key_order (keyOf it')" unfolding set_map comp_def by blast
      have "x \<le> key_order ?key"
        using bspec [OF upto i(1)] unfolding beyond_def option.case i(2) not_less .
      moreover have "key_order ?key < y" using bspec [OF ih(2) i(3)] unfolding beyond_def option.case i(4) .
      ultimately show "x < y" by (rule order_le_less_trans)
    qed
    moreover have "\<forall>it \<in> set (concat pages). beyond after (keyOf it)"
    proof
      fix it assume "it \<in> set (concat pages)"
      then consider "it \<in> set ?F" | "it \<in> set (concat ps)" unfolding ps(2) by (auto dest: in_set_takeD)
      then show "beyond after (keyOf it)"
      proof cases
        case 1
        then show ?thesis by simp
      next
        case 2
        then show ?thesis by (rule beyond_trans [OF k bspec [OF ih(2)]])
      qed
    qed
    moreover have "j \<in> keyOf ` set (concat pages)"
      if j: "beyond after j" "\<forall>items \<in> set (items # later). j \<in> keyOf ` set items" for j
    proof (cases "beyond (Some ?key) j")
      case True
      then have "j \<in> keyOf ` set (concat ps)" using ih(3) [of j] j(2) by simp
      then show ?thesis unfolding ps(2) concat.simps set_append image_Un by (rule UnI2)
    next
      case False
      have "j \<in> keyOf ` set items" using j(2) by simp
      then obtain it where it: "it \<in> set ?F" "keyOf it = j" using j(1) by auto
      have "it \<notin> set (filter (\<lambda>it. beyond (Some ?key) (keyOf it)) ?F)" using False it(2) by simp
      then have "it \<notin> set (drop ?L ?F)" unfolding beyond_last(1) [OF oF L \<open>?L < length ?F\<close>] .
      then have "it \<in> set (take ?L ?F)" using it(1) by (metis Un_iff append_take_drop_id set_append)
      then have "it \<in> set (concat pages)" unfolding ps(2) concat.simps set_append by (rule UnI1)
      from imageI [OF this, of keyOf] show ?thesis unfolding it(2) .
    qed
    ultimately show ?thesis by blast
  qed
qed simp

definition demo_key_codec :: key_codec where
  "demo_key_codec = \<lparr>kc_marshal = (\<lambda>k. bk_Namespace k @ [CHR 0x00] @ bk_Workload k),
     kc_unmarshal = (\<lambda>d. case split_on CHR 0x00 d of
        [ns, wl] \<Rightarrow> Some \<lparr>bk_Namespace = ns, bk_Workload = wl, bk_Index = 0\<rparr> | _ \<Rightarrow> None)\<rparr>"

definition demo_boundary :: "string \<Rightarrow> boundary_key" where
  "demo_boundary w = \<lparr>bk_Namespace = ''prod'', bk_Workload = w, bk_Index = 0\<rparr>"

theorem cursor_round_trip_witness:
  "decodeCursor demo_key_codec (encodeCursor demo_key_codec (demo_boundary ''api'')) = Some (demo_boundary ''api'')"
  by (rule cursor_round_trip) code_simp

lemma demo_boundaries:
  "sorted_wrt (<) (map (key_order \<circ> demo_boundary) [''api'', ''db'', ''web''])"
  "sorted_wrt (<) (map (key_order \<circ> demo_boundary) [''api'', ''cache'', ''db'', ''web''])"
  "reads_back demo_key_codec (demo_boundary ` set [''api'', ''db'', ''web''])"
  "reads_back demo_key_codec (demo_boundary ` set [''api'', ''cache'', ''db'', ''web''])"
  by code_simp+

theorem browse_all_witness:
  "\<exists>pages. browse demo_key_codec demo_boundary 2 50 200 None (replicate 2 [''api'', ''db'', ''web'']) = Some pages
    \<and> concat pages = [''api'', ''db'', ''web'']"
proof -
  have "0 < clampLimit 2 50 200" "int (length [''api'', ''db'', ''web'']) \<le> int 2 * clampLimit 2 50 200" "0 < (2 :: nat)"
    by (simp_all add: clampLimit_def)
  from browse_all [OF demo_boundaries(1) this(1) demo_boundaries(3) this(2,3)] show ?thesis by blast
qed

theorem browse_changing_witness:
  "\<forall>k. beyond None k \<and> (\<forall>items \<in> set [[''api'', ''db'', ''web''], [''api'', ''cache'', ''db'', ''web'']]. k \<in> demo_boundary ` set items)
     \<longrightarrow> k \<in> demo_boundary ` set (concat [[''api'', ''db''], [''web'']])"
proof -
  have b: "browse demo_key_codec demo_boundary 2 50 200 None [[''api'', ''db'', ''web''], [''api'', ''cache'', ''db'', ''web'']]
      = Some [[''api'', ''db''], [''web'']]"
    by code_simp
  from browse_changing [OF this] demo_boundaries show ?thesis by (simp add: clampLimit_def comp_def)
qed

end
