(* ===== verification/Queries.thy ===== *)
theory Queries
  imports SessionSetup Explain Pagination Health Output
begin

text \<open>
  The query tools of the MCP server (\<open>cmd/cpg/mcp_query.go\<close>, \<open>mcp_query_flows.go\<close>, \<open>mcp_query_evidence.go\<close>):
  list_policies, get_policy, get_cluster_health, list_dropped_flows and get_evidence, each a function of the
  manager's state, the file system and the arguments.  A call sees one state of the file system;
  different calls may see different ones.  The codecs, the hash and the paths that cannot be read are
  parameters.  Log lines are left out.
\<close>

record query_env =
  qe_paths :: path_env
  qe_keys :: key_codec
  qe_yaml :: yaml_codec
  qe_json :: json_codec
  qe_report :: report_codec
  qe_case :: unicode_case
  qe_reasons :: "string list"
  qe_unreadable :: "string \<Rightarrow> bool"

datatype query_error =
    NoSession session_error
  | BadCursor string
  | ListingFailed string
  | RefusedTarget path_error
  | NoPolicy string string string
  | PolicyUnreadable string
  | PolicyMalformed string
  | NoEvidence string string
  | EvidenceFailed evidence_error
  | PeerNotPair string
  | PeerNotCIDR string
  | HealthFailed health_error
  | EndedBeforeDrops string

definition os_at :: "query_env \<Rightarrow> string \<Rightarrow> os_oracle" where
  "os_at Q path = \<lparr>os_fails = (\<lambda>c. c = ReadFile \<and> qe_unreadable Q path), os_tmp = [], os_partial = []\<rparr>"

section \<open>Directories\<close>

text \<open>
  \<open>os.ReadDir\<close>: the names in a directory in their order, each with whether it is a directory; \<open>None\<close> when
  there is no such directory.  The directories are those the files lie in.
\<close>

definition below :: "string \<Rightarrow> files \<Rightarrow> string list" where
  "below dir fs = map (\<lambda>(path, _). drop (length dir + 1) path) (filter (\<lambda>(path, _). has_prefix path (dir @ ''/'')) fs)"

definition dir_entries :: "string \<Rightarrow> files \<Rightarrow> (string \<times> bool) list" where
  "dir_entries dir fs =
     map (\<lambda>name. (name, list_ex (\<lambda>rest. has_prefix rest (name @ ''/'')) (below dir fs)))
       (sort (remdups (map (cut_before (CHR ''/'')) (below dir fs))))"

datatype listing = Listing "(string \<times> bool) list" | NoDirectory | UnreadableDirectory

definition ReadDir :: "query_env \<Rightarrow> string \<Rightarrow> files \<Rightarrow> listing" where
  "ReadDir Q dir fs =
     (if qe_unreadable Q dir then UnreadableDirectory
      else if below dir fs = [] then NoDirectory else Listing (dir_entries dir fs))"

text \<open>
  The walk list_policies and list_dropped_flows share: for every file with the suffix in every
  directory, what \<open>row\<close> makes of the namespace and the workload; a directory that cannot be read is skipped.
\<close>

definition file_rows :: "query_env \<Rightarrow> string \<Rightarrow> string \<Rightarrow> (string \<Rightarrow> string \<Rightarrow> 'a list) \<Rightarrow> files \<Rightarrow> string \<Rightarrow> 'a list" where
  "file_rows Q dir ext row fs namespace =
     (case ReadDir Q (Join [dir, namespace]) fs of
        Listing entries \<Rightarrow>
          concat (map (\<lambda>(name, isDir).
            if isDir \<or> \<not> has_suffix name ext then [] else row namespace (trim_suffix name ext)) entries)
      | _ \<Rightarrow> [])"

definition walk :: "query_env \<Rightarrow> string \<Rightarrow> string \<Rightarrow> (string \<Rightarrow> string \<Rightarrow> 'a list) \<Rightarrow> files \<Rightarrow> query_error + 'a list" where
  "walk Q dir ext row fs =
     (case ReadDir Q dir fs of
        UnreadableDirectory \<Rightarrow> Inl (ListingFailed dir)
      | NoDirectory \<Rightarrow> Inr []
      | Listing entries \<Rightarrow>
          Inr (concat (map (\<lambda>(name, isDir). if isDir then file_rows Q dir ext row fs name else []) entries)))"

definition resolveSession :: "time \<Rightarrow> bool \<Rightarrow> files \<Rightarrow> world \<Rightarrow> string \<Rightarrow> query_error + status_result" where
  "resolveSession now globFails fs w sid =
     (case Status now globFails fs sid w of Inl e \<Rightarrow> Inl (NoSession e) | Inr st \<Rightarrow> Inr st)"

text \<open>The cursor argument: no cursor, or the key it stands for.\<close>

definition cursor_key :: "query_env \<Rightarrow> string \<Rightarrow> query_error + boundary_key option" where
  "cursor_key Q cursor =
     (if cursor = [] then Inr None
      else case decodeCursor (qe_keys Q) cursor of None \<Rightarrow> Inl (BadCursor cursor) | Some key \<Rightarrow> Inr (Some key))"

text \<open>One page of a tool's answer.\<close>

record 'a page_result =
  pg_Items :: "'a list"
  pg_TotalCount :: nat
  pg_HasMore :: bool
  pg_NextCursor :: string

definition page_of :: "query_env \<Rightarrow> 'a list \<Rightarrow> ('a \<Rightarrow> boundary_key) \<Rightarrow> boundary_key option \<Rightarrow> int \<Rightarrow> int \<Rightarrow> int \<Rightarrow> 'a page_result" where
  "page_of Q items keyOf after limit defaultLimit maxLimit =
     (case paginate (qe_keys Q) items keyOf after limit defaultLimit maxLimit of
        (page, nextCursor, hasMore, totalCount) \<Rightarrow>
          \<lparr>pg_Items = page, pg_TotalCount = totalCount, pg_HasMore = hasMore, pg_NextCursor = nextCursor\<rparr>)"

section \<open>Policies\<close>

record policyMetaRow =
  mr_Namespace :: string
  mr_Workload :: string
  mr_Name :: string
  mr_Directions :: "string list"
  mr_IngressRuleCount :: nat
  mr_EgressRuleCount :: nat
  mr_Path :: string

definition rule_counts :: "cnp \<Rightarrow> nat \<times> nat" where
  "rule_counts p = (case cnp_Spec p of None \<Rightarrow> (0, 0) | Some r \<Rightarrow> (length (ru_Ingress r), length (ru_Egress r)))"

definition policyRowFromCNP :: "string \<Rightarrow> string \<Rightarrow> string \<Rightarrow> cnp \<Rightarrow> policyMetaRow" where
  "policyRowFromCNP namespace workload path p =
     (case rule_counts p of (i, e) \<Rightarrow>
        \<lparr>mr_Namespace = namespace, mr_Workload = workload, mr_Name = cnp_Name p,
         mr_Directions = (if 0 < i then [''ingress''] else []) @ (if 0 < e then [''egress''] else []),
         mr_IngressRuleCount = i, mr_EgressRuleCount = e, mr_Path = path\<rparr>)"

definition policy_row :: "query_env \<Rightarrow> string \<Rightarrow> files \<Rightarrow> string \<Rightarrow> string \<Rightarrow> policyMetaRow list" where
  "policy_row Q dir fs namespace workload =
     (let path = Join [Join [dir, namespace], workload @ ''.yaml'']
      in case ReadPolicyFile (qe_yaml Q) (os_at Q path) path fs of
           Inl _ \<Rightarrow> []
         | Inr p \<Rightarrow> [policyRowFromCNP namespace workload path p])"

definition row_key :: "policyMetaRow \<Rightarrow> boundary_key" where
  "row_key r = \<lparr>bk_Namespace = mr_Namespace r, bk_Workload = mr_Workload r, bk_Index = 0\<rparr>"

record listPoliciesArgs =
  la_SessionID :: string
  la_Limit :: int
  la_Cursor :: string

definition handleListPolicies ::
  "query_env \<Rightarrow> time \<Rightarrow> bool \<Rightarrow> files \<Rightarrow> world \<Rightarrow> listPoliciesArgs \<Rightarrow> query_error + policyMetaRow page_result" where
  "handleListPolicies Q now globFails fs w args =
     (case resolveSession now globFails fs w (la_SessionID args) of
        Inl e \<Rightarrow> Inl e
      | Inr status \<Rightarrow>
          (case cursor_key Q (la_Cursor args) of
             Inl e \<Rightarrow> Inl e
           | Inr after \<Rightarrow>
               (let dir = Join [st_TmpDir status, ''policies'']
                in case walk Q dir ''.yaml'' (policy_row Q dir fs) fs of
                     Inl e \<Rightarrow> Inl e
                   | Inr rows \<Rightarrow> Inr (page_of Q rows row_key after (la_Limit args) defaultFlowLimit maxFlowLimit))))"

record getPolicyResult =
  gp_Namespace :: string
  gp_Workload :: string
  gp_Name :: string
  gp_YAML :: string
  gp_Path :: string
  gp_IngressRuleCount :: nat
  gp_EgressRuleCount :: nat

definition handleGetPolicy ::
  "query_env \<Rightarrow> time \<Rightarrow> bool \<Rightarrow> files \<Rightarrow> world \<Rightarrow> string \<Rightarrow> string \<Rightarrow> string \<Rightarrow> query_error + getPolicyResult" where
  "handleGetPolicy Q now globFails fs w sid namespace workload =
     (case resolveSession now globFails fs w sid of
        Inl e \<Rightarrow> Inl e
      | Inr status \<Rightarrow>
          (case ValidatePolicyRef namespace workload of
             Some e \<Rightarrow> Inl (RefusedTarget e)
           | None \<Rightarrow>
               (let path = Join [st_TmpDir status, ''policies'', namespace, workload @ ''.yaml'']
                in if qe_unreadable Q path then Inl (PolicyUnreadable path)
                   else case map_of fs path of
                          None \<Rightarrow> Inl (NoPolicy namespace workload path)
                        | Some yamlBytes \<Rightarrow>
                            (case UnmarshalPolicy (qe_yaml Q) yamlBytes of
                               Inl _ \<Rightarrow> Inl (PolicyMalformed path)
                             | Inr p \<Rightarrow>
                                 (case rule_counts p of (i, e) \<Rightarrow>
                                    Inr \<lparr>gp_Namespace = namespace, gp_Workload = workload, gp_Name = cnp_Name p, gp_YAML = yamlBytes,
                                         gp_Path = path, gp_IngressRuleCount = i, gp_EgressRuleCount = e\<rparr>)))))"

section \<open>Cluster health\<close>

definition maxHealthMapEntries :: nat where "maxHealthMapEntries = 100"

text \<open>The largest counts first, equal counts by key.\<close>

definition health_order :: "string \<times> u64 \<Rightarrow> int \<times> string" where
  "health_order e = (- uint (snd e), fst e)"

definition capHealthCountMap :: "(string \<times> u64) list \<Rightarrow> (string \<times> u64) list \<times> bool" where
  "capHealthCountMap m =
     (if length m \<le> maxHealthMapEntries then (m, False)
      else (take maxHealthMapEntries (sort_key health_order m), True))"

definition cap_drop :: "health_drop_json \<Rightarrow> health_drop_json \<times> bool" where
  "cap_drop d =
     (case capHealthCountMap (hd_ByNode d) of
        (nodes, t1) \<Rightarrow> case capHealthCountMap (hd_ByWorkload d) of
          (workloads, t2) \<Rightarrow> (d\<lparr>hd_ByNode := nodes, hd_ByWorkload := workloads\<rparr>, t1 \<or> t2))"

definition capClusterHealthReport :: "cluster_health_report \<Rightarrow> cluster_health_report \<times> bool" where
  "capClusterHealthReport report =
     (let ds = map cap_drop (hr_Drops report) in (report\<lparr>hr_Drops := map fst ds\<rparr>, list_ex snd ds))"

datatype cluster_health_answer =
    AvailableAfterStop
  | NoDrops
  | HealthReport cluster_health_report bool

definition clusterHealthBranch :: "query_env \<Rightarrow> files \<Rightarrow> status_result \<Rightarrow> string \<Rightarrow> query_error + cluster_health_answer" where
  "clusterHealthBranch Q fs status healthPath =
     (if st_State status = State_String StateCapturing then Inr AvailableAfterStop
      else case ReadClusterHealth (qe_report Q) (os_at Q healthPath) healthPath fs of
             Inl HealthNotExist \<Rightarrow> if st_Error status = [] then Inr NoDrops else Inl (EndedBeforeDrops (st_Error status))
           | Inl e \<Rightarrow> Inl (HealthFailed e)
           | Inr report \<Rightarrow> (case capClusterHealthReport report of (r, truncated) \<Rightarrow> Inr (HealthReport r truncated)))"

definition handleGetClusterHealth ::
  "query_env \<Rightarrow> time \<Rightarrow> bool \<Rightarrow> files \<Rightarrow> world \<Rightarrow> string \<Rightarrow> query_error + cluster_health_answer" where
  "handleGetClusterHealth Q now globFails fs w sid =
     (case resolveSession now globFails fs w sid of
        Inl e \<Rightarrow> Inl e
      | Inr status \<Rightarrow>
          clusterHealthBranch Q fs status (sq_ClusterHealthPath (DeriveSessionPaths (qe_paths Q) (st_TmpDir status))))"

section \<open>Dropped flows\<close>

record DroppedFlowSample =
  ds_Namespace :: string
  ds_Workload :: string
  ds_Direction :: string
  ds_Peer :: peer_ref
  ds_Port :: string
  ds_Protocol :: string
  ds_Time :: time
  ds_Src :: flow_endpoint
  ds_Dst :: flow_endpoint
  ds_Verdict :: string
  ds_DropReason :: string

record droppedFlowAggregateRow =
  dw_Namespace :: string
  dw_Workload :: string
  dw_Reason :: string
  dw_Class :: string
  dw_Count :: u64

datatype flow_entry = Sample DroppedFlowSample | Aggregate droppedFlowAggregateRow

record droppedFlowItem =
  di_namespace :: string
  di_workload :: string
  di_index :: int
  di_entry :: flow_entry

definition flow_samples :: "string \<Rightarrow> string \<Rightarrow> rule_evidence \<Rightarrow> DroppedFlowSample list" where
  "flow_samples namespace workload rule =
     map (\<lambda>s. \<lparr>ds_Namespace = namespace, ds_Workload = workload, ds_Direction = re_Direction rule, ds_Peer = re_Peer rule,
                ds_Port = re_Port rule, ds_Protocol = re_Protocol rule, ds_Time = fs_Time s, ds_Src = fs_Src s, ds_Dst = fs_Dst s,
                ds_Verdict = fs_Verdict s, ds_DropReason = fs_DropReason s\<rparr>) (re_Samples rule)"

definition evidence_reader :: "string \<Rightarrow> string \<Rightarrow> evidence_store" where
  "evidence_reader dir hash = \<lparr>es_evidenceDir = dir, es_outputHash = hash, es_caps = \<lparr>mc_MaxSamples = 0, mc_MaxSessions = 0\<rparr>\<rparr>"

definition read_evidence_at :: "query_env \<Rightarrow> string \<Rightarrow> string \<Rightarrow> files \<Rightarrow> string \<Rightarrow> string \<Rightarrow> evidence_error + policy_evidence" where
  "read_evidence_at Q evidenceDir outputHash fs namespace workload =
     ReadEvidence (qe_json Q) (os_at Q (ResolvePolicyPath evidenceDir outputHash namespace workload))
       (evidence_reader evidenceDir outputHash) namespace workload fs"

definition workload_samples :: "query_env \<Rightarrow> string \<Rightarrow> string \<Rightarrow> files \<Rightarrow> string \<Rightarrow> string \<Rightarrow> DroppedFlowSample list" where
  "workload_samples Q evidenceDir outputHash fs namespace workload =
     (case read_evidence_at Q evidenceDir outputHash fs namespace workload of
        Inl _ \<Rightarrow> []
      | Inr pe \<Rightarrow> concat (map (flow_samples namespace workload) (pv_Rules pe)))"

definition collectDroppedFlowSamples :: "query_env \<Rightarrow> string \<Rightarrow> string \<Rightarrow> files \<Rightarrow> query_error + DroppedFlowSample list" where
  "collectDroppedFlowSamples Q evidenceDir outputHash fs =
     walk Q (Join [evidenceDir, outputHash]) ''.json'' (workload_samples Q evidenceDir outputHash fs) fs"

definition splitWorkloadKey :: "string \<Rightarrow> string \<times> string" where
  "splitWorkloadKey key =
     (if CHR ''/'' \<notin> set key then (''_unknown'', key)
      else (cut_before (CHR ''/'') key, drop (Suc (length (cut_before (CHR ''/'') key))) key))"

definition drop_rows :: "health_drop_json \<Rightarrow> droppedFlowAggregateRow list" where
  "drop_rows d =
     map (\<lambda>(wkey, n). case splitWorkloadKey wkey of
            (ns, workload) \<Rightarrow> \<lparr>dw_Namespace = ns, dw_Workload = workload, dw_Reason = hd_Reason d, dw_Class = hd_Class d, dw_Count = n\<rparr>)
       (hd_ByWorkload d)"

definition collectDroppedFlowAggregates :: "cluster_health_report \<Rightarrow> droppedFlowAggregateRow list" where
  "collectDroppedFlowAggregates report =
     sort_key (\<lambda>r. (dw_Namespace r, dw_Workload r, dw_Reason r)) (concat (map drop_rows (hr_Drops report)))"

definition validateFilterComponent :: "string \<Rightarrow> string \<Rightarrow> path_error option" where
  "validateFilterComponent kind value =
     (if value = [] then None
      else if kind = ''namespace'' then ValidatePolicyRef value ''_'' else ValidatePolicyRef ''_'' value)"

definition matchesNamespaceWorkload :: "string \<Rightarrow> string \<Rightarrow> string \<Rightarrow> string \<Rightarrow> bool" where
  "matchesNamespaceWorkload filterNS filterWL itemNS itemWL \<longleftrightarrow>
     (filterNS = [] \<or> filterNS = itemNS) \<and> (filterWL = [] \<or> filterWL = itemWL)"

definition matchesDropClass :: "DropClass \<Rightarrow> string \<Rightarrow> bool" where
  "matchesDropClass c flt \<longleftrightarrow> flt = [] \<or> DropClass_String c = flt"

text \<open>The class does not depend on the state of the classifier's warnings.\<close>

definition classifyDropReasonName :: "query_env \<Rightarrow> warn_state \<Rightarrow> string \<Rightarrow> DropClass" where
  "classifyDropReasonName Q st name =
     (if name = [] then DropClassUnknown
      else if name \<in> set (qe_reasons Q) then
        (if name = ''DROP_REASON_UNKNOWN'' then DropClassUnknown else fst (Classify (DropReason name) st))
      else DropClassUnknown)"

fun entry_place :: "flow_entry \<Rightarrow> string \<times> string" where
  "entry_place (Sample s) = (ds_Namespace s, ds_Workload s)"
| "entry_place (Aggregate a) = (dw_Namespace a, dw_Workload a)"

text \<open>Samples come before aggregates of the same workload; the sort keeps the order of equal ones.\<close>

fun entry_rank :: "flow_entry \<Rightarrow> (string \<times> string) \<times> nat" where
  "entry_rank (Sample s) = (entry_place (Sample s), 0)"
| "entry_rank (Aggregate a) = (entry_place (Aggregate a), 1)"

text \<open>The positions within each group of one namespace and workload.\<close>

fun number_items :: "(string \<times> string) option \<Rightarrow> int \<Rightarrow> flow_entry list \<Rightarrow> droppedFlowItem list" where
  "number_items prev idx [] = []"
| "number_items prev idx (e # es) =
     (let i = (if prev = Some (entry_place e) then idx else 0)
      in \<lparr>di_namespace = fst (entry_place e), di_workload = snd (entry_place e), di_index = i, di_entry = e\<rparr>
         # number_items (Some (entry_place e)) (i + 1) es)"

definition buildCombinedItems :: "DroppedFlowSample list \<Rightarrow> droppedFlowAggregateRow list \<Rightarrow> droppedFlowItem list" where
  "buildCombinedItems samples aggregates =
     number_items None 0 (sort_key entry_rank (map Sample samples @ map Aggregate aggregates))"

definition item_key :: "droppedFlowItem \<Rightarrow> boundary_key" where
  "item_key it = \<lparr>bk_Namespace = di_namespace it, bk_Workload = di_workload it, bk_Index = di_index it\<rparr>"

record listDroppedFlowsArgs =
  da_SessionID :: string
  da_Namespace :: string
  da_Workload :: string
  da_DropClass :: string
  da_Direction :: string
  da_Limit :: int
  da_Cursor :: string

record listDroppedFlowsResult =
  dr_Samples :: "DroppedFlowSample list"
  dr_AvailableAfterStop :: bool
  dr_Rows :: "droppedFlowAggregateRow list"
  dr_TotalCount :: nat
  dr_HasMore :: bool
  dr_NextCursor :: string

text \<open>A missing report of a stopped session stands for no suppressed drops.\<close>

definition aggregate_rows :: "query_env \<Rightarrow> files \<Rightarrow> status_result \<Rightarrow> string \<Rightarrow> query_error + droppedFlowAggregateRow list" where
  "aggregate_rows Q fs status healthPath =
     (if st_State status = State_String StateCapturing then Inr []
      else case ReadClusterHealth (qe_report Q) (os_at Q healthPath) healthPath fs of
             Inl HealthNotExist \<Rightarrow> Inr []
           | Inl e \<Rightarrow> Inl (HealthFailed e)
           | Inr report \<Rightarrow> Inr (collectDroppedFlowAggregates report))"

definition keep_sample :: "query_env \<Rightarrow> warn_state \<Rightarrow> listDroppedFlowsArgs \<Rightarrow> DroppedFlowSample \<Rightarrow> bool" where
  "keep_sample Q st args s \<longleftrightarrow>
     matchesNamespaceWorkload (da_Namespace args) (da_Workload args) (ds_Namespace s) (ds_Workload s)
     \<and> (da_Direction args = [] \<or> ds_Direction s = da_Direction args)
     \<and> matchesDropClass (classifyDropReasonName Q st (ds_DropReason s)) (da_DropClass args)"

definition keep_row :: "listDroppedFlowsArgs \<Rightarrow> droppedFlowAggregateRow \<Rightarrow> bool" where
  "keep_row args r \<longleftrightarrow>
     matchesNamespaceWorkload (da_Namespace args) (da_Workload args) (dw_Namespace r) (dw_Workload r)
     \<and> (da_DropClass args = [] \<or> dw_Class r = da_DropClass args)"

definition samples_of :: "flow_entry list \<Rightarrow> DroppedFlowSample list" where
  "samples_of es = List.map_filter (\<lambda>e. case e of Sample s \<Rightarrow> Some s | Aggregate _ \<Rightarrow> None) es"

definition rows_of :: "flow_entry list \<Rightarrow> droppedFlowAggregateRow list" where
  "rows_of es = List.map_filter (\<lambda>e. case e of Sample _ \<Rightarrow> None | Aggregate a \<Rightarrow> Some a) es"

text \<open>The filtered view a call pages through, or the error that ends the call before it looks at the cursor.\<close>

definition dropped_view ::
  "query_env \<Rightarrow> warn_state \<Rightarrow> files \<Rightarrow> status_result \<Rightarrow> listDroppedFlowsArgs \<Rightarrow> query_error + droppedFlowItem list" where
  "dropped_view Q st fs status args =
     (case validateFilterComponent ''namespace'' (da_Namespace args) of
        Some e \<Rightarrow> Inl (RefusedTarget e)
      | None \<Rightarrow>
          (case validateFilterComponent ''workload'' (da_Workload args) of
             Some e \<Rightarrow> Inl (RefusedTarget e)
           | None \<Rightarrow>
               (let paths = DeriveSessionPaths (qe_paths Q) (st_TmpDir status)
                in case collectDroppedFlowSamples Q (sq_EvidenceDir paths) (sq_OutputHash paths) fs of
                     Inl e \<Rightarrow> Inl e
                   | Inr samples \<Rightarrow>
                       (case aggregate_rows Q fs status (sq_ClusterHealthPath paths) of
                          Inl e \<Rightarrow> Inl e
                        | Inr rows \<Rightarrow>
                            Inr (buildCombinedItems (filter (keep_sample Q st args) samples) (filter (keep_row args) rows))))))"

definition handleListDroppedFlows ::
  "query_env \<Rightarrow> warn_state \<Rightarrow> time \<Rightarrow> bool \<Rightarrow> files \<Rightarrow> world \<Rightarrow> listDroppedFlowsArgs \<Rightarrow> query_error + listDroppedFlowsResult" where
  "handleListDroppedFlows Q st now globFails fs w args =
     (case resolveSession now globFails fs w (da_SessionID args) of
        Inl e \<Rightarrow> Inl e
      | Inr status \<Rightarrow>
          (case dropped_view Q st fs status args of
             Inl e \<Rightarrow> Inl e
           | Inr items \<Rightarrow>
               (case cursor_key Q (da_Cursor args) of
                  Inl e \<Rightarrow> Inl e
                | Inr after \<Rightarrow>
                    (let p = page_of Q items item_key after (da_Limit args) defaultFlowLimit maxFlowLimit; es = map di_entry (pg_Items p)
                     in Inr \<lparr>dr_Samples = samples_of es, dr_AvailableAfterStop = (st_State status = State_String StateCapturing),
                             dr_Rows = rows_of es, dr_TotalCount = pg_TotalCount p, dr_HasMore = pg_HasMore p,
                             dr_NextCursor = pg_NextCursor p\<rparr>))))"

section \<open>Evidence\<close>

record getEvidenceArgs =
  ga_SessionID :: string
  ga_Namespace :: string
  ga_Workload :: string
  ga_Direction :: string
  ga_Port :: string
  ga_Peer :: string
  ga_PeerCIDR :: string
  ga_HTTPMethod :: string
  ga_HTTPPath :: string
  ga_DNSPattern :: string
  ga_Limit :: int
  ga_Cursor :: string

record getEvidenceResult =
  ge_Policy :: policy_ref
  ge_Sessions :: "session_info list"
  ge_MatchedRules :: "rule_evidence list"
  ge_TotalCount :: nat
  ge_HasMore :: bool
  ge_NextCursor :: string

definition buildEvidenceFilter :: "unicode_case \<Rightarrow> getEvidenceArgs \<Rightarrow> query_error + Filter" where
  "buildEvidenceFilter U args =
     (case peer_label_of (ga_Peer args) of
        None \<Rightarrow> Inl (PeerNotPair (ga_Peer args))
      | Some l \<Rightarrow>
          (case peer_cidr_of (ga_PeerCIDR args) of
             None \<Rightarrow> Inl (PeerNotCIDR (ga_PeerCIDR args))
           | Some c \<Rightarrow>
               Inr \<lparr>ft_Direction = ga_Direction args, ft_Port = ga_Port args, ft_PeerLabel = l, ft_PeerCIDR = c, ft_Since = 0, ft_Now = 0,
                    ft_HTTPMethod = normal_method U (ga_HTTPMethod args), ft_HTTPPath = ga_HTTPPath args,
                    ft_DNSPattern = normal_pattern (ga_DNSPattern args)\<rparr>))"

text \<open>A rule with its position among all the rules of the file.\<close>

definition matched_rules :: "Filter \<Rightarrow> policy_evidence \<Rightarrow> (nat \<times> rule_evidence) list" where
  "matched_rules flt pe = filter (\<lambda>(_, r). Match flt r) (enumerate 0 (pv_Rules pe))"

definition rule_position_key :: "getEvidenceArgs \<Rightarrow> nat \<times> rule_evidence \<Rightarrow> boundary_key" where
  "rule_position_key args ir = \<lparr>bk_Namespace = ga_Namespace args, bk_Workload = ga_Workload args, bk_Index = int (fst ir)\<rparr>"

definition evidence_view :: "query_env \<Rightarrow> files \<Rightarrow> status_result \<Rightarrow> getEvidenceArgs \<Rightarrow> query_error + policy_evidence \<times> Filter" where
  "evidence_view Q fs status args =
     (case ValidatePolicyRef (ga_Namespace args) (ga_Workload args) of
        Some e \<Rightarrow> Inl (RefusedTarget e)
      | None \<Rightarrow>
          (let paths = DeriveSessionPaths (qe_paths Q) (st_TmpDir status)
           in case read_evidence_at Q (sq_EvidenceDir paths) (sq_OutputHash paths) fs (ga_Namespace args) (ga_Workload args) of
                Inl NotExist \<Rightarrow> Inl (NoEvidence (ga_Namespace args) (ga_Workload args))
              | Inl e \<Rightarrow> Inl (EvidenceFailed e)
              | Inr pe \<Rightarrow>
                  (case buildEvidenceFilter (qe_case Q) args of Inl e \<Rightarrow> Inl e | Inr flt \<Rightarrow> Inr (pe, flt))))"

definition handleGetEvidence ::
  "query_env \<Rightarrow> time \<Rightarrow> bool \<Rightarrow> files \<Rightarrow> world \<Rightarrow> getEvidenceArgs \<Rightarrow> query_error + getEvidenceResult" where
  "handleGetEvidence Q now globFails fs w args =
     (case resolveSession now globFails fs w (ga_SessionID args) of
        Inl e \<Rightarrow> Inl e
      | Inr status \<Rightarrow>
          (case evidence_view Q fs status args of
             Inl e \<Rightarrow> Inl e
           | Inr (pe, flt) \<Rightarrow>
               (case cursor_key Q (ga_Cursor args) of
                  Inl e \<Rightarrow> Inl e
                | Inr after \<Rightarrow>
                    (let p = page_of Q (matched_rules flt pe) (rule_position_key args) after (ga_Limit args) defaultEvidenceLimit maxEvidenceLimit
                     in Inr \<lparr>ge_Policy = pv_Policy pe, ge_Sessions = pv_Sessions pe, ge_MatchedRules = map snd (pg_Items p),
                             ge_TotalCount = pg_TotalCount p, ge_HasMore = pg_HasMore p, ge_NextCursor = pg_NextCursor p\<rparr>))))"

end
