(* ===== verification/QueriesSpec.thy ===== *)
theory QueriesSpec
  imports Queries OnDisk
begin

text \<open>
  What the query tools show to a client that follows their cursors (\<open>list_policies\<close>, \<open>list_dropped_flows\<close>,
  \<open>get_evidence\<close>), what the cap on the health report keeps, and what a capture wrote is what get_policy
  reads back.
\<close>

section \<open>Following the cursors of a tool\<close>

text \<open>
  A client passes each cursor to the next call; \<open>answer\<close> is what a call gives for a cursor and what it sees,
  reduced to the page, the next cursor and whether more items remain.
\<close>

fun follow :: "(string \<Rightarrow> 'f \<Rightarrow> 'e + 'b \<times> string \<times> bool) \<Rightarrow> string \<Rightarrow> 'f list \<Rightarrow> 'b list option" where
  "follow answer cursor [] = None"
| "follow answer cursor (f # fs) =
     (case answer cursor f of
        Inl _ \<Rightarrow> None
      | Inr (page, next_cursor, again) \<Rightarrow>
          if again then map_option (\<lambda>ps. page # ps) (follow answer next_cursor fs) else Some [page])"

text \<open>Keys whose JSON form is read back and is not empty.\<close>

definition keys_read_back :: "key_codec \<Rightarrow> boundary_key set \<Rightarrow> bool" where
  "keys_read_back K ks \<longleftrightarrow> reads_back K ks \<and> (\<forall>k \<in> ks. kc_marshal K k \<noteq> [])"

lemma encodeCursor_not_Nil: "kc_marshal K k \<noteq> [] \<Longrightarrow> encodeCursor K k \<noteq> []"
  using base64_round_trip [of "kc_marshal K k"] by (auto simp: encodeCursor_def DecodeString_def)

lemma cursor_key_encode:
  "keys_read_back (qe_keys Q) ks \<Longrightarrow> k \<in> ks \<Longrightarrow> cursor_key Q (encodeCursor (qe_keys Q) k) = Inr (Some k)"
  by (auto simp: cursor_key_def keys_read_back_def reads_back_def encodeCursor_not_Nil)
    (simp add: decodeCursor_def encodeCursor_def base64_round_trip)

lemma paginate_cursor:
  assumes "paginate K items keyOf after limit d m = (page, next_cursor, True, totalCount)" and "0 < clampLimit limit d m"
  shows "\<exists>it \<in> set items. next_cursor = encodeCursor K (keyOf it)"
proof -
  let ?stop = "min (page_start keyOf after items + nat (clampLimit limit d m)) (length items)"
  have e: "?stop < length items" "next_cursor = encodeCursor K (keyOf (items ! (?stop - 1)))"
    using assms(1) by (auto simp: paginate_def Let_def split: if_splits)
  then have "?stop - 1 < length items" by simp
  then show ?thesis using e(2) by auto
qed

text \<open>
  The contract of a paginated tool: on every state of the files it can serve, a page of its view, or an
  error when the cursor is refused.
\<close>

locale paged_tool =
  fixes Q :: query_env
    and serves :: "'f \<Rightarrow> bool"
    and answer :: "string \<Rightarrow> 'f \<Rightarrow> 'e + 'b \<times> string \<times> bool"
    and view :: "'f \<Rightarrow> 'a list"
    and keyOf :: "'a \<Rightarrow> boundary_key"
    and out :: "'a list \<Rightarrow> 'b"
    and limit d m :: int
  assumes answers: "serves f \<Longrightarrow> cursor_key Q c = Inr after \<Longrightarrow>
      answer c f = Inr (let p = page_of Q (view f) keyOf after limit d m in (out (pg_Items p), pg_NextCursor p, pg_HasMore p))"
    and refuses: "serves f \<Longrightarrow> cursor_key Q c = Inl e \<Longrightarrow> isl (answer c f)"
    and limits: "0 < clampLimit limit d m"
begin

lemma follow_browse:
  assumes "\<forall>f \<in> set fs. serves f \<and> keys_read_back (qe_keys Q) (keyOf ` set (view f))" and "cursor_key Q cursor = Inr after"
  shows "follow answer cursor fs = map_option (map out) (browse (qe_keys Q) keyOf limit d m after (map view fs))"
  using assms
proof (induction fs arbitrary: cursor after)
  case (Cons f fs)
  have f: "serves f" "keys_read_back (qe_keys Q) (keyOf ` set (view f))" using Cons.prems(1) by simp_all
  obtain page nxt again totalCount where p: "paginate (qe_keys Q) (view f) keyOf after limit d m = (page, nxt, again, totalCount)"
    by (metis prod.exhaust)
  have a: "answer cursor f = Inr (out page, nxt, again)" using answers [OF f(1) Cons.prems(2)] by (simp add: page_of_def p)
  show ?case
  proof (cases again)
    case True
    obtain it where "it \<in> set (view f)" "nxt = encodeCursor (qe_keys Q) (keyOf it)"
      using paginate_cursor [of "qe_keys Q" "view f" keyOf after limit d m page nxt totalCount] p True limits by auto
    then have n: "cursor_key Q nxt = Inr (Some (keyOf it))" "decodeCursor (qe_keys Q) nxt = Some (keyOf it)"
      using cursor_key_encode [OF f(2)] f(2) by (auto simp: keys_read_back_def reads_back_def decodeCursor_def encodeCursor_def base64_round_trip)
    then show ?thesis using Cons.IH [OF _ n(1)] Cons.prems(1) by (simp add: a p True option.map_comp comp_def)
  qed (simp add: a p)
qed simp

text \<open>Over unchanging files every item of the view is shown once, in order, within the calls its pages need.\<close>

lemma shows_all:
  assumes "serves f" and "keys_read_back (qe_keys Q) (keyOf ` set (view f))"
    and "sorted_wrt (<) (map (key_order \<circ> keyOf) (view f))"
    and "int (length (view f)) \<le> int calls * clampLimit limit d m" and "0 < calls"
  shows "\<exists>pages. follow answer [] (replicate calls f) = Some (map out pages) \<and> concat pages = view f"
proof -
  have "length (filter (\<lambda>it. beyond None (keyOf it)) (view f)) \<le> calls * nat (clampLimit limit d m)"
    using limits assms(4) by (simp add: beyond_def) (metis int_nat_eq of_nat_le_iff of_nat_mult order_less_imp_le)
  moreover have "reads_back (qe_keys Q) (keyOf ` set (view f))" using assms(2) by (simp add: keys_read_back_def)
  ultimately obtain pages where "browse (qe_keys Q) keyOf limit d m None (replicate calls (view f)) = Some pages"
      "concat pages = filter (\<lambda>it. beyond None (keyOf it)) (view f)"
    using browse_constant [OF assms(3), of limit d m "qe_keys Q" None calls] limits assms(5) by auto
  moreover from this have "follow answer [] (replicate calls f) = map_option (map out) (Some pages)"
    using follow_browse [of "replicate calls f" "[]" None] assms(1,2) by (simp add: cursor_key_def)
  ultimately show ?thesis by (intro exI [of _ pages]) (simp add: beyond_def)
qed

text \<open>Over files that change between the calls no key comes twice, and a key that every call could show is shown.\<close>

lemma shows_lasting:
  assumes "\<forall>f \<in> set fs. serves f \<and> keys_read_back (qe_keys Q) (keyOf ` set (view f)) \<and> sorted_wrt (<) (map (key_order \<circ> keyOf) (view f))"
    and "follow answer [] fs = Some outs"
  shows "\<exists>pages. outs = map out pages \<and> sorted_wrt (<) (map (key_order \<circ> keyOf) (concat pages))
    \<and> (\<forall>k. (\<forall>f \<in> set fs. k \<in> keyOf ` set (view f)) \<longrightarrow> k \<in> keyOf ` set (concat pages))"
proof -
  have "follow answer [] fs = map_option (map out) (browse (qe_keys Q) keyOf limit d m None (map view fs))"
    using assms(1) by (intro follow_browse) (simp_all add: cursor_key_def)
  then obtain pages where b: "browse (qe_keys Q) keyOf limit d m None (map view fs) = Some pages" "outs = map out pages"
    using assms(2) by (cases "browse (qe_keys Q) keyOf limit d m None (map view fs)") simp_all
  have "\<forall>items \<in> set (map view fs). sorted_wrt (<) (map (key_order \<circ> keyOf) items) \<and> reads_back (qe_keys Q) (keyOf ` set items)"
    using assms(1) by (auto simp: keys_read_back_def)
  from browse_changing [OF b(1) this limits] have "sorted_wrt (<) (map (key_order \<circ> keyOf) (concat pages))"
      "\<forall>k. (\<forall>items \<in> set (map view fs). k \<in> keyOf ` set items) \<longrightarrow> k \<in> keyOf ` set (concat pages)"
    by (auto simp: beyond_def)
  then show ?thesis using b(2) by auto
qed

end

lemma clampLimit_defaults [simp]: "0 < clampLimit limit defaultFlowLimit maxFlowLimit" "0 < clampLimit limit defaultEvidenceLimit maxEvidenceLimit"
  by (simp_all add: clampLimit_def defaultFlowLimit_def maxFlowLimit_def defaultEvidenceLimit_def maxEvidenceLimit_def)

section \<open>The three paginated tools\<close>

definition evidence_state :: "query_env \<Rightarrow> time \<Rightarrow> bool \<Rightarrow> world \<Rightarrow> getEvidenceArgs \<Rightarrow> files \<Rightarrow> query_error + policy_evidence \<times> Filter" where
  "evidence_state Q now g w args fs =
     (case resolveSession now g fs w (ga_SessionID args) of Inl e \<Rightarrow> Inl e | Inr status \<Rightarrow> evidence_view Q fs status args)"

definition evidence_answer ::
  "query_env \<Rightarrow> time \<Rightarrow> bool \<Rightarrow> world \<Rightarrow> getEvidenceArgs \<Rightarrow> string \<Rightarrow> files \<Rightarrow> query_error + rule_evidence list \<times> string \<times> bool" where
  "evidence_answer Q now g w args cursor fs =
     map_sum id (\<lambda>r. (ge_MatchedRules r, ge_NextCursor r, ge_HasMore r)) (handleGetEvidence Q now g fs w (args\<lparr>ga_Cursor := cursor\<rparr>))"

lemma evidence_answer_cases:
  "evidence_answer Q now g w args cursor fs =
     (case evidence_state Q now g w args fs of
        Inl e \<Rightarrow> Inl e
      | Inr (pe, flt) \<Rightarrow>
          (case cursor_key Q cursor of
             Inl e \<Rightarrow> Inl e
           | Inr after \<Rightarrow>
               Inr (let p = page_of Q (matched_rules flt pe) (rule_position_key args) after (ga_Limit args) defaultEvidenceLimit maxEvidenceLimit
                    in (map snd (pg_Items p), pg_NextCursor p, pg_HasMore p))))"
proof -
  have "evidence_view Q fs status (args\<lparr>ga_Cursor := cursor\<rparr>) = evidence_view Q fs status args" for status
    by (simp add: evidence_view_def buildEvidenceFilter_def cong: option.case_cong sum.case_cong evidence_error.case_cong)
  moreover have "rule_position_key (args\<lparr>ga_Cursor := cursor\<rparr>) = rule_position_key args"
    by (simp add: rule_position_key_def fun_eq_iff)
  ultimately show ?thesis
    by (simp add: evidence_answer_def evidence_state_def handleGetEvidence_def Let_def split: sum.split prod.split)
qed

interpretation evidence_tool: paged_tool Q "\<lambda>fs. \<not> isl (evidence_state Q now g w args fs)" "evidence_answer Q now g w args"
  "\<lambda>fs. case projr (evidence_state Q now g w args fs) of (pe, flt) \<Rightarrow> matched_rules flt pe" "rule_position_key args" "map snd"
  "ga_Limit args" defaultEvidenceLimit maxEvidenceLimit
  for Q now g w args
  by unfold_locales (auto simp: evidence_answer_cases isl_def split: sum.splits)

definition dropped_state ::
  "query_env \<Rightarrow> warn_state \<Rightarrow> time \<Rightarrow> bool \<Rightarrow> world \<Rightarrow> listDroppedFlowsArgs \<Rightarrow> files \<Rightarrow> query_error + droppedFlowItem list" where
  "dropped_state Q st now g w args fs =
     (case resolveSession now g fs w (da_SessionID args) of Inl e \<Rightarrow> Inl e | Inr status \<Rightarrow> dropped_view Q st fs status args)"

definition dropped_answer ::
  "query_env \<Rightarrow> warn_state \<Rightarrow> time \<Rightarrow> bool \<Rightarrow> world \<Rightarrow> listDroppedFlowsArgs \<Rightarrow> string \<Rightarrow> files
     \<Rightarrow> query_error + (DroppedFlowSample list \<times> droppedFlowAggregateRow list) \<times> string \<times> bool" where
  "dropped_answer Q st now g w args cursor fs =
     map_sum id (\<lambda>r. ((dr_Samples r, dr_Rows r), dr_NextCursor r, dr_HasMore r))
       (handleListDroppedFlows Q st now g fs w (args\<lparr>da_Cursor := cursor\<rparr>))"

definition split_items :: "droppedFlowItem list \<Rightarrow> DroppedFlowSample list \<times> droppedFlowAggregateRow list" where
  "split_items items = (samples_of (map di_entry items), rows_of (map di_entry items))"

lemma dropped_answer_cases:
  "dropped_answer Q st now g w args cursor fs =
     (case dropped_state Q st now g w args fs of
        Inl e \<Rightarrow> Inl e
      | Inr items \<Rightarrow>
          (case cursor_key Q cursor of
             Inl e \<Rightarrow> Inl e
           | Inr after \<Rightarrow>
               Inr (let p = page_of Q items item_key after (da_Limit args) defaultFlowLimit maxFlowLimit
                    in (split_items (pg_Items p), pg_NextCursor p, pg_HasMore p))))"
proof -
  have "keep_sample Q st (args\<lparr>da_Cursor := cursor\<rparr>) = keep_sample Q st args"
    by (simp add: keep_sample_def fun_eq_iff)
  moreover have "keep_row (args\<lparr>da_Cursor := cursor\<rparr>) = keep_row args" by (simp add: keep_row_def fun_eq_iff)
  ultimately have "dropped_view Q st fs status (args\<lparr>da_Cursor := cursor\<rparr>) = dropped_view Q st fs status args" for status
    by (simp add: dropped_view_def cong: option.case_cong sum.case_cong)
  then show ?thesis
    by (simp add: dropped_answer_def dropped_state_def handleListDroppedFlows_def split_items_def Let_def split: sum.split)
qed

interpretation dropped_tool: paged_tool Q "\<lambda>fs. \<not> isl (dropped_state Q st now g w args fs)" "dropped_answer Q st now g w args"
  "\<lambda>fs. projr (dropped_state Q st now g w args fs)" item_key split_items "da_Limit args" defaultFlowLimit maxFlowLimit
  for Q st now g w args
  by unfold_locales (auto simp: dropped_answer_cases isl_def split: sum.splits)

definition policies_state :: "query_env \<Rightarrow> time \<Rightarrow> bool \<Rightarrow> world \<Rightarrow> listPoliciesArgs \<Rightarrow> files \<Rightarrow> query_error + policyMetaRow list" where
  "policies_state Q now g w args fs =
     (case resolveSession now g fs w (la_SessionID args) of
        Inl e \<Rightarrow> Inl e
      | Inr status \<Rightarrow> (let dir = Join [st_TmpDir status, ''policies''] in walk Q dir ''.yaml'' (policy_row Q dir fs) fs))"

definition policies_answer ::
  "query_env \<Rightarrow> time \<Rightarrow> bool \<Rightarrow> world \<Rightarrow> listPoliciesArgs \<Rightarrow> string \<Rightarrow> files \<Rightarrow> query_error + policyMetaRow list \<times> string \<times> bool" where
  "policies_answer Q now g w args cursor fs =
     map_sum id (\<lambda>r. (pg_Items r, pg_NextCursor r, pg_HasMore r)) (handleListPolicies Q now g fs w (args\<lparr>la_Cursor := cursor\<rparr>))"

lemma policies_answer_page:
  "policies_state Q now g w args fs = Inr rows \<Longrightarrow> cursor_key Q cursor = Inr after \<Longrightarrow>
   policies_answer Q now g w args cursor fs =
     Inr (let p = page_of Q rows row_key after (la_Limit args) defaultFlowLimit maxFlowLimit in (pg_Items p, pg_NextCursor p, pg_HasMore p))"
  by (auto simp: policies_answer_def policies_state_def handleListPolicies_def Let_def split: sum.splits)

lemma policies_answer_refused:
  "\<not> isl (policies_state Q now g w args fs) \<Longrightarrow> cursor_key Q cursor = Inl e \<Longrightarrow> isl (policies_answer Q now g w args cursor fs)"
  by (auto simp: policies_answer_def policies_state_def handleListPolicies_def Let_def split: sum.splits)

interpretation policies_tool: paged_tool Q "\<lambda>fs. \<not> isl (policies_state Q now g w args fs)" "policies_answer Q now g w args"
  "\<lambda>fs. projr (policies_state Q now g w args fs)" row_key id "la_Limit args" defaultFlowLimit maxFlowLimit
  for Q now g w args
proof unfold_locales
  fix f c after assume "\<not> isl (policies_state Q now g w args f)" "cursor_key Q c = Inr after"
  then show "policies_answer Q now g w args c f = Inr (let p = page_of Q (projr (policies_state Q now g w args f)) row_key after
      (la_Limit args) defaultFlowLimit maxFlowLimit in (id (pg_Items p), pg_NextCursor p, pg_HasMore p))"
    by (cases "policies_state Q now g w args f") (auto simp: policies_answer_page)
qed (simp_all add: policies_answer_refused)

section \<open>Evidence\<close>

lemma matched_rules_snd: "map snd (matched_rules flt pe) = filter (Match flt) (pv_Rules pe)"
proof -
  have "map snd (filter (\<lambda>(_, r). P r) (enumerate n xs)) = filter P xs" for P n and xs :: "rule_evidence list"
    by (induction xs arbitrary: n) auto
  then show ?thesis by (simp add: matched_rules_def)
qed

lemma matched_rules_order: "sorted_wrt (<) (map (key_order \<circ> rule_position_key args) (matched_rules flt pe))"
proof -
  have "sorted_wrt (\<lambda>a b. fst a < fst b) (enumerate n xs)" for n and xs :: "rule_evidence list"
    by (induction xs arbitrary: n) (auto simp: in_set_enumerate_eq)
  then have "sorted_wrt (\<lambda>a b. fst a < fst b) (matched_rules flt pe)" by (simp add: matched_rules_def sorted_wrt_filter)
  then show ?thesis
    by (simp add: sorted_wrt_map key_order_def rule_position_key_def sorted_wrt_mono_rel [rotated])
qed

text \<open>C13: get_evidence loses no rule.  As long as the evidence file does not change, a client that follows the
  cursors reaches the last page within the calls the matched rules fill pages, and the pages together
  are the rules of the file that the filter of its arguments matches, each once and in the order of
  the file.\<close>

theorem get_evidence_complete:
  assumes "evidence_state Q now g w args fs = Inr (pe, flt)"
    and "keys_read_back (qe_keys Q) (rule_position_key args ` set (matched_rules flt pe))"
    and "int (length (filter (Match flt) (pv_Rules pe))) \<le> int calls * clampLimit (ga_Limit args) defaultEvidenceLimit maxEvidenceLimit"
    and "0 < calls"
  shows "\<exists>pages. follow (evidence_answer Q now g w args) [] (replicate calls fs) = Some pages
    \<and> concat pages = filter (Match flt) (pv_Rules pe)"
proof -
  have "int (length (matched_rules flt pe)) \<le> int calls * clampLimit (ga_Limit args) defaultEvidenceLimit maxEvidenceLimit"
    using assms(3) by (metis length_map matched_rules_snd)
  then obtain pages where "follow (evidence_answer Q now g w args) [] (replicate calls fs) = Some (map (map snd) pages)"
      "concat pages = matched_rules flt pe"
    using evidence_tool.shows_all [of Q now g w args fs calls] assms(1,2,4) matched_rules_order by auto
  then show ?thesis by (intro exI [of _ "map (map snd) pages"]) (simp add: map_concat [symmetric] matched_rules_snd)
qed

section \<open>Dropped flows\<close>

lemma number_items_entries [simp]: "map di_entry (number_items prev i es) = es"
  by (induction prev i es rule: number_items.induct) (simp_all add: Let_def)

definition numbered_key :: "droppedFlowItem \<Rightarrow> string \<times> string \<times> int" where
  "numbered_key it = key_order (item_key it)"

lemma number_items_from:
  assumes "sorted (map entry_place es)" and "\<forall>e \<in> set es. p \<le> entry_place e" and "it \<in> set (number_items (Some p) i es)"
  shows "(fst p, snd p, i) \<le> numbered_key it"
  using assms
proof (induction es arbitrary: p i)
  case (Cons e es)
  show ?case
  proof (cases "entry_place e = p")
    case True
    from Cons.prems(3) True have "it = \<lparr>di_namespace = fst p, di_workload = snd p, di_index = i, di_entry = e\<rparr>
        \<or> it \<in> set (number_items (Some p) (i + 1) es)" by (simp add: Let_def)
    then show ?thesis
    proof
      assume "it \<in> set (number_items (Some p) (i + 1) es)"
      with Cons.IH [of p "i + 1"] Cons.prems(1,2) have "(fst p, snd p, i + 1) \<le> numbered_key it" by simp
      then show ?thesis by (rule order_trans [rotated]) (simp add: less_eq_prod_def)
    qed (simp add: numbered_key_def key_order_def item_key_def)
  next
    case False
    then have lt: "p < entry_place e" using Cons.prems(2) by (simp add: order_less_le)
    have "(fst (entry_place e), snd (entry_place e), 0) \<le> numbered_key it"
    proof -
      from Cons.prems(3) False have "it = \<lparr>di_namespace = fst (entry_place e), di_workload = snd (entry_place e), di_index = 0, di_entry = e\<rparr>
        \<or> it \<in> set (number_items (Some (entry_place e)) 1 es)" by (simp add: Let_def)
      then show ?thesis
      proof
        assume "it \<in> set (number_items (Some (entry_place e)) 1 es)"
        with Cons.IH [of "entry_place e" 1] Cons.prems(1) have "(fst (entry_place e), snd (entry_place e), 1) \<le> numbered_key it" by simp
        then show ?thesis by (rule order_trans [rotated]) (simp add: less_eq_prod_def)
      qed (simp add: numbered_key_def key_order_def item_key_def)
    qed
    moreover have "(fst p, snd p, i) \<le> (fst (entry_place e), snd (entry_place e), 0)"
      using lt by (cases p; cases "entry_place e") (auto simp: less_prod_def less_eq_prod_def)
    ultimately show ?thesis by (rule order_trans [rotated])
  qed
qed simp

lemma number_items_order:
  "sorted (map entry_place es) \<Longrightarrow> sorted_wrt (<) (map numbered_key (number_items prev i es))"
proof (induction es arbitrary: prev i)
  case (Cons e es)
  let ?j = "if prev = Some (entry_place e) then i else 0"
  let ?it = "\<lparr>di_namespace = fst (entry_place e), di_workload = snd (entry_place e), di_index = ?j, di_entry = e\<rparr>"
  have "numbered_key ?it < numbered_key it" if "it \<in> set (number_items (Some (entry_place e)) (?j + 1) es)" for it
  proof -
    have "numbered_key ?it < (fst (entry_place e), snd (entry_place e), ?j + 1)"
      by (simp add: numbered_key_def key_order_def item_key_def less_prod_def)
    also have "\<dots> \<le> numbered_key it" using number_items_from [OF _ _ that] Cons.prems by simp
    finally show ?thesis .
  qed
  with Cons show ?case by (simp add: Let_def)
qed simp

lemma fst_le: "a \<le> b \<Longrightarrow> fst a \<le> fst b" for a b :: "'a::preorder \<times> 'b::preorder"
  by (auto simp: less_eq_prod_def order_less_imp_le)

lemma sorted_entry_place: "sorted (map entry_place (sort_key entry_rank es))"
proof -
  have place: "entry_place e = fst (entry_rank e)" for e by (cases e) simp_all
  have "sorted_wrt (\<lambda>x y. entry_rank x \<le> entry_rank y) (sort_key entry_rank es)"
    using sorted_sort_key [of entry_rank es] by (simp only: sorted_wrt_map)
  then have "sorted_wrt (\<lambda>x y. entry_place x \<le> entry_place y) (sort_key entry_rank es)"
    by (rule sorted_wrt_mono_rel [rotated]) (simp only: place fst_le)
  then show ?thesis by (simp only: sorted_wrt_map)
qed

lemma buildCombinedItems_order: "sorted_wrt (<) (map (key_order \<circ> item_key) (buildCombinedItems samples rows))"
proof -
  have "key_order \<circ> item_key = numbered_key" by (simp add: numbered_key_def fun_eq_iff)
  then show ?thesis unfolding buildCombinedItems_def using number_items_order [OF sorted_entry_place] by simp
qed

lemma samples_of_mset: "mset (samples_of es) = image_mset (\<lambda>e. case e of Sample s \<Rightarrow> s | Aggregate a \<Rightarrow> undefined) (filter_mset (\<lambda>e. case e of Sample _ \<Rightarrow> True | Aggregate _ \<Rightarrow> False) (mset es))"
  by (induction es) (simp_all add: samples_of_def map_filter_simps split: flow_entry.split)

lemma rows_of_mset: "mset (rows_of es) = image_mset (\<lambda>e. case e of Sample s \<Rightarrow> undefined | Aggregate a \<Rightarrow> a) (filter_mset (\<lambda>e. case e of Sample _ \<Rightarrow> False | Aggregate _ \<Rightarrow> True) (mset es))"
  by (induction es) (simp_all add: rows_of_def map_filter_simps split: flow_entry.split)

lemma split_entries:
  "samples_of (map Sample samples @ map Aggregate rows) = samples" "rows_of (map Sample samples @ map Aggregate rows) = rows"
proof -
  have "samples_of (map Aggregate rows) = []" "rows_of (map Aggregate rows) = rows"
    by (induction rows) (simp_all add: samples_of_def rows_of_def map_filter_simps)
  then show "samples_of (map Sample samples @ map Aggregate rows) = samples" "rows_of (map Sample samples @ map Aggregate rows) = rows"
    by (induction samples) (simp_all add: samples_of_def rows_of_def map_filter_simps)
qed

lemma split_combined:
  "mset (samples_of (map di_entry (buildCombinedItems samples rows))) = mset samples"
  "mset (rows_of (map di_entry (buildCombinedItems samples rows))) = mset rows"
proof -
  have e: "mset (map di_entry (buildCombinedItems samples rows)) = mset (map Sample samples @ map Aggregate rows)"
    by (simp add: buildCombinedItems_def)
  show "mset (samples_of (map di_entry (buildCombinedItems samples rows))) = mset samples"
    using samples_of_mset e split_entries(1) by metis
  show "mset (rows_of (map di_entry (buildCombinedItems samples rows))) = mset rows"
    using rows_of_mset e split_entries(2) by metis
qed

lemma split_items_concat: "concat (map (fst \<circ> split_items) pages) = samples_of (map di_entry (concat pages))"
    "concat (map (snd \<circ> split_items) pages) = rows_of (map di_entry (concat pages))"
  by (induction pages) (simp_all add: split_items_def samples_of_def rows_of_def map_filter_def)

text \<open>C12: list_dropped_flows loses no flow.  As long as the files do not change, a client that follows the cursors
  reaches the last page within the calls the view fills pages; its pages together hold every sample of
  the evidence that passes the filters, as often as it was recorded, and every row of the health report
  that does, and nothing else, although samples and rows share one window of pages.\<close>

theorem list_dropped_flows_complete:
  assumes "resolveSession now g fs w (da_SessionID args) = Inr status"
    and "dropped_view Q st fs status args = Inr items"
    and "keys_read_back (qe_keys Q) (item_key ` set items)"
    and "int (length items) \<le> int calls * clampLimit (da_Limit args) defaultFlowLimit maxFlowLimit" and "0 < calls"
  shows "\<exists>samples rows pages. (let paths = DeriveSessionPaths (qe_paths Q) (st_TmpDir status) in
      collectDroppedFlowSamples Q (sq_EvidenceDir paths) (sq_OutputHash paths) fs = Inr samples
      \<and> aggregate_rows Q fs status (sq_ClusterHealthPath paths) = Inr rows)
    \<and> follow (dropped_answer Q st now g w args) [] (replicate calls fs) = Some pages
    \<and> mset (concat (map fst pages)) = mset (filter (keep_sample Q st args) samples)
    \<and> mset (concat (map snd pages)) = mset (filter (keep_row args) rows)"
proof -
  let ?paths = "DeriveSessionPaths (qe_paths Q) (st_TmpDir status)"
  from assms(2) obtain samples rows where
    c: "collectDroppedFlowSamples Q (sq_EvidenceDir ?paths) (sq_OutputHash ?paths) fs = Inr samples"
      "aggregate_rows Q fs status (sq_ClusterHealthPath ?paths) = Inr rows"
      "items = buildCombinedItems (filter (keep_sample Q st args) samples) (filter (keep_row args) rows)"
    by (auto simp: dropped_view_def Let_def split: option.splits sum.splits)
  have "dropped_state Q st now g w args fs = Inr items" by (simp add: dropped_state_def assms(1,2))
  then obtain pages where "follow (dropped_answer Q st now g w args) [] (replicate calls fs) = Some (map split_items pages)"
      "concat pages = items"
    using dropped_tool.shows_all [of Q st now g w args fs calls] assms(3-5) buildCombinedItems_order [of "filter (keep_sample Q st args) samples" "filter (keep_row args) rows"]
    by (auto simp: c(3))
  then show ?thesis
    using c split_combined split_items_concat [of pages] by (simp add: Let_def)
qed

section \<open>An example session\<close>

text \<open>Keys are written as the namespace, the workload and the index in unary, with null bytes between.\<close>

definition demo_codec_keys :: key_codec where
  "demo_codec_keys = \<lparr>kc_marshal = (\<lambda>k. bk_Namespace k @ CHR 0x00 # bk_Workload k @ CHR 0x00 # replicate (nat (bk_Index k)) CHR ''i''),
     kc_unmarshal = (\<lambda>d. case split_on CHR 0x00 d of
        [ns, wl, i] \<Rightarrow> Some \<lparr>bk_Namespace = ns, bk_Workload = wl, bk_Index = int (length i)\<rparr> | _ \<Rightarrow> None)\<rparr>"

definition demo_rule_at :: "string \<Rightarrow> string \<Rightarrow> rule_evidence" where
  "demo_rule_at key reason =
     (demo_cidr_rule ''10.1.2.0/24'')\<lparr>re_Key := key, re_Samples :=
        [\<lparr>fs_Time = 1, fs_Src = endpointFromFlow demo_externals None, fs_Dst = endpointFromFlow demo_externals None, fs_Port = 443,
          fs_Protocol = ''TCP'', fs_Verdict = ''DROPPED'', fs_DropReason = reason\<rparr>]\<rparr>"

definition demo_evidence_file :: policy_evidence where
  "demo_evidence_file =
     (NewSkeleton demo_ref)\<lparr>pv_Rules := [demo_rule_at ''r1'' ''POLICY_DENIED'', demo_rule_at ''r2'' [], demo_rule_at ''r3'' ''TTL_EXCEEDED'']\<rparr>"

definition demo_health_file :: cluster_health_report where
  "demo_health_file =
     \<lparr>hr_SchemaVersion = 1, hr_ClassifierVersion = [], hr_Session = \<lparr>hs_Started = 0, hs_Ended = 1, hs_FlowsSeen = 9, hs_InfraDropTotal = 5\<rparr>,
      hr_Drops = [\<lparr>hd_Reason = ''CT_MAP_INSERTION_FAILED'', hd_Class = ''infra'', hd_Count = 5, hd_Remediation = [],
                   hd_ByNode = [], hd_ByWorkload = [(''ns/a'', 3), (''_unknown/b'', 2)]\<rparr>]\<rparr>"

definition demo_query :: query_env where
  "demo_query =
     \<lparr>qe_paths = demo_paths, qe_keys = demo_codec_keys,
      qe_yaml = \<lparr>ya_marshal = (\<lambda>_. None), ya_unmarshal = (\<lambda>d. Some (demo_policy\<lparr>cnp_Name := d\<rparr>))\<rparr>,
      qe_json = \<lparr>js_marshal = (\<lambda>_. None), js_unmarshal = (\<lambda>_. Some demo_evidence_file)\<rparr>,
      qe_report = \<lparr>rc_marshal = (\<lambda>_. None), rc_unmarshal = (\<lambda>_. Some demo_health_file)\<rparr>,
      qe_case = demo_case, qe_reasons = [''POLICY_DENIED'', ''TTL_EXCEEDED''], qe_unreadable = (\<lambda>_. False)\<rparr>"

definition demo_manager :: world where
  "demo_manager = NewManager\<lparr>wl_slot := Some 0, wl_heap := (\<lambda>_. (new_session ''s'' 0)\<lparr>se_TmpDir := ''/t'', se_State := StateStopped\<rparr>)\<rparr>"

definition demo_tree :: files where
  "demo_tree = [(''/t/evidence/h/ns/a.json'', ''e''), (''/t/evidence/h/cluster-health.json'', ''h'')]"

definition demo_evidence_args :: getEvidenceArgs where
  "demo_evidence_args =
     \<lparr>ga_SessionID = ''s'', ga_Namespace = ''ns'', ga_Workload = ''a'', ga_Direction = ''egress'', ga_Port = ''443'', ga_Peer = [],
      ga_PeerCIDR = [], ga_HTTPMethod = [], ga_HTTPPath = [], ga_DNSPattern = [], ga_Limit = 2, ga_Cursor = []\<rparr>"

definition demo_evidence_filter :: Filter where
  "demo_evidence_filter =
     \<lparr>ft_Direction = ''egress'', ft_Port = ''443'', ft_PeerLabel = no_label, ft_PeerCIDR = None, ft_Since = 0, ft_Now = 0,
      ft_HTTPMethod = [], ft_HTTPPath = [], ft_DNSPattern = []\<rparr>"

lemma demo_status: "\<exists>status. resolveSession 0 False demo_tree demo_manager ''s'' = Inr status \<and> st_TmpDir status = ''/t'' \<and> st_State status = ''stopped''"
  by (simp add: resolveSession_def Status_def demo_manager_def Let_def State_String_def StateStopped_def StateCapturing_def new_session_def)

lemma demo_session_paths:
  "DeriveSessionPaths (qe_paths demo_query) ''/t'' =
     \<lparr>sq_OutputDir = ''/t/policies'', sq_EvidenceDir = ''/t/evidence'', sq_OutputHash = ''h'',
      sq_ClusterHealthPath = ''/t/evidence/h/cluster-health.json''\<rparr>"
proof -
  have "DeriveSessionPaths demo_paths ''/t'' =
     \<lparr>sq_OutputDir = ''/t/policies'', sq_EvidenceDir = ''/t/evidence'', sq_OutputHash = ''h'',
      sq_ClusterHealthPath = ''/t/evidence/h/cluster-health.json''\<rparr>" by code_simp
  then show ?thesis by (simp add: demo_query_def)
qed

lemma demo_read: "read_evidence_at demo_query ''/t/evidence'' ''h'' demo_tree ''ns'' ''a'' = Inr demo_evidence_file"
proof -
  have "ResolvePolicyPath ''/t/evidence'' ''h'' ''ns'' ''a'' = ''/t/evidence/h/ns/a.json''" by code_simp
  moreover have "pv_SchemaVersion demo_evidence_file = SchemaVersion" by (simp add: demo_evidence_file_def NewSkeleton_def)
  ultimately show ?thesis
    by (simp add: read_evidence_at_def ReadEvidence_def evidence_reader_def os_at_def demo_tree_def)
      (simp add: demo_query_def)
qed

lemma demo_filter_built: "buildEvidenceFilter demo_case demo_evidence_args = Inr demo_evidence_filter"
  by code_simp

lemma demo_all_match: "filter (Match demo_evidence_filter) (pv_Rules demo_evidence_file) = pv_Rules demo_evidence_file"
  by (simp add: Match_def demo_evidence_filter_def demo_evidence_file_def demo_rule_at_def demo_cidr_rule_def
      label_matches_def no_label_def cidr_matches_def l7_matches_def)

definition demo_places :: "(string \<times> string \<times> int) list" where
  "demo_places = [(''_unknown'', ''b'', 0), (''ns'', ''a'', 0), (''ns'', ''a'', 1), (''ns'', ''a'', 2), (''ns'', ''a'', 3)]"

lemma demo_keys_read_back:
  "keys_read_back demo_codec_keys ((\<lambda>(ns, wl, i). \<lparr>bk_Namespace = ns, bk_Workload = wl, bk_Index = i\<rparr>) `
     set demo_places)"
  by code_simp

lemma keys_read_back_mono: "keys_read_back K ks \<Longrightarrow> ks' \<subseteq> ks \<Longrightarrow> keys_read_back K ks'"
  by (auto simp: keys_read_back_def reads_back_def)

theorem get_evidence_complete_witness:
  "\<exists>pages. follow (evidence_answer demo_query 0 False demo_manager demo_evidence_args) [] (replicate 2 demo_tree) = Some pages
    \<and> map re_Key (concat pages) = [''r1'', ''r2'', ''r3'']"
proof -
  let ?flt = demo_evidence_filter and ?pe = demo_evidence_file
  obtain status where st: "resolveSession 0 False demo_tree demo_manager ''s'' = Inr status" "st_TmpDir status = ''/t''"
    using demo_status by blast
  have args: "ga_SessionID demo_evidence_args = ''s''" "ga_Namespace demo_evidence_args = ''ns''" "ga_Workload demo_evidence_args = ''a''"
      "ga_Limit demo_evidence_args = 2" "qe_case demo_query = demo_case" "qe_keys demo_query = demo_codec_keys"
    by (simp_all add: demo_evidence_args_def demo_query_def)
  have "evidence_state demo_query 0 False demo_manager demo_evidence_args demo_tree = Inr (?pe, ?flt)"
    by (simp add: evidence_state_def args st evidence_view_def ValidatePolicyRef_def validatePathComponent_def
        demo_session_paths demo_read demo_filter_built Let_def)
  moreover have "keys_read_back (qe_keys demo_query) (rule_position_key demo_evidence_args ` set (matched_rules ?flt ?pe))"
  proof -
    have "set (matched_rules ?flt ?pe) \<subseteq> {(i, r). i < 3}"
      by (auto simp: matched_rules_def in_set_enumerate_eq demo_evidence_file_def)
    then have "rule_position_key demo_evidence_args ` set (matched_rules ?flt ?pe) \<subseteq>
        (\<lambda>(ns, wl, i). \<lparr>bk_Namespace = ns, bk_Workload = wl, bk_Index = i\<rparr>) `
          set demo_places"
      by (auto simp: rule_position_key_def args image_iff less_Suc_eq numeral_3_eq_3 demo_places_def)
    from keys_read_back_mono [OF demo_keys_read_back this] show ?thesis by (simp only: args)
  qed
  moreover have "int (length (filter (Match ?flt) (pv_Rules ?pe))) \<le> int 2 * clampLimit (ga_Limit demo_evidence_args) defaultEvidenceLimit maxEvidenceLimit"
    by (simp add: demo_all_match args clampLimit_def maxEvidenceLimit_def) (simp add: demo_evidence_file_def)
  ultimately obtain pages where
    "follow (evidence_answer demo_query 0 False demo_manager demo_evidence_args) [] (replicate 2 demo_tree) = Some pages"
    "concat pages = filter (Match ?flt) (pv_Rules ?pe)"
    using get_evidence_complete [of demo_query 0 False demo_manager demo_evidence_args demo_tree ?pe ?flt 2] by auto
  then show ?thesis unfolding demo_all_match by (simp add: demo_evidence_file_def demo_rule_at_def)
qed

definition demo_flows_args :: listDroppedFlowsArgs where
  "demo_flows_args =
     \<lparr>da_SessionID = ''s'', da_Namespace = [], da_Workload = [], da_DropClass = [], da_Direction = [], da_Limit = 2, da_Cursor = []\<rparr>"

lemma demo_entries:
  "dir_entries ''/t/evidence/h'' demo_tree = [(''cluster-health.json'', False), (''ns'', True)]"
  "dir_entries ''/t/evidence/h/ns'' demo_tree = [(''a.json'', False)]"
  by code_simp+

lemma demo_walk: "collectDroppedFlowSamples demo_query ''/t/evidence'' ''h'' demo_tree =
    Inr (concat (map (flow_samples ''ns'' ''a'') (pv_Rules demo_evidence_file)))"
proof -
  have "Join [''/t/evidence'', ''h''] = ''/t/evidence/h''" "Join [''/t/evidence/h'', ''ns''] = ''/t/evidence/h/ns''"
    "has_suffix ''a.json'' ''.json''" "trim_suffix ''a.json'' ''.json'' = ''a''" by code_simp+
  moreover have "below ''/t/evidence/h'' demo_tree \<noteq> []" "below ''/t/evidence/h/ns'' demo_tree \<noteq> []" by code_simp+
  moreover have "\<not> qe_unreadable demo_query p" for p by (simp add: demo_query_def)
  ultimately show ?thesis
    by (simp add: collectDroppedFlowSamples_def walk_def file_rows_def ReadDir_def demo_entries workload_samples_def demo_read)
qed

text \<open>The five entries of the example: three samples and two rows.\<close>

lemma demo_view:
  assumes "st_TmpDir status = ''/t''" and "st_State status = ''stopped''"
  shows "\<exists>items. dropped_view demo_query \<lparr>ws_logger = False, ws_warned = []\<rparr> demo_tree status demo_flows_args = Inr items
    \<and> map item_key items = map (\<lambda>(ns, wl, i). \<lparr>bk_Namespace = ns, bk_Workload = wl, bk_Index = i\<rparr>)
        demo_places"
proof -
  let ?ss = "concat (map (flow_samples ''ns'' ''a'') (pv_Rules demo_evidence_file))"
  have rows: "aggregate_rows demo_query demo_tree status ''/t/evidence/h/cluster-health.json'' = Inr (collectDroppedFlowAggregates demo_health_file)"
    using assms(2) by (simp add: aggregate_rows_def ReadClusterHealth_def os_at_def demo_query_def demo_tree_def demo_health_file_def
        State_String_def StateCapturing_def)
  have keep: "filter (keep_sample demo_query st demo_flows_args) xs = xs" "filter (keep_row demo_flows_args) ys = ys" for st xs ys
    by (simp_all add: keep_sample_def keep_row_def demo_flows_args_def matchesNamespaceWorkload_def matchesDropClass_def filter_id_conv)
  have "dropped_view demo_query \<lparr>ws_logger = False, ws_warned = []\<rparr> demo_tree status demo_flows_args
      = Inr (buildCombinedItems ?ss (collectDroppedFlowAggregates demo_health_file))"
  proof -
    have "validateFilterComponent ''namespace'' (da_Namespace demo_flows_args) = None"
        "validateFilterComponent ''workload'' (da_Workload demo_flows_args) = None"
      by (simp_all add: validateFilterComponent_def demo_flows_args_def)
    then show ?thesis using assms(1) by (simp add: dropped_view_def demo_session_paths Let_def demo_walk rows keep)
  qed
  moreover have "map item_key (buildCombinedItems ?ss (collectDroppedFlowAggregates demo_health_file)) =
      map (\<lambda>(ns, wl, i). \<lparr>bk_Namespace = ns, bk_Workload = wl, bk_Index = i\<rparr>)
        demo_places"
    by code_simp
  ultimately show ?thesis by blast
qed

theorem list_dropped_flows_complete_witness:
  "\<exists>pages. follow (dropped_answer demo_query \<lparr>ws_logger = False, ws_warned = []\<rparr> 0 False demo_manager demo_flows_args) [] (replicate 3 demo_tree) = Some pages
    \<and> length (concat (map fst pages)) = 3"
proof -
  let ?st = "\<lparr>ws_logger = False, ws_warned = []\<rparr>"
  obtain status where st: "resolveSession 0 False demo_tree demo_manager ''s'' = Inr status" "st_TmpDir status = ''/t''"
      "st_State status = ''stopped''"
    using demo_status by blast
  obtain items where items: "dropped_view demo_query ?st demo_tree status demo_flows_args = Inr items"
      "map item_key items = map (\<lambda>(ns, wl, i). \<lparr>bk_Namespace = ns, bk_Workload = wl, bk_Index = i\<rparr>) demo_places"
    using demo_view [OF st(2,3)] by blast
  have args: "da_SessionID demo_flows_args = ''s''" "da_Limit demo_flows_args = 2" "qe_keys demo_query = demo_codec_keys"
    by (simp_all add: demo_flows_args_def demo_query_def)
  have "item_key ` set items = (\<lambda>(ns, wl, i). \<lparr>bk_Namespace = ns, bk_Workload = wl, bk_Index = i\<rparr>) ` set demo_places"
    using items(2) by (metis list.set_map)
  then have k: "keys_read_back (qe_keys demo_query) (item_key ` set items)" using demo_keys_read_back by (simp only: args)
  have "length items = 5" using arg_cong [OF items(2), of length] by (simp add: demo_places_def)
  then have n: "int (length items) \<le> int 3 * clampLimit (da_Limit demo_flows_args) defaultFlowLimit maxFlowLimit"
    by (simp add: args clampLimit_def maxFlowLimit_def)
  have r: "resolveSession 0 False demo_tree demo_manager (da_SessionID demo_flows_args) = Inr status" by (simp only: args st)
  from list_dropped_flows_complete [OF r items(1) k n] obtain samples pages where
    p: "collectDroppedFlowSamples demo_query ''/t/evidence'' ''h'' demo_tree = Inr samples"
      "follow (dropped_answer demo_query ?st 0 False demo_manager demo_flows_args) [] (replicate 3 demo_tree) = Some pages"
      "mset (concat (map fst pages)) = mset (filter (keep_sample demo_query ?st demo_flows_args) samples)"
    by (auto simp: st(2) demo_session_paths Let_def)
  have "filter (keep_sample demo_query ?st demo_flows_args) xs = xs" for xs
    by (simp add: keep_sample_def demo_flows_args_def matchesNamespaceWorkload_def matchesDropClass_def filter_id_conv)
  then have "length (concat (map fst pages)) = length samples" using p(3) by (metis size_mset)
  also have "\<dots> = 3" using p(1) unfolding demo_walk by (auto simp: demo_evidence_file_def demo_rule_at_def flow_samples_def)
  finally show ?thesis using p(2) by blast
qed

section \<open>Policies\<close>

lemma sorted_wrt_concat_map:
  assumes "sorted_wrt R xs" and "\<And>x. x \<in> set xs \<Longrightarrow> sorted_wrt S (f x)"
    and "\<And>x y a b. x \<in> set xs \<Longrightarrow> y \<in> set xs \<Longrightarrow> R x y \<Longrightarrow> a \<in> set (f x) \<Longrightarrow> b \<in> set (f y) \<Longrightarrow> S a b"
  shows "sorted_wrt S (concat (map f xs))"
  using assms
proof (induction xs)
  case (Cons x xs)
  have "sorted_wrt S (concat (map f xs))"
    using Cons.prems(1) by (intro Cons.IH Cons.prems(2,3)) (simp_all add: Cons.prems(3))
  moreover have "\<forall>a \<in> set (f x). \<forall>b \<in> set (concat (map f xs)). S a b"
  proof (intro ballI)
    fix a b assume a: "a \<in> set (f x)" and "b \<in> set (concat (map f xs))"
    then obtain y where "y \<in> set xs" "b \<in> set (f y)" by auto
    then show "S a b" using Cons.prems(1) a by (intro Cons.prems(3) [of x y]) simp_all
  qed
  ultimately show ?case using Cons.prems(2) by (simp add: sorted_wrt_append)
qed simp

lemma dir_entries_sorted: "sorted_wrt (\<lambda>x y. fst x < fst y) (dir_entries dir fs)"
proof -
  have "sorted_wrt (<) (sort (remdups (map (cut_before (CHR ''/'')) (below dir fs))))"
    by (simp add: strict_sorted_iff)
  then show ?thesis by (simp add: dir_entries_def sorted_wrt_map)
qed

text \<open>
  Names of files whose workloads are in the order of the names: where the workload of one extends the
  workload of another, it goes on with a character after the dot of the suffix.
\<close>

definition names_apart :: "string \<Rightarrow> string list \<Rightarrow> bool" where
  "names_apart ext names \<longleftrightarrow>
     (\<forall>n \<in> set names. \<forall>n' \<in> set names. has_suffix n ext \<and> has_suffix n' ext \<longrightarrow>
        (let w = trim_suffix n ext; w' = trim_suffix n' ext
         in length w < length w' \<and> has_prefix w' w \<longrightarrow> CHR ''.'' < w' ! length w))"

lemma suffix_order:
  assumes "w @ CHR ''.'' # e < w' @ CHR ''.'' # e" and "length w' < length w \<and> has_prefix w w' \<longrightarrow> CHR ''.'' < w ! length w'"
  shows "w < w'"
  using assms
proof (induction w arbitrary: w')
  case Nil
  then show ?case by (cases w') auto
next
  case (Cons a u)
  show ?case
  proof (cases w')
    case Nil
    with Cons.prems show ?thesis by (auto simp: has_prefix_def)
  next
    case (Cons b v)
    with Cons.prems show ?thesis using Cons.IH [of v] by (auto simp: has_prefix_def)
  qed
qed

lemma trim_suffix_append: "has_suffix n ext \<Longrightarrow> trim_suffix n ext @ ext = n"
  unfolding trim_suffix_def has_suffix_def by (metis append_take_drop_id)

lemma names_apart_order:
  assumes "names_apart (CHR ''.'' # e) names" and "n \<in> set names" and "n' \<in> set names"
    and "has_suffix n (CHR ''.'' # e)" and "has_suffix n' (CHR ''.'' # e)" and "n < n'"
  shows "trim_suffix n (CHR ''.'' # e) < trim_suffix n' (CHR ''.'' # e)"
proof (rule suffix_order)
  show "trim_suffix n (CHR ''.'' # e) @ CHR ''.'' # e < trim_suffix n' (CHR ''.'' # e) @ CHR ''.'' # e"
    using trim_suffix_append assms(4-6) by simp
qed (use assms in \<open>auto simp: names_apart_def Let_def\<close>)

definition row_place :: "policyMetaRow \<Rightarrow> string \<times> string" where
  "row_place r = (mr_Namespace r, mr_Workload r)"

lemma row_key_order: "key_order (row_key r) < key_order (row_key r') \<longleftrightarrow> row_place r < row_place r'"
  by (auto simp: key_order_def row_key_def row_place_def less_prod_def)

lemma policy_row_cases: "policy_row Q dir fs ns wl = [] \<or> (\<exists>r. policy_row Q dir fs ns wl = [r] \<and> row_place r = (ns, wl))"
  by (auto simp: policy_row_def policyRowFromCNP_def row_place_def Let_def split: sum.splits prod.splits)

lemma policy_row_sorted: "sorted_wrt R (policy_row Q dir fs ns wl)"
  by (cases rule: disjE [OF policy_row_cases [of Q dir fs ns wl]]) auto

lemma policy_row_place: "r \<in> set (policy_row Q dir fs ns wl) \<Longrightarrow> row_place r = (ns, wl)"
  by (cases rule: disjE [OF policy_row_cases [of Q dir fs ns wl]]) auto

definition policies_apart :: "string \<Rightarrow> files \<Rightarrow> bool" where
  "policies_apart dir fs \<longleftrightarrow> (\<forall>(ns, _) \<in> set (dir_entries dir fs). names_apart ''.yaml'' (map fst (dir_entries (Join [dir, ns]) fs)))"

lemma file_rows_order:
  assumes "names_apart ''.yaml'' (map fst (dir_entries (Join [dir, ns]) fs))"
  shows "sorted_wrt (\<lambda>r r'. row_place r < row_place r') (file_rows Q dir ''.yaml'' (policy_row Q dir fs') fs ns)"
proof (cases "ReadDir Q (Join [dir, ns]) fs")
  case (Listing entries)
  then have e: "entries = dir_entries (Join [dir, ns]) fs" by (simp add: ReadDir_def split: if_splits)
  show ?thesis unfolding file_rows_def Listing listing.case
  proof (rule sorted_wrt_concat_map [where R = "\<lambda>x y. fst x < fst y"])
    show "sorted_wrt (\<lambda>x y. fst x < fst y) entries" unfolding e by (rule dir_entries_sorted)
  next
    fix x show "sorted_wrt (\<lambda>r r'. row_place r < row_place r')
        (case x of (name, isDir) \<Rightarrow> if isDir \<or> \<not> has_suffix name ''.yaml'' then [] else policy_row Q dir fs' ns (trim_suffix name ''.yaml''))"
      by (simp add: policy_row_sorted split: prod.split)
  next
    fix x y a b
    assume x: "x \<in> set entries" "y \<in> set entries" "fst x < fst y"
      and a: "a \<in> set (case x of (name, isDir) \<Rightarrow> if isDir \<or> \<not> has_suffix name ''.yaml'' then [] else policy_row Q dir fs' ns (trim_suffix name ''.yaml''))"
      and b: "b \<in> set (case y of (name, isDir) \<Rightarrow> if isDir \<or> \<not> has_suffix name ''.yaml'' then [] else policy_row Q dir fs' ns (trim_suffix name ''.yaml''))"
    have ra: "has_suffix (fst x) ''.yaml''" "a \<in> set (policy_row Q dir fs' ns (trim_suffix (fst x) ''.yaml''))"
      and rb: "has_suffix (fst y) ''.yaml''" "b \<in> set (policy_row Q dir fs' ns (trim_suffix (fst y) ''.yaml''))"
      using a b by (auto split: prod.splits if_splits)
    have "row_place a = (ns, trim_suffix (fst x) ''.yaml'')" "row_place b = (ns, trim_suffix (fst y) ''.yaml'')"
      using ra(2) rb(2) by (auto dest: policy_row_place)
    moreover have "trim_suffix (fst x) ''.yaml'' < trim_suffix (fst y) ''.yaml''"
      using names_apart_order [OF assms _ _ ra(1) rb(1) x(3)] x(1,2) e by simp
    ultimately show "row_place a < row_place b" by (simp add: less_prod_def)
  qed
qed (simp_all add: file_rows_def)

lemma file_rows_place: "r \<in> set (file_rows Q dir ''.yaml'' (policy_row Q dir fs') fs ns) \<Longrightarrow> fst (row_place r) = ns"
  by (auto simp: file_rows_def split: listing.splits prod.splits if_splits dest: policy_row_place)

lemma walk_order:
  assumes "policies_apart dir fs" and "walk Q dir ''.yaml'' (policy_row Q dir fs') fs = Inr rows"
  shows "sorted_wrt (\<lambda>r r'. row_place r < row_place r') rows"
proof (cases "ReadDir Q dir fs")
  case (Listing entries)
  then have e: "entries = dir_entries dir fs" by (simp add: ReadDir_def split: if_splits)
  let ?f = "\<lambda>(name, isDir). if isDir then file_rows Q dir ''.yaml'' (policy_row Q dir fs') fs name else []"
  have "rows = concat (map ?f entries)" using assms(2) Listing by (simp add: walk_def)
  moreover have "sorted_wrt (\<lambda>r r'. row_place r < row_place r') (concat (map ?f entries))"
  proof (rule sorted_wrt_concat_map [where R = "\<lambda>x y. fst x < fst y"])
    show "sorted_wrt (\<lambda>x y. fst x < fst y) entries" unfolding e by (rule dir_entries_sorted)
  next
    fix x assume "x \<in> set entries"
    then show "sorted_wrt (\<lambda>r r'. row_place r < row_place r') (?f x)"
      using assms(1) by (auto simp: policies_apart_def e intro!: file_rows_order split: prod.splits)
  next
    fix x y a b assume "fst x < fst y" "a \<in> set (?f x)" "b \<in> set (?f y)"
    then show "row_place a < row_place b"
      by (auto simp: less_prod_def dest!: file_rows_place split: prod.splits if_splits)
  qed
  ultimately show ?thesis by simp
qed (use assms(2) in \<open>simp_all add: walk_def\<close>)

text \<open>C14: list_policies while a capture writes: when no workload's name extends another's of the same namespace by a
  character up to the dot, a client that follows the cursors to the last page, over files that change
  between the calls, sees the policies in the order of namespace and workload, none twice, and every
  policy that was listed in the view of each call.\<close>

theorem list_policies_lasting:
  assumes "wl_slot w = Some p" and "se_ID (wl_heap w p) = la_SessionID args"
    and "dir = Join [se_TmpDir (wl_heap w p), ''policies'']"
    and "\<forall>fs \<in> set fss. policies_apart dir fs \<and> (\<exists>rows. walk Q dir ''.yaml'' (policy_row Q dir fs) fs = Inr rows
        \<and> keys_read_back (qe_keys Q) (row_key ` set rows))"
    and "follow (policies_answer Q now g w args) [] fss = Some pages"
  shows "sorted_wrt (<) (map row_place (concat pages))
    \<and> (\<forall>place. (\<forall>fs \<in> set fss. place \<in> row_place ` set (projr (walk Q dir ''.yaml'' (policy_row Q dir fs) fs)))
        \<longrightarrow> place \<in> row_place ` set (concat pages))"
proof -
  have state: "policies_state Q now g w args fs = walk Q dir ''.yaml'' (policy_row Q dir fs) fs" for fs
    using assms(1-3) by (simp add: policies_state_def resolveSession_def Status_def Let_def)
  have "\<not> isl (policies_state Q now g w args fs) \<and> keys_read_back (qe_keys Q) (row_key ` set (projr (policies_state Q now g w args fs)))
      \<and> sorted_wrt (<) (map (key_order \<circ> row_key) (projr (policies_state Q now g w args fs)))" if m: "fs \<in> set fss" for fs
  proof -
    obtain rows where r: "policies_apart dir fs" "walk Q dir ''.yaml'' (policy_row Q dir fs) fs = Inr rows"
        "keys_read_back (qe_keys Q) (row_key ` set rows)"
      using bspec [OF assms(4) m] by blast
    have "sorted_wrt (<) (map (key_order \<circ> row_key) rows)"
      using walk_order [OF r(1,2)] by (simp add: sorted_wrt_map row_key_order)
    with r show ?thesis by (simp add: state)
  qed
  then obtain ps where ps: "pages = map id ps" "sorted_wrt (<) (map (key_order \<circ> row_key) (concat ps))"
      "\<And>k. \<forall>fs \<in> set fss. k \<in> row_key ` set (projr (policies_state Q now g w args fs)) \<Longrightarrow> k \<in> row_key ` set (concat ps)"
    using policies_tool.shows_lasting [of fss Q now g w args pages] assms(5) by blast
  have place: "row_place r = place \<longleftrightarrow> row_key r = \<lparr>bk_Namespace = fst place, bk_Workload = snd place, bk_Index = 0\<rparr>" for r place
    by (cases place) (simp add: row_place_def row_key_def)
  have img: "place \<in> row_place ` R \<longleftrightarrow> \<lparr>bk_Namespace = fst place, bk_Workload = snd place, bk_Index = 0\<rparr> \<in> row_key ` R" for place R
    using place by (metis (no_types, lifting) image_iff)
  have "sorted_wrt (<) (map row_place (concat pages))" using ps(1,2) by (simp add: sorted_wrt_map row_key_order)
  then show ?thesis using ps(1,3) by (simp add: img state)
qed

text \<open>Two policies of which one name extends the other by a dash.\<close>

definition demo_policies :: files where
  "demo_policies = [(''/t/policies/ns/a.yaml'', ''cpg-a''), (''/t/policies/ns/a-b.yaml'', ''cpg-a-b'')]"

definition demo_list_args :: listPoliciesArgs where
  "demo_list_args = \<lparr>la_SessionID = ''s'', la_Limit = 1, la_Cursor = []\<rparr>"

text \<open>list_policies can lose a policy: it pages through its rows in the order of the file names, but resumes in the
  order of the workloads, and \<open>a-b.yaml\<close> comes before \<open>a.yaml\<close> while \<open>a\<close> comes before \<open>a-b\<close>.  With the
  policies of \<open>a\<close> and \<open>a-b\<close> and pages of one row, the view has both, and a client that follows the
  cursors to the last page is shown \<open>a-b\<close> alone.\<close>

theorem list_policies_skips:
  "map_sum id (map mr_Workload) (policies_state demo_query 0 False demo_manager demo_list_args demo_policies) = Inr [''a-b'', ''a'']
   \<and> map_option (map (map mr_Workload)) (follow (policies_answer demo_query 0 False demo_manager demo_list_args) [] (replicate 9 demo_policies))
     = Some [[''a-b''], []]"
  by code_simp

definition demo_growing :: "files list" where
  "demo_growing =
     [[(''/t/policies/ns/db.yaml'', ''cpg-db''), (''/t/policies/ns/web.yaml'', ''cpg-web'')],
      [(''/t/policies/ns/db.yaml'', ''cpg-db''), (''/t/policies/ns/web.yaml'', ''cpg-web''), (''/t/policies/ns/api.yaml'', ''cpg-api'')]]"

theorem list_policies_lasting_witness:
  "\<exists>pages. follow (policies_answer demo_query 0 False demo_manager demo_list_args) [] demo_growing = Some pages
    \<and> (''ns'', ''web'') \<in> row_place ` set (concat pages)"
proof -
  let ?walk = "\<lambda>fs. walk demo_query ''/t/policies'' ''.yaml'' (policy_row demo_query ''/t/policies'' fs) fs"
  have e: "list_all (\<lambda>fs. policies_apart ''/t/policies'' fs \<and> \<not> isl (?walk fs)
      \<and> keys_read_back demo_codec_keys (row_key ` set (projr (?walk fs))) \<and> (''ns'', ''web'') \<in> row_place ` set (projr (?walk fs))) demo_growing"
    by code_simp
  have f: "follow (policies_answer demo_query 0 False demo_manager demo_list_args) [] demo_growing \<noteq> None" by code_simp
  have d: "wl_slot demo_manager = Some 0" "se_ID (wl_heap demo_manager 0) = la_SessionID demo_list_args"
    by (simp_all add: demo_manager_def new_session_def demo_list_args_def)
  have "Join [''/t'', ''policies''] = ''/t/policies''" by code_simp
  then have dir: "''/t/policies'' = Join [se_TmpDir (wl_heap demo_manager 0), ''policies'']" by (simp add: demo_manager_def)
  have k: "qe_keys demo_query = demo_codec_keys" by (simp add: demo_query_def)
  have "\<forall>fs \<in> set demo_growing. policies_apart ''/t/policies'' fs \<and> (\<exists>rows. ?walk fs = Inr rows \<and> keys_read_back (qe_keys demo_query) (row_key ` set rows))"
    using e unfolding list_all_iff k by (metis sum.collapse(2))
  moreover have "\<forall>fs \<in> set demo_growing. (''ns'', ''web'') \<in> row_place ` set (projr (?walk fs))" using e by (simp add: list_all_iff)
  ultimately show ?thesis using list_policies_lasting [OF d dir, of demo_growing demo_query] f by blast
qed

section \<open>The capped health report\<close>

text \<open>\<open>m'\<close> holds the largest counts of \<open>m\<close>.\<close>

definition largest_counts :: "(string \<times> u64) list \<Rightarrow> (string \<times> u64) list \<Rightarrow> bool" where
  "largest_counts m m' \<longleftrightarrow>
     mset m' \<subseteq># mset m \<and> (\<forall>kept \<in> set m'. \<forall>out \<in># mset m - mset m'. snd out \<le> snd kept)"

lemma capHealthCountMap_largest:
  "largest_counts m (fst (capHealthCountMap m)) \<and> length (fst (capHealthCountMap m)) = min 100 (length m)
   \<and> (snd (capHealthCountMap m) \<longleftrightarrow> 100 < length m)"
proof (cases "length m \<le> 100")
  case True
  then show ?thesis by (simp add: capHealthCountMap_def maxHealthMapEntries_def largest_counts_def)
next
  case False
  let ?s = "sort_key health_order m"
  have m: "mset m = mset (take 100 ?s) + mset (drop 100 ?s)"
    by (metis append_take_drop_id mset_append mset_sort)
  have "sorted_wrt (\<lambda>x y. health_order x \<le> health_order y) (take 100 ?s @ drop 100 ?s)"
    using sorted_sort_key [of health_order m] unfolding append_take_drop_id by (simp only: sorted_wrt_map)
  then have "\<forall>kept \<in> set (take 100 ?s). \<forall>out \<in> set (drop 100 ?s). health_order kept \<le> health_order out"
    unfolding sorted_wrt_append by blast
  then have "\<forall>kept \<in> set (take 100 ?s). \<forall>out \<in> set (drop 100 ?s). snd out \<le> snd kept"
    by (fastforce simp: health_order_def less_eq_prod_def word_le_def)
  then have "largest_counts m (take 100 ?s)" by (simp add: largest_counts_def m)
  with False show ?thesis by (simp add: capHealthCountMap_def maxHealthMapEntries_def)
qed

text \<open>C17: What the cap of get_cluster_health keeps: of each reason its count; of each of its breakdowns all entries,
  or 100 when there are more, unchanged and such that no entry left out counts more than one kept; and
  the answer is marked truncated exactly when an entry was left out.\<close>

theorem cluster_health_cap:
  assumes "capClusterHealthReport report = (r, truncated)"
  shows "map hd_Count (hr_Drops r) = map hd_Count (hr_Drops report)
    \<and> list_all2 (\<lambda>d d'. \<forall>part \<in> {hd_ByNode, hd_ByWorkload}.
        largest_counts (part d) (part d') \<and> length (part d') = min 100 (length (part d))) (hr_Drops report) (hr_Drops r)
    \<and> (truncated \<longleftrightarrow> (\<exists>d \<in> set (hr_Drops report). 100 < length (hd_ByNode d) \<or> 100 < length (hd_ByWorkload d)))"
proof -
  have cap: "cap_drop d = (d\<lparr>hd_ByNode := fst (capHealthCountMap (hd_ByNode d)), hd_ByWorkload := fst (capHealthCountMap (hd_ByWorkload d))\<rparr>,
      100 < length (hd_ByNode d) \<or> 100 < length (hd_ByWorkload d))" for d
    using capHealthCountMap_largest [of "hd_ByNode d"] capHealthCountMap_largest [of "hd_ByWorkload d"]
    by (simp add: cap_drop_def split_def)
  have r: "hr_Drops r = map (fst \<circ> cap_drop) (hr_Drops report)" "truncated = list_ex snd (map cap_drop (hr_Drops report))"
    using assms by (auto simp: capClusterHealthReport_def Let_def)
  show ?thesis
    unfolding r using capHealthCountMap_largest by (simp add: cap list_all2_conv_all_nth list_ex_iff)
qed

definition demo_wide_report :: cluster_health_report where
  "demo_wide_report = demo_health_file\<lparr>hr_Drops := map (\<lambda>d. d\<lparr>hd_ByNode := map (\<lambda>i. (format_uint i, of_nat i)) [0..<101]\<rparr>) (hr_Drops demo_health_file)\<rparr>"

theorem cluster_health_cap_witness:
  "snd (capClusterHealthReport demo_wide_report) \<and> map hd_Count (hr_Drops (fst (capClusterHealthReport demo_wide_report))) = [5]"
proof -
  have "hr_Drops demo_wide_report \<noteq> []" "\<forall>d \<in> set (hr_Drops demo_wide_report). 100 < length (hd_ByNode d)"
      "map hd_Count (hr_Drops demo_wide_report) = [5]"
    by (simp_all add: demo_wide_report_def demo_health_file_def)
  then show ?thesis
    using cluster_health_cap [of demo_wide_report "fst (capClusterHealthReport demo_wide_report)" "snd (capClusterHealthReport demo_wide_report)"]
    by (auto simp: neq_Nil_conv)
qed

section \<open>What a capture wrote is read back\<close>

lemma session_policy_path:
  assumes "ValidatePolicyRef ns wl = None" and "list_all proper_elem es" and "es \<noteq> []"
  shows "Join [abs_path es, ''policies'', ns, wl @ ''.yaml''] = policy_path (sq_OutputDir (DeriveSessionPaths V (abs_path es))) ns wl"
proof -
  have pol: "proper_elem ''policies''" by (simp add: proper_elem_def)
  have es': "list_all proper_elem (es @ [''policies''])" "es @ [''policies''] \<noteq> []" using assms(2) pol by simp_all
  have ext: "CHR ''/'' \<notin> set ''.yaml''" "2 \<le> length ''.yaml''" by simp_all
  note wp = workload_path [OF assms(1) es' ext]
  have "sq_OutputDir (DeriveSessionPaths V (abs_path es)) = abs_path (es @ [''policies''])"
    using Join_abs_path [OF es'(1) assms(3)] by (simp add: DeriveSessionPaths_def Let_def)
  then have "policy_path (sq_OutputDir (DeriveSessionPaths V (abs_path es))) ns wl = abs_path (es @ [''policies'', ns, wl @ ''.yaml''])"
    using wp(1) by (simp add: policy_path_def)
  moreover have "list_all proper_elem (es @ [''policies'', ns, wl @ ''.yaml''])" using wp(2) by simp
  ultimately show ?thesis using Join_abs_path [of es "[''policies'', ns, wl @ ''.yaml'']"] assms(3) by simp
qed

text \<open>C11: A capture and the query tools fit together: when the writer, without cluster comparison, has handled the
  policies of a session's capture into the session's directory and no write failed, get_policy answers, for
  the valid namespace and workload of every policy handled whose file can be opened, with the bytes on disk;
  they are read as a policy with every pair of a peer and a listed port or ICMP type of the handled one (toFQDNs
  names and rules without ports are not compared), and the answer gives that policy's name and rule counts.  It
  assumes a clean absolute session directory, that no event replaces HTTP rules (path collapsing is off), that
  no name in the policies has a line break, that a temporary file is nobody's policy file, that YAML, comments
  aside, reads back with the same pairs, and that rules of equal bytes have the same pairs.\<close>

theorem get_policy_shows_capture:
  assumes "wl_slot w = Some p" and "se_ID (wl_heap w p) = sid" and "se_TmpDir (wl_heap w p) = abs_path es"
    and "list_all proper_elem es" and "es \<noteq> []" and "dir = sq_OutputDir (DeriveSessionPaths (qe_paths Q) (abs_path es))"
    and "handle_all W evs (newPolicyWriter dir None stats, fs) = (w', fs')"
    and "list_all (\<lambda>x. x \<noteq> WriteFailed) (outcomes W evs (newPolicyWriter dir None stats, fs))"
    and "lossless (we_externals W) (we_yaml W)" and "faithful_marshal (we_externals W) (we_marshal_rule W)"
    and "tidy (we_yaml W) fs" and "plain_events dir evs" and "(os, pe) \<in> set evs"
    and "qe_yaml Q = we_yaml W" and "ValidatePolicyRef (ev_Namespace pe) (ev_Workload pe) = None"
    and "\<not> qe_unreadable Q (event_path dir pe)"
  shows "\<exists>r q. handleGetPolicy Q now g fs' w sid (ev_Namespace pe) (ev_Workload pe) = Inr r
    \<and> map_of fs' (event_path dir pe) = Some (gp_YAML r) \<and> ya_unmarshal (we_yaml W) (gp_YAML r) = Some q
    \<and> grants_within (we_externals W) (spec_of (ev_Policy pe)) (spec_of q)
    \<and> gp_Name r = cnp_Name q \<and> gp_IngressRuleCount r = length (ru_Ingress (spec_of q)) \<and> gp_EgressRuleCount r = length (ru_Egress (spec_of q))"
proof -
  have "writer_inv W dir {} (newPolicyWriter dir None stats, fs)" using assms(11) by (simp add: writer_inv_def newPolicyWriter_def)
  from run_on_disk [OF this assms(8-10,12,13)] obtain data q where
    q: "map_of fs' (event_path dir pe) = Some data" "ya_unmarshal (we_yaml W) data = Some q"
      "grants_within (we_externals W) (spec_of (ev_Policy pe)) (spec_of q)"
    unfolding assms(7) on_disk_def by auto
  have path: "Join [abs_path es, ''policies'', ev_Namespace pe, ev_Workload pe @ ''.yaml''] = event_path dir pe"
    using session_policy_path [OF assms(15,4,5)] assms(6) by simp
  have counts: "rule_counts q = (length (ru_Ingress (spec_of q)), length (ru_Egress (spec_of q)))"
    by (simp add: rule_counts_def spec_of_def split: option.split)
  have "resolveSession now g fs' w sid = Inr status \<Longrightarrow> st_TmpDir status = abs_path es" for status
    using assms(1-3) by (auto simp: resolveSession_def Status_def Let_def)
  moreover have "\<exists>status. resolveSession now g fs' w sid = Inr status" using assms(1,2) by (simp add: resolveSession_def Status_def Let_def)
  ultimately show ?thesis
    using q assms(15,16) by (auto simp: handleGetPolicy_def path Let_def UnmarshalPolicy_def assms(14) counts)
qed

text \<open>The example of theory \<open>OnDisk\<close>, written into the directory of a session.\<close>

definition demo_reader :: query_env where
  "demo_reader = demo_query\<lparr>qe_yaml := disk_codec\<rparr>"

theorem get_policy_shows_capture_witness:
  "\<exists>r. handleGetPolicy demo_reader 0 False
      (snd (handle_all disk_env [(demo_os, demo_event)] (newPolicyWriter ''/t/policies'' None (new_stats 0 ''/t''), [])))
      demo_manager ''s'' ''ns'' ''a'' = Inr r \<and> gp_Name r = cnp_Name demo_policy"
proof -
  let ?evs = "[(demo_os, demo_event)]" and ?w = "newPolicyWriter ''/t/policies'' None (new_stats 0 ''/t'')"
  have "outcomes disk_env ?evs (?w, []) = [Written] \<and> policy_path ''/t/policies'' ''ns'' ''a'' = ''/t/policies/ns/a.yaml''
      \<and> os_tmp demo_os = ''/out/ns/a.yaml.tmp-1'' \<and> ev_Policy demo_event = demo_policy \<and> \<not> ev_ReplaceL7HTTP demo_event
      \<and> cnp_Spec demo_policy = Some demo_rule \<and> one_line_rules demo_rule \<and> abs_path [''t''] = ''/t'' \<and> proper_elem ''t''
      \<and> ev_Namespace demo_event = ''ns'' \<and> ev_Workload demo_event = ''a'' \<and> ValidatePolicyRef ''ns'' ''a'' = None"
    by code_simp
  note p = this
  have W: "we_externals disk_env = demo_externals" "we_yaml disk_env = disk_codec" by (simp_all add: disk_env_def)
  have plain: "plain_events ''/t/policies'' ?evs" using p by (simp add: plain_events_def one_line_rules_spec_of)
  have Q: "qe_yaml demo_reader = disk_codec" "\<not> qe_unreadable demo_reader path" "qe_paths demo_reader = qe_paths demo_query" for path
    by (simp_all add: demo_reader_def demo_query_def)
  have m: "wl_slot demo_manager = Some 0" "se_ID (wl_heap demo_manager 0) = ''s''" "se_TmpDir (wl_heap demo_manager 0) = abs_path [''t'']"
    using p by (simp_all add: demo_manager_def new_session_def)
  have dir: "''/t/policies'' = sq_OutputDir (DeriveSessionPaths (qe_paths demo_reader) (abs_path [''t'']))"
    using p demo_session_paths by (simp add: Q)
  from get_policy_shows_capture [OF m _ _ dir surjective_pairing, where W = disk_env and evs = ?evs
      and stats = "new_stats 0 ''/t''" and fs = "[]" and os = demo_os and pe = demo_event and now = 0 and g = False]
  obtain r q where r: "handleGetPolicy demo_reader 0 False (snd (handle_all disk_env ?evs (?w, []))) demo_manager ''s'' ''ns'' ''a'' = Inr r"
      "ya_unmarshal disk_codec (gp_YAML r) = Some q" "gp_Name r = cnp_Name q"
    using p plain disk_env_ok W Q by (auto simp: tidy_def)
  have "q = demo_policy" using r(2) by (simp add: disk_codec_def split: if_splits)
  with r show ?thesis by auto
qed

end
