(* ===== verification/FlowSource.thy ===== *)
theory FlowSource
  imports Flow "HOL-Library.Sublist"
begin

text \<open>
  Where flows come from: the replay of a capture file (\<open>pkg/flowsource/file.go\<close>) and the stream of the Hubble
  relay (\<open>pkg/hubble/client.go\<close>).  The file's bytes, gzip, the protobuf JSON of a line, the gRPC calls and
  the moments at which the context is cancelled are parameters.  What a goroutine sends on its channel
  is the list it returns.
\<close>

section \<open>Reading lines\<close>

definition defaultScannerBufferBytes :: int where "defaultScannerBufferBytes = 10 * 1024 * 1024"

definition drop_cr :: "string \<Rightarrow> string" where
  "drop_cr l = trim_suffix l [CHR 0x0D]"

text \<open>
  \<open>bufio.Scanner\<close> with \<open>ScanLines\<close>: the lines it returns, and whether it stopped at a line that fills the
  buffer.  An empty last line is none.
\<close>

fun scan_lines :: "int \<Rightarrow> string list \<Rightarrow> string list \<times> bool" where
  "scan_lines limit [] = ([], False)"
| "scan_lines limit (l # ls) =
     (if limit \<le> int (length l) then ([], True)
      else if l = [] \<and> ls = [] then ([], False)
      else case scan_lines limit ls of (rest, tooLong) \<Rightarrow> (drop_cr l # rest, tooLong))"

definition scan :: "string \<Rightarrow> string list \<times> bool" where
  "scan data = scan_lines defaultScannerBufferBytes (split_on CHR 0x0A data)"

section \<open>The file source\<close>

type_synonym counter = "64 word"

record FileSourceStats =
  fo_LinesRead :: counter
  fo_FlowsEmitted :: counter
  fo_NonDroppedSkipped :: counter
  fo_Malformed :: counter

definition no_lines :: FileSourceStats where
  "no_lines = \<lparr>fo_LinesRead = 0, fo_FlowsEmitted = 0, fo_NonDroppedSkipped = 0, fo_Malformed = 0\<rparr>"

definition wanted_verdict :: "bool \<Rightarrow> flow \<Rightarrow> bool" where
  "wanted_verdict includeAudit f \<longleftrightarrow>
     \<not> (fl_verdict f \<noteq> Verdict_DROPPED \<and> (\<not> includeAudit \<or> fl_verdict f \<noteq> Verdict_AUDIT))"

text \<open>
  The loop over the lines.  \<open>parse\<close> is \<open>protojson.Unmarshal\<close> followed by \<open>GetFlow\<close>; \<open>check\<close> and \<open>stop\<close> tell, by the
  number of the line, whether the context is found done before a line is read and whether it ends the
  send of a flow.
\<close>

record replay_env =
  ry_parse :: "string \<Rightarrow> flow option option"
  ry_check :: "nat \<Rightarrow> bool"
  ry_stop :: "nat \<Rightarrow> bool"

fun replay_lines :: "replay_env \<Rightarrow> bool \<Rightarrow> nat \<Rightarrow> string list \<Rightarrow> FileSourceStats \<Rightarrow> flow list \<times> FileSourceStats \<times> bool" where
  "replay_lines R includeAudit lineNum [] st = ([], st, False)"
| "replay_lines R includeAudit lineNum (raw # rest) st =
     (if ry_check R (Suc lineNum) then ([], st, True)
      else
        let st1 = st\<lparr>fo_LinesRead := fo_LinesRead st + 1\<rparr>; line = trim_space raw
        in if line = [] then replay_lines R includeAudit (Suc lineNum) rest st1
           else case ry_parse R line of
                  None \<Rightarrow> replay_lines R includeAudit (Suc lineNum) rest (st1\<lparr>fo_Malformed := fo_Malformed st1 + 1\<rparr>)
                | Some None \<Rightarrow> replay_lines R includeAudit (Suc lineNum) rest (st1\<lparr>fo_Malformed := fo_Malformed st1 + 1\<rparr>)
                | Some (Some f) \<Rightarrow>
                    if \<not> wanted_verdict includeAudit f then
                      replay_lines R includeAudit (Suc lineNum) rest (st1\<lparr>fo_NonDroppedSkipped := fo_NonDroppedSkipped st1 + 1\<rparr>)
                    else if ry_stop R (Suc lineNum) then ([], st1, True)
                    else case replay_lines R includeAudit (Suc lineNum) rest (st1\<lparr>fo_FlowsEmitted := fo_FlowsEmitted st1 + 1\<rparr>) of
                           (flows, st2, stopped) \<Rightarrow> (f # flows, st2, stopped))"

text \<open>
  The file: its bytes with whether reading them ends in an error, \<open>None\<close> when it cannot be opened;
  \<open>gunzip\<close> is \<open>None\<close> when the header is bad.
\<close>

record source_env =
  so_stat :: "string \<Rightarrow> bool"
  so_open :: "string \<Rightarrow> (string \<times> bool) option"
  so_stdin :: "string \<times> bool"
  so_gunzip :: "string \<times> bool \<Rightarrow> (string \<times> bool) option"
  so_replay :: replay_env

datatype source_error = StatFailed string | OpenFailed string | GzipFailed

definition NewFileSource :: "source_env \<Rightarrow> string \<Rightarrow> source_error + string" where
  "NewFileSource S path = (if path \<noteq> ''-'' \<and> \<not> so_stat S path then Inl (StatFailed path) else Inr path)"

definition openReader :: "source_env \<Rightarrow> string \<Rightarrow> source_error + string \<times> bool" where
  "openReader S path =
     (if path = ''-'' then Inr (so_stdin S)
      else case so_open S path of
             None \<Rightarrow> Inl (OpenFailed path)
           | Some f \<Rightarrow>
               if has_suffix path ''.gz'' then (case so_gunzip S f of None \<Rightarrow> Inl GzipFailed | Some g \<Rightarrow> Inr g)
               else Inr f)"

datatype replay_end = ReplayStopped | ReplayTruncated | ReplayComplete

record replay_run =
  rr_flows :: "flow list"
  rr_stats :: FileSourceStats
  rr_end :: replay_end

text \<open>The namespaces are not looked at; no lost events are reported.\<close>

definition StreamDroppedFlows_file :: "source_env \<Rightarrow> string \<Rightarrow> string list \<Rightarrow> bool \<Rightarrow> bool \<Rightarrow> source_error + replay_run" where
  "StreamDroppedFlows_file S path namespaces allNS includeAudit =
     (case openReader S path of
        Inl e \<Rightarrow> Inl e
      | Inr (data, readFails) \<Rightarrow>
          (case scan data of
             (lines, tooLong) \<Rightarrow>
               (case replay_lines (so_replay S) includeAudit 0 lines no_lines of
                  (flows, st, stopped) \<Rightarrow>
                    Inr \<lparr>rr_flows = flows, rr_stats = st,
                         rr_end = (if stopped then ReplayStopped else if tooLong \<or> readFails then ReplayTruncated else ReplayComplete)\<rparr>)))"

section \<open>The relay\<close>

record FlowFilter =
  ff_Verdict :: "verdict list"
  ff_SourcePod :: "string list"
  ff_DestinationPod :: "string list"

definition buildFilters :: "string list \<Rightarrow> bool \<Rightarrow> bool \<Rightarrow> FlowFilter list" where
  "buildFilters namespaces allNS includeAudit =
     (let verdicts = Verdict_DROPPED # (if includeAudit then [Verdict_AUDIT] else []); prefixes = map (\<lambda>ns. ns @ ''/'') namespaces
      in if allNS \<or> namespaces = [] then [\<lparr>ff_Verdict = verdicts, ff_SourcePod = [], ff_DestinationPod = []\<rparr>]
         else [\<lparr>ff_Verdict = verdicts, ff_SourcePod = prefixes, ff_DestinationPod = []\<rparr>,
               \<lparr>ff_Verdict = verdicts, ff_SourcePod = [], ff_DestinationPod = prefixes\<rparr>])"

text \<open>
  What \<open>Recv\<close> gives: a response with a flow, lost events or both, and for each whether the send went
  through or the context was done first; or an error, with whether the context is done and whether it
  is the end of the stream.  A stream whose list ends is still open.
\<close>

datatype 'l recv = Response "flow option" "'l option" bool bool | RecvError bool bool string

fun streamFromSource :: "'l recv list \<Rightarrow> flow list \<times> 'l list \<times> string option" where
  "streamFromSource [] = ([], [], None)"
| "streamFromSource (RecvError ctxDone eof e # rest) = ([], [], if ctxDone \<or> eof then None else Some e)"
| "streamFromSource (Response f le flowSent lostSent # rest) =
     (if f \<noteq> None \<and> \<not> flowSent then ([], [], None)
      else if le \<noteq> None \<and> \<not> lostSent then (case f of None \<Rightarrow> [] | Some x \<Rightarrow> [x], [], None)
      else case streamFromSource rest of
             (flows, losts, err) \<Rightarrow>
               ((case f of None \<Rightarrow> flows | Some x \<Rightarrow> x # flows), (case le of None \<Rightarrow> losts | Some y \<Rightarrow> y # losts), err))"

text \<open>
  Connecting: the states the connection goes through before the deadline; it is ready as soon as one of
  them is.
\<close>

datatype conn_state = Connecting | Ready | ConnDown

fun waitForConnReady :: "conn_state list \<Rightarrow> bool" where
  "waitForConnReady [] = False"
| "waitForConnReady (s # later) = (if s = Ready then True else waitForConnReady later)"

record 'l relay_env =
  re_newClient :: bool
  re_states :: "conn_state list"
  re_getFlows :: "FlowFilter list \<Rightarrow> 'l recv list option"

datatype relay_error = BadTarget' | NotReady | StreamNotStarted

definition StreamDroppedFlows_relay ::
  "'l relay_env \<Rightarrow> int \<Rightarrow> string list \<Rightarrow> bool \<Rightarrow> bool \<Rightarrow> relay_error + flow list \<times> 'l list \<times> string option" where
  "StreamDroppedFlows_relay Y timeout namespaces allNS includeAudit =
     (if \<not> re_newClient Y then Inl BadTarget'
      else if 0 < timeout \<and> \<not> waitForConnReady (re_states Y) then Inl NotReady
      else case re_getFlows Y (buildFilters namespaces allNS includeAudit) of
             None \<Rightarrow> Inl StreamNotStarted
           | Some recvs \<Rightarrow> Inr (streamFromSource recvs))"

section \<open>What a replay gives\<close>

text \<open>A line that is neither blank nor malformed, as the flow it holds.\<close>

definition line_flow :: "replay_env \<Rightarrow> string \<Rightarrow> flow option" where
  "line_flow R raw = (if trim_space raw = [] then None else Option.bind (ry_parse R (trim_space raw)) id)"

definition wanted_flows :: "replay_env \<Rightarrow> bool \<Rightarrow> string list \<Rightarrow> flow list" where
  "wanted_flows R includeAudit lines = filter (wanted_verdict includeAudit) (List.map_filter (line_flow R) lines)"

definition blank_lines :: "string list \<Rightarrow> nat" where
  "blank_lines lines = length (filter (\<lambda>raw. trim_space raw = []) lines)"

definition malformed_lines :: "replay_env \<Rightarrow> string list \<Rightarrow> nat" where
  "malformed_lines R lines = length (filter (\<lambda>raw. trim_space raw \<noteq> [] \<and> line_flow R raw = None) lines)"

definition other_verdicts :: "replay_env \<Rightarrow> bool \<Rightarrow> string list \<Rightarrow> nat" where
  "other_verdicts R includeAudit lines = length (filter (\<lambda>f. \<not> wanted_verdict includeAudit f) (List.map_filter (line_flow R) lines))"

text \<open>The counters after the lines, from those before.\<close>

definition counted :: "replay_env \<Rightarrow> bool \<Rightarrow> string list \<Rightarrow> nat \<Rightarrow> FileSourceStats \<Rightarrow> FileSourceStats \<Rightarrow> bool" where
  "counted R includeAudit lines sent st st' \<longleftrightarrow>
     fo_LinesRead st' = fo_LinesRead st + of_nat (length lines)
     \<and> fo_FlowsEmitted st' = fo_FlowsEmitted st + of_nat sent
     \<and> fo_NonDroppedSkipped st' = fo_NonDroppedSkipped st + of_nat (other_verdicts R includeAudit lines)
     \<and> fo_Malformed st' = fo_Malformed st + of_nat (malformed_lines R lines)"

lemmas line_defs = wanted_flows_def other_verdicts_def malformed_lines_def map_filter_simps

definition replayed :: "replay_env \<Rightarrow> bool \<Rightarrow> string list \<Rightarrow> FileSourceStats \<Rightarrow> flow list \<Rightarrow> FileSourceStats \<Rightarrow> bool \<Rightarrow> bool" where
  "replayed R a lines st flows st' stopped \<longleftrightarrow>
     (\<exists>seen later. lines = seen @ later \<and> counted R a seen (length flows) st st'
       \<and> (if stopped then prefix flows (wanted_flows R a seen) else later = [] \<and> flows = wanted_flows R a seen))"

lemma replayed_skip:
  assumes "replayed R a rest st2 flows st' stopped" and "line_flow R raw = None"
    and "st2 = (let st1 = st\<lparr>fo_LinesRead := fo_LinesRead st + 1\<rparr>
                in if trim_space raw = [] then st1 else st1\<lparr>fo_Malformed := fo_Malformed st1 + 1\<rparr>)"
  shows "replayed R a (raw # rest) st flows st' stopped"
proof -
  obtain seen later where r: "rest = seen @ later" "counted R a seen (length flows) st2 st'"
      "if stopped then prefix flows (wanted_flows R a seen) else later = [] \<and> flows = wanted_flows R a seen"
    using assms(1) by (auto simp: replayed_def)
  have "counted R a (raw # seen) (length flows) st st'" "wanted_flows R a (raw # seen) = wanted_flows R a seen"
    using r(2) assms(2,3) by (simp_all add: counted_def line_defs Let_def split: if_splits)
  with r(1,3) show ?thesis unfolding replayed_def by (intro exI [of _ "raw # seen"] exI [of _ later]) simp
qed

lemma replayed_other:
  assumes "replayed R a rest (st\<lparr>fo_LinesRead := fo_LinesRead st + 1, fo_NonDroppedSkipped := fo_NonDroppedSkipped st + 1\<rparr>) flows st' stopped"
    and "line_flow R raw = Some f" and "\<not> wanted_verdict a f"
  shows "replayed R a (raw # rest) st flows st' stopped"
proof -
  obtain seen later where r: "rest = seen @ later"
      "counted R a seen (length flows) (st\<lparr>fo_LinesRead := fo_LinesRead st + 1, fo_NonDroppedSkipped := fo_NonDroppedSkipped st + 1\<rparr>) st'"
      "if stopped then prefix flows (wanted_flows R a seen) else later = [] \<and> flows = wanted_flows R a seen"
    using assms(1) by (auto simp: replayed_def)
  have "counted R a (raw # seen) (length flows) st st'" "wanted_flows R a (raw # seen) = wanted_flows R a seen"
    using r(2) assms(2,3) by (simp_all add: counted_def line_defs)
  with r(1,3) show ?thesis unfolding replayed_def by (intro exI [of _ "raw # seen"] exI [of _ later]) simp
qed

lemma replayed_send:
  assumes "replayed R a rest (st\<lparr>fo_LinesRead := fo_LinesRead st + 1, fo_FlowsEmitted := fo_FlowsEmitted st + 1\<rparr>) flows st' stopped"
    and "line_flow R raw = Some f" and "wanted_verdict a f"
  shows "replayed R a (raw # rest) st (f # flows) st' stopped"
proof -
  obtain seen later where r: "rest = seen @ later"
      "counted R a seen (length flows) (st\<lparr>fo_LinesRead := fo_LinesRead st + 1, fo_FlowsEmitted := fo_FlowsEmitted st + 1\<rparr>) st'"
      "if stopped then prefix flows (wanted_flows R a seen) else later = [] \<and> flows = wanted_flows R a seen"
    using assms(1) by (auto simp: replayed_def)
  have "counted R a (raw # seen) (length (f # flows)) st st'" "wanted_flows R a (raw # seen) = f # wanted_flows R a seen"
    using r(2) assms(2,3) by (simp_all add: counted_def line_defs)
  with r(1,3) show ?thesis unfolding replayed_def by (intro exI [of _ "raw # seen"] exI [of _ later]) simp
qed

lemma replay_lines_counts:
  "replay_lines R a n lines st = (flows, st', stopped) \<Longrightarrow> replayed R a lines st flows st' stopped"
proof (induction lines arbitrary: n st flows)
  case Nil
  then show ?case by (simp add: replayed_def counted_def line_defs)
next
  case (Cons raw rest)
  let ?st1 = "st\<lparr>fo_LinesRead := fo_LinesRead st + 1\<rparr>" and ?line = "trim_space raw"
  have here: "replayed R a (raw # rest) st [] st True"
    unfolding replayed_def by (intro exI [of _ "[]"] exI [of _ "raw # rest"]) (simp add: counted_def line_defs)
  consider "ry_check R (Suc n)" | "\<not> ry_check R (Suc n)" "?line = []" | "\<not> ry_check R (Suc n)" "?line \<noteq> []" by blast
  then show ?case
  proof cases
    case 1
    then show ?thesis using Cons.prems here by simp
  next
    case 2
    then have "replay_lines R a (Suc n) rest ?st1 = (flows, st', stopped)" using Cons.prems by (simp add: Let_def)
    from replayed_skip [OF Cons.IH [OF this]] show ?thesis using 2 by (simp add: line_flow_def Let_def)
  next
    case 3
    show ?thesis
    proof (cases "line_flow R raw")
      case None
      then have "ry_parse R ?line = None \<or> ry_parse R ?line = Some None" using 3 by (cases "ry_parse R ?line") (auto simp: line_flow_def)
      then have "replay_lines R a (Suc n) rest (?st1\<lparr>fo_Malformed := fo_Malformed ?st1 + 1\<rparr>) = (flows, st', stopped)"
        using Cons.prems 3 by (auto simp: Let_def)
      from replayed_skip [OF Cons.IH [OF this] None] show ?thesis using 3 by (simp add: Let_def)
    next
      case (Some f)
      then have p: "ry_parse R ?line = Some (Some f)" using 3 by (cases "ry_parse R ?line") (auto simp: line_flow_def)
      consider (other) "\<not> wanted_verdict a f" | (stop) "wanted_verdict a f" "ry_stop R (Suc n)"
        | (send) "wanted_verdict a f" "\<not> ry_stop R (Suc n)" by blast
      then show ?thesis
      proof cases
        case other
        then have "replay_lines R a (Suc n) rest (?st1\<lparr>fo_NonDroppedSkipped := fo_NonDroppedSkipped ?st1 + 1\<rparr>) = (flows, st', stopped)"
          using Cons.prems 3 p by (simp add: Let_def)
        from replayed_other [OF _ Some other] Cons.IH [OF this] show ?thesis by simp
      next
        case stop
        then have "flows = []" "st' = ?st1" "stopped" using Cons.prems 3 p by (simp_all add: Let_def)
        then show ?thesis
          unfolding replayed_def using Some stop by (intro exI [of _ "[raw]"] exI [of _ rest]) (simp add: counted_def line_defs)
      next
        case send
        obtain fs where fs: "flows = f # fs"
            "replay_lines R a (Suc n) rest (?st1\<lparr>fo_FlowsEmitted := fo_FlowsEmitted ?st1 + 1\<rparr>) = (fs, st', stopped)"
          using Cons.prems 3 p send by (auto simp: Let_def split: prod.splits)
        from replayed_send [OF _ Some send(1)] Cons.IH [OF fs(2)] show ?thesis by (simp add: fs(1))
      qed
    qed
  qed
qed

definition file_lines :: "string \<Rightarrow> string list" where
  "file_lines data = (let ls = split_on CHR 0x0A data in map drop_cr (if last ls = [] then butlast ls else ls))"

lemma scan_lines_all:
  "\<not> snd (scan_lines limit ls) \<Longrightarrow> fst (scan_lines limit ls) = map drop_cr (if ls \<noteq> [] \<and> last ls = [] then butlast ls else ls)"
  by (induction limit ls rule: scan_lines.induct) (auto split: if_splits prod.splits)

lemma line_partition:
  "length lines = blank_lines lines + malformed_lines R lines + other_verdicts R a lines + length (wanted_flows R a lines)"
proof (induction lines)
  case (Cons raw lines)
  then show ?case
    by (cases "line_flow R raw") (auto simp: blank_lines_def line_defs line_flow_def split: if_splits)
qed (simp add: blank_lines_def line_defs)

text \<open>C22: A replay hands on the flows of the file, and accounts for every line: unless the run is cancelled, the flows
  it emits are, in the order of the file, those of the lines read whose verdict is wanted; the counters
  are the numbers of lines, of flows emitted, of flows with another verdict and of malformed lines, and
  every line that is none of the last three is blank; a run that reports itself complete has read all lines
  of the file.  A cancelled run has emitted a prefix of these flows.\<close>

theorem replay_accounts:
  assumes "StreamDroppedFlows_file S path namespaces allNS a = Inr run" and "openReader S path = Inr (data, readFails)"
  defines "lines \<equiv> fst (scan data)" and "R \<equiv> so_replay S"
  shows "prefix (rr_flows run) (wanted_flows R a lines)
    \<and> (rr_end run = ReplayComplete \<longrightarrow> lines = file_lines data)
    \<and> (rr_end run \<noteq> ReplayStopped \<longrightarrow> rr_flows run = wanted_flows R a lines
        \<and> length lines = blank_lines lines + malformed_lines R lines + other_verdicts R a lines + length (rr_flows run)
        \<and> rr_stats run = \<lparr>fo_LinesRead = of_nat (length lines), fo_FlowsEmitted = of_nat (length (rr_flows run)),
            fo_NonDroppedSkipped = of_nat (other_verdicts R a lines), fo_Malformed = of_nat (malformed_lines R lines)\<rparr>)"
proof -
  obtain flows st stopped where r: "replay_lines R a 0 lines no_lines = (flows, st, stopped)" by (metis prod.exhaust)
  have run: "rr_flows run = flows" "rr_stats run = st"
      "rr_end run = (if stopped then ReplayStopped else if snd (scan data) \<or> readFails then ReplayTruncated else ReplayComplete)"
    using assms(1) r unfolding StreamDroppedFlows_file_def assms(2) lines_def R_def by (auto split: prod.splits)
  obtain seen later where c: "lines = seen @ later" "counted R a seen (length flows) no_lines st"
      "if stopped then prefix flows (wanted_flows R a seen) else later = [] \<and> flows = wanted_flows R a seen"
    using replay_lines_counts [OF r] unfolding replayed_def by blast
  have "prefix (wanted_flows R a seen) (wanted_flows R a lines)" by (simp add: c(1) wanted_flows_def map_filter_def)
  with c(3) have "prefix flows (wanted_flows R a lines)" by (auto split: if_splits intro: prefix_order.trans)
  moreover have "lines = file_lines data" if "rr_end run = ReplayComplete"
    using scan_lines_all [of defaultScannerBufferBytes "split_on CHR 0x0A data"] that run(3)
    by (auto simp: lines_def scan_def file_lines_def Let_def split: if_splits)
  ultimately show ?thesis
    using c run line_partition [of lines R a] by (auto simp: counted_def no_lines_def split: if_splits)
qed

section \<open>What the relay is asked for\<close>

definition pod_matches :: "string \<Rightarrow> endpoint option \<Rightarrow> bool" where
  "pod_matches p ep =
     (case ep of
        None \<Rightarrow> False
      | Some e \<Rightarrow> ep_namespace e = takeWhile (\<lambda>c. c \<noteq> CHR ''/'') p
          \<and> has_prefix (ep_pod_name e) (drop 1 (dropWhile (\<lambda>c. c \<noteq> CHR ''/'') p)))"

definition namespaced_entry :: "string \<Rightarrow> bool" where
  "namespaced_entry p \<longleftrightarrow> CHR ''/'' \<in> set p \<and> takeWhile (\<lambda>c. c \<noteq> CHR ''/'') p \<noteq> []"

text \<open>
  What the relay's documentation says of a whitelist: a flow passes when one filter matches it, a filter
  when each of its fields that is set does, the verdict field when the verdict is one of its entries, a
  pod field when the pod is in the namespace of one of its entries and its name starts with what follows
  the slash.  Nothing is said here of an empty whitelist or of an entry that names no namespace.
\<close>

definition filter_matches :: "FlowFilter \<Rightarrow> flow \<Rightarrow> bool" where
  "filter_matches t f \<longleftrightarrow>
     (ff_Verdict t = [] \<or> fl_verdict f \<in> set (ff_Verdict t))
     \<and> (ff_SourcePod t = [] \<or> list_ex (\<lambda>p. pod_matches p (fl_source f)) (ff_SourcePod t))
     \<and> (ff_DestinationPod t = [] \<or> list_ex (\<lambda>p. pod_matches p (fl_destination f)) (ff_DestinationPod t))"

definition documented_relay :: "(FlowFilter list \<Rightarrow> flow \<Rightarrow> bool) \<Rightarrow> bool" where
  "documented_relay passes \<longleftrightarrow> (\<forall>fs f. fs \<noteq> [] \<and> (\<forall>t \<in> set fs. list_all namespaced_entry (ff_SourcePod t @ ff_DestinationPod t))
     \<longrightarrow> passes fs f = list_ex (\<lambda>t. filter_matches t f) fs)"

lemma namespace_entry:
  assumes "CHR ''/'' \<notin> set ns"
  shows "pod_matches (ns @ ''/'') ep \<longleftrightarrow> map_option ep_namespace ep = Some ns" and "namespaced_entry (ns @ ''/'') \<longleftrightarrow> ns \<noteq> []"
proof -
  have "takeWhile (\<lambda>c. c \<noteq> CHR ''/'') (ns @ ''/'') = ns" "dropWhile (\<lambda>c. c \<noteq> CHR ''/'') (ns @ ''/'') = ''/''"
    using assms by (auto simp: takeWhile_append2 dropWhile_append2 intro!: trans [OF takeWhile_append2] trans [OF dropWhile_append2])
  then show "pod_matches (ns @ ''/'') ep \<longleftrightarrow> map_option ep_namespace ep = Some ns" and "namespaced_entry (ns @ ''/'') \<longleftrightarrow> ns \<noteq> []"
    by (auto simp: pod_matches_def namespaced_entry_def has_prefix_def split: option.split)
qed

lemma buildFilters_documented:
  assumes "\<forall>ns \<in> set namespaces. ns \<noteq> [] \<and> CHR ''/'' \<notin> set ns"
  shows "buildFilters namespaces allNS a \<noteq> []"
    and "t \<in> set (buildFilters namespaces allNS a) \<Longrightarrow> list_all namespaced_entry (ff_SourcePod t @ ff_DestinationPod t)"
  using assms by (auto simp: buildFilters_def Let_def list_all_iff namespace_entry(2) split: if_splits)

text \<open>C23: Live capture and replay select by the same verdicts, and the live one by namespace as well: for namespaces whose
  names are not empty and contain no slash, a relay that treats such filters as documented lets a flow
  through the filters it is sent exactly when a replay with the same audit flag would emit it and, unless
  all namespaces are wanted, its source or its destination is in one of the namespaces.\<close>

theorem live_filters:
  assumes "documented_relay passes" and "\<forall>ns \<in> set namespaces. ns \<noteq> [] \<and> CHR ''/'' \<notin> set ns"
  shows "passes (buildFilters namespaces allNS a) f \<longleftrightarrow>
    wanted_verdict a f \<and> (allNS \<or> namespaces = []
      \<or> (\<exists>ns \<in> set namespaces. map_option ep_namespace (fl_source f) = Some ns \<or> map_option ep_namespace (fl_destination f) = Some ns))"
proof -
  have pods: "pod_matches (ns @ ''/'') ep \<longleftrightarrow> map_option ep_namespace ep = Some ns" if "ns \<in> set namespaces" for ns ep
    using that assms(2) by (simp add: namespace_entry(1))
  have "passes (buildFilters namespaces allNS a) f = list_ex (\<lambda>t. filter_matches t f) (buildFilters namespaces allNS a)"
    using assms(1) buildFilters_documented [OF assms(2)] unfolding documented_relay_def by blast
  then have p: "passes (buildFilters namespaces allNS a) f \<longleftrightarrow> wanted_verdict a f \<and> (allNS \<or> namespaces = []
      \<or> (\<exists>ns \<in> set namespaces. pod_matches (ns @ ''/'') (fl_source f)) \<or> (\<exists>ns \<in> set namespaces. pod_matches (ns @ ''/'') (fl_destination f)))"
    by (cases "allNS \<or> namespaces = []")
      (auto simp: buildFilters_def Let_def wanted_verdict_def filter_matches_def list_ex_iff split: if_splits)
  show ?thesis unfolding p using pods by blast
qed

lemma replay_lines_free:
  "\<forall>n. \<not> ry_check R n \<and> \<not> ry_stop R n \<Longrightarrow> \<not> snd (snd (replay_lines R a n lines st))"
  by (induction lines arbitrary: n st) (simp_all add: Let_def split_def split: option.split)

definition demo_line_flow :: "verdict \<Rightarrow> flow" where
  "demo_line_flow v = \<lparr>fl_time = None, fl_verdict = v, fl_drop_reason = DropReason ''POLICY_DENIED'', fl_direction = INGRESS,
     fl_source = Some \<lparr>ep_identity = 1, ep_namespace = ''ns'', ep_labels = [], ep_pod_name = ''p''\<rparr>, fl_destination = None, fl_ip = None,
     fl_l4 = None, fl_l7 = None, fl_node_name = []\<rparr>"

definition demo_source :: source_env where
  "demo_source =
     \<lparr>so_stat = (\<lambda>_. True), so_open = (\<lambda>_. Some (''d'' @ CHR 0x0A # ''a'' @ CHR 0x0A # CHR 0x0A # ''x'' @ CHR 0x0A # ''d'', False)),
      so_stdin = ([], False), so_gunzip = (\<lambda>_. None),
      so_replay = \<lparr>ry_parse = (\<lambda>l. if l = ''d'' then Some (Some (demo_line_flow Verdict_DROPPED))
          else if l = ''a'' then Some (Some (demo_line_flow Verdict_AUDIT)) else None), ry_check = (\<lambda>_. False), ry_stop = (\<lambda>_. False)\<rparr>\<rparr>"

theorem replay_accounts_witness:
  "\<exists>run. StreamDroppedFlows_file demo_source ''f'' [] True False = Inr run
     \<and> rr_stats run = \<lparr>fo_LinesRead = 5, fo_FlowsEmitted = 2, fo_NonDroppedSkipped = 1, fo_Malformed = 1\<rparr>"
proof -
  have o: "openReader demo_source ''f'' = Inr (''d'' @ CHR 0x0A # ''a'' @ CHR 0x0A # CHR 0x0A # ''x'' @ CHR 0x0A # ''d'', False)"
    by code_simp
  have "split_on CHR 0x0A (''d'' @ CHR 0x0A # ''a'' @ CHR 0x0A # CHR 0x0A # ''x'' @ CHR 0x0A # ''d'') = [''d'', ''a'', [], ''x'', ''d'']"
    by simp
  then have l: "fst (scan (''d'' @ CHR 0x0A # ''a'' @ CHR 0x0A # CHR 0x0A # ''x'' @ CHR 0x0A # ''d'')) = [''d'', ''a'', [], ''x'', ''d'']"
    by (simp add: scan_def defaultScannerBufferBytes_def drop_cr_def trim_suffix_def has_suffix_def)
  have t: "trim_space [] = []" "trim_space ''d'' = ''d''" "trim_space ''a'' = ''a''" "trim_space ''x'' = ''x''" by code_simp+
  have n: "other_verdicts (so_replay demo_source) False [''d'', ''a'', [], ''x'', ''d''] = 1"
      "malformed_lines (so_replay demo_source) [''d'', ''a'', [], ''x'', ''d''] = 1" "blank_lines [''d'', ''a'', [], ''x'', ''d''] = 1"
    by (simp_all add: line_defs blank_lines_def line_flow_def t demo_source_def wanted_verdict_def demo_line_flow_def)
  have "\<forall>n. \<not> ry_check (so_replay demo_source) n \<and> \<not> ry_stop (so_replay demo_source) n" by (simp add: demo_source_def)
  note free = replay_lines_free [OF this]
  let ?d = "''d'' @ CHR 0x0A # ''a'' @ CHR 0x0A # CHR 0x0A # ''x'' @ CHR 0x0A # ''d''"
  obtain lines tooLong where s: "scan ?d = (lines, tooLong)" by (metis prod.exhaust)
  obtain flows st where f: "replay_lines (so_replay demo_source) False 0 lines no_lines = (flows, st, False)"
    using free [of False 0 lines no_lines] by (metis prod.exhaust snd_conv)
  obtain run where r: "StreamDroppedFlows_file demo_source ''f'' [] True False = Inr run" "rr_end run \<noteq> ReplayStopped"
    unfolding StreamDroppedFlows_file_def o sum.case s f prod.case by (auto split: if_splits)
  from replay_accounts [OF r(1) o] r(2) n line_partition [of "[''d'', ''a'', [], ''x'', ''d'']" "so_replay demo_source" False]
  show ?thesis unfolding l by (simp add: r(1))
qed

definition demo_relay :: "FlowFilter list \<Rightarrow> flow \<Rightarrow> bool" where
  "demo_relay fs f = list_ex (\<lambda>t. filter_matches t f) fs"

theorem live_filters_witness:
  "demo_relay (buildFilters [''ns''] False False) (demo_line_flow Verdict_DROPPED)
   \<and> \<not> demo_relay (buildFilters [''other''] False False) (demo_line_flow Verdict_DROPPED)
   \<and> \<not> demo_relay (buildFilters [''ns''] False False) (demo_line_flow Verdict_AUDIT)"
proof -
  have d: "documented_relay demo_relay" by (simp add: documented_relay_def demo_relay_def)
  show ?thesis
    using live_filters [OF d, of "[''ns'']" False False "demo_line_flow Verdict_DROPPED"]
      live_filters [OF d, of "[''other'']" False False "demo_line_flow Verdict_DROPPED"]
      live_filters [OF d, of "[''ns'']" False False "demo_line_flow Verdict_AUDIT"]
    by (simp add: wanted_verdict_def demo_line_flow_def)
qed

end
