(* ===== verification/Generate.thy ===== *)
theory Generate
  imports SessionSetup Flags FlowSource
begin

text \<open>
  \<open>cmd/cpg/generate.go\<close> and \<open>cmd/cpg/replay.go\<close>: from the flags of the two commands to the pipeline's
  configuration, with the advisory calls to the cluster before a live run.  The Kubernetes answers, the
  clock, the environment and the terminal test are parameters; the set-up answers are those of
  \<open>SessionSetup\<close>.
\<close>

section \<open>Flags\<close>

record generate_flags = common_flags +
  gf_server :: string
  gf_tlsEnabled :: bool
  gf_timeout :: int
  gf_noL7Preflight :: bool

definition validate_generate :: "'a common_flags_scheme \<Rightarrow> flag_error option" where
  "validate_generate f = (if cf_namespaces f \<noteq> [] \<and> cf_allNamespaces f then Some NamespacesExclusive else None)"

definition clusterDedupNamespaces :: "'a common_flags_scheme \<Rightarrow> string list" where
  "clusterDedupNamespaces f = (if cf_allNamespaces f \<or> cf_namespaces f = [] then [[]] else cf_namespaces f)"

section \<open>The calls before a live run\<close>

text \<open>
  \<open>cl_watched\<close> are the events the namespace watch delivers during the run, \<open>cl_setup\<close> the answers
  shared with the sessions.
\<close>

record 'v cluster_env =
  cl_setup :: "'v setup_env"
  cl_config :: "label_map api_result"
  cl_envoy :: "unit api_result"
  cl_namespaces :: "string list api_result"
  cl_watch :: "unit api_result"
  cl_watched :: "(bool \<times> watch_event) list"

record run_env =
  re_paths :: path_env
  re_xdg :: string
  re_home :: "string option"
  re_terminal :: bool
  re_sessionID :: string
  re_version :: string

datatype 'a probe = NotAsked | Skipped' | Ran 'a

definition has_client :: "'v cluster_env \<Rightarrow> bool \<Rightarrow> bool" where
  "has_client C kubeConfig \<longleftrightarrow> (kubeConfig \<or> se_kubeconfig (cl_setup C)) \<and> se_client (cl_setup C)"

definition maybeRunL7Preflight :: "'v cluster_env \<Rightarrow> bool \<Rightarrow> bool \<Rightarrow> bool \<Rightarrow> cluster_warning list probe" where
  "maybeRunL7Preflight C kubeConfig l7Enabled noPreflight =
     (if \<not> l7Enabled \<or> noPreflight then NotAsked
      else if \<not> has_client C kubeConfig then Skipped' else Ran (RunL7Preflight (cl_config C) (cl_envoy C)))"

definition maybeRunVersionPreflight :: "'v cluster_env \<Rightarrow> bool \<Rightarrow> cluster_warning list probe" where
  "maybeRunVersionPreflight C kubeConfig =
     (if \<not> has_client C kubeConfig then Skipped'
      else Ran (snd (DetectCiliumVersion (se_versions (cl_setup C)) (se_pods_canceled (cl_setup C)) (Some (se_pods (cl_setup C))))))"

text \<open>\<open>None\<close> is the nil watcher.\<close>

definition maybeStartNamespaceWatcher :: "'v cluster_env \<Rightarrow> bool \<Rightarrow> NamespaceWatcher option" where
  "maybeStartNamespaceWatcher C kubeConfig =
     (if \<not> has_client C kubeConfig then None else Some (StartNamespaceWatcher (cl_namespaces C) (cl_watch C)))"

definition maybeDetectDNSSelector :: "'v cluster_env \<Rightarrow> bool \<Rightarrow> bool \<Rightarrow> label_map" where
  "maybeDetectDNSSelector C kubeConfig l7 =
     (if \<not> l7 then [] else if \<not> has_client C kubeConfig then [] else fst (DetectDNSSelector (se_services (cl_setup C))))"

text \<open>
  The interface field \<open>NewNamespaces\<close> is set from a pointer, so it is never nil; a watcher answers at the
  end of the run, after the events of its watch.
\<close>

definition namespaces_field :: "'v cluster_env \<Rightarrow> NamespaceWatcher option \<Rightarrow> namespaces_source" where
  "namespaces_field C w =
     (case w of
        None \<Rightarrow> NilWatcher
      | Some nw \<Rightarrow> Source (case NewNamespaces (fold Cluster.consume (cl_watched C) nw) of None \<Rightarrow> [] | Some ns \<Rightarrow> ns))"

definition resolveEvidenceDir :: "run_env \<Rightarrow> string \<Rightarrow> string" where
  "resolveEvidenceDir R override =
     (if override \<noteq> [] then override
      else case DefaultEvidenceDir (re_xdg R) (re_home R) of None \<Rightarrow> ''.cpg-evidence'' | Some dir \<Rightarrow> dir)"

section \<open>Configurations\<close>

text \<open>
  The literal each command fills in; a field a literal leaves out has its zero value, so a replay has no
  cluster policies, no DNS selector and no source of namespaces.
\<close>

definition generate_config ::
  "run_env \<Rightarrow> generate_flags \<Rightarrow> string list \<Rightarrow> string list \<Rightarrow> string \<Rightarrow> cnp_map option \<Rightarrow> label_map \<Rightarrow> namespaces_source \<Rightarrow> pipeline_config" where
  "generate_config R f ignoreProtocols ignoreDropReasons server clusterPolicies dnsSelector nsWatcher =
     (let absOutDir = (case Abs (re_paths R) (cf_outputDir f) of None \<Rightarrow> cf_outputDir f | Some a \<Rightarrow> a)
      in \<lparr>pc_Server = server, pc_TLSEnabled = gf_tlsEnabled f, pc_Timeout = gf_timeout f, pc_Namespaces = cf_namespaces f,
          pc_AllNamespaces = cf_allNamespaces f, pc_OutputDir = cf_outputDir f, pc_FlushInterval = cf_flushInterval f,
          pc_ClusterPolicies = clusterPolicies, pc_DryRun = cf_dryRun f, pc_DryRunDiff = (\<not> cf_dryRunNoDiff f), pc_DryRunColor = re_terminal R,
          pc_EvidenceEnabled = (\<not> cf_noEvidence f), pc_EvidenceDir = resolveEvidenceDir R (cf_evidenceDir f),
          pc_OutputHash = HashOutputDir (re_paths R) absOutDir,
          pc_EvidenceCaps = \<lparr>mc_MaxSamples = cf_evidenceSamples f, mc_MaxSessions = cf_evidenceSessions f\<rparr>,
          pc_SessionID = re_sessionID R, pc_SessionSource = \<lparr>sr_Type = ''live'', sr_File = [], sr_Server = server\<rparr>,
          pc_CPGVersion = re_version R, pc_L7Enabled = cf_l7 f,
          pc_IncludeAudit = cf_includeAudit f, pc_CollapseL7Paths = cf_l7CollapsePaths f,
          pc_MinFlowsPerL7Rule = cf_minFlowsPerL7Rule f, pc_DNSSelector = dnsSelector, pc_IgnoreProtocols = ignoreProtocols,
          pc_IgnoreDropReasons = ignoreDropReasons, pc_FailOnInfraDrops = cf_failOnInfraDrops f, pc_NewNamespaces = nsWatcher\<rparr>)"

definition replay_config ::
  "run_env \<Rightarrow> common_flags \<Rightarrow> string list \<Rightarrow> string list \<Rightarrow> string \<Rightarrow> source_info \<Rightarrow> pipeline_config" where
  "replay_config R f ignoreProtocols ignoreDropReasons path sessionSource =
     (let absOutDir = (case Abs (re_paths R) (cf_outputDir f) of None \<Rightarrow> cf_outputDir f | Some a \<Rightarrow> a)
      in \<lparr>pc_Server = ''replay:'' @ path, pc_TLSEnabled = False, pc_Timeout = 0, pc_Namespaces = cf_namespaces f,
          pc_AllNamespaces = cf_allNamespaces f, pc_OutputDir = cf_outputDir f, pc_FlushInterval = cf_flushInterval f,
          pc_ClusterPolicies = None, pc_DryRun = cf_dryRun f, pc_DryRunDiff = (\<not> cf_dryRunNoDiff f), pc_DryRunColor = re_terminal R,
          pc_EvidenceEnabled = (\<not> cf_noEvidence f), pc_EvidenceDir = resolveEvidenceDir R (cf_evidenceDir f),
          pc_OutputHash = HashOutputDir (re_paths R) absOutDir,
          pc_EvidenceCaps = \<lparr>mc_MaxSamples = cf_evidenceSamples f, mc_MaxSessions = cf_evidenceSessions f\<rparr>,
          pc_SessionID = re_sessionID R, pc_SessionSource = sessionSource,
          pc_CPGVersion = re_version R, pc_L7Enabled = cf_l7 f,
          pc_IncludeAudit = cf_includeAudit f, pc_CollapseL7Paths = cf_l7CollapsePaths f,
          pc_MinFlowsPerL7Rule = cf_minFlowsPerL7Rule f, pc_DNSSelector = [], pc_IgnoreProtocols = ignoreProtocols,
          pc_IgnoreDropReasons = ignoreDropReasons, pc_FailOnInfraDrops = cf_failOnInfraDrops f, pc_NewNamespaces = NilSource\<rparr>)"

datatype command_error =
    FlagError flag_error
  | NoServerNoKubeconfig
  | AutoForwardFailed
  | DedupNeedsKubeconfig
  | DedupLoadFailed
  | SourceError source_error

text \<open>The two filters as the commands check them again, without a logger.\<close>

definition checked_filters ::
  "unicode_case \<Rightarrow> string list \<Rightarrow> 'a common_flags_scheme \<Rightarrow> reason_log \<Rightarrow> command_error + string list \<times> string list" where
  "checked_filters U names f l =
     (case validateIgnoreProtocols U (cf_ignoreProtocols f) of
        Inl e \<Rightarrow> Inl (FlagError e)
      | Inr protocols \<Rightarrow>
          (case fst (validateIgnoreDropReasons U names False (cf_ignoreDropReasons f) l) of
             Inl e \<Rightarrow> Inl (FlagError e)
           | Inr reasons \<Rightarrow> Inr (protocols, reasons)))"

text \<open>The server, with whether a kubeconfig has been loaded.\<close>

definition live_server :: "'v cluster_env \<Rightarrow> string \<Rightarrow> command_error + string \<times> bool" where
  "live_server C server =
     (if server \<noteq> [] then Inr (server, False)
      else if \<not> se_kubeconfig (cl_setup C) then Inl NoServerNoKubeconfig
      else case se_forward (cl_setup C) of ForwardedTo localAddr \<Rightarrow> Inr (localAddr, True) | _ \<Rightarrow> Inl AutoForwardFailed)"

definition live_dedup :: "'v cluster_env \<Rightarrow> bool \<Rightarrow> string list \<Rightarrow> bool \<Rightarrow> command_error + cnp_map option \<times> bool" where
  "live_dedup C clusterDedup namespaces kubeConfig =
     (if \<not> clusterDedup then Inr (None, kubeConfig)
      else if \<not> kubeConfig \<and> \<not> se_kubeconfig (cl_setup C) then Inl DedupNeedsKubeconfig
      else case LoadClusterPoliciesForNamespaces (se_list_policies (cl_setup C)) namespaces of
             None \<Rightarrow> Inl DedupLoadFailed
           | Some policies \<Rightarrow> Inr (Some policies, True))"

text \<open>The configuration \<open>RunPipeline\<close> is called with, and what the two preflights logged.\<close>

definition runGenerate ::
  "unicode_case \<Rightarrow> string list \<Rightarrow> reason_log \<Rightarrow> run_env \<Rightarrow> 'v cluster_env \<Rightarrow> generate_flags
     \<Rightarrow> command_error + pipeline_config \<times> cluster_warning list probe \<times> cluster_warning list probe" where
  "runGenerate U names l R C f =
     (case validate_generate f of
        Some e \<Rightarrow> Inl (FlagError e)
      | None \<Rightarrow>
          (case checked_filters U names f l of
             Inl e \<Rightarrow> Inl e
           | Inr (protocols, reasons) \<Rightarrow>
               (case live_server C (gf_server f) of
                  Inl e \<Rightarrow> Inl e
                | Inr (server, kubeConfig) \<Rightarrow>
                    (case live_dedup C (cf_clusterDedup f) (clusterDedupNamespaces f) kubeConfig of
                       Inl e \<Rightarrow> Inl e
                     | Inr (clusterPolicies, kubeConfig') \<Rightarrow>
                         Inr (generate_config R f protocols reasons server clusterPolicies
                                (maybeDetectDNSSelector C kubeConfig' (cf_l7 f))
                                (namespaces_field C (maybeStartNamespaceWatcher C kubeConfig')),
                              maybeRunL7Preflight C kubeConfig' (cf_l7 f) (gf_noL7Preflight f),
                              maybeRunVersionPreflight C kubeConfig')))))"

definition runReplay ::
  "unicode_case \<Rightarrow> string list \<Rightarrow> reason_log \<Rightarrow> run_env \<Rightarrow> source_env \<Rightarrow> string \<Rightarrow> common_flags \<Rightarrow> command_error + pipeline_config \<times> string" where
  "runReplay U names l R S path f =
     (case validate_generate f of
        Some e \<Rightarrow> Inl (FlagError e)
      | None \<Rightarrow>
          (case checked_filters U names f l of
             Inl e \<Rightarrow> Inl e
           | Inr (protocols, reasons) \<Rightarrow>
               (case NewFileSource S path of
                  Inl e \<Rightarrow> Inl (SourceError e)
                | Inr source \<Rightarrow>
                    (let file = (if path = ''-'' then []
                                 else case Abs (re_paths R) path of None \<Rightarrow> path | Some a \<Rightarrow> a)
                     in Inr (replay_config R f protocols reasons path
                              \<lparr>sr_Type = ''replay'', sr_File = file, sr_Server = []\<rparr>, source)))))"

section \<open>Properties\<close>

text \<open>The cases of a live run that reaches its pipeline.\<close>

lemma live_server_kubeconfig: "live_server C server = Inr (server', k) \<Longrightarrow> k \<longrightarrow> se_kubeconfig (cl_setup C)"
  by (auto simp: live_server_def split: if_splits forward_result.splits)

lemma live_dedup_kubeconfig:
  "live_dedup C dedup ns k = Inr (policies, k') \<Longrightarrow> (k' \<longrightarrow> k \<or> se_kubeconfig (cl_setup C)) \<and> (policies = None \<longleftrightarrow> \<not> dedup)"
  by (auto simp: live_dedup_def split: if_splits option.splits; metis)

lemma runGenerate_cases:
  assumes "runGenerate U names l R C f = Inr (cfg, l7, version)"
  obtains protocols reasons server policies kubeConfig where
    "checked_filters U names f l = Inr (protocols, reasons)"
    "kubeConfig \<longrightarrow> se_kubeconfig (cl_setup C)" "policies = None \<longleftrightarrow> \<not> cf_clusterDedup f"
    "cfg = generate_config R f protocols reasons server policies (maybeDetectDNSSelector C kubeConfig (cf_l7 f))
        (namespaces_field C (maybeStartNamespaceWatcher C kubeConfig))"
proof -
  from assms obtain protocols reasons server k policies k' where g:
      "checked_filters U names f l = Inr (protocols, reasons)" "live_server C (gf_server f) = Inr (server, k)"
      "live_dedup C (cf_clusterDedup f) (clusterDedupNamespaces f) k = Inr (policies, k')"
      "cfg = generate_config R f protocols reasons server policies (maybeDetectDNSSelector C k' (cf_l7 f))
        (namespaces_field C (maybeStartNamespaceWatcher C k'))"
    by (auto simp: runGenerate_def split: option.splits sum.splits)
  show ?thesis
    by (rule that [OF g(1) _ _ g(4)]) (use live_server_kubeconfig [OF g(2)] live_dedup_kubeconfig [OF g(3)] in blast)+
qed

text \<open>Cutting the shared flags out of those of a command keeps each of them.\<close>

lemma truncate_flags:
  "cf_namespaces (common_flags.truncate f) = cf_namespaces f" "cf_allNamespaces (common_flags.truncate f) = cf_allNamespaces f"
  "cf_flushInterval (common_flags.truncate f) = cf_flushInterval f"
  "cf_ignoreProtocols (common_flags.truncate f) = cf_ignoreProtocols f"
  "cf_ignoreDropReasons (common_flags.truncate f) = cf_ignoreDropReasons f"
  "cf_outputDir (common_flags.truncate f) = cf_outputDir f" "cf_dryRun (common_flags.truncate f) = cf_dryRun f"
  "cf_dryRunNoDiff (common_flags.truncate f) = cf_dryRunNoDiff f" "cf_noEvidence (common_flags.truncate f) = cf_noEvidence f"
  "cf_evidenceDir (common_flags.truncate f) = cf_evidenceDir f" "cf_evidenceSamples (common_flags.truncate f) = cf_evidenceSamples f"
  "cf_evidenceSessions (common_flags.truncate f) = cf_evidenceSessions f" "cf_l7 (common_flags.truncate f) = cf_l7 f"
  "cf_includeAudit (common_flags.truncate f) = cf_includeAudit f" "cf_l7CollapsePaths (common_flags.truncate f) = cf_l7CollapsePaths f"
  "cf_minFlowsPerL7Rule (common_flags.truncate f) = cf_minFlowsPerL7Rule f"
  "cf_failOnInfraDrops (common_flags.truncate f) = cf_failOnInfraDrops f"
  by (simp_all add: common_flags.truncate_def)

lemma checked_filters_truncate: "checked_filters U names (common_flags.truncate f) l = checked_filters U names f l"
  unfolding checked_filters_def truncate_flags ..

lemma namespaces_field_nil: "namespaces_field C (maybeStartNamespaceWatcher C k) = NilWatcher \<longleftrightarrow> \<not> has_client C k"
  by (simp add: namespaces_field_def maybeStartNamespaceWatcher_def)

text \<open>A run against a relay given by hand, on a machine without a kubeconfig, with the flags of \<open>demo_flags\<close>.\<close>

definition demo_generate :: generate_flags where
  "demo_generate = common_flags.extend demo_flags (generate_flags.fields ''relay:80'' False 5 False)"

definition demo_cluster :: "string cluster_env" where
  "demo_cluster =
     \<lparr>cl_setup =
        \<lparr>se_kubeconfig = False, se_forward = ForwardFailed, se_list_policies = (\<lambda>_. None),
         se_versions = \<lparr>va_ParseGeneric = Some, va_String = (\<lambda>v. v), va_LessThan = (\<lambda>_ _. False), va_AtLeast = (\<lambda>_ _. True)\<rparr>,
         se_relay = \<lparr>ra_NewClient = (\<lambda>_ _. False), ra_ready = (\<lambda>_. False), ra_GetNodes = (\<lambda>_. None)\<rparr>,
         se_client = True, se_pods = Forbidden, se_pods_canceled = False, se_services = Forbidden\<rparr>,
      cl_config = Forbidden, cl_envoy = Forbidden, cl_namespaces = Forbidden, cl_watch = Forbidden, cl_watched = []\<rparr>"

definition demo_run_paths :: path_env where
  "demo_run_paths = \<lparr>pe_sha = (\<lambda>_. ''h''), pe_cwd = None\<rparr>"

definition demo_run_env :: run_env where
  "demo_run_env =
     \<lparr>re_paths = demo_run_paths, re_xdg = [], re_home = None, re_terminal = False, re_sessionID = ''s'', re_version = ''v''\<rparr>"

abbreviation demo_names :: "string list" where "demo_names \<equiv> [''POLICY_DENIED'']"

lemma demo_generate_flags:
  "common_flags.truncate demo_generate = demo_flags" "cf_clusterDedup demo_generate = False" "cf_l7 demo_generate = False"
  "cf_allNamespaces demo_generate = False" "gf_server demo_generate = ''relay:80''" "cf_flushInterval demo_generate = 0"
  by (simp_all add: demo_generate_def common_flags.extend_def generate_flags.fields_def common_flags.truncate_def demo_flags_def)

lemma demo_filters:
  obtains protocols reasons where "checked_filters demo_case demo_names demo_flags demo_reason_log = Inr (protocols, reasons)"
proof -
  have "\<not> isl (checked_filters demo_case demo_names demo_flags demo_reason_log)" by code_simp
  with that show ?thesis by (cases "checked_filters demo_case demo_names demo_flags demo_reason_log") auto
qed

lemma demo_generate_runs:
  obtains cfg l7 version where
    "runGenerate demo_case demo_names demo_reason_log demo_run_env demo_cluster demo_generate = Inr (cfg, l7, version)"
    "pc_DNSSelector cfg = []"
proof -
  obtain protocols reasons where "checked_filters demo_case demo_names demo_generate demo_reason_log = Inr (protocols, reasons)"
    using demo_filters checked_filters_truncate [of demo_case demo_names demo_generate demo_reason_log]
    unfolding demo_generate_flags by metis
  then show ?thesis
    using that by (simp add: runGenerate_def validate_generate_def demo_generate_flags live_server_def live_dedup_def maybeDetectDNSSelector_def
        generate_config_def Let_def)
qed



text \<open>C21: A replay does to the flows of a capture what a live run would have done: with the same shared flags, in the
  same place and without cluster comparison or a detected DNS selector, the two configurations, each written
  out field by field by its command, configure the same aggregator and the same health writer with the same
  evidence caps and exit-code flag, and on the same policy events and files the policy stage does the same and
  leaves the same files.\<close>

theorem replay_as_live:
  assumes "runGenerate U names l R C f = Inr (cfg, l7, version)" and "runReplay U names l R S path (common_flags.truncate f) = Inr (cfg', source)"
    and "\<not> cf_clusterDedup f" and "pc_DNSSelector cfg = []"
  shows "configured_aggregator cfg' w = configured_aggregator cfg w \<and> policy_stage N cfg' evs fs = policy_stage N cfg evs fs
    \<and> configured_health_writer cfg' start = configured_health_writer cfg start
    \<and> pc_EvidenceCaps cfg' = pc_EvidenceCaps cfg \<and> pc_FailOnInfraDrops cfg' = pc_FailOnInfraDrops cfg
    \<and> pc_EvidenceDir cfg' = pc_EvidenceDir cfg \<and> pc_OutputHash cfg' = pc_OutputHash cfg"
proof -
  from assms(1) obtain protocols reasons server k where g: "checked_filters U names f l = Inr (protocols, reasons)"
      "cfg = generate_config R f protocols reasons server None (maybeDetectDNSSelector C k (cf_l7 f))
        (namespaces_field C (maybeStartNamespaceWatcher C k))"
    using assms(3) by (cases rule: runGenerate_cases) auto
  have d: "maybeDetectDNSSelector C k (cf_l7 f) = []" using assms(4) by (simp add: g(2) generate_config_def Let_def)
  obtain info where r: "cfg' = replay_config R (common_flags.truncate f) protocols reasons path info"
    using assms(2) g(1) by (auto simp: runReplay_def checked_filters_truncate Let_def split: option.splits sum.splits)
  show ?thesis
    by (simp add: g(2) d r configured_aggregator_def policy_stage_def configured_policy_writer_def configured_health_writer_def
        generate_config_def replay_config_def Let_def truncate_flags cong: option.case_cong)
qed

theorem replay_as_live_witness:
  "\<exists>cfg l7 version cfg' source.
     runGenerate demo_case demo_names demo_reason_log demo_run_env demo_cluster demo_generate = Inr (cfg, l7, version)
     \<and> runReplay demo_case demo_names demo_reason_log demo_run_env demo_source ''flows.jsonl'' demo_flags = Inr (cfg', source)
     \<and> pc_OutputHash cfg' = pc_OutputHash cfg"
proof (rule demo_generate_runs)
  fix cfg l7 version
  assume r: "runGenerate demo_case demo_names demo_reason_log demo_run_env demo_cluster demo_generate = Inr (cfg, l7, version)"
    and d: "pc_DNSSelector cfg = []"
  obtain protocols reasons where "checked_filters demo_case demo_names demo_flags demo_reason_log = Inr (protocols, reasons)"
    by (rule demo_filters)
  then have "\<exists>cfg' source. runReplay demo_case demo_names demo_reason_log demo_run_env demo_source ''flows.jsonl''
      (common_flags.truncate demo_generate) = Inr (cfg', source)"
    by (simp add: demo_generate_flags runReplay_def validate_generate_def demo_flags_def NewFileSource_def demo_source_def Let_def)
  then obtain cfg' source where p: "runReplay demo_case demo_names demo_reason_log demo_run_env demo_source ''flows.jsonl''
      (common_flags.truncate demo_generate) = Inr (cfg', source)" by blast
  from replay_as_live [OF r p _ d] r p show ?thesis by (auto simp: demo_generate_flags)
qed

end
