(* ===== verification/Tools.thy ===== *)
theory Tools
  imports SessionSetup Flags Generate
begin

text \<open>
  The entry points that do not run a pipeline themselves: the bootstrap command and tool
  (\<open>cmd/cpg/bootstrap.go\<close>, \<open>mcp_bootstrap.go\<close>) and the handlers of the session tools (\<open>mcp_tools.go\<close>) up to the
  call of the manager, with \<open>time.ParseDuration\<close>.  The rule for namespace names is
  a parameter (apimachinery), and so are the answers of the cluster.
\<close>

section \<open>Durations\<close>

text \<open>
  \<open>time.ParseDuration\<close>, in nanoseconds.  The sum of the terms is unsigned with 64 bits and can wrap, from
  twice \<open>2 ^ 63\<close> to zero.  The product of a fraction is floating point, the parameter \<open>fl\<close>: of the digits
  after the point, the power of ten they are divided by, and the unit.
\<close>

datatype duration_error = InvalidDuration | MissingUnit | UnknownUnit string

abbreviation limit63 :: nat where "limit63 \<equiv> 2 ^ 63"

fun leadingInt :: "nat \<Rightarrow> string \<Rightarrow> (nat \<times> string) option" where
  "leadingInt x [] = Some (x, [])"
| "leadingInt x (c # s) =
     (if \<not> is_digit c then Some (x, c # s)
      else if x > limit63 div 10 then None
      else let y = x * 10 + digit_val c in if y > limit63 then None else leadingInt y s)"

fun leadingFraction :: "nat \<Rightarrow> nat \<Rightarrow> bool \<Rightarrow> string \<Rightarrow> nat \<times> nat \<times> string" where
  "leadingFraction x scale overflow [] = (x, scale, [])"
| "leadingFraction x scale overflow (c # s) =
     (if \<not> is_digit c then (x, scale, c # s)
      else if overflow then leadingFraction x scale True s
      else if x > (limit63 - 1) div 10 then leadingFraction x scale True s
      else let y = x * 10 + digit_val c
           in if y > limit63 then leadingFraction x scale True s else leadingFraction y (scale * 10) False s)"

definition unitMap :: "(string \<times> nat) list" where
  "unitMap =
     [(''ns'', 1), (''us'', 1000), (CHR 0xC2 # CHR 0xB5 # ''s'', 1000), (CHR 0xCE # CHR 0xBC # ''s'', 1000),
      (''ms'', 1000000), (''s'', 1000000000), (''m'', 60 * 1000000000), (''h'', 3600 * 1000000000)]"

definition unit_char :: "char \<Rightarrow> bool" where
  "unit_char c \<longleftrightarrow> c \<noteq> CHR ''.'' \<and> \<not> is_digit c"

text \<open>The number before a unit: its integer, whether the fraction counts, and what is left.\<close>

definition leading_number :: "string \<Rightarrow> (nat \<times> nat \<times> nat \<times> string) option" where
  "leading_number s =
     (if s = [] \<or> unit_char (hd s) then None
      else case leadingInt 0 s of
             None \<Rightarrow> None
           | Some (v, s1) \<Rightarrow>
               (let pre = (length s \<noteq> length s1)
                in case s1 of
                     [] \<Rightarrow> if pre then Some (v, 0, 1, s1) else None
                   | c # s2 \<Rightarrow>
                       if c = CHR ''.''
                       then (case leadingFraction 0 1 False s2 of
                               (f, scale, s3) \<Rightarrow> if \<not> pre \<and> length s2 = length s3 then None else Some (v, f, scale, s3))
                       else if pre then Some (v, 0, 1, s1) else None))"

lemma leadingInt_length: "leadingInt x s = Some (v, s') \<Longrightarrow> length s' \<le> length s"
  by (induction x s arbitrary: v s' rule: leadingInt.induct) (fastforce simp: Let_def split: if_splits)+

lemma leadingFraction_length: "length (snd (snd (leadingFraction x scale ov s))) \<le> length s"
proof (induction s arbitrary: x scale ov)
  case (Cons c s)
  note IH = le_SucI [OF Cons.IH]
  show ?case by (simp add: Let_def IH)
qed simp

lemma leading_number_length:
  assumes "leading_number s = Some (v, f, scale, s')"
  shows "length s' \<le> length s"
proof -
  from assms obtain w s1 where i: "leadingInt 0 s = Some (w, s1)"
    by (auto simp: leading_number_def split: if_splits option.splits)
  show ?thesis
  proof (cases s1)
    case Nil
    with assms i show ?thesis by (auto simp: leading_number_def Let_def split: if_splits)
  next
    case (Cons c s2)
    with assms i leadingInt_length [OF i] leadingFraction_length [of 0 1 False s2] show ?thesis
      by (auto simp: leading_number_def Let_def split: if_splits prod.splits)
  qed
qed

lemma shorter_dropWhile: "takeWhile P xs \<noteq> [] \<Longrightarrow> length (dropWhile P xs) < length xs"
  by (cases xs) (simp_all add: le_imp_less_Suc length_dropWhile_le split: if_splits)

text \<open>The loop over the numbers with their units; \<open>d\<close> is the sum so far.\<close>

function duration_terms :: "(nat \<Rightarrow> nat \<Rightarrow> nat \<Rightarrow> nat) \<Rightarrow> nat \<Rightarrow> string \<Rightarrow> duration_error + nat" where
  "duration_terms fl d s =
     (if s = [] then Inr d
      else case leading_number s of
             None \<Rightarrow> Inl InvalidDuration
           | Some (v, f, scale, s1) \<Rightarrow>
               (let u = takeWhile unit_char s1; s2 = dropWhile unit_char s1
                in if u = [] then Inl MissingUnit
                   else case map_of unitMap u of
                          None \<Rightarrow> Inl (UnknownUnit u)
                        | Some unit \<Rightarrow>
                            if v > limit63 div unit then Inl InvalidDuration
                            else let w = v * unit + (if f > 0 then fl f scale unit else 0);
                                     d' = (d + w) mod 2 ^ 64
                                 in if (f > 0 \<and> w > limit63) \<or> d' > limit63 then Inl InvalidDuration
                                    else duration_terms fl d' s2))"
  by auto
termination
proof (relation "measure (\<lambda>(_, _, s). length s)")
  fix fl :: "nat \<Rightarrow> nat \<Rightarrow> nat \<Rightarrow> nat" and d d' s p v q f r scale s1 u s2 unit w
  assume "leading_number s = Some p" "(v, q) = p" "(f, r) = q" "(scale, s1) = r" "u = takeWhile unit_char s1" "s2 = dropWhile unit_char s1" "u \<noteq> []"
  then have "length s1 \<le> length s" "length s2 < length s1"
    using leading_number_length shorter_dropWhile by (blast, metis)
  then show "((fl, d', s2), fl, d, s) \<in> measure (\<lambda>(_, _, s). length s)" by simp
qed simp

definition ParseDuration :: "(nat \<Rightarrow> nat \<Rightarrow> nat \<Rightarrow> nat) \<Rightarrow> string \<Rightarrow> duration_error + int" where
  "ParseDuration fl s0 =
     (let neg = (s0 \<noteq> [] \<and> hd s0 = CHR ''-'');
          s = (if s0 \<noteq> [] \<and> (hd s0 = CHR ''-'' \<or> hd s0 = CHR ''+'') then tl s0 else s0)
      in if s = ''0'' then Inr 0
         else if s = [] then Inl InvalidDuration
         else case duration_terms fl 0 s of
                Inl e \<Rightarrow> Inl e
              | Inr d \<Rightarrow> if neg then Inr (- int d)
                         else if d > limit63 - 1 then Inl InvalidDuration
                         else Inr (int d))"

section \<open>The session tools\<close>

datatype tool_error =
    ToolFlag flag_error
  | DurationInvalid string duration_error
  | DurationNotPositive string
  | DurationTooLong string
  | MinFlowsNegative

record startSessionArgs =
  ss_Namespace :: "string list"
  ss_AllNamespaces' :: bool
  ss_L7' :: bool
  ss_IncludeAudit :: bool
  ss_CollapseL7Paths :: bool
  ss_MinFlowsPerL7Rule :: int
  ss_IgnoreDropReasons' :: "string list"
  ss_IgnoreProtocols' :: "string list"
  ss_Server' :: string
  ss_TLS :: bool
  ss_Timeout :: string
  ss_ClusterDedup :: bool
  ss_FlushInterval :: string

definition maxSessionDuration :: int where "maxSessionDuration = 24 * 3600 * second"

definition parseOptionalDuration :: "(nat \<Rightarrow> nat \<Rightarrow> nat \<Rightarrow> nat) \<Rightarrow> string \<Rightarrow> string \<Rightarrow> tool_error + int" where
  "parseOptionalDuration fl raw field =
     (if raw = [] then Inr 0
      else case ParseDuration fl raw of
             Inl e \<Rightarrow> Inl (DurationInvalid field e)
           | Inr d \<Rightarrow>
               if d \<le> 0 then Inl (DurationNotPositive field)
               else if d > maxSessionDuration then Inl (DurationTooLong field)
               else Inr d)"

text \<open>
  The handler of \<open>start_session\<close> up to \<open>Manager.Start\<close>: the arguments the manager gets.  The reasons are
  checked with the logger, so the warnings come with the result.
\<close>

definition start_session_args ::
  "(nat \<Rightarrow> nat \<Rightarrow> nat \<Rightarrow> nat) \<Rightarrow> unicode_case \<Rightarrow> string list \<Rightarrow> startSessionArgs \<Rightarrow> reason_log \<Rightarrow> (tool_error + StartArgs) \<times> reason_log" where
  "start_session_args fl U names a l =
     (if ss_Namespace a \<noteq> [] \<and> ss_AllNamespaces' a then (Inl (ToolFlag NamespacesExclusive), l)
      else case validateIgnoreProtocols U (ss_IgnoreProtocols' a) of
             Inl e \<Rightarrow> (Inl (ToolFlag e), l)
           | Inr ignoreProtocols \<Rightarrow>
               (case validateIgnoreDropReasons U names True (ss_IgnoreDropReasons' a) l of
                  (Inl e, l1) \<Rightarrow> (Inl (ToolFlag e), l1)
                | (Inr ignoreDropReasons, l1) \<Rightarrow>
                    (case parseOptionalDuration fl (ss_Timeout a) ''timeout'' of
                       Inl e \<Rightarrow> (Inl e, l1)
                     | Inr timeout \<Rightarrow>
                         (case parseOptionalDuration fl (ss_FlushInterval a) ''flush_interval'' of
                            Inl e \<Rightarrow> (Inl e, l1)
                          | Inr flushInterval \<Rightarrow>
                              if ss_MinFlowsPerL7Rule a < 0 then (Inl MinFlowsNegative, l1)
                              else (Inr \<lparr>ar_Namespaces = ss_Namespace a, ar_AllNamespaces = ss_AllNamespaces' a, ar_L7 = ss_L7' a,
                                     ar_IncludeAudit = ss_IncludeAudit a, ar_CollapseL7Paths = ss_CollapseL7Paths a,
                                     ar_MinFlowsPerL7Rule = ss_MinFlowsPerL7Rule a, ar_IgnoreDropReasons = ignoreDropReasons,
                                     ar_IgnoreProtocols = ignoreProtocols, ar_Server = ss_Server' a, ar_TLS = ss_TLS a,
                                     ar_Timeout = timeout, ar_ClusterDedup = ss_ClusterDedup a,
                                     ar_FlushInterval = flushInterval\<rparr>, l1)))))"

section \<open>The bootstrap policy\<close>

text \<open>
  \<open>bt_label\<close> is \<open>validation.IsDNS1123Label\<close>, the list of what is wrong with a name; \<open>bt_marshal\<close> the YAML.
\<close>

record 'v bootstrap_env =
  bt_setup :: "'v setup_env"
  bt_label :: "string \<Rightarrow> string list"
  bt_marshal :: "cnp \<Rightarrow> string option"
  bt_externals :: externals

datatype bootstrap_error = NamespaceRequired | InvalidNamespace "string list" | BelowDefaultDenyFloor string | BootstrapMarshal

definition bootstrapDetectVersion :: "'v setup_env \<Rightarrow> CompatInfo" where
  "bootstrapDetectVersion S =
     (if \<not> se_kubeconfig S then undetermined
      else if \<not> se_client S then undetermined
      else fst (DetectCiliumVersion (se_versions S) (se_pods_canceled S) (Some (se_pods S))))"

fun strings_Contains :: "string \<Rightarrow> string \<Rightarrow> bool" where
  "strings_Contains [] sub = (sub = [])"
| "strings_Contains (c # s) sub = (has_prefix (c # s) sub \<or> strings_Contains s sub)"

definition undetermined_warning :: string where
  "undetermined_warning = ''Cilium version undetermined; enableDefaultDeny requires >= 1.16 '' @ [CHR 0xE2, CHR 0x80, CHR 0x94] @ '' proceeding''"

definition bootstrapVersionGate :: "CompatInfo \<Rightarrow> bootstrap_error + string" where
  "bootstrapVersionGate info =
     (if ci_ClusterVersion info \<noteq> []
      then if list_ex (\<lambda>f. strings_Contains f ''enableDefaultDeny'') (ci_BelowFloorFeatures info)
           then Inl (BelowDefaultDenyFloor (ci_ClusterVersion info)) else Inr []
      else Inr undetermined_warning)"

definition validateBootstrapNamespace :: "'v bootstrap_env \<Rightarrow> string \<Rightarrow> bootstrap_error option" where
  "validateBootstrapNamespace B namespace = (if bt_label B namespace \<noteq> [] then Some (InvalidNamespace (bt_label B namespace)) else None)"

text \<open>What the command prints, with the warning it logs.\<close>

definition runBootstrap :: "'v bootstrap_env \<Rightarrow> string \<Rightarrow> bootstrap_error + string \<times> string" where
  "runBootstrap B namespace =
     (if namespace = [] then Inl NamespaceRequired
      else case validateBootstrapNamespace B namespace of
             Some e \<Rightarrow> Inl e
           | None \<Rightarrow>
               (case bootstrapVersionGate (bootstrapDetectVersion (bt_setup B)) of
                  Inl e \<Rightarrow> Inl e
                | Inr warning \<Rightarrow>
                    (case bt_marshal B (BuildBootstrapPolicy (bt_externals B) namespace) of
                       None \<Rightarrow> Inl BootstrapMarshal
                     | Some data \<Rightarrow> Inr (data @ [CHR 0x0A], warning))))"

record bootstrapResult =
  br_Namespace :: string
  br_YAML :: string
  br_ClusterVersion :: string
  br_VersionSource :: string
  br_BelowFloorFeatures :: "string list"
  br_VersionWarning :: string

definition handleGetBootstrapPolicy :: "'v bootstrap_env \<Rightarrow> string \<Rightarrow> bootstrap_error + bootstrapResult" where
  "handleGetBootstrapPolicy B namespace =
     (if namespace = [] then Inl NamespaceRequired
      else case validateBootstrapNamespace B namespace of
             Some e \<Rightarrow> Inl e
           | None \<Rightarrow>
               (let info = bootstrapDetectVersion (bt_setup B)
                in case bootstrapVersionGate info of
                     Inl e \<Rightarrow> Inl e
                   | Inr warning \<Rightarrow>
                       (case bt_marshal B (BuildBootstrapPolicy (bt_externals B) namespace) of
                          None \<Rightarrow> Inl BootstrapMarshal
                        | Some data \<Rightarrow>
                            Inr \<lparr>br_Namespace = namespace, br_YAML = data, br_ClusterVersion = ci_ClusterVersion info,
                                 br_VersionSource = ci_Source info, br_BelowFloorFeatures = ci_BelowFloorFeatures info,
                                 br_VersionWarning = warning\<rparr>)))"

section \<open>Properties\<close>

lemma parseOptionalDuration_range:
  "parseOptionalDuration fl raw field = Inr d \<Longrightarrow> 0 \<le> d \<and> d \<le> maxSessionDuration \<and> (raw \<noteq> [] \<longrightarrow> 0 < d)"
  by (auto simp: parseOptionalDuration_def maxSessionDuration_def second_def split: if_splits sum.splits)

text \<open>C19: A session a client starts never hits the two panics of the pipeline and never runs with settings out of range:
  whatever the strings it sends, when \<open>start_session\<close> reaches the manager the configuration of its pipeline has a
  ticker for the aggregator, a flush interval and a timeout of at most a day, only protocols and
  reasons that exist, a gate of at least one flow and not both ways to select namespaces; and no run of it
  ends by the panic of the ticker or of a nil watcher.\<close>

theorem started_session_bounded:
  assumes "fst (start_session_args fl U names a l) = Inr args"
  shows "let cfg = session_config V args tmpDir cpgVersion sessionID r
    in NewTicker (pc_FlushInterval cfg) = Some (pc_FlushInterval cfg) \<and> pc_FlushInterval cfg \<le> maxSessionDuration
      \<and> 0 < pc_Timeout cfg \<and> pc_Timeout cfg \<le> maxSessionDuration
      \<and> set (pc_IgnoreProtocols cfg) \<subseteq> set ValidIgnoreProtocols \<and> set (pc_IgnoreDropReasons cfg) \<subseteq> set names
      \<and> 1 \<le> pc_MinFlowsPerL7Rule cfg \<and> (pc_Namespaces cfg = [] \<or> \<not> pc_AllNamespaces cfg)
      \<and> po_result (RunPipelineWithSource N cfg openErr run lost err order fs) \<noteq> Some TickerPanic
      \<and> po_result (RunPipelineWithSource N cfg openErr run lost err order fs) \<noteq> Some NilDereference"
proof -
  obtain protocols reasons l1 timeout flushInterval where
      p: "validateIgnoreProtocols U (ss_IgnoreProtocols' a) = Inr protocols"
    and q: "validateIgnoreDropReasons U names True (ss_IgnoreDropReasons' a) l = (Inr reasons, l1)"
    and t: "parseOptionalDuration fl (ss_Timeout a) ''timeout'' = Inr timeout"
    and i: "parseOptionalDuration fl (ss_FlushInterval a) ''flush_interval'' = Inr flushInterval"
    and g: "ss_Namespace a = [] \<or> \<not> ss_AllNamespaces' a" "0 \<le> ss_MinFlowsPerL7Rule a"
    and args: "ar_IgnoreProtocols args = protocols" "ar_IgnoreDropReasons args = reasons" "ar_Timeout args = timeout"
      "ar_FlushInterval args = flushInterval" "ar_Namespaces args = ss_Namespace a" "ar_AllNamespaces args = ss_AllNamespaces' a"
      "ar_MinFlowsPerL7Rule args = ss_MinFlowsPerL7Rule a"
    using assms(1) by (auto simp: start_session_args_def split: if_splits sum.splits prod.splits)
  have "set reasons \<subseteq> set names"
    using validateIgnoreDropReasons_valid q by (metis fst_conv)
  note facts = this parseOptionalDuration_range [OF t] parseOptionalDuration_range [OF i] validateIgnoreProtocols_valid [OF p]
  show ?thesis
    using facts g
    by (auto simp: session_config_def buildPipelineConfig_def Let_def args defaultDuration_def pipeline_panics NewTicker_def
        second_def maxSessionDuration_def ResolveMinFlowsPerL7Rule_def DefaultMinFlowsPerL7Rule_def)
qed

definition demo_start :: startSessionArgs where
  "demo_start =
     \<lparr>ss_Namespace = [''prod''], ss_AllNamespaces' = False, ss_L7' = True, ss_IncludeAudit = False, ss_CollapseL7Paths = False,
      ss_MinFlowsPerL7Rule = 0, ss_IgnoreDropReasons' = [''policy_denied''], ss_IgnoreProtocols' = [''TCP''], ss_Server' = ''relay:80'',
      ss_TLS = False, ss_Timeout = ''1m30s'', ss_ClusterDedup = False, ss_FlushInterval = []\<rparr>"

lemma demo_duration: "ParseDuration fl ''1m30s'' = Inr 90000000000"
proof -
  have n: "leading_number ''1m30s'' = Some (1, 0, 1, ''m30s'')" "leading_number ''30s'' = Some (30, 0, 1, ''s'')"
    by (simp_all add: leading_number_def unit_char_def is_digit_def digit_val_def)
  show ?thesis
    by (simp add: ParseDuration_def duration_terms.simps [of _ 0 "''1m30s''"] duration_terms.simps [of _ 60000000000 "''30s''"]
        duration_terms.simps [of _ 90000000000 "[]"] n unitMap_def unit_char_def is_digit_def)
qed

theorem started_session_bounded_witness:
  "\<exists>args. fst (start_session_args (\<lambda>_ _ _. 0) demo_case [''POLICY_DENIED''] demo_start demo_reason_log) = Inr args
     \<and> (let cfg = session_config demo_run_paths args ''/t'' ''v'' ''s'' \<lparr>rs_server = ''relay:80'', rs_clusterPolicies = None, rs_compat = undetermined, rs_dnsSelector = []\<rparr>
        in NewTicker (pc_FlushInterval cfg) = Some (pc_FlushInterval cfg) \<and> pc_FlushInterval cfg \<le> maxSessionDuration)"
proof -
  have p: "\<not> isl (validateIgnoreProtocols demo_case [''TCP''])"
      "\<not> isl (fst (validateIgnoreDropReasons demo_case [''POLICY_DENIED''] True [''policy_denied''] demo_reason_log))" by code_simp+
  obtain protocols reasons l1 where "validateIgnoreProtocols demo_case [''TCP''] = Inr protocols"
      "validateIgnoreDropReasons demo_case [''POLICY_DENIED''] True [''policy_denied''] demo_reason_log = (Inr reasons, l1)"
    using p
    by (cases "validateIgnoreProtocols demo_case [''TCP'']";
        cases "validateIgnoreDropReasons demo_case [''POLICY_DENIED''] True [''policy_denied''] demo_reason_log")
      (case_tac [!] a, auto)
  then obtain args where a: "fst (start_session_args (\<lambda>_ _ _. 0) demo_case [''POLICY_DENIED''] demo_start demo_reason_log) = Inr args"
    by (simp add: start_session_args_def demo_start_def parseOptionalDuration_def demo_duration maxSessionDuration_def second_def)
  from started_session_bounded [OF a] a show ?thesis unfolding Let_def by blast
qed

lemma enableDefaultDeny_floor:
  "strings_Contains ''baseline cpg operation (requires >= 1.14.0)'' ''enableDefaultDeny'' = False"
  "strings_Contains ''cilium-dbg binary naming (requires >= 1.15.0)'' ''enableDefaultDeny'' = False"
  "strings_Contains ''enableDefaultDeny CNP field (requires >= 1.16.0)'' ''enableDefaultDeny'' = True"
  by code_simp+

lemma below_enableDefaultDeny:
  assumes "va_ParseGeneric V ''1.16.0'' = Some floor"
  shows "list_ex (\<lambda>f. strings_Contains f ''enableDefaultDeny'') (belowFloorFeatures V (Some v)) \<longleftrightarrow> \<not> va_AtLeast V v floor"
  using assms
  by (simp add: belowFloorFeatures_def featureFloors_def enableDefaultDeny_floor del: strings_Contains.simps split: option.split)

lemma tally_least:
  assumes "version_order V" and "tallied V vs (seen, least)"
  shows "(case least of None \<Rightarrow> vs = [] | Some m \<Rightarrow> vs \<noteq> [] \<and> ((\<exists>v \<in> set vs. va_LessThan V v floor) \<longleftrightarrow> va_LessThan V m floor))"
proof (cases least)
  case None
  with assms(2) show ?thesis by (simp add: tallied_def)
next
  case (Some m)
  with assms(2) have m: "m \<in> set vs" "\<forall>v \<in> set vs. \<not> va_LessThan V v m" by (simp_all add: tallied_def list_all_iff)
  have "va_LessThan V m floor" if "v \<in> set vs" "va_LessThan V v floor" for v
    using that m(2) assms(1) unfolding version_order_def by blast
  with m(1) Some show ?thesis by auto
qed

text \<open>The gate by the versions of the running agents.\<close>

lemma gate_by_agents:
  assumes "se_kubeconfig S" and "se_client S" and "se_pods S = Fetched pods"
    and "V = se_versions S" and "version_order V"
    and "\<And>v. va_String V v \<noteq> [] \<and> va_ParseGeneric V (va_String V v) = Some v"
    and "va_ParseGeneric V ''1.16.0'' = Some floor" and "\<And>v. va_AtLeast V v floor \<longleftrightarrow> \<not> va_LessThan V v floor"
  defines "vs \<equiv> List.map_filter (pod_version V) pods"
  shows "if vs = [] then bootstrapVersionGate (bootstrapDetectVersion S) = Inr undetermined_warning
    else if \<exists>v \<in> set vs. va_LessThan V v floor then isl (bootstrapVersionGate (bootstrapDetectVersion S))
    else bootstrapVersionGate (bootstrapDetectVersion S) = Inr []"
proof -
  obtain seen least where t: "tallyPodImageVersions V pods = (seen, least)" by (cases "tallyPodImageVersions V pods")
  have "tallied V vs (seen, least)"
    using tally_fold [OF assms(5), of "[]" "([], None)" "pod_version V" pods]
    unfolding vs_def t [symmetric] by (simp add: tallyPodImageVersions_def tallied_def get_or_def)
  from tally_least [OF assms(5) this, of floor] have l: "case least of None \<Rightarrow> vs = []
      | Some m \<Rightarrow> vs \<noteq> [] \<and> ((\<exists>v \<in> set vs. va_LessThan V v floor) \<longleftrightarrow> va_LessThan V m floor)" .
  have d: "bootstrapDetectVersion S = fst (finalizeCompat V (compat_of V ''pod-images'' (seen, least)))"
    using assms(1-4) by (simp add: bootstrapDetectVersion_def DetectCiliumVersion_def flip: t)
  show ?thesis
  proof (cases least)
    case None
    with l show ?thesis by (simp add: d compat_of_def finalizeCompat_def bootstrapVersionGate_def undetermined_def)
  next
    case (Some m)
    with l show ?thesis
      using assms(6) [of m] below_enableDefaultDeny [OF assms(7), of m] assms(8) [of m]
      by (simp add: d compat_of_def finalizeCompat_def bootstrapVersionGate_def undetermined_def Let_def)
  qed
qed

text \<open>C20: The version gate of the default-deny policy: with the pods of the cluster read and the versions ordered, the tool
  answers exactly when the namespace is a valid label, the policy can be written as YAML and no running agent
  whose version can be told from the tag of its image is older than 1.16; the answer then holds that policy's
  YAML, with a warning exactly when no agent's version can be told.  An agent whose image has no tag that
  parses (one pinned by its digest, say) does not count, so an old one does not close the gate.  The command
  accepts and refuses with the tool, and prints the same YAML and a line break.\<close>

theorem bootstrap_gate:
  assumes "se_kubeconfig (bt_setup B)" and "se_client (bt_setup B)" and "se_pods (bt_setup B) = Fetched pods"
    and "V = se_versions (bt_setup B)" and "version_order V"
    and "\<And>v. va_String V v \<noteq> [] \<and> va_ParseGeneric V (va_String V v) = Some v"
    and "va_ParseGeneric V ''1.16.0'' = Some floor" and "\<And>v. va_AtLeast V v floor \<longleftrightarrow> \<not> va_LessThan V v floor"
  shows "((\<exists>r. handleGetBootstrapPolicy B namespace = Inr r)
      \<longleftrightarrow> namespace \<noteq> [] \<and> bt_label B namespace = [] \<and> bt_marshal B (BuildBootstrapPolicy (bt_externals B) namespace) \<noteq> None
        \<and> (\<forall>v \<in> set (List.map_filter (pod_version V) pods). \<not> va_LessThan V v floor))
    \<and> (\<forall>r. handleGetBootstrapPolicy B namespace = Inr r \<longrightarrow>
        bt_marshal B (BuildBootstrapPolicy (bt_externals B) namespace) = Some (br_YAML r)
        \<and> (br_VersionWarning r \<noteq> [] \<longleftrightarrow> List.map_filter (pod_version V) pods = []))
    \<and> runBootstrap B namespace
        = map_sum id (\<lambda>r. (br_YAML r @ [CHR 0x0A], br_VersionWarning r)) (handleGetBootstrapPolicy B namespace)"
  using gate_by_agents [OF assms]
  by (cases "bootstrapVersionGate (bootstrapDetectVersion (bt_setup B))"; cases "bt_marshal B (BuildBootstrapPolicy (bt_externals B) namespace)")
    (auto simp: handleGetBootstrapPolicy_def runBootstrap_def validateBootstrapNamespace_def undetermined_warning_def Let_def split: if_splits)

text \<open>A cluster whose agents run the versions 12 and 7, with numbers for versions and a floor of 8.\<close>

definition demo_numbers :: "nat version_api" where
  "demo_numbers = demo_versions\<lparr>va_ParseGeneric := (\<lambda>s. if s = ''1.16.0'' then Some 8 else va_ParseGeneric demo_versions s)\<rparr>"

definition demo_bootstrap :: "pod list \<Rightarrow> nat bootstrap_env" where
  "demo_bootstrap pods =
     \<lparr>bt_setup =
        \<lparr>se_kubeconfig = True, se_forward = ForwardFailed, se_list_policies = (\<lambda>_. None), se_versions = demo_numbers,
         se_relay = \<lparr>ra_NewClient = (\<lambda>_ _. False), ra_ready = (\<lambda>_. False), ra_GetNodes = (\<lambda>_. None)\<rparr>,
         se_client = True, se_pods = Fetched pods, se_pods_canceled = False, se_services = Forbidden\<rparr>,
      bt_label = (\<lambda>_. []), bt_marshal = (\<lambda>_. Some ''spec''), bt_externals = demo_externals\<rparr>"

theorem bootstrap_gate_witness:
  "(\<exists>r. handleGetBootstrapPolicy (demo_bootstrap (take 1 demo_pods)) ''prod'' = Inr r)
   \<and> \<not> (\<exists>r. handleGetBootstrapPolicy (demo_bootstrap demo_pods) ''prod'' = Inr r)"
proof -
  have v: "va_String demo_numbers v \<noteq> [] \<and> va_ParseGeneric demo_numbers (va_String demo_numbers v) = Some v" for v
  proof -
    have "format_uint v \<noteq> ''1.16.0''"
    proof
      assume "format_uint v = ''1.16.0''"
      with format_uint_digits [of v] show False by (simp only:) (simp add: is_digit_def)
    qed
    then show ?thesis by (simp add: demo_numbers_def demo_versions_def format_uint_digits)
  qed
  have w: "va_AtLeast demo_numbers v 8 \<longleftrightarrow> \<not> va_LessThan demo_numbers v 8" for v
    by (simp add: demo_numbers_def demo_versions_def not_less)
  have o: "version_order demo_numbers" by (auto simp: version_order_def demo_numbers_def demo_versions_def)
  have f: "va_ParseGeneric demo_numbers ''1.16.0'' = Some 8" by (simp add: demo_numbers_def)
  have c: "List.map_filter (pod_version demo_numbers) demo_pods = [12, 7]"
      "List.map_filter (pod_version demo_numbers) (take 1 demo_pods) = [12]"
    by code_simp+
  have gate: "(\<exists>r. handleGetBootstrapPolicy (demo_bootstrap pods) ''prod'' = Inr r)
      \<longleftrightarrow> (\<forall>x \<in> set (List.map_filter (pod_version demo_numbers) pods). \<not> va_LessThan demo_numbers x 8)" for pods
    using bootstrap_gate [of "demo_bootstrap pods" pods demo_numbers 8 "''prod''"] v w o f by (simp add: demo_bootstrap_def)
  have "va_LessThan demo_numbers 7 8 \<and> \<not> va_LessThan demo_numbers 12 8" by (simp add: demo_numbers_def demo_versions_def)
  then show ?thesis unfolding gate c by simp
qed

end
