(* ===== verification/Spec2Isabelle.thy ===== *)
theory Spec2Isabelle
  imports SessionStop SessionLate SessionSetup AuditWindow Pipeline BuilderSpec NsAwareness QueriesSpec Generate Tools
begin

text \<open>
  A model of cpg, which turns the flows Hubble reports as dropped into Cilium network policies.  A
  capture is a pipeline: a source of flows (the relay or a file), the aggregator that groups them by
  namespace and workload, the builder that makes a policy of a group, and the writers of policy
  files, evidence files and the health report.  The MCP server runs at most one capture at a time
  under a session manager; the audit window switches endpoints to audit mode for the time of a
  capture.

  \<^bold>\<open>Theories\<close>

  \<^item> \<open>Prelude\<close>: strings, association lists used as Go maps, sorting, decimal numbers.
  \<^item> \<open>Flow\<close>, \<open>Api\<close>, \<open>Labels\<close>: flows as the relay sends them (\<open>pkg/policy/builder.go\<close> accessors), the
    Cilium rule types, label selection (\<open>pkg/labels/selector.go\<close>).  \<open>externals\<close> gathers what third-party
    packages answer (Cilium's label parser, \<open>url.Parse\<close>).
  \<^item> \<open>L7\<close>, \<open>Attribution\<close>, \<open>Regex\<close>, \<open>Collapse\<close>: \<open>pkg/policy/l7.go\<close>, \<open>attribution.go\<close>, \<open>l7_collapse.go\<close>; \<open>Regex\<close>
    gives the regular expressions the path generaliser writes a meaning.
  \<^item> \<open>Merge\<close>, \<open>Companion\<close>, \<open>Builder\<close>, \<open>Dedup\<close>: \<open>merge.go\<close>, \<open>companion_dns.go\<close>, \<open>builder.go\<close>,
    \<open>bootstrap_builder.go\<close>, \<open>dedup.go\<close>.  \<open>BuilderSpec\<close> relates the policy to the connections it admits.
  \<^item> \<open>Unhandled\<close>, \<open>Dropclass\<close>, \<open>NsAwareness\<close>, \<open>Aggregator\<close>: \<open>pkg/hubble/unhandled.go\<close>, \<open>pkg/dropclass\<close>,
    \<open>ns_awareness.go\<close>, \<open>aggregator.go\<close>.  The select loop of \<open>Run\<close> is the step relation \<open>agg_run\<close>;
    \<open>AggregatorSpec\<close>, \<open>Emission\<close> and \<open>RunHealth\<close> show what every run accounts for and admits.
  \<^item> \<open>Files\<close>, \<open>Output\<close>, \<open>PolicyWriter\<close>, \<open>OnDisk\<close>, \<open>Evidence\<close>, \<open>Health\<close>: path guard, atomic writes and the three
    writers (\<open>pkg/output\<close>, \<open>pkg/evidence\<close>, \<open>pkg/hubble/writer.go\<close>, \<open>evidence_writer.go\<close>,
    \<open>health_writer.go\<close>, \<open>summary.go\<close>).  Disks are association lists from paths to contents; each call of
    the system may fail as its \<open>os_oracle\<close> says.
  \<^item> \<open>Pipeline\<close>: \<open>pkg/hubble/pipeline.go\<close>, from the configuration to the exit code.  \<open>RunPipelineWithSource\<close> returns early
    when the source does not open, panics when the ticker refuses its interval, and is \<open>run_stages\<close> otherwise.
  \<^item> \<open>Cluster\<close>: \<open>pkg/k8s\<close>, what is decided from the answers of the API server.
  \<^item> \<open>Session\<close>, \<open>SessionSpec\<close>, \<open>SessionDirs\<close>, \<open>SessionLate\<close>, \<open>SessionStop\<close>, \<open>SessionSetup\<close>: \<open>pkg/session\<close>.
    \<open>mgr_step\<close> interleaves the calls of \<open>Start\<close>, \<open>Stop\<close> and \<open>Shutdown\<close> and the goroutines of the sessions at every
    point where the code holds no lock.  A running pipeline writes below its session's directory at any time,
    also after a bounded wait for it has ended by its deadline (\<open>SessionLate\<close>).
  \<^item> \<open>AuditWindow\<close>: \<open>pkg/auditwindow\<close> and \<open>cmd/cpg/audit_window.go\<close>.
  \<^item> \<open>Flags\<close>: \<open>cmd/cpg/commonflags.go\<close>, validation and suggestions.  \<open>FlowSource\<close>: \<open>pkg/flowsource/file.go\<close> and
    \<open>pkg/hubble/client.go\<close>.  \<open>Generate\<close>: \<open>runGenerate\<close> and \<open>runReplay\<close>, from the flags to the \<open>pipeline_config\<close>
    that \<open>Pipeline\<close> runs with.  \<open>Tools\<close>: the arguments of \<open>start_session\<close> (\<open>mcp_tools.go\<close>) and the bootstrap
    command and tool (\<open>bootstrap.go\<close>, \<open>mcp_bootstrap.go\<close>).
  \<^item> \<open>Pagination\<close>, \<open>Queries\<close>, \<open>QueriesSpec\<close>: \<open>cmd/cpg/mcp_query*.go\<close>, the five query tools over the session
    manager and the files a capture left.  The locale \<open>paged_tool\<close> is what the cursor protocol needs of a
    tool; it is interpreted on the flow, evidence and policy listings.
  \<^item> \<open>Cidr\<close>, \<open>Explain\<close>: \<open>net.ParseCIDR\<close> with \<open>Contains\<close>, \<open>pkg/explain/filter.go\<close>, \<open>cmd/cpg/explain_target.go\<close> and
    \<open>explain.go\<close>.

  \<^bold>\<open>What is shown\<close>

  \<^item> What a capture does to a disk (\<open>Pipeline.capture_to_disk\<close>, \<open>OnDisk\<close>), that its policies admit the flows
    that were dropped and nothing wider than them (\<open>Emission\<close>, \<open>BuilderSpec\<close>), and that a merge grants what
    either policy grants where the code is right (\<open>Merge\<close>); where it is not, a lemma shows the case.
  \<^item> That every flow is accounted for, from the lines of a replayed file (\<open>FlowSource\<close>) over the counters of
    the aggregator (\<open>AggregatorSpec\<close>) to the health report and the evidence (\<open>RunHealth\<close>, \<open>Health\<close>, \<open>Evidence\<close>).
  \<^item> That the session manager never runs two captures, owns its directories, reports each stop once and
    lets every call return (\<open>SessionSpec\<close>, \<open>SessionDirs\<close>, \<open>SessionLate\<close>, \<open>SessionStop\<close>); that an audit window
    keeps at every moment what was in audit mode before it, and restores what it switched (\<open>AuditWindow\<close>).
  \<^item> That the query tools return every item exactly once over their pages, and where one does not
    (\<open>QueriesSpec\<close>); that \<open>explain\<close> shows what the writer recorded (\<open>Explain\<close>).

  \<^bold>\<open>What is assumed of the parameters\<close>

  \<^item> JSON: of each document a theorem speaks of, that it reads back as it was (\<open>faithful_write\<close>, \<open>reads_back\<close>);
    \<open>encoding/json\<close> does so when the strings are valid UTF-8.  YAML: that a policy reads back with the same pairs
    of a peer and a listed port or ICMP type, comment lines aside (\<open>lossless\<close>), and that equal bytes mean equal
    pairs (\<open>faithful_marshal\<close>).
  \<^item> The theorems about admitted flows need peers of one label set to be in one namespace (\<open>one_namespace\<close>), which
    the builder takes for granted; \<open>second_namespace_denied\<close> shows what happens otherwise.
  \<^item> The relay treats filters as documented (\<open>documented_relay\<close>); versions are linearly ordered (\<open>version_order\<close>);
    what \<open>Start\<close> calls for its set-up returns.

  \<^bold>\<open>Bounds\<close>

  Counters are 64-bit words that wrap.  Recursions are structural or have a measure; nothing uses fuel.
  Sizes the code fixes (10 MiB lines, caps of samples, sessions and reports, page limits) are constants of the
  model.  The runs of the aggregator and of the manager are finite sequences of steps of any length.

  \<^bold>\<open>Not modelled\<close>

  \<^item> Declarations to cobra and to the MCP library: \<open>main.go\<close>, \<open>mcp.go\<close>, tool schemas, help texts, and all log lines that decide nothing.
  \<^item> I/O through client-go and gRPC: kubeconfig loading, the port-forward, the exec transport, the
    connections themselves.  Their answers are parameters.
  \<^item> The reconnection of the audit window's watch with its back-off, and a watcher that outlives its
    bounded drain.
  \<^item> The renderers of \<open>pkg/explain/render.go\<close> (formatting), and the fixtures under \<open>pkg/policy/testdata\<close>.
\<close>

end
